(* ===== verification/Prelude.thy ===== *)
theory Prelude
  imports Main "HOL-Library.Word" "HOL-Library.DAList"
begin

text \<open>
  Shared vocabulary of the development: the machine integers of the Go program, the result of a
  Go call (a value, an \<open>error\<close>, or a panic that ends the process), the built-in \<open>copy\<close> on
  slices, big-endian encoding of a \<open>uint64\<close> (\<open>encoding/binary\<close>), the early-return loop over a
  slice, and facts about duplicate-free association lists, which model Go maps that are ranged
  over. The collection \<open>go_simps\<close> gathers the equations by which results are evaluated.
\<close>

unbundle bit_operations_syntax

named_theorems go_simps \<open>evaluation of results, copies and encodings\<close>

subsection \<open>Machine integers\<close>

type_synonym byte = "8 word"
type_synonym u32 = "32 word"
type_synonym u64 = "64 word"

text \<open>A Go string constant converted by \<open>[]byte(s)\<close>.\<close>

definition bytes_of_string :: "string \<Rightarrow> byte list" where
  "bytes_of_string s = map of_char s"

lemma char_of_byte: "char_of (unat (of_char c :: byte)) = c"
proof -
  have "unat (of_nat n :: byte) = n" if "n < 256" for n using that by (simp add: unat_of_nat)
  from this [OF nat_of_char_less_256] have "unat (of_char c :: byte) = of_char c"
    by (simp only: of_nat_of_char)
  then show ?thesis by simp
qed

subsection \<open>Results of Go calls\<close>

text \<open>
  The reasons for which the modelled code ends the process: a nil dereference, an index out of
  range, an integer division by zero, \<open>slices.Max\<close> of an empty slice, an explicit \<open>panic\<close>, and
  \<open>log.Fatal\<close>.
\<close>

datatype crash = NilDeref | IndexOutOfRange | DivideByZero | MaxOfEmpty | ExplicitPanic | LogFatal

datatype ('e, 'a) result = Ok 'a | Err 'e | Panic crash

fun bind_result :: "('e, 'a) result \<Rightarrow> ('a \<Rightarrow> ('e, 'b) result) \<Rightarrow> ('e, 'b) result" where
  "bind_result (Ok a) f = f a"
| "bind_result (Err e) f = Err e"
| "bind_result (Panic p) f = Panic p"

text \<open>A loop that converts every element of a slice and returns at the first error.\<close>

fun map_result :: "('a \<Rightarrow> ('e, 'b) result) \<Rightarrow> 'a list \<Rightarrow> ('e, 'b list) result" where
  "map_result f [] = Ok []"
| "map_result f (x # xs) =
     bind_result (f x) (\<lambda>y. bind_result (map_result f xs) (\<lambda>ys. Ok (y # ys)))"

lemma bind_result_Ok_iff [go_simps]:
  "bind_result r f = Ok b \<longleftrightarrow> (\<exists>a. r = Ok a \<and> f a = Ok b)"
  by (cases r) auto

lemma map_result_all_ok:
  assumes "\<And>x. x \<in> set xs \<Longrightarrow> f x = Ok (g x)"
  shows "map_result f xs = Ok (map g xs)"
  using assms by (induction xs) auto

lemma map_result_roundtrip:
  assumes "\<And>x. x \<in> set xs \<Longrightarrow> f (g x) = Ok x"
  shows "map_result f (map g xs) = Ok xs"
  using assms by (induction xs) auto

lemma map_result_length:
  "map_result f xs = Ok ys \<Longrightarrow> length ys = length xs"
  by (induction xs arbitrary: ys) (auto simp: go_simps)

lemma map_result_no_panic:
  assumes "\<And>x p. f x \<noteq> Panic p"
  shows "map_result f xs \<noteq> Panic p"
proof (induction xs)
  case (Cons x xs)
  then show ?case using assms by (cases "f x"; cases "map_result f xs") auto
qed simp

subsection \<open>The built-in copy\<close>

text \<open>\<open>copy(dst, src)\<close>: the first \<open>min(len(dst), len(src))\<close> elements of \<open>dst\<close> are overwritten.\<close>

definition go_copy :: "'a list \<Rightarrow> 'a list \<Rightarrow> 'a list" where
  "go_copy dst src = take (length dst) src @ drop (length src) dst"

lemma length_go_copy [simp]: "length (go_copy dst src) = length dst"
  by (simp add: go_copy_def)

lemma go_copy_full [simp]: "length src = length dst \<Longrightarrow> go_copy dst src = src"
  by (simp add: go_copy_def)

subsection \<open>Big-endian encoding of a uint64\<close>

text \<open>\<open>binary.Write(&buf, binary.BigEndian, x)\<close> and \<open>binary.Read\<close> of eight bytes.\<close>

primrec be_bytes :: "nat \<Rightarrow> u64 \<Rightarrow> byte list" where
  "be_bytes 0 w = []"
| "be_bytes (Suc k) w = be_bytes k (drop_bit 8 w) @ [ucast w]"

definition be64 :: "u64 \<Rightarrow> byte list" where
  "be64 w = be_bytes 8 w"

fun be_value :: "u64 \<Rightarrow> byte list \<Rightarrow> u64" where
  "be_value acc [] = acc"
| "be_value acc (b # bs) = be_value (push_bit 8 acc OR ucast b) bs"

lemma length_be_bytes [simp]: "length (be_bytes k w) = k"
  by (induction k arbitrary: w) auto

lemma length_be64 [simp]: "length (be64 w) = 8"
  by (simp add: be64_def)

lemma be_value_snoc: "be_value acc (bs @ [b]) = push_bit 8 (be_value acc bs) OR ucast b"
  by (induction bs arbitrary: acc) auto

lemma join_low_byte:
  "push_bit 8 (take_bit k (drop_bit 8 w)) OR ucast (ucast w :: byte) = take_bit (k + 8) w"
  for w :: u64
proof (rule bit_word_eqI)
  fix n assume "n < LENGTH(64)"
  then show "bit (push_bit 8 (take_bit k (drop_bit 8 w)) OR ucast (ucast w :: byte)) n
    \<longleftrightarrow> bit (take_bit (k + 8) w) n"
    by (cases "n < 8") (auto simp: bit_simps)
qed

lemma be_value_be_bytes: "be_value 0 (be_bytes k w) = take_bit (8 * k) w"
proof (induction k arbitrary: w)
  case (Suc k)
  have "8 * Suc k = 8 * k + 8" by simp
  then show ?case using Suc by (simp only: be_bytes.simps be_value_snoc join_low_byte)
qed simp

lemma be_value_be64 [simp]: "be_value 0 (be64 w) = w"
  by (simp add: be64_def be_value_be_bytes take_bit_word_eq_self)

lemma be_bytes_take_bit: "8 * k \<le> n \<Longrightarrow> be_bytes k (take_bit n w) = be_bytes k w"
proof (induction k arbitrary: n w)
  case (Suc k)
  have "drop_bit 8 (take_bit n w) = take_bit (n - 8) (drop_bit 8 w)"
    by (simp add: drop_bit_take_bit)
  moreover have "ucast (take_bit n w) = (ucast w :: byte)"
    using Suc.prems by (intro bit_word_eqI) (auto simp: bit_simps)
  ultimately show ?case using Suc by simp
qed simp

lemma drop_low_byte: "drop_bit 8 (push_bit 8 v OR ucast b) = take_bit 56 v"
  for v :: u64 and b :: byte
  by (rule bit_word_eqI) (auto simp: bit_simps dest: bit_imp_le_length)

lemma low_byte: "ucast (push_bit 8 v OR ucast b) = b"
  for v :: u64 and b :: byte
  by (rule bit_word_eqI) (auto simp: bit_simps)

lemma be_bytes_be_value: "length bs \<le> 8 \<Longrightarrow> be_bytes (length bs) (be_value acc bs) = bs"
proof (induction bs rule: rev_induct)
  case (snoc b bs)
  have "be_bytes (length bs) (take_bit 56 (be_value acc bs)) = be_bytes (length bs) (be_value acc bs)"
    using snoc.prems by (intro be_bytes_take_bit) simp
  then have "be_bytes (length bs) (take_bit 56 (be_value acc bs)) = bs" using snoc by simp
  then show ?case
    by (simp only: length_append_singleton be_bytes.simps be_value_snoc drop_low_byte low_byte)
qed simp

lemma be64_be_value: "length bs = 8 \<Longrightarrow> be64 (be_value 0 bs) = bs"
  using be_bytes_be_value [of bs 0] by (simp add: be64_def)

lemma be64_inject [simp]: "be64 a = be64 b \<longleftrightarrow> a = b"
  by (metis be_value_be64)

lemma be64_append_inject [simp]: "be64 a @ xs = be64 b @ ys \<longleftrightarrow> a = b \<and> xs = ys"
  by (simp add: append_eq_append_conv)

subsection \<open>Go maps as duplicate-free association lists\<close>

text \<open>
  A Go map whose entries are ranged over is a \<open>DAList\<close> association list; the order of its list is
  the iteration order, which Go leaves open.
\<close>

lemma impl_of_update:
  "DAList.impl_of (DAList.update k v m) = AList.update k v (DAList.impl_of m)"
  by (transfer, simp)

lemma lookup_impl_of: "DAList.lookup m k = map_of (DAList.impl_of m) k"
  by (transfer, simp)

lemma lookup_Some_iff:
  "DAList.lookup m k = Some v \<longleftrightarrow> (k, v) \<in> set (DAList.impl_of m)"
  by (simp add: lookup_impl_of)

lemma lookup_None_iff:
  "DAList.lookup m k = None \<longleftrightarrow> k \<notin> fst ` set (DAList.impl_of m)"
  by (simp add: lookup_impl_of map_of_eq_None_iff)

subsection \<open>Sums over lists and sets\<close>

lemma sum_list_map_distinct:
  "distinct xs \<Longrightarrow> sum_list (map f xs) = (\<Sum>x\<in>set xs. f x)"
  for f :: "'a \<Rightarrow> nat"
  by (simp add: sum_list_distinct_conv_sum_set)

lemma unat_add_no_wrap:
  "unat a + unat b < 2 ^ LENGTH('w) \<Longrightarrow> unat (a + b) = unat a + unat b"
  for a b :: "'w :: len word"
  by (simp add: unat_word_ariths)

lemma unat_sum_list_no_wrap:
  "sum_list (map (\<lambda>x. unat (f x)) xs) < 2 ^ LENGTH('w)
    \<Longrightarrow> unat (sum_list (map f xs)) = sum_list (map (\<lambda>x. unat (f x)) xs)"
  for f :: "'a \<Rightarrow> 'w :: len word"
proof (induction xs)
  case (Cons x xs)
  then have "unat (sum_list (map f xs)) = sum_list (map (\<lambda>x. unat (f x)) xs)" by simp
  with Cons.prems show ?case by (simp add: unat_add_no_wrap)
qed simp

lemma foldl_add_sum_list: "foldl (+) s xs = s + sum_list xs"
  for s :: "'a :: comm_monoid_add"
  by (induction xs arbitrary: s) (auto simp: add_ac)

subsection \<open>Two thirds\<close>

text \<open>Two sums above two thirds of a total overlap in more than a third of it.\<close>

lemma two_thirds_overlap:
  fixes t :: nat
  assumes "u + i = a + b" "u \<le> t" "q \<le> a" "q \<le> b" "q = 2 * t div 3 + 1"
  shows "t < 3 * i"
proof -
  have "2 * t < 3 * q" using assms(5) by simp
  then show ?thesis using assms(1-4) by linarith
qed

lemma find_snoc:
  "find P (xs @ [x]) = (case find P xs of Some y \<Rightarrow> Some y | None \<Rightarrow> if P x then Some x else None)"
  by (induction xs) auto

lemma map_zip_fst: "length xs = length ys \<Longrightarrow> map (\<lambda>p. f (fst p)) (zip xs ys) = map f xs"
  by (induction xs ys rule: list_induct2) auto

lemma map_zip_snd: "length xs = length ys \<Longrightarrow> map (\<lambda>p. f (snd p)) (zip xs ys) = map f ys"
  by (induction xs ys rule: list_induct2) auto

subsection \<open>Properties of every position of a list\<close>

definition at_each :: "('a list \<Rightarrow> 'a \<Rightarrow> bool) \<Rightarrow> 'a list \<Rightarrow> bool" where
  "at_each P l \<longleftrightarrow> (\<forall>xs x ys. l = xs @ x # ys \<longrightarrow> P xs x)"

lemma at_each_Nil [simp]: "at_each P []"
  by (simp add: at_each_def)

lemma at_each_snoc: "at_each P (l @ [x]) \<longleftrightarrow> at_each P l \<and> P l x"
proof
  assume all: "at_each P (l @ [x])"
  have "P xs y" if "l = xs @ y # ys" for xs y ys
    using all that unfolding at_each_def by (metis append.assoc append_Cons)
  then show "at_each P l \<and> P l x" using all by (auto simp: at_each_def)
next
  assume both: "at_each P l \<and> P l x"
  have "P xs y" if "l @ [x] = xs @ y # ys" for xs y ys
  proof (cases ys rule: rev_cases)
    case Nil
    then show ?thesis using that both by simp
  next
    case (snoc zs z)
    then have "l = xs @ y # zs" using that by simp
    then show ?thesis using both by (simp add: at_each_def)
  qed
  then show "at_each P (l @ [x])" by (simp add: at_each_def)
qed

lemma at_eachD: "at_each P l \<Longrightarrow> l = xs @ x # ys \<Longrightarrow> P xs x"
  by (simp add: at_each_def)

end
