(* ===== verification/Crypto.thy ===== *)
theory Crypto
  imports Prelude
begin

text \<open>
  Package \<open>crypto\<close>: the fixed-size byte arrays \<open>Digest\<close>, \<open>PublicKey\<close>, \<open>SecretKey\<close> and
  \<open>Signature\<close> (\<open>crypto/digest.go\<close>, \<open>crypto/bls.go\<close>) with their \<open>FromBytes\<close>, signing, verification
  and aggregation, and the signature service (\<open>crypto/sigservice.go\<close>).

  The curve operations come from \<open>supranational/blst\<close> and the hash is SHA-256; both are fields of
  the record \<open>crypto_lib\<close>, an argument of every definition that uses them. blst documents that
  compressed keys and signatures have 48 and 96 bytes, which the result types of the fields
  state. What a property needs of them beyond that is a named hypothesis (\<open>bls_fast_aggregate_ok\<close>,
  \<open>bls_aggregate_ok\<close>, \<open>bls_sign_ok\<close>), and \<open>demo_lib\<close> is a concrete instance that satisfies them.
\<close>

subsection \<open>Fixed-size byte arrays\<close>

text \<open>
  Each array type has its zero value, its slice \<open>x[:]\<close> (\<open>..._bytes\<close>), and \<open>copy\<close> into it;
  \<open>FromBytes\<close> checks the length and copies into its receiver.
\<close>

typedef Digest = "{bs :: byte list. length bs = 32}"
  by (rule exI [of _ "replicate 32 0"]) simp

definition digest_bytes :: "Digest \<Rightarrow> byte list" where
  "digest_bytes a = Rep_Digest a"

definition digest_zero :: Digest where
  "digest_zero = Abs_Digest (replicate 32 0)"

definition digest_copy :: "Digest \<Rightarrow> byte list \<Rightarrow> Digest" where
  "digest_copy dst src = Abs_Digest (go_copy (digest_bytes dst) src)"

lemma digest_abstype [code abstype]: "Abs_Digest (digest_bytes a) = a"
  by (simp add: digest_bytes_def Rep_Digest_inverse)

lemma length_digest_bytes [simp]: "length (digest_bytes a) = 32"
  using Rep_Digest [of a] by (simp add: digest_bytes_def)

lemma digest_bytes_zero [code abstract, simp]: "digest_bytes digest_zero = replicate 32 0"
  by (simp add: digest_bytes_def digest_zero_def Abs_Digest_inverse)

lemma digest_bytes_copy [code abstract]: "digest_bytes (digest_copy a bs) = go_copy (digest_bytes a) bs"
  using length_digest_bytes [of a]
  by (simp add: digest_copy_def Abs_Digest_inverse [simplified] digest_bytes_def [of "Abs_Digest _"])

lemma digest_eq_iff: "a = b \<longleftrightarrow> digest_bytes a = digest_bytes b"
  by (simp add: digest_bytes_def Rep_Digest_inject)

lemma digest_bytes_inject [simp]: "digest_bytes a = digest_bytes b \<longleftrightarrow> a = b"
  by (simp add: digest_eq_iff)

lemma digest_copy_bytes [simp]: "digest_copy a (digest_bytes b) = b"
  by (simp add: digest_eq_iff digest_bytes_copy)

instantiation Digest :: equal
begin

definition equal_Digest :: "Digest \<Rightarrow> Digest \<Rightarrow> bool" where
  "equal_Digest a b \<longleftrightarrow> digest_bytes a = digest_bytes b"

instance
  by standard (simp add: equal_Digest_def)

end

typedef PublicKey = "{bs :: byte list. length bs = 48}"
  by (rule exI [of _ "replicate 48 0"]) simp

definition pk_bytes :: "PublicKey \<Rightarrow> byte list" where
  "pk_bytes a = Rep_PublicKey a"

definition pk_zero :: PublicKey where
  "pk_zero = Abs_PublicKey (replicate 48 0)"

definition pk_copy :: "PublicKey \<Rightarrow> byte list \<Rightarrow> PublicKey" where
  "pk_copy dst src = Abs_PublicKey (go_copy (pk_bytes dst) src)"

lemma pk_abstype [code abstype]: "Abs_PublicKey (pk_bytes a) = a"
  by (simp add: pk_bytes_def Rep_PublicKey_inverse)

lemma length_pk_bytes [simp]: "length (pk_bytes a) = 48"
  using Rep_PublicKey [of a] by (simp add: pk_bytes_def)

lemma pk_bytes_zero [code abstract, simp]: "pk_bytes pk_zero = replicate 48 0"
  by (simp add: pk_bytes_def pk_zero_def Abs_PublicKey_inverse)

lemma pk_bytes_copy [code abstract]: "pk_bytes (pk_copy a bs) = go_copy (pk_bytes a) bs"
  using length_pk_bytes [of a]
  by (simp add: pk_copy_def Abs_PublicKey_inverse [simplified] pk_bytes_def [of "Abs_PublicKey _"])

lemma pk_eq_iff: "a = b \<longleftrightarrow> pk_bytes a = pk_bytes b"
  by (simp add: pk_bytes_def Rep_PublicKey_inject)

lemma pk_bytes_inject [simp]: "pk_bytes a = pk_bytes b \<longleftrightarrow> a = b"
  by (simp add: pk_eq_iff)

lemma pk_copy_bytes [simp]: "pk_copy a (pk_bytes b) = b"
  by (simp add: pk_eq_iff pk_bytes_copy)

instantiation PublicKey :: equal
begin

definition equal_PublicKey :: "PublicKey \<Rightarrow> PublicKey \<Rightarrow> bool" where
  "equal_PublicKey a b \<longleftrightarrow> pk_bytes a = pk_bytes b"

instance
  by standard (simp add: equal_PublicKey_def)

end

typedef SecretKey = "{bs :: byte list. length bs = 32}"
  by (rule exI [of _ "replicate 32 0"]) simp

definition sk_bytes :: "SecretKey \<Rightarrow> byte list" where
  "sk_bytes a = Rep_SecretKey a"

definition sk_zero :: SecretKey where
  "sk_zero = Abs_SecretKey (replicate 32 0)"

definition sk_copy :: "SecretKey \<Rightarrow> byte list \<Rightarrow> SecretKey" where
  "sk_copy dst src = Abs_SecretKey (go_copy (sk_bytes dst) src)"

lemma sk_abstype [code abstype]: "Abs_SecretKey (sk_bytes a) = a"
  by (simp add: sk_bytes_def Rep_SecretKey_inverse)

lemma length_sk_bytes [simp]: "length (sk_bytes a) = 32"
  using Rep_SecretKey [of a] by (simp add: sk_bytes_def)

lemma sk_bytes_zero [code abstract, simp]: "sk_bytes sk_zero = replicate 32 0"
  by (simp add: sk_bytes_def sk_zero_def Abs_SecretKey_inverse)

lemma sk_bytes_copy [code abstract]: "sk_bytes (sk_copy a bs) = go_copy (sk_bytes a) bs"
  using length_sk_bytes [of a]
  by (simp add: sk_copy_def Abs_SecretKey_inverse [simplified] sk_bytes_def [of "Abs_SecretKey _"])

lemma sk_eq_iff: "a = b \<longleftrightarrow> sk_bytes a = sk_bytes b"
  by (simp add: sk_bytes_def Rep_SecretKey_inject)

lemma sk_bytes_inject [simp]: "sk_bytes a = sk_bytes b \<longleftrightarrow> a = b"
  by (simp add: sk_eq_iff)

lemma sk_copy_bytes [simp]: "sk_copy a (sk_bytes b) = b"
  by (simp add: sk_eq_iff sk_bytes_copy)

instantiation SecretKey :: equal
begin

definition equal_SecretKey :: "SecretKey \<Rightarrow> SecretKey \<Rightarrow> bool" where
  "equal_SecretKey a b \<longleftrightarrow> sk_bytes a = sk_bytes b"

instance
  by standard (simp add: equal_SecretKey_def)

end

typedef Signature = "{bs :: byte list. length bs = 96}"
  by (rule exI [of _ "replicate 96 0"]) simp

definition sig_bytes :: "Signature \<Rightarrow> byte list" where
  "sig_bytes a = Rep_Signature a"

definition sig_zero :: Signature where
  "sig_zero = Abs_Signature (replicate 96 0)"

definition sig_copy :: "Signature \<Rightarrow> byte list \<Rightarrow> Signature" where
  "sig_copy dst src = Abs_Signature (go_copy (sig_bytes dst) src)"

lemma sig_abstype [code abstype]: "Abs_Signature (sig_bytes a) = a"
  by (simp add: sig_bytes_def Rep_Signature_inverse)

lemma length_sig_bytes [simp]: "length (sig_bytes a) = 96"
  using Rep_Signature [of a] by (simp add: sig_bytes_def)

lemma sig_bytes_zero [code abstract, simp]: "sig_bytes sig_zero = replicate 96 0"
  by (simp add: sig_bytes_def sig_zero_def Abs_Signature_inverse)

lemma sig_bytes_copy [code abstract]: "sig_bytes (sig_copy a bs) = go_copy (sig_bytes a) bs"
  using length_sig_bytes [of a]
  by (simp add: sig_copy_def Abs_Signature_inverse [simplified] sig_bytes_def [of "Abs_Signature _"])

lemma sig_eq_iff: "a = b \<longleftrightarrow> sig_bytes a = sig_bytes b"
  by (simp add: sig_bytes_def Rep_Signature_inject)

lemma sig_bytes_inject [simp]: "sig_bytes a = sig_bytes b \<longleftrightarrow> a = b"
  by (simp add: sig_eq_iff)

lemma sig_copy_bytes [simp]: "sig_copy a (sig_bytes b) = b"
  by (simp add: sig_eq_iff sig_bytes_copy)

instantiation Signature :: equal
begin

definition equal_Signature :: "Signature \<Rightarrow> Signature \<Rightarrow> bool" where
  "equal_Signature a b \<longleftrightarrow> sig_bytes a = sig_bytes b"

instance
  by standard (simp add: equal_Signature_def)

end

subsection \<open>Errors\<close>

text \<open>
  The \<open>error\<close> values of the packages \<open>crypto\<close>, \<open>consensus\<close>, \<open>store\<close> and \<open>node\<close>: one constructor per
  \<open>fmt.Errorf\<close>, without the parts of the message that only describe the object at hand. \<open>NotValid\<close> and
  the constructors for files and JSON wrap another error with \<open>%w\<close>; \<open>PebbleErrNotFound\<close> is pebble's own
  error, which \<open>store\<close> replaces by \<open>ValueNotFound\<close>.
\<close>

datatype error =
    WrongLength
  | NotDecompressible
  | UnknownAuthority PublicKey
  | NotCorrectlySigned
  | NotValid error
  | AppearsMultipleTimes PublicKey
  | NoQuorum
  | FailedSignatureVerification
  | WrongLeader PublicKey
  | LeaderNotInCommittee
  | MarshalFailed
  | UnmarshalFailed
  | ErroneousMessageType
  | ValueNotFound
  | StoreFailure
  | UnexpectedEOF
  | InvalidTransactionLength
  | CorruptBase64
  | PebbleErrNotFound
  | OsError
  | PeerError
  | ReadFileFailed string error
  | WriteFileFailed string error
  | SerializeJSONFailed error
  | DeserializeJSONFailed error

subsection \<open>FromBytes\<close>

definition digest_FromBytes :: "Digest \<Rightarrow> byte list \<Rightarrow> (error, Digest) result" where
  "digest_FromBytes d data =
     (if length data \<noteq> 32 then Err WrongLength else Ok (digest_copy d data))"

definition pk_FromBytes :: "PublicKey \<Rightarrow> byte list \<Rightarrow> (error, PublicKey) result" where
  "pk_FromBytes pk data =
     (if length data \<noteq> 48 then Err WrongLength else Ok (pk_copy pk data))"

definition sk_FromBytes :: "SecretKey \<Rightarrow> byte list \<Rightarrow> (error, SecretKey) result" where
  "sk_FromBytes sk data =
     (if length data \<noteq> 32 then Err WrongLength else Ok (sk_copy sk data))"

definition sig_FromBytes :: "Signature \<Rightarrow> byte list \<Rightarrow> (error, Signature) result" where
  "sig_FromBytes s data =
     (if length data \<noteq> 96 then Err WrongLength else Ok (sig_copy s data))"

lemma FromBytes_bytes [simp]:
  "digest_FromBytes d0 (digest_bytes d) = Ok d"
  "pk_FromBytes p0 (pk_bytes p) = Ok p"
  "sk_FromBytes k0 (sk_bytes k) = Ok k"
  "sig_FromBytes s0 (sig_bytes s) = Ok s"
  by (simp_all add: digest_FromBytes_def pk_FromBytes_def sk_FromBytes_def sig_FromBytes_def)

lemma FromBytes_Ok_iff [go_simps]:
  "digest_FromBytes d0 data = Ok d \<longleftrightarrow> data = digest_bytes d"
  "pk_FromBytes p0 data = Ok p \<longleftrightarrow> data = pk_bytes p"
  "sk_FromBytes k0 data = Ok k \<longleftrightarrow> data = sk_bytes k"
  "sig_FromBytes s0 data = Ok s \<longleftrightarrow> data = sig_bytes s"
  by (auto simp: digest_FromBytes_def pk_FromBytes_def sk_FromBytes_def sig_FromBytes_def
      digest_eq_iff pk_eq_iff sk_eq_iff sig_eq_iff
      digest_bytes_copy pk_bytes_copy sk_bytes_copy sig_bytes_copy)

lemma FromBytes_no_panic [simp]:
  "digest_FromBytes d0 data \<noteq> Panic p"
  "pk_FromBytes p0 data \<noteq> Panic p"
  "sk_FromBytes k0 data \<noteq> Panic p"
  "sig_FromBytes s0 data \<noteq> Panic p"
  by (simp_all add: digest_FromBytes_def pk_FromBytes_def sk_FromBytes_def sig_FromBytes_def)

subsection \<open>The order of public keys\<close>

text \<open>\<open>bytes.Compare\<close>, by which \<open>getLeader\<close> sorts the keys of the committee.\<close>

fun bytes_Compare :: "byte list \<Rightarrow> byte list \<Rightarrow> int" where
  "bytes_Compare [] [] = 0"
| "bytes_Compare [] (y # ys) = -1"
| "bytes_Compare (x # xs) [] = 1"
| "bytes_Compare (x # xs) (y # ys) =
     (if x < y then -1 else if y < x then 1 else bytes_Compare xs ys)"

lemma bytes_Compare_refl [simp]: "bytes_Compare xs xs = 0"
  by (induction xs) auto

lemma bytes_Compare_0_iff: "bytes_Compare xs ys = 0 \<longleftrightarrow> xs = ys"
  by (induction xs ys rule: bytes_Compare.induct) auto

lemma bytes_Compare_antisym: "bytes_Compare ys xs = - bytes_Compare xs ys"
  by (induction xs ys rule: bytes_Compare.induct) auto

lemma bytes_Compare_trans:
  "bytes_Compare xs ys \<le> 0 \<Longrightarrow> bytes_Compare ys zs \<le> 0 \<Longrightarrow> bytes_Compare xs zs \<le> 0"
proof (induction xs zs arbitrary: ys rule: bytes_Compare.induct)
  case (3 x xs)
  then show ?case by (cases ys) auto
next
  case (4 x xs z zs)
  then obtain y ys' where "ys = y # ys'" by (cases ys) auto
  with 4 show ?case by (auto split: if_splits)
qed auto

instantiation PublicKey :: linorder
begin

definition less_eq_PublicKey :: "PublicKey \<Rightarrow> PublicKey \<Rightarrow> bool" where
  "less_eq_PublicKey a b \<longleftrightarrow> bytes_Compare (pk_bytes a) (pk_bytes b) \<le> 0"

definition less_PublicKey :: "PublicKey \<Rightarrow> PublicKey \<Rightarrow> bool" where
  "less_PublicKey a b \<longleftrightarrow> bytes_Compare (pk_bytes a) (pk_bytes b) < 0"

instance
proof
  fix a b c :: PublicKey
  show "a < b \<longleftrightarrow> a \<le> b \<and> \<not> b \<le> a"
    by (auto simp: less_eq_PublicKey_def less_PublicKey_def
        bytes_Compare_antisym [of "pk_bytes b" "pk_bytes a"])
  show "a \<le> a" by (simp add: less_eq_PublicKey_def)
  show "a \<le> b \<Longrightarrow> b \<le> c \<Longrightarrow> a \<le> c"
    by (auto simp: less_eq_PublicKey_def intro: bytes_Compare_trans)
  show "a \<le> b \<Longrightarrow> b \<le> a \<Longrightarrow> a = b"
    using bytes_Compare_antisym [of "pk_bytes b" "pk_bytes a"]
      bytes_Compare_0_iff [of "pk_bytes a" "pk_bytes b"]
    by (auto simp: less_eq_PublicKey_def)
  show "a \<le> b \<or> b \<le> a"
    using bytes_Compare_antisym [of "pk_bytes b" "pk_bytes a"]
    by (auto simp: less_eq_PublicKey_def)
qed

end

subsection \<open>The cryptographic libraries\<close>

record ('sk, 'p1, 'p2, 'agg) crypto_lib =
  cl_Sum256 :: "byte list \<Rightarrow> Digest"
  cl_KeyGen :: "byte list \<Rightarrow> 'sk"
  cl_SerializeSK :: "'sk \<Rightarrow> SecretKey"
  cl_DeserializeSK :: "byte list \<Rightarrow> 'sk option"
  cl_FromSK :: "'sk \<Rightarrow> 'p1"
  cl_CompressP1 :: "'p1 \<Rightarrow> PublicKey"
  cl_UncompressP1 :: "byte list \<Rightarrow> 'p1 option"
  cl_Sign :: "'sk option \<Rightarrow> byte list \<Rightarrow> byte list \<Rightarrow> 'p2"
  cl_CompressP2 :: "'p2 \<Rightarrow> Signature"
  cl_UncompressP2 :: "byte list \<Rightarrow> 'p2 option"
  cl_VerifyCompressed :: "byte list \<Rightarrow> bool \<Rightarrow> byte list \<Rightarrow> bool \<Rightarrow> byte list \<Rightarrow> byte list \<Rightarrow> bool"
  cl_AggZero :: 'agg
  cl_AggAdd :: "'agg \<Rightarrow> 'p2 \<Rightarrow> bool \<Rightarrow> 'agg"
  cl_AggAggregate :: "'agg \<Rightarrow> 'p2 option list \<Rightarrow> bool \<Rightarrow> 'agg"
  cl_ToAffine :: "'agg \<Rightarrow> 'p2"
  cl_AggregateVerify :: "'p2 option \<Rightarrow> bool \<Rightarrow> 'p1 option list \<Rightarrow> bool \<Rightarrow> byte list list \<Rightarrow> byte list \<Rightarrow> bool"
  cl_FastAggregateVerify :: "'p2 option \<Rightarrow> bool \<Rightarrow> 'p1 option list \<Rightarrow> byte list \<Rightarrow> byte list \<Rightarrow> bool"

text \<open>The domain separation tag \<open>dst\<close>, as passed to blst.\<close>

definition dst :: "byte list" where
  "dst = bytes_of_string ''BLS_SIG_BLS12381G1_XMD:SHA-256_SSWU_RO_POP_''"

definition NewDigest :: "('sk, 'p1, 'p2, 'agg, 'z) crypto_lib_scheme \<Rightarrow> byte list \<Rightarrow> Digest" where
  "NewDigest L bytes = cl_Sum256 L bytes"

text \<open>\<open>GenerateKeypair\<close>; the bytes that \<open>rand.Read\<close> delivers are an argument.\<close>

definition GenerateKeypair ::
  "('sk, 'p1, 'p2, 'agg, 'z) crypto_lib_scheme \<Rightarrow> byte list \<Rightarrow> SecretKey \<times> PublicKey" where
  "GenerateKeypair L ikm =
     (let bsk = cl_KeyGen L ikm;
          bpk = cl_FromSK L bsk
      in (sk_copy sk_zero (sk_bytes (cl_SerializeSK L bsk)),
          pk_copy pk_zero (pk_bytes (cl_CompressP1 L bpk))))"

definition Sign ::
  "('sk, 'p1, 'p2, 'agg, 'z) crypto_lib_scheme \<Rightarrow> Digest \<Rightarrow> SecretKey \<Rightarrow> Signature" where
  "Sign L d sk =
     (let bsk = cl_DeserializeSK L (sk_bytes sk);
          bsig = cl_Sign L bsk (digest_bytes d) dst
      in sig_copy sig_zero (sig_bytes (cl_CompressP2 L bsig)))"

definition Signature_Verify ::
  "('sk, 'p1, 'p2, 'agg, 'z) crypto_lib_scheme \<Rightarrow> Signature \<Rightarrow> Digest \<Rightarrow> PublicKey \<Rightarrow> bool" where
  "Signature_Verify L s d pk =
     cl_VerifyCompressed L (sig_bytes s) True (pk_bytes pk) True (digest_bytes d) dst"

text \<open>\<open>AggregateSignature.Add\<close>: the new aggregate, and the error if the signature does not decompress.\<close>

definition AggregateSignature_Add ::
  "('sk, 'p1, 'p2, 'agg, 'z) crypto_lib_scheme \<Rightarrow> 'agg \<Rightarrow> Signature \<Rightarrow> 'agg \<times> error option" where
  "AggregateSignature_Add L s sig =
     (case cl_UncompressP2 L (sig_bytes sig) of
        None \<Rightarrow> (s, Some NotDecompressible)
      | Some decompressed \<Rightarrow> (cl_AggAdd L s decompressed True, None))"

definition AggregateSignature_Aggregate ::
  "('sk, 'p1, 'p2, 'agg, 'z) crypto_lib_scheme \<Rightarrow> 'agg \<Rightarrow> Signature list \<Rightarrow> 'agg" where
  "AggregateSignature_Aggregate L s sigs =
     cl_AggAggregate L s (map (\<lambda>sig. cl_UncompressP2 L (sig_bytes sig)) sigs) True"

definition ToSignature :: "('sk, 'p1, 'p2, 'agg, 'z) crypto_lib_scheme \<Rightarrow> 'agg \<Rightarrow> Signature" where
  "ToSignature L s = cl_CompressP2 L (cl_ToAffine L s)"

definition AggregateVerify ::
  "('sk, 'p1, 'p2, 'agg, 'z) crypto_lib_scheme \<Rightarrow> Signature \<Rightarrow> Digest list \<Rightarrow> PublicKey list \<Rightarrow> bool"
where
  "AggregateVerify L s digests pks =
     (let bpks = map (\<lambda>pk. cl_UncompressP1 L (pk_bytes pk)) pks;
          msgs = map digest_bytes digests
      in cl_AggregateVerify L (cl_UncompressP2 L (sig_bytes s)) True bpks True msgs dst)"

definition FastAggregateVerify ::
  "('sk, 'p1, 'p2, 'agg, 'z) crypto_lib_scheme \<Rightarrow> Signature \<Rightarrow> Digest \<Rightarrow> PublicKey list \<Rightarrow> bool" where
  "FastAggregateVerify L s d pks =
     (let bpks = map (\<lambda>pk. cl_UncompressP1 L (pk_bytes pk)) pks
      in cl_FastAggregateVerify L (cl_UncompressP2 L (sig_bytes s)) True bpks (digest_bytes d) dst)"

subsection \<open>The signature service\<close>

text \<open>
  \<open>NewSignatureService\<close> starts a goroutine that owns the secret key and answers each request on the
  request's own channel; \<open>RequestSignature\<close> sends a digest and waits for the answer.
\<close>

record SignatureService =
  ss_key :: SecretKey

definition NewSignatureService :: "SecretKey \<Rightarrow> SignatureService" where
  "NewSignatureService sk = \<lparr>ss_key = sk\<rparr>"

definition RequestSignature ::
  "('sk, 'p1, 'p2, 'agg, 'z) crypto_lib_scheme \<Rightarrow> SignatureService \<Rightarrow> Digest \<Rightarrow> Signature" where
  "RequestSignature L ss msg = Sign L msg (ss_key ss)"

subsection \<open>What is relied on\<close>

text \<open>
  The documented behaviour of BLS signatures: a signature made with a key verifies under its public
  key; the sum of signatures that verify one by one verifies as a whole, for one common message
  (\<open>FastAggregateVerify\<close>) and for one message each (\<open>AggregateVerify\<close>).
\<close>

definition aggregate_of ::
  "('sk, 'p1, 'p2, 'agg, 'z) crypto_lib_scheme \<Rightarrow> Signature list \<Rightarrow> 'agg" where
  "aggregate_of L sigs = foldl (\<lambda>s sig. fst (AggregateSignature_Add L s sig)) (cl_AggZero L) sigs"

definition bls_sign_ok ::
  "('sk, 'p1, 'p2, 'agg, 'z) crypto_lib_scheme \<Rightarrow> SecretKey \<Rightarrow> PublicKey \<Rightarrow> bool" where
  "bls_sign_ok L sk pk \<longleftrightarrow> (\<forall>d. Signature_Verify L (Sign L d sk) d pk)"

definition bls_fast_aggregate_ok :: "('sk, 'p1, 'p2, 'agg, 'z) crypto_lib_scheme \<Rightarrow> bool" where
  "bls_fast_aggregate_ok L \<longleftrightarrow>
     (\<forall>d ps. ps \<noteq> [] \<longrightarrow> (\<forall>(pk, s) \<in> set ps. Signature_Verify L s d pk) \<longrightarrow>
        FastAggregateVerify L (ToSignature L (aggregate_of L (map snd ps))) d (map fst ps))"

definition bls_aggregate_ok :: "('sk, 'p1, 'p2, 'agg, 'z) crypto_lib_scheme \<Rightarrow> bool" where
  "bls_aggregate_ok L \<longleftrightarrow>
     (\<forall>ps. ps \<noteq> [] \<longrightarrow> (\<forall>(d, pk, s) \<in> set ps. Signature_Verify L s d pk) \<longrightarrow>
        AggregateVerify L (ToSignature L (aggregate_of L (map (snd \<circ> snd) ps)))
          (map fst ps) (map (fst \<circ> snd) ps))"

text \<open>A signature that verifies in compressed form decompresses.\<close>

definition bls_decompress_ok :: "('sk, 'p1, 'p2, 'agg, 'z) crypto_lib_scheme \<Rightarrow> bool" where
  "bls_decompress_ok L \<longleftrightarrow>
     (\<forall>s d pk. Signature_Verify L s d pk \<longrightarrow> cl_UncompressP2 L (sig_bytes s) \<noteq> None)"

definition bls_ok :: "('sk, 'p1, 'p2, 'agg, 'z) crypto_lib_scheme \<Rightarrow> bool" where
  "bls_ok L \<longleftrightarrow> bls_decompress_ok L \<and> bls_fast_aggregate_ok L \<and> bls_aggregate_ok L"

lemma bls_ok_fast:
  "bls_ok L \<Longrightarrow> ps \<noteq> [] \<Longrightarrow> \<forall>(pk, s)\<in>set ps. Signature_Verify L s d pk
    \<Longrightarrow> FastAggregateVerify L (ToSignature L (aggregate_of L (map snd ps))) d (map fst ps)"
  unfolding bls_ok_def bls_fast_aggregate_ok_def by blast

lemma bls_ok_each:
  "bls_ok L \<Longrightarrow> ps \<noteq> [] \<Longrightarrow> \<forall>(d, pk, s)\<in>set ps. Signature_Verify L s d pk
    \<Longrightarrow> AggregateVerify L (ToSignature L (aggregate_of L (map (snd \<circ> snd) ps)))
          (map fst ps) (map (fst \<circ> snd) ps)"
  unfolding bls_ok_def bls_aggregate_ok_def by blast

lemma aggregate_of_Nil [simp]: "aggregate_of L [] = cl_AggZero L"
  by (simp add: aggregate_of_def)

lemma aggregate_of_snoc [simp]:
  "aggregate_of L (sigs @ [sig]) = fst (AggregateSignature_Add L (aggregate_of L sigs) sig)"
  by (simp add: aggregate_of_def)

subsection \<open>A concrete instance\<close>

text \<open>
  A signature scheme small enough to compute with: the secret key, padded, is the public key; a
  signature is the digest followed by the public key; an aggregate keeps the first signature added;
  the hash keeps the first 32 bytes of the reversed message. It serves the witnesses only.
\<close>

definition demo_sig :: "byte list \<Rightarrow> byte list \<Rightarrow> Signature" where
  "demo_sig msg pk = sig_copy sig_zero (msg @ pk)"

definition demo_pk :: "SecretKey \<Rightarrow> PublicKey" where
  "demo_pk sk = pk_copy pk_zero (sk_bytes sk)"

definition demo_lib :: "(SecretKey, PublicKey, Signature, Signature option) crypto_lib" where
  "demo_lib = \<lparr>
     cl_Sum256 = (\<lambda>bs. digest_copy digest_zero (rev bs)),
     cl_KeyGen = (\<lambda>ikm. sk_copy sk_zero ikm),
     cl_SerializeSK = (\<lambda>sk. sk),
     cl_DeserializeSK = (\<lambda>bs. if length bs = 32 then Some (sk_copy sk_zero bs) else None),
     cl_FromSK = demo_pk,
     cl_CompressP1 = (\<lambda>pk. pk),
     cl_UncompressP1 = (\<lambda>bs. if length bs = 48 then Some (pk_copy pk_zero bs) else None),
     cl_Sign = (\<lambda>sk msg tag. case sk of
        None \<Rightarrow> sig_zero | Some k \<Rightarrow> demo_sig msg (pk_bytes (demo_pk k))),
     cl_CompressP2 = (\<lambda>s. s),
     cl_UncompressP2 = (\<lambda>bs. if length bs = 96 then Some (sig_copy sig_zero bs) else None),
     cl_VerifyCompressed = (\<lambda>s _ pk _ msg tag. s = sig_bytes (demo_sig msg pk)),
     cl_AggZero = None,
     cl_AggAdd = (\<lambda>a s _. case a of None \<Rightarrow> Some s | Some t \<Rightarrow> Some t),
     cl_AggAggregate = (\<lambda>a ss _. case ss of [] \<Rightarrow> a | s # _ \<Rightarrow> s),
     cl_ToAffine = (\<lambda>a. case a of None \<Rightarrow> sig_zero | Some s \<Rightarrow> s),
     cl_AggregateVerify = (\<lambda>s _ pks _ msgs tag.
        (case (s, pks, msgs) of
           (Some s', Some pk # _, m # _) \<Rightarrow> s' = demo_sig m (pk_bytes pk)
         | _ \<Rightarrow> False)),
     cl_FastAggregateVerify = (\<lambda>s _ pks msg tag.
        (case (s, pks) of
           (Some s', Some pk # _) \<Rightarrow> s' = demo_sig msg (pk_bytes pk)
         | _ \<Rightarrow> False))\<rparr>"

lemma demo_Verify [simp]:
  "Signature_Verify demo_lib s d pk \<longleftrightarrow> s = demo_sig (digest_bytes d) (pk_bytes pk)"
  by (simp add: Signature_Verify_def demo_lib_def)

lemma demo_Sign [simp]: "Sign demo_lib d sk = demo_sig (digest_bytes d) (pk_bytes (demo_pk sk))"
  by (simp add: Sign_def demo_lib_def)

lemma demo_Add [simp]:
  "AggregateSignature_Add demo_lib a s = (case a of None \<Rightarrow> Some s | Some t \<Rightarrow> Some t, None)"
  by (simp add: AggregateSignature_Add_def demo_lib_def)

lemma demo_AggZero [simp]: "cl_AggZero demo_lib = None"
  by (simp add: demo_lib_def)

lemma demo_aggregate_of: "sigs \<noteq> [] \<Longrightarrow> aggregate_of demo_lib sigs = Some (hd sigs)"
  by (induction sigs rule: rev_induct) (auto simp: hd_append split: option.splits)

lemma demo_sign_ok: "bls_sign_ok demo_lib sk (demo_pk sk)"
  by (simp add: bls_sign_ok_def)

lemma demo_FastAggregateVerify [simp]:
  "FastAggregateVerify demo_lib s d (pk # pks) \<longleftrightarrow> s = demo_sig (digest_bytes d) (pk_bytes pk)"
  by (simp add: FastAggregateVerify_def demo_lib_def)

lemma demo_AggregateVerify [simp]:
  "AggregateVerify demo_lib s (d # ds) (pk # pks) \<longleftrightarrow> s = demo_sig (digest_bytes d) (pk_bytes pk)"
  by (simp add: AggregateVerify_def demo_lib_def)

lemma demo_ToSignature [simp]: "ToSignature demo_lib (Some s) = s"
  by (simp add: ToSignature_def demo_lib_def)

lemma demo_fast_aggregate_ok: "bls_fast_aggregate_ok demo_lib"
  by (auto simp: bls_fast_aggregate_ok_def demo_aggregate_of neq_Nil_conv)

lemma demo_aggregate_ok: "bls_aggregate_ok demo_lib"
  by (auto simp: bls_aggregate_ok_def demo_aggregate_of neq_Nil_conv)

lemma demo_bls_ok: "bls_ok demo_lib"
  by (simp add: bls_ok_def demo_fast_aggregate_ok demo_aggregate_ok bls_decompress_ok_def)
    (simp add: demo_lib_def)

text \<open>Distinct demonstration keys: the secret key whose first byte is \<open>n\<close>, and its public key.\<close>

definition demo_sk :: "byte \<Rightarrow> SecretKey" where
  "demo_sk n = sk_copy sk_zero [n]"

definition demo_name :: "byte \<Rightarrow> PublicKey" where
  "demo_name n = demo_pk (demo_sk n)"

lemma pk_bytes_demo_name: "pk_bytes (demo_name n) = n # replicate 47 0"
  by (simp add: demo_name_def demo_pk_def demo_sk_def pk_bytes_copy sk_bytes_copy go_copy_def
      eval_nat_numeral)

lemma demo_name_inject [simp]: "demo_name a = demo_name b \<longleftrightarrow> a = b"
  by (simp add: pk_eq_iff pk_bytes_demo_name)

lemma demo_name_le [simp]: "demo_name a \<le> demo_name b \<longleftrightarrow> a \<le> b"
  by (auto simp: less_eq_PublicKey_def pk_bytes_demo_name)

lemma demo_name_zero [simp]: "demo_name n = pk_zero \<longleftrightarrow> n = 0"
  by (simp add: pk_eq_iff pk_bytes_demo_name eval_nat_numeral)

end
