(* ===== verification/Committee.thy ===== *)
theory Committee
  imports Crypto
begin

text \<open>
  \<open>consensus/config.go\<close>: parameters, authorities and the committee, with the stake of an authority,
  the quorum threshold and the broadcast addresses. A committee's \<open>Authorities\<close> is a Go map that is
  ranged over, so it is a duplicate-free association list whose order stands for the iteration
  order. The locale \<open>quorum_committee\<close> states what consensus and mempool ask of a committee; it is
  interpreted here on the consensus committee and in \<open>MempoolConfig\<close> on the mempool's.
\<close>

subsection \<open>Quorums by stake\<close>

text \<open>
  The contract: a predicate \<open>fits\<close> under which no stake arithmetic wraps, the members, their stake,
  and a threshold that is the least number above two thirds of the total stake.
\<close>

locale quorum_committee =
  fixes fits :: "'c \<Rightarrow> bool"
    and members :: "'c \<Rightarrow> 'k set"
    and stake :: "'c \<Rightarrow> 'k \<Rightarrow> u32"
    and threshold :: "'c \<Rightarrow> u32"
  assumes finite_members: "finite (members c)"
    and stake_outside: "k \<notin> members c \<Longrightarrow> stake c k = 0"
    and total_fits: "fits c \<Longrightarrow> (\<Sum>k\<in>members c. unat (stake c k)) < 2 ^ 32"
    and threshold_exact:
      "fits c \<Longrightarrow> unat (threshold c) = 2 * (\<Sum>k\<in>members c. unat (stake c k)) div 3 + 1"
begin

lemma weight_le_total:
  assumes "finite A"
  shows "(\<Sum>k\<in>A. unat (stake c k)) \<le> (\<Sum>k\<in>members c. unat (stake c k))"
proof -
  have "(\<Sum>k\<in>A. unat (stake c k)) = (\<Sum>k\<in>A \<inter> members c. unat (stake c k))"
    using assms by (intro sum.mono_neutral_right) (auto simp: stake_outside)
  also have "\<dots> \<le> (\<Sum>k\<in>members c. unat (stake c k))"
    by (rule sum_mono2) (auto simp: finite_members)
  finally show ?thesis .
qed

lemma intersection_weight:
  assumes "fits c" "finite A" "finite B"
    and "unat (threshold c) \<le> (\<Sum>k\<in>A. unat (stake c k))"
    and "unat (threshold c) \<le> (\<Sum>k\<in>B. unat (stake c k))"
  shows "(\<Sum>k\<in>members c. unat (stake c k)) < 3 * (\<Sum>k\<in>A \<inter> B. unat (stake c k))"
proof -
  have "(\<Sum>k\<in>A \<union> B. unat (stake c k)) + (\<Sum>k\<in>A \<inter> B. unat (stake c k))
      = (\<Sum>k\<in>A. unat (stake c k)) + (\<Sum>k\<in>B. unat (stake c k))"
    using assms(2,3) by (rule sum.union_inter)
  moreover have "(\<Sum>k\<in>A \<union> B. unat (stake c k)) \<le> (\<Sum>k\<in>members c. unat (stake c k))"
    using assms(2,3) by (intro weight_le_total) simp
  ultimately show ?thesis
    using assms(4,5) threshold_exact [OF assms(1)] by (rule two_thirds_overlap)
qed

lemma quorums_share_honest:
  assumes "fits c" "finite A" "finite B" "finite F"
    and "unat (threshold c) \<le> (\<Sum>k\<in>A. unat (stake c k))"
    and "unat (threshold c) \<le> (\<Sum>k\<in>B. unat (stake c k))"
    and "3 * (\<Sum>k\<in>F. unat (stake c k)) \<le> (\<Sum>k\<in>members c. unat (stake c k))"
  shows "\<exists>k. k \<in> A \<and> k \<in> B \<and> k \<notin> F \<and> k \<in> members c"
proof (rule ccontr)
  assume no: "\<not> ?thesis"
  have "(\<Sum>k\<in>A \<inter> B. unat (stake c k)) = (\<Sum>k\<in>A \<inter> B \<inter> members c. unat (stake c k))"
    using assms(2) by (intro sum.mono_neutral_right) (auto simp: stake_outside)
  also have "\<dots> \<le> (\<Sum>k\<in>F. unat (stake c k))"
    using no assms(4) by (intro sum_mono2) auto
  finally show False
    using intersection_weight [OF assms(1-3,5,6)] assms(7) by linarith
qed

lemma disjoint_quorums_impossible:
  assumes "fits c" "finite A" "finite B" "A \<inter> B = {}"
    and "unat (threshold c) \<le> (\<Sum>k\<in>A. unat (stake c k))"
  shows "(\<Sum>k\<in>B. unat (stake c k)) < unat (threshold c)"
proof (rule ccontr)
  assume "\<not> ?thesis"
  then show False using intersection_weight [OF assms(1-3,5)] assms(4) by simp
qed

lemma correct_members_reach_threshold:
  assumes "fits c" "finite F"
    and "3 * (\<Sum>k\<in>F. unat (stake c k)) < (\<Sum>k\<in>members c. unat (stake c k))"
  shows "unat (threshold c) \<le> (\<Sum>k\<in>members c - F. unat (stake c k))"
proof -
  have "(\<Sum>k\<in>members c. unat (stake c k))
      = (\<Sum>k\<in>members c - F. unat (stake c k)) + (\<Sum>k\<in>members c \<inter> F. unat (stake c k))"
    using finite_members [of c] by (metis Int_Diff_Un Int_Diff_disjoint add.commute finite_Diff
        finite_Int sum.union_disjoint)
  moreover have "(\<Sum>k\<in>members c \<inter> F. unat (stake c k)) \<le> (\<Sum>k\<in>F. unat (stake c k))"
    using assms(2) by (intro sum_mono2) auto
  ultimately show ?thesis
    using assms(3) threshold_exact [OF assms(1)] by linarith
qed

text \<open>
  Acknowledgements are counted by adding the stake of whoever answers until the threshold is
  reached. \<open>acks_reach\<close> is that test for the answers so far; a loop that stops at the first reply
  that reaches the threshold stops exactly when the stake of those who answered does.
\<close>

lemma unat_acked_stake:
  assumes "fits c" "distinct names"
  shows "unat (foldl (+) 0 (map (stake c) names)) = (\<Sum>k\<in>set names. unat (stake c k))"
proof -
  have "sum_list (map (\<lambda>k. unat (stake c k)) names) = (\<Sum>k\<in>set names. unat (stake c k))"
    using assms(2) by (rule sum_list_map_distinct)
  moreover have "(\<Sum>k\<in>set names. unat (stake c k)) < 2 ^ 32"
    using weight_le_total [of "set names" c] total_fits [OF assms(1)] by simp
  ultimately have "unat (sum_list (map (stake c) names)) = (\<Sum>k\<in>set names. unat (stake c k))"
    by (simp add: unat_sum_list_no_wrap)
  then show ?thesis by (simp add: foldl_add_sum_list)
qed

lemma acked_stake_reaches:
  assumes "fits c" "distinct names"
  shows "threshold c \<le> foldl (+) 0 (map (stake c) names)
    \<longleftrightarrow> unat (threshold c) \<le> (\<Sum>k\<in>set names. unat (stake c k))"
  using unat_acked_stake [OF assms] by (simp add: word_le_nat_alt)

lemma threshold_positive: "fits c \<Longrightarrow> 0 < unat (threshold c)"
  by (simp add: threshold_exact)

end

subsection \<open>Configuration data\<close>

type_synonym Stake = u32
type_synonym EpochNumber = u64

text \<open>\<open>peer.ID\<close> of libp2p is declared as a Go string.\<close>

type_synonym PeerID = string

record Parameters =
  par_TimeoutDelay :: u64
  par_SyncRetryDelay :: u64

definition DefaultParameters :: Parameters where
  "DefaultParameters = \<lparr>par_TimeoutDelay = 100000, par_SyncRetryDelay = 10000\<rparr>"

record Authority =
  au_Stake :: Stake
  au_Address :: PeerID

record AuthorityInfo =
  ai_Author :: PublicKey
  ai_Stake :: Stake
  ai_Address :: PeerID

record Committee =
  cm_Authorities :: "(PublicKey, Authority) DAList.alist"
  cm_Epoch :: EpochNumber

abbreviation cm_entries :: "Committee \<Rightarrow> (PublicKey \<times> Authority) list" where
  "cm_entries c \<equiv> DAList.impl_of (cm_Authorities c)"

definition cm_members :: "Committee \<Rightarrow> PublicKey set" where
  "cm_members c = fst ` set (cm_entries c)"

fun add_authorities ::
  "(PublicKey, Authority) DAList.alist \<Rightarrow> AuthorityInfo list \<Rightarrow> (PublicKey, Authority) DAList.alist"
where
  "add_authorities m [] = m"
| "add_authorities m (a # info) =
     add_authorities
       (DAList.update (ai_Author a) \<lparr>au_Stake = ai_Stake a, au_Address = ai_Address a\<rparr> m) info"

definition NewCommittee :: "AuthorityInfo list \<Rightarrow> EpochNumber \<Rightarrow> Committee" where
  "NewCommittee info epoch =
     \<lparr>cm_Authorities = add_authorities DAList.empty info, cm_Epoch = epoch\<rparr>"

definition Committee_Size :: "Committee \<Rightarrow> nat" where
  "Committee_Size c = length (cm_entries c)"

definition Committee_Stake :: "Committee \<Rightarrow> PublicKey \<Rightarrow> Stake" where
  "Committee_Stake c name =
     (case DAList.lookup (cm_Authorities c) name of Some a \<Rightarrow> au_Stake a | None \<Rightarrow> 0)"

definition QuorumThreshold :: "Committee \<Rightarrow> Stake" where
  "QuorumThreshold c =
     (let totalStake = foldl (\<lambda>t (_, a). t + au_Stake a) 0 (cm_entries c)
      in 2 * totalStake div 3 + 1)"

text \<open>For an unknown name the map yields the zero \<open>Authority\<close>, whose address is the empty string.\<close>

definition Committee_Address :: "Committee \<Rightarrow> PublicKey \<Rightarrow> PeerID \<times> bool" where
  "Committee_Address c name =
     (case DAList.lookup (cm_Authorities c) name of
        Some authority \<Rightarrow> (au_Address authority, True)
      | None \<Rightarrow> ([], False))"

fun broadcast_loop ::
  "PublicKey \<Rightarrow> (PublicKey \<times> Authority) list \<Rightarrow> PublicKey list \<times> PeerID list" where
  "broadcast_loop myself [] = ([], [])"
| "broadcast_loop myself ((pk, a) # rest) =
     (let (names, addresses) = broadcast_loop myself rest
      in if pk \<noteq> myself then (pk # names, au_Address a # addresses) else (names, addresses))"

definition BroadcastAddresses :: "Committee \<Rightarrow> PublicKey \<Rightarrow> PublicKey list \<times> PeerID list" where
  "BroadcastAddresses c myself = broadcast_loop myself (cm_entries c)"

subsection \<open>Stake and threshold\<close>

text \<open>The total stake as a mathematical sum, and the condition under which it does not wrap.\<close>

definition total_stake :: "Committee \<Rightarrow> nat" where
  "total_stake c = (\<Sum>k\<in>cm_members c. unat (Committee_Stake c k))"

definition stake_fits :: "Committee \<Rightarrow> bool" where
  "stake_fits c \<longleftrightarrow> 2 * total_stake c < 2 ^ 32"

lemma finite_cm_members [simp]: "finite (cm_members c)"
  by (simp add: cm_members_def)

lemma Committee_Stake_entry:
  "(k, a) \<in> set (cm_entries c) \<Longrightarrow> Committee_Stake c k = au_Stake a"
  by (simp add: Committee_Stake_def lookup_Some_iff [THEN iffD2])

lemma Committee_Stake_outside: "k \<notin> cm_members c \<Longrightarrow> Committee_Stake c k = 0"
  by (simp add: Committee_Stake_def cm_members_def lookup_None_iff [THEN iffD2])

lemma Committee_Stake_member: "Committee_Stake c k \<noteq> 0 \<Longrightarrow> k \<in> cm_members c"
  using Committee_Stake_outside by blast

lemma total_stake_entries:
  "total_stake c = sum_list (map (\<lambda>(_, a). unat (au_Stake a)) (cm_entries c))"
proof -
  have d: "distinct (map fst (cm_entries c))" by simp
  have "total_stake c = sum_list (map (\<lambda>k. unat (Committee_Stake c k)) (map fst (cm_entries c)))"
    by (simp add: total_stake_def cm_members_def sum_list_map_distinct [OF d] del: map_map)
  also have "\<dots> = sum_list (map (\<lambda>(_, a). unat (au_Stake a)) (cm_entries c))"
    by (auto simp: Committee_Stake_entry intro!: arg_cong [of _ _ sum_list])
  finally show ?thesis .
qed

lemma foldl_stake:
  "foldl (\<lambda>t (_, a). t + au_Stake a) s xs = s + sum_list (map (\<lambda>(_, a). au_Stake a) xs)"
  by (induction xs arbitrary: s) (auto simp: algebra_simps)

lemma QuorumThreshold_sum:
  "QuorumThreshold c = 2 * sum_list (map (\<lambda>(_, a). au_Stake a) (cm_entries c)) div 3 + 1"
  by (simp add: QuorumThreshold_def foldl_stake)

lemma unat_total:
  assumes "total_stake c < 2 ^ 32"
  shows "unat (sum_list (map (\<lambda>(_, a). au_Stake a) (cm_entries c))) = total_stake c"
  using assms unat_sum_list_no_wrap [of "\<lambda>(_, a). au_Stake a" "cm_entries c"]
  by (simp add: total_stake_entries case_prod_unfold)

lemma unat_two_thirds:
  fixes t :: u32
  assumes "2 * unat t < 2 ^ 32"
  shows "unat (2 * t div 3 + 1) = 2 * unat t div 3 + 1"
proof -
  have "unat (2 * t) = 2 * unat t" using assms by (simp add: unat_word_ariths)
  then have "unat (2 * t div 3) = 2 * unat t div 3" by (simp add: unat_div_distrib)
  moreover have "2 * unat t div 3 + 1 < 2 ^ 32" using assms by simp
  ultimately show ?thesis by (simp add: unat_word_ariths)
qed

lemma QuorumThreshold_exact:
  "stake_fits c \<Longrightarrow> unat (QuorumThreshold c) = 2 * total_stake c div 3 + 1"
  by (simp add: QuorumThreshold_sum unat_two_thirds unat_total stake_fits_def)

lemma QuorumThreshold_nonzero: "QuorumThreshold c \<noteq> 0"
proof -
  define t where "t = 2 * sum_list (map (\<lambda>(_, a). au_Stake a) (cm_entries c))"
  have "unat (t div 3) = unat t div 3" by (simp add: unat_div_distrib)
  then have "unat (t div 3) < 2 ^ 32 - 1" using unsigned_less [of t, where 'a = nat] by simp
  then have "unat (t div 3 + 1) = unat (t div 3) + 1"
    by (simp add: unat_word_ariths)
  then have "t div 3 + 1 \<noteq> 0" by (metis add_is_0 one_neq_zero unat_0)
  then show ?thesis by (simp add: QuorumThreshold_sum t_def)
qed

interpretation cq: quorum_committee stake_fits cm_members Committee_Stake QuorumThreshold
proof unfold_locales
  show "finite (cm_members c)" for c by simp
  show "k \<notin> cm_members c \<Longrightarrow> Committee_Stake c k = 0" for k c
    by (rule Committee_Stake_outside)
  show "(\<Sum>k\<in>cm_members c. unat (Committee_Stake c k)) < 2 ^ 32" if "stake_fits c" for c
    using that by (simp add: stake_fits_def total_stake_def)
  show "unat (QuorumThreshold c) = 2 * (\<Sum>k\<in>cm_members c. unat (Committee_Stake c k)) div 3 + 1"
    if "stake_fits c" for c
    using QuorumThreshold_exact [OF that] by (simp add: total_stake_def)
qed

subsection \<open>Construction and broadcast\<close>

lemma add_authorities_lookup:
  "DAList.lookup (add_authorities m info) k =
     (case find (\<lambda>a. ai_Author a = k) (rev info) of
        Some a \<Rightarrow> Some \<lparr>au_Stake = ai_Stake a, au_Address = ai_Address a\<rparr>
      | None \<Rightarrow> DAList.lookup m k)"
proof (induction info arbitrary: m)
  case (Cons b info)
  show ?case
    by (auto simp: Cons.IH DAList.lookup_update find_snoc split: option.splits)
qed simp

lemma broadcast_loop_eq:
  "broadcast_loop me xs =
     (map fst (filter (\<lambda>(pk, _). pk \<noteq> me) xs),
      map (\<lambda>(_, a). au_Address a) (filter (\<lambda>(pk, _). pk \<noteq> me) xs))"
  by (induction me xs rule: broadcast_loop.induct) auto

end
