(* ===== verification/Messages.thy ===== *)
theory Messages
  imports Committee
begin

text \<open>
  \<open>consensus/messages.go\<close>: blocks, votes, quorum certificates, timeouts and timeout certificates,
  their constructors, digests and verification. A pointer \<open>*TC\<close> is an \<open>option\<close>; a nil slice and
  an empty slice are the empty list, since the code only ranges over them and takes their length.
  The \<open>String\<close> methods, used for logging, are not modelled.
\<close>

type_synonym Round = u64

subsection \<open>Data\<close>

record QC =
  qc_Hash :: Digest
  qc_Round :: Round
  qc_Voters :: "PublicKey list"
  qc_Signature :: Signature

record authorityTimeoutRound =
  atr_name :: PublicKey
  atr_round :: Round

record TC =
  tc_Round :: Round
  tc_Votes :: "authorityTimeoutRound list"
  tc_Signature :: Signature

record Block =
  blk_Qc :: QC
  blk_Tc :: "TC option"
  blk_Author :: PublicKey
  blk_Round :: Round
  blk_Payload :: "Digest list"
  blk_Signature :: Signature

record vote =
  v_hash :: Digest
  v_round :: Round
  v_author :: PublicKey
  v_signature :: Signature

record timeout =
  t_highQC :: QC
  t_round :: Round
  t_author :: PublicKey
  t_signature :: Signature

subsection \<open>Quorum certificates\<close>

definition GenesisQC :: QC where
  "GenesisQC = \<lparr>qc_Hash = digest_zero, qc_Round = 0, qc_Voters = [], qc_Signature = sig_zero\<rparr>"

definition IsGenesisQC :: "QC \<Rightarrow> bool" where
  "IsGenesisQC qc \<longleftrightarrow> qc_Hash qc = digest_zero \<and> qc_Round qc = 0 \<and> length (qc_Voters qc) = 0
     \<and> qc_Signature qc = sig_zero"

definition QC_Timeout :: "QC \<Rightarrow> bool" where
  "QC_Timeout qc \<longleftrightarrow> qc_Hash qc = digest_zero \<and> qc_Round qc \<noteq> 0"

definition QC_Digest :: "('sk, 'p1, 'p2, 'agg, 'z) crypto_lib_scheme \<Rightarrow> QC \<Rightarrow> Digest" where
  "QC_Digest L qc = NewDigest L (digest_bytes (qc_Hash qc) @ be64 (qc_Round qc))"

text \<open>
  The loop over the voters, which \<open>QC.Verify\<close> and \<open>TC.Verify\<close> share: a name seen before or without
  stake ends it with an error; otherwise the stake is added, in \<open>uint32\<close>.
\<close>

fun check_voters ::
  "Committee \<Rightarrow> PublicKey list \<Rightarrow> PublicKey set \<Rightarrow> Stake \<Rightarrow> error + Stake" where
  "check_voters c [] used weight = Inr weight"
| "check_voters c (name # rest) used weight =
     (if name \<in> used then Inl (AppearsMultipleTimes name)
      else let votingRights = Committee_Stake c name
           in if votingRights = 0 then Inl (UnknownAuthority name)
              else check_voters c rest (insert name used) (weight + votingRights))"

definition QC_Verify ::
  "('sk, 'p1, 'p2, 'agg, 'z) crypto_lib_scheme \<Rightarrow> Committee \<Rightarrow> QC \<Rightarrow> error option" where
  "QC_Verify L c qc =
     (case check_voters c (qc_Voters qc) {} 0 of
        Inl err \<Rightarrow> Some err
      | Inr weight \<Rightarrow>
          if weight < QuorumThreshold c then Some NoQuorum
          else if \<not> FastAggregateVerify L (qc_Signature qc) (QC_Digest L qc) (qc_Voters qc)
          then Some FailedSignatureVerification
          else None)"

subsection \<open>Timeout certificates\<close>

definition HighQCRounds :: "TC \<Rightarrow> Round list" where
  "HighQCRounds tc = map atr_round (tc_Votes tc)"

definition TC_Verify ::
  "('sk, 'p1, 'p2, 'agg, 'z) crypto_lib_scheme \<Rightarrow> Committee \<Rightarrow> TC \<Rightarrow> error option" where
  "TC_Verify L c tc =
     (case check_voters c (map atr_name (tc_Votes tc)) {} 0 of
        Inl err \<Rightarrow> Some err
      | Inr weight \<Rightarrow>
          if weight < QuorumThreshold c then Some NoQuorum
          else
            let digests = map (\<lambda>v. NewDigest L (be64 (tc_Round tc) @ be64 (atr_round v))) (tc_Votes tc);
                authorities = map atr_name (tc_Votes tc)
            in if \<not> AggregateVerify L (tc_Signature tc) digests authorities
               then Some FailedSignatureVerification
               else None)"

subsection \<open>Blocks\<close>

definition Block_buf :: "Block \<Rightarrow> byte list" where
  "Block_buf b = pk_bytes (blk_Author b) @ be64 (blk_Round b) @ concat (map digest_bytes (blk_Payload b))"

definition Block_Digest :: "('sk, 'p1, 'p2, 'agg, 'z) crypto_lib_scheme \<Rightarrow> Block \<Rightarrow> Digest" where
  "Block_Digest L b = NewDigest L (Block_buf b)"

definition NewBlock ::
  "('sk, 'p1, 'p2, 'agg, 'z) crypto_lib_scheme \<Rightarrow> QC \<Rightarrow> TC option \<Rightarrow> PublicKey \<Rightarrow> Round
     \<Rightarrow> Digest list \<Rightarrow> SignatureService \<Rightarrow> Block" where
  "NewBlock L qc tc author round payload sigservice =
     (let block = \<lparr>blk_Qc = qc, blk_Tc = tc, blk_Author = author, blk_Round = round,
                   blk_Payload = payload, blk_Signature = sig_zero\<rparr>;
          sig = RequestSignature L sigservice (Block_Digest L block)
      in block\<lparr>blk_Signature := sig\<rparr>)"

definition GenesisBlock :: Block where
  "GenesisBlock = \<lparr>blk_Qc = GenesisQC, blk_Tc = None, blk_Author = pk_zero, blk_Round = 0,
     blk_Payload = [], blk_Signature = sig_zero\<rparr>"

definition Parent :: "Block \<Rightarrow> Digest" where
  "Parent b = qc_Hash (blk_Qc b)"

definition Block_Verify ::
  "('sk, 'p1, 'p2, 'agg, 'z) crypto_lib_scheme \<Rightarrow> Committee \<Rightarrow> Block \<Rightarrow> error option" where
  "Block_Verify L c b =
     (if Committee_Stake c (blk_Author b) = 0 then Some (UnknownAuthority (blk_Author b))
      else if \<not> Signature_Verify L (blk_Signature b) (Block_Digest L b) (blk_Author b)
      then Some NotCorrectlySigned
      else
        case (if \<not> IsGenesisQC (blk_Qc b) then QC_Verify L c (blk_Qc b) else None) of
          Some err \<Rightarrow> Some (NotValid err)
        | None \<Rightarrow>
            (case blk_Tc b of
               None \<Rightarrow> None
             | Some tc \<Rightarrow>
                 (case TC_Verify L c tc of
                    Some err \<Rightarrow> Some (NotValid err)
                  | None \<Rightarrow> None)))"

subsection \<open>Votes\<close>

definition vote_Digest :: "('sk, 'p1, 'p2, 'agg, 'z) crypto_lib_scheme \<Rightarrow> vote \<Rightarrow> Digest" where
  "vote_Digest L v = NewDigest L (digest_bytes (v_hash v) @ be64 (v_round v))"

definition NewVote ::
  "('sk, 'p1, 'p2, 'agg, 'z) crypto_lib_scheme \<Rightarrow> Block \<Rightarrow> PublicKey \<Rightarrow> SignatureService \<Rightarrow> vote" where
  "NewVote L block author sigService =
     (let v = \<lparr>v_hash = Block_Digest L block, v_round = blk_Round block, v_author = author,
               v_signature = sig_zero\<rparr>;
          sig = RequestSignature L sigService (vote_Digest L v)
      in v\<lparr>v_signature := sig\<rparr>)"

definition vote_verify ::
  "('sk, 'p1, 'p2, 'agg, 'z) crypto_lib_scheme \<Rightarrow> Committee \<Rightarrow> vote \<Rightarrow> error option" where
  "vote_verify L c v =
     (if Committee_Stake c (v_author v) = 0 then Some (UnknownAuthority (v_author v))
      else if \<not> Signature_Verify L (v_signature v) (vote_Digest L v) (v_author v)
      then Some NotCorrectlySigned
      else None)"

subsection \<open>Timeouts\<close>

definition timeout_Digest :: "('sk, 'p1, 'p2, 'agg, 'z) crypto_lib_scheme \<Rightarrow> timeout \<Rightarrow> Digest" where
  "timeout_Digest L t = NewDigest L (be64 (t_round t) @ be64 (qc_Round (t_highQC t)))"

definition NewTimeout ::
  "('sk, 'p1, 'p2, 'agg, 'z) crypto_lib_scheme \<Rightarrow> QC \<Rightarrow> Round \<Rightarrow> PublicKey \<Rightarrow> SignatureService
     \<Rightarrow> timeout" where
  "NewTimeout L highQC round author sigService =
     (let t = \<lparr>t_highQC = highQC, t_round = round, t_author = author, t_signature = sig_zero\<rparr>;
          sig = RequestSignature L sigService (timeout_Digest L t)
      in t\<lparr>t_signature := sig\<rparr>)"

definition timeout_Verify ::
  "('sk, 'p1, 'p2, 'agg, 'z) crypto_lib_scheme \<Rightarrow> Committee \<Rightarrow> timeout \<Rightarrow> error option" where
  "timeout_Verify L c t =
     (if Committee_Stake c (t_author t) = 0 then Some (UnknownAuthority (t_author t))
      else if \<not> Signature_Verify L (t_signature t) (timeout_Digest L t) (t_author t)
      then Some NotCorrectlySigned
      else if \<not> IsGenesisQC (t_highQC t)
      then (case QC_Verify L c (t_highQC t) of Some err \<Rightarrow> Some (NotValid err) | None \<Rightarrow> None)
      else None)"

subsection \<open>The voter loop\<close>

text \<open>Weight of a list of voters in \<open>uint32\<close> and as a natural number.\<close>

definition voters_weight :: "Committee \<Rightarrow> PublicKey list \<Rightarrow> nat" where
  "voters_weight c vs = (\<Sum>v\<in>set vs. unat (Committee_Stake c v))"

lemma check_voters_Inr_iff:
  "check_voters c vs used w = Inr w' \<longleftrightarrow>
     distinct vs \<and> set vs \<inter> used = {} \<and> (\<forall>v\<in>set vs. Committee_Stake c v \<noteq> 0)
     \<and> w' = w + sum_list (map (Committee_Stake c) vs)"
  by (induction c vs used w rule: check_voters.induct) (auto simp: Let_def algebra_simps)

lemma check_voters_Inl:
  "check_voters c vs used w = Inl e \<Longrightarrow>
     \<exists>v\<in>set vs. e = AppearsMultipleTimes v \<or> e = UnknownAuthority v \<and> Committee_Stake c v = 0"
  by (induction c vs used w rule: check_voters.induct) (auto simp: Let_def split: if_splits)

lemma unat_voters_sum:
  assumes "stake_fits c" "distinct vs"
  shows "unat (sum_list (map (Committee_Stake c) vs)) = voters_weight c vs"
proof -
  have "voters_weight c vs \<le> total_stake c"
    unfolding voters_weight_def total_stake_def by (rule cq.weight_le_total) simp
  with assms(1) have "voters_weight c vs < 2 ^ 32" by (simp add: stake_fits_def)
  then have "sum_list (map (\<lambda>v. unat (Committee_Stake c v)) vs) < 2 ^ LENGTH(32)"
    using assms(2) by (simp add: voters_weight_def sum_list_map_distinct)
  then show ?thesis
    using assms(2) by (simp add: unat_sum_list_no_wrap voters_weight_def sum_list_map_distinct)
qed

lemma quorum_voters_iff:
  assumes "stake_fits c" "distinct vs"
  shows "\<not> sum_list (map (Committee_Stake c) vs) < QuorumThreshold c
    \<longleftrightarrow> unat (QuorumThreshold c) \<le> voters_weight c vs"
  by (simp add: word_less_nat_alt unat_voters_sum [OF assms] not_less)

text \<open>What the loop and the threshold test accept: a quorum of distinct authorities.\<close>

definition quorum_of :: "Committee \<Rightarrow> PublicKey list \<Rightarrow> bool" where
  "quorum_of c vs \<longleftrightarrow> distinct vs \<and> (\<forall>v\<in>set vs. Committee_Stake c v \<noteq> 0)
     \<and> unat (QuorumThreshold c) \<le> voters_weight c vs"

lemma quorum_of_check:
  assumes "stake_fits c"
  shows "(\<exists>w. check_voters c vs {} 0 = Inr w \<and> \<not> w < QuorumThreshold c) \<longleftrightarrow> quorum_of c vs"
  using quorum_voters_iff [OF assms, of vs] by (auto simp: check_voters_Inr_iff quorum_of_def)

lemma quorum_of_nonempty: "quorum_of c vs \<Longrightarrow> vs \<noteq> []"
  using QuorumThreshold_nonzero [of c] by (auto simp: quorum_of_def voters_weight_def unat_eq_zero)

lemma check_voters_nonempty:
  "check_voters c vs {} 0 = Inr w \<Longrightarrow> \<not> w < QuorumThreshold c \<Longrightarrow> vs \<noteq> []"
  using QuorumThreshold_nonzero [of c] by (auto simp: word_less_nat_alt unat_eq_zero not_less)

lemma QC_Verify_None_iff:
  assumes "stake_fits c"
  shows "QC_Verify L c qc = None \<longleftrightarrow> quorum_of c (qc_Voters qc)
     \<and> FastAggregateVerify L (qc_Signature qc) (QC_Digest L qc) (qc_Voters qc)"
  using quorum_of_check [OF assms, of "qc_Voters qc"]
  by (auto simp: QC_Verify_def split: sum.splits)

lemma TC_Verify_None_iff:
  assumes "stake_fits c"
  shows "TC_Verify L c tc = None \<longleftrightarrow> quorum_of c (map atr_name (tc_Votes tc))
     \<and> AggregateVerify L (tc_Signature tc)
         (map (\<lambda>v. NewDigest L (be64 (tc_Round tc) @ be64 (atr_round v))) (tc_Votes tc))
         (map atr_name (tc_Votes tc))"
  using quorum_of_check [OF assms, of "map atr_name (tc_Votes tc)"]
  by (auto simp: TC_Verify_def Let_def split: sum.splits)

lemma TC_Verify_nonempty: "TC_Verify L c tc = None \<Longrightarrow> tc_Votes tc \<noteq> []"
  using check_voters_nonempty [of c "map atr_name (tc_Votes tc)"]
  by (auto simp: TC_Verify_def Let_def split: sum.splits if_splits)

lemma QC_Verify_nonempty: "QC_Verify L c qc = None \<Longrightarrow> qc_Voters qc \<noteq> []"
  using check_voters_nonempty [of c "qc_Voters qc"]
  by (auto simp: QC_Verify_def split: sum.splits if_splits)

lemma IsGenesisQC_iff: "IsGenesisQC qc \<longleftrightarrow> qc = GenesisQC"
  by (cases qc) (simp add: IsGenesisQC_def GenesisQC_def)

lemma NewBlock_fields [simp]:
  "blk_Qc (NewBlock L qc tc a r p ss) = qc" "blk_Tc (NewBlock L qc tc a r p ss) = tc"
  "blk_Author (NewBlock L qc tc a r p ss) = a" "blk_Round (NewBlock L qc tc a r p ss) = r"
  "blk_Payload (NewBlock L qc tc a r p ss) = p"
  by (simp_all add: NewBlock_def Let_def)

lemma Block_Verify_None_iff:
  "Block_Verify L c b = None \<longleftrightarrow>
     Committee_Stake c (blk_Author b) \<noteq> 0
     \<and> Signature_Verify L (blk_Signature b) (Block_Digest L b) (blk_Author b)
     \<and> (IsGenesisQC (blk_Qc b) \<or> QC_Verify L c (blk_Qc b) = None)
     \<and> (\<forall>tc. blk_Tc b = Some tc \<longrightarrow> TC_Verify L c tc = None)"
  by (auto simp: Block_Verify_def split: option.splits)

lemma vote_verify_None_iff:
  "vote_verify L c v = None \<longleftrightarrow> Committee_Stake c (v_author v) \<noteq> 0
     \<and> Signature_Verify L (v_signature v) (vote_Digest L v) (v_author v)"
  by (simp add: vote_verify_def)

text \<open>Blocks and votes made with the key of an authority verify.\<close>

lemma NewBlock_verifies:
  assumes "bls_sign_ok L (ss_key ss) author" "Committee_Stake c author \<noteq> 0"
    and "IsGenesisQC qc \<or> QC_Verify L c qc = None" "\<forall>t. tc = Some t \<longrightarrow> TC_Verify L c t = None"
  shows "Block_Verify L c (NewBlock L qc tc author round payload ss) = None"
proof -
  define b where "b = NewBlock L qc tc author round payload ss"
  have "Block_Digest L b = Block_Digest L (b\<lparr>blk_Signature := sig_zero\<rparr>)"
    by (simp add: Block_Digest_def Block_buf_def)
  moreover have "blk_Signature b = Sign L (Block_Digest L (b\<lparr>blk_Signature := sig_zero\<rparr>)) (ss_key ss)"
    by (simp add: b_def NewBlock_def RequestSignature_def Let_def)
  ultimately have "Signature_Verify L (blk_Signature b) (Block_Digest L b) author"
    using assms(1) by (simp add: bls_sign_ok_def)
  then show ?thesis using assms(2-4) by (simp add: Block_Verify_None_iff b_def)
qed

lemma NewVote_fields [simp]:
  "v_hash (NewVote L b a ss) = Block_Digest L b" "v_round (NewVote L b a ss) = blk_Round b"
  "v_author (NewVote L b a ss) = a"
  by (simp_all add: NewVote_def Let_def)

lemma NewVote_verifies:
  assumes "bls_sign_ok L (ss_key ss) author" "Committee_Stake c author \<noteq> 0"
  shows "vote_verify L c (NewVote L b author ss) = None"
proof -
  have "v_signature (NewVote L b author ss) = Sign L (vote_Digest L (NewVote L b author ss)) (ss_key ss)"
    by (simp add: NewVote_def RequestSignature_def Let_def vote_Digest_def)
  then show ?thesis using assms by (simp add: vote_verify_None_iff bls_sign_ok_def)
qed

lemma timeout_Verify_None_iff:
  "timeout_Verify L c t = None \<longleftrightarrow> Committee_Stake c (t_author t) \<noteq> 0
     \<and> Signature_Verify L (t_signature t) (timeout_Digest L t) (t_author t)
     \<and> (IsGenesisQC (t_highQC t) \<or> QC_Verify L c (t_highQC t) = None)"
  by (auto simp: timeout_Verify_def split: option.splits)

subsection \<open>What is hashed\<close>

text \<open>
  The byte strings hashed for a vote (40 bytes), a timeout (16 bytes) and a block (56 bytes and 32
  for each payload digest) determine the fields they are made of, and never coincide.
\<close>

lemma concat_digests_inject:
  "concat (map digest_bytes xs) = concat (map digest_bytes ys) \<longleftrightarrow> xs = ys"
proof (induction xs arbitrary: ys)
  case Nil
  have "digest_bytes y \<noteq> []" for y using length_digest_bytes [of y] by fastforce
  then show ?case by (cases ys) auto
next
  case (Cons x xs)
  have "digest_bytes x \<noteq> []" using length_digest_bytes [of x] by fastforce
  then show ?case using Cons.IH by (cases ys) (auto simp: append_eq_append_conv)
qed

lemma length_concat_digests: "length (concat (map digest_bytes ds)) = 32 * length ds"
  by (induction ds) auto

lemma Block_buf_inject:
  "Block_buf b = Block_buf b' \<longleftrightarrow>
     blk_Author b = blk_Author b' \<and> blk_Round b = blk_Round b' \<and> blk_Payload b = blk_Payload b'"
  by (auto simp: Block_buf_def append_eq_append_conv concat_digests_inject)

lemma length_Block_buf: "length (Block_buf b) = 56 + 32 * length (blk_Payload b)"
  by (simp add: Block_buf_def length_concat_digests)

end
