(* ===== verification/Wire.thy ===== *)
theory Wire
  imports Messages
begin

text \<open>
  The wire format: the structs of \<open>consensuspb/consensus.pb.go\<close>, the conversions of
  \<open>consensus/proto.go\<close> and the messages of \<open>consensus/consensusmessage.go\<close>.

  A pointer to a message of the format is an \<open>option\<close>, since \<open>proto.Unmarshal\<close> leaves it nil when
  the field is absent; the conversions read its fields without a nil check, so a missing message is
  a panic. \<open>proto.Marshal\<close> and \<open>proto.Unmarshal\<close> are fields of \<open>proto_lib\<close>; what is relied on is
  \<open>proto_ok\<close>, that unmarshalling inverts marshalling. The locale \<open>codec\<close> is the contract of a pair of
  conversions, interpreted on each of the five pairs of the file.
\<close>

subsection \<open>The contract of a conversion pair\<close>

locale codec =
  fixes enc :: "'a \<Rightarrow> 'b"
    and dec :: "'b \<Rightarrow> ('e, 'a) result"
  assumes dec_enc: "dec (enc a) = Ok a"
    and dec_sound: "dec b = Ok a \<Longrightarrow> b = enc a"
begin

lemma enc_inject: "enc a = enc a' \<longleftrightarrow> a = a'"
  using dec_enc by (metis result.inject(1))

lemma dec_Ok_iff: "dec b = Ok a \<longleftrightarrow> b = enc a"
  using dec_enc dec_sound by blast

lemma dec_list: "map_result dec (map enc xs) = Ok xs"
  by (simp add: map_result_roundtrip dec_enc)

lemma dec_list_Ok_iff: "map_result dec bs = Ok xs \<longleftrightarrow> bs = map enc xs"
proof (induction bs arbitrary: xs)
  case (Cons b bs)
  show ?case by (cases xs) (auto simp: go_simps dec_Ok_iff Cons.IH)
qed auto

end

subsection \<open>Structs of consensuspb\<close>

record pb_QC =
  pbqc_Hash :: "byte list"
  pbqc_Round :: u64
  pbqc_Voters :: "byte list list"
  pbqc_Signature :: "byte list"

record pb_ATR =
  pbatr_Name :: "byte list"
  pbatr_Round :: u64

record pb_TC =
  pbtc_Round :: u64
  pbtc_Atrs :: "pb_ATR list"
  pbtc_Signature :: "byte list"

record pb_Block =
  pbb_QuorumCert :: "pb_QC option"
  pbb_TimeoutCert :: "pb_TC option"
  pbb_Author :: "byte list"
  pbb_Round :: u64
  pbb_Payload :: "byte list list"
  pbb_Signature :: "byte list"

record pb_Vote =
  pbv_Hash :: "byte list"
  pbv_Round :: u64
  pbv_Author :: "byte list"
  pbv_Signature :: "byte list"

record pb_Timeout =
  pbt_HighQC :: "pb_QC option"
  pbt_Round :: u64
  pbt_Author :: "byte list"
  pbt_Signature :: "byte list"

text \<open>The \<open>oneof\<close> of \<open>ConsensusMessage\<close>; its field is nil when no alternative was sent.\<close>

datatype pb_Message =
    PB_Testfield string
  | PB_Proposal "pb_Block option"
  | PB_VMessage "pb_Vote option"
  | PB_TMessage "pb_Timeout option"
  | PB_TcMessage "pb_TC option"
  | PB_SrMessage "byte list" "byte list"

record pb_ConsensusMessage =
  pbm_Message :: "pb_Message option"

subsection \<open>The protobuf library\<close>

record ('sk, 'p1, 'p2, 'agg) proto_lib = "('sk, 'p1, 'p2, 'agg) crypto_lib" +
  pl_MarshalBlock :: "pb_Block \<Rightarrow> byte list option"
  pl_UnmarshalBlock :: "byte list \<Rightarrow> pb_Block option"
  pl_MarshalMessage :: "pb_ConsensusMessage \<Rightarrow> byte list option"
  pl_UnmarshalMessage :: "byte list \<Rightarrow> pb_ConsensusMessage option"

definition proto_ok :: "('sk, 'p1, 'p2, 'agg, 'z) proto_lib_scheme \<Rightarrow> bool" where
  "proto_ok E \<longleftrightarrow>
     (\<forall>b bs. pl_MarshalBlock E b = Some bs \<longrightarrow> pl_UnmarshalBlock E bs = Some b)
     \<and> (\<forall>m bs. pl_MarshalMessage E m = Some bs \<longrightarrow> pl_UnmarshalMessage E bs = Some m)"

subsection \<open>Conversions\<close>

definition QC_toProto :: "QC \<Rightarrow> pb_QC" where
  "QC_toProto qc = \<lparr>pbqc_Hash = digest_bytes (qc_Hash qc), pbqc_Round = qc_Round qc,
     pbqc_Voters = map pk_bytes (qc_Voters qc), pbqc_Signature = sig_bytes (qc_Signature qc)\<rparr>"

definition qcFromProto :: "pb_QC option \<Rightarrow> (error, QC) result" where
  "qcFromProto p = (case p of
     None \<Rightarrow> Panic NilDeref
   | Some pqc \<Rightarrow>
       bind_result (map_result (pk_FromBytes pk_zero) (pbqc_Voters pqc)) (\<lambda>voters.
       bind_result (digest_FromBytes digest_zero (pbqc_Hash pqc)) (\<lambda>hashValue.
       bind_result (sig_FromBytes sig_zero (pbqc_Signature pqc)) (\<lambda>sigValue.
         Ok \<lparr>qc_Hash = hashValue, qc_Round = pbqc_Round pqc, qc_Voters = voters,
              qc_Signature = sigValue\<rparr>))))"

definition ATR_toProto :: "authorityTimeoutRound \<Rightarrow> pb_ATR" where
  "ATR_toProto a = \<lparr>pbatr_Name = pk_bytes (atr_name a), pbatr_Round = atr_round a\<rparr>"

definition ATR_fromProto :: "pb_ATR \<Rightarrow> (error, authorityTimeoutRound) result" where
  "ATR_fromProto a =
     bind_result (pk_FromBytes pk_zero (pbatr_Name a)) (\<lambda>atrName.
       Ok \<lparr>atr_name = atrName, atr_round = pbatr_Round a\<rparr>)"

definition TC_toProto :: "TC \<Rightarrow> pb_TC" where
  "TC_toProto tc = \<lparr>pbtc_Round = tc_Round tc, pbtc_Atrs = map ATR_toProto (tc_Votes tc),
     pbtc_Signature = sig_bytes (tc_Signature tc)\<rparr>"

definition tcFromProto :: "pb_TC option \<Rightarrow> (error, TC) result" where
  "tcFromProto p = (case p of
     None \<Rightarrow> Panic NilDeref
   | Some ptc \<Rightarrow>
       bind_result (map_result ATR_fromProto (pbtc_Atrs ptc)) (\<lambda>atrs.
       bind_result (sig_FromBytes sig_zero (pbtc_Signature ptc)) (\<lambda>sigValue.
         Ok \<lparr>tc_Round = pbtc_Round ptc, tc_Votes = atrs, tc_Signature = sigValue\<rparr>)))"

definition Block_toProto :: "Block \<Rightarrow> pb_Block" where
  "Block_toProto b = \<lparr>pbb_QuorumCert = Some (QC_toProto (blk_Qc b)),
     pbb_TimeoutCert = map_option TC_toProto (blk_Tc b),
     pbb_Author = pk_bytes (blk_Author b), pbb_Round = blk_Round b,
     pbb_Payload = map digest_bytes (blk_Payload b),
     pbb_Signature = sig_bytes (blk_Signature b)\<rparr>"

definition blockFromProto :: "pb_Block option \<Rightarrow> (error, Block) result" where
  "blockFromProto p = (case p of
     None \<Rightarrow> Panic NilDeref
   | Some pblock \<Rightarrow>
       bind_result (map_result (digest_FromBytes digest_zero) (pbb_Payload pblock)) (\<lambda>payloadDigests.
       bind_result (qcFromProto (pbb_QuorumCert pblock)) (\<lambda>qc.
       bind_result (case pbb_TimeoutCert pblock of
                      None \<Rightarrow> Ok None
                    | Some ptc \<Rightarrow> bind_result (tcFromProto (Some ptc)) (\<lambda>tc. Ok (Some tc))) (\<lambda>tc.
       bind_result (pk_FromBytes pk_zero (pbb_Author pblock)) (\<lambda>author.
       bind_result (sig_FromBytes sig_zero (pbb_Signature pblock)) (\<lambda>signature.
         Ok \<lparr>blk_Qc = qc, blk_Tc = tc, blk_Author = author, blk_Round = pbb_Round pblock,
              blk_Payload = payloadDigests, blk_Signature = signature\<rparr>))))))"

definition vote_toProto :: "vote \<Rightarrow> pb_Vote" where
  "vote_toProto v = \<lparr>pbv_Hash = digest_bytes (v_hash v), pbv_Round = v_round v,
     pbv_Author = pk_bytes (v_author v), pbv_Signature = sig_bytes (v_signature v)\<rparr>"

definition voteFromProto :: "pb_Vote option \<Rightarrow> (error, vote) result" where
  "voteFromProto p = (case p of
     None \<Rightarrow> Panic NilDeref
   | Some pvote \<Rightarrow>
       bind_result (digest_FromBytes digest_zero (pbv_Hash pvote)) (\<lambda>hashValue.
       bind_result (pk_FromBytes pk_zero (pbv_Author pvote)) (\<lambda>author.
       bind_result (sig_FromBytes sig_zero (pbv_Signature pvote)) (\<lambda>signature.
         Ok \<lparr>v_hash = hashValue, v_round = pbv_Round pvote, v_author = author,
              v_signature = signature\<rparr>))))"

definition timeout_toProto :: "timeout \<Rightarrow> pb_Timeout" where
  "timeout_toProto t = \<lparr>pbt_HighQC = Some (QC_toProto (t_highQC t)), pbt_Round = t_round t,
     pbt_Author = pk_bytes (t_author t), pbt_Signature = sig_bytes (t_signature t)\<rparr>"

definition timeoutFromProto :: "pb_Timeout option \<Rightarrow> (error, timeout) result" where
  "timeoutFromProto p = (case p of
     None \<Rightarrow> Panic NilDeref
   | Some ptimeout \<Rightarrow>
       bind_result (qcFromProto (pbt_HighQC ptimeout)) (\<lambda>highQC.
       bind_result (pk_FromBytes pk_zero (pbt_Author ptimeout)) (\<lambda>author.
       bind_result (sig_FromBytes sig_zero (pbt_Signature ptimeout)) (\<lambda>signature.
         Ok \<lparr>t_highQC = highQC, t_round = pbt_Round ptimeout, t_author = author,
              t_signature = signature\<rparr>))))"

subsection \<open>The conversions meet the contract\<close>

interpretation pk_codec: codec pk_bytes "pk_FromBytes pk_zero"
  by unfold_locales (auto simp: go_simps)

interpretation digest_codec: codec digest_bytes "digest_FromBytes digest_zero"
  by unfold_locales (auto simp: go_simps)

interpretation qc_codec: codec "\<lambda>qc. Some (QC_toProto qc)" qcFromProto
proof unfold_locales
  show "qcFromProto (Some (QC_toProto qc)) = Ok qc" for qc
    by (simp add: qcFromProto_def QC_toProto_def pk_codec.dec_list)
  show "p = Some (QC_toProto qc)" if "qcFromProto p = Ok qc" for p qc
    using that
    by (auto simp: qcFromProto_def QC_toProto_def go_simps pk_codec.dec_list_Ok_iff
        split: option.splits)
qed

interpretation atr_codec: codec ATR_toProto ATR_fromProto
  by unfold_locales (auto simp: ATR_toProto_def ATR_fromProto_def go_simps)

interpretation tc_codec: codec "\<lambda>tc. Some (TC_toProto tc)" tcFromProto
proof unfold_locales
  show "tcFromProto (Some (TC_toProto tc)) = Ok tc" for tc
    by (simp add: tcFromProto_def TC_toProto_def atr_codec.dec_list)
  show "p = Some (TC_toProto tc)" if "tcFromProto p = Ok tc" for p tc
    using that
    by (auto simp: tcFromProto_def TC_toProto_def go_simps atr_codec.dec_list_Ok_iff
        split: option.splits)
qed

interpretation block_codec: codec "\<lambda>b. Some (Block_toProto b)" blockFromProto
proof unfold_locales
  show "blockFromProto (Some (Block_toProto b)) = Ok b" for b
    by (cases "blk_Tc b")
      (simp_all add: blockFromProto_def Block_toProto_def digest_codec.dec_list qc_codec.dec_enc
        tc_codec.dec_enc)
  show "p = Some (Block_toProto b)" if "blockFromProto p = Ok b" for p b
    using that
    by (auto simp: blockFromProto_def Block_toProto_def go_simps digest_codec.dec_list_Ok_iff
        qc_codec.dec_Ok_iff tc_codec.dec_Ok_iff split: option.splits)
qed

interpretation vote_codec: codec "\<lambda>v. Some (vote_toProto v)" voteFromProto
proof unfold_locales
  show "voteFromProto (Some (vote_toProto v)) = Ok v" for v
    by (simp add: voteFromProto_def vote_toProto_def)
  show "p = Some (vote_toProto v)" if "voteFromProto p = Ok v" for p v
    using that by (auto simp: voteFromProto_def vote_toProto_def go_simps split: option.splits)
qed

interpretation timeout_codec: codec "\<lambda>t. Some (timeout_toProto t)" timeoutFromProto
proof unfold_locales
  show "timeoutFromProto (Some (timeout_toProto t)) = Ok t" for t
    by (simp add: timeoutFromProto_def timeout_toProto_def qc_codec.dec_enc)
  show "p = Some (timeout_toProto t)" if "timeoutFromProto p = Ok t" for p t
    using that by (auto simp: timeoutFromProto_def timeout_toProto_def go_simps qc_codec.dec_Ok_iff
        split: option.splits)
qed

subsection \<open>Serialization of blocks and messages\<close>

definition Block_Serialize ::
  "('sk, 'p1, 'p2, 'agg, 'z) proto_lib_scheme \<Rightarrow> Block \<Rightarrow> (error, byte list) result" where
  "Block_Serialize E b = (case pl_MarshalBlock E (Block_toProto b) of
     None \<Rightarrow> Err MarshalFailed | Some data \<Rightarrow> Ok data)"

definition Block_Deserialize ::
  "('sk, 'p1, 'p2, 'agg, 'z) proto_lib_scheme \<Rightarrow> byte list \<Rightarrow> (error, Block) result" where
  "Block_Deserialize E data = (case pl_UnmarshalBlock E data of
     None \<Rightarrow> Err UnmarshalFailed | Some pblock \<Rightarrow> blockFromProto (Some pblock))"

datatype consensusMessage =
    testMessage string
  | proposeMessage Block
  | voteMessage vote
  | timeoutMessage timeout
  | tcMessage TC
  | syncRequestMessage Digest PublicKey

fun toConsensusPb :: "consensusMessage \<Rightarrow> pb_ConsensusMessage" where
  "toConsensusPb (testMessage txt) = \<lparr>pbm_Message = Some (PB_Testfield txt)\<rparr>"
| "toConsensusPb (proposeMessage b) = \<lparr>pbm_Message = Some (PB_Proposal (Some (Block_toProto b)))\<rparr>"
| "toConsensusPb (voteMessage v) = \<lparr>pbm_Message = Some (PB_VMessage (Some (vote_toProto v)))\<rparr>"
| "toConsensusPb (timeoutMessage t) = \<lparr>pbm_Message = Some (PB_TMessage (Some (timeout_toProto t)))\<rparr>"
| "toConsensusPb (tcMessage tc) = \<lparr>pbm_Message = Some (PB_TcMessage (Some (TC_toProto tc)))\<rparr>"
| "toConsensusPb (syncRequestMessage missing origin) =
     \<lparr>pbm_Message = Some (PB_SrMessage (digest_bytes missing) (pk_bytes origin))\<rparr>"

definition SerializeConsensusMessage ::
  "('sk, 'p1, 'p2, 'agg, 'z) proto_lib_scheme \<Rightarrow> consensusMessage \<Rightarrow> (error, byte list) result" where
  "SerializeConsensusMessage E msg = (case pl_MarshalMessage E (toConsensusPb msg) of
     None \<Rightarrow> Err MarshalFailed | Some data \<Rightarrow> Ok data)"

fun fromConsensusPb :: "pb_Message option \<Rightarrow> (error, consensusMessage) result" where
  "fromConsensusPb (Some (PB_Testfield txt)) = Ok (testMessage txt)"
| "fromConsensusPb (Some (PB_Proposal pb)) =
     bind_result (blockFromProto pb) (\<lambda>b. Ok (proposeMessage b))"
| "fromConsensusPb (Some (PB_VMessage pv)) =
     bind_result (voteFromProto pv) (\<lambda>v. Ok (voteMessage v))"
| "fromConsensusPb (Some (PB_TMessage pt)) =
     bind_result (timeoutFromProto pt) (\<lambda>t. Ok (timeoutMessage t))"
| "fromConsensusPb (Some (PB_TcMessage ptc)) =
     bind_result (tcFromProto ptc) (\<lambda>tc. Ok (tcMessage tc))"
| "fromConsensusPb (Some (PB_SrMessage d pk)) =
     bind_result (digest_FromBytes digest_zero d) (\<lambda>missing.
     bind_result (pk_FromBytes pk_zero pk) (\<lambda>origin.
       Ok (syncRequestMessage missing origin)))"
| "fromConsensusPb None = Err ErroneousMessageType"

definition DeserializeConsensusMessage ::
  "('sk, 'p1, 'p2, 'agg, 'z) proto_lib_scheme \<Rightarrow> byte list \<Rightarrow> (error, consensusMessage) result" where
  "DeserializeConsensusMessage E data = (case pl_UnmarshalMessage E data of
     None \<Rightarrow> Err UnmarshalFailed | Some pmsg \<Rightarrow> fromConsensusPb (pbm_Message pmsg))"

interpretation msg_codec: codec "\<lambda>m. pbm_Message (toConsensusPb m)" fromConsensusPb
proof unfold_locales
  show "fromConsensusPb (pbm_Message (toConsensusPb m)) = Ok m" for m
    by (cases m) (simp_all add: block_codec.dec_enc vote_codec.dec_enc timeout_codec.dec_enc
        tc_codec.dec_enc)
  show "p = pbm_Message (toConsensusPb m)" if "fromConsensusPb p = Ok m" for p m
    using that
    by (cases p rule: fromConsensusPb.cases)
      (auto simp: go_simps block_codec.dec_Ok_iff vote_codec.dec_Ok_iff timeout_codec.dec_Ok_iff
        tc_codec.dec_Ok_iff)
qed

lemma Block_Deserialize_Serialize:
  "proto_ok E \<Longrightarrow> Block_Serialize E b = Ok data \<Longrightarrow> Block_Deserialize E data = Ok b"
  by (auto simp: Block_Serialize_def Block_Deserialize_def proto_ok_def block_codec.dec_enc
      split: option.splits)

lemma Deserialize_Serialize_message:
  "proto_ok E \<Longrightarrow> SerializeConsensusMessage E m = Ok data
    \<Longrightarrow> DeserializeConsensusMessage E data = Ok m"
  by (auto simp: SerializeConsensusMessage_def DeserializeConsensusMessage_def proto_ok_def
      msg_codec.dec_enc split: option.splits)

end
