(* ===== verification/Store.thy ===== *)
theory Store
  imports Wire
begin

text \<open>
  \<open>store/store.go\<close>: the key-value store, a goroutine that owns a pebble database and serves commands
  from one channel in order. \<open>NotifyRead\<close> of a key that is not there leaves the response channel in
  \<open>obligations\<close>; the next \<open>Write\<close> of the key answers all of them. The state is the database, the
  obligations and whether \<open>Close\<close> was served; a step serves one command and lists the responses it
  sends. Response channels are numbers; each has room for its one response, so sending never blocks.

  Pebble is a parameter: \<open>db_Get\<close> and \<open>db_Set\<close> of the record \<open>env\<close>, with \<open>pebble_ok\<close> for its
  documented behaviour. The result of \<open>Set\<close> is ignored by the code; a failing \<open>Set\<close> is one that
  leaves the database as it was. A \<open>StoreResult\<close> is the value or the error, never both.
\<close>

subsection \<open>The environment\<close>

datatype db_error = PebbleNotFound | PebbleOther

record ('sk, 'p1, 'p2, 'agg, 'db) env = "('sk, 'p1, 'p2, 'agg) proto_lib" +
  db_Get :: "'db \<Rightarrow> byte list \<Rightarrow> db_error + byte list"
  db_Set :: "'db \<Rightarrow> byte list \<Rightarrow> byte list \<Rightarrow> 'db"

definition pebble_ok :: "('sk, 'p1, 'p2, 'agg, 'db, 'z) env_scheme \<Rightarrow> bool" where
  "pebble_ok E \<longleftrightarrow>
     (\<forall>db k v. db_Get E (db_Set E db k v) k = Inr v
        \<and> (\<forall>k'. k' \<noteq> k \<longrightarrow> db_Get E (db_Set E db k v) k' = db_Get E db k'))"

subsection \<open>Commands\<close>

type_synonym StoreResult = "error + byte list"

datatype command =
    writeCommand "byte list" "byte list"
  | readCommand "byte list" nat
  | notifyReadCommand "byte list" nat
  | closeCommand

record 'db store =
  st_db :: 'db
  st_obligations :: "byte list \<Rightarrow> nat list option"
  st_closed :: bool

definition NewStore :: "'db \<Rightarrow> 'db store" where
  "NewStore db = \<lparr>st_db = db, st_obligations = Map.empty, st_closed = False\<rparr>"

fun read_error :: "db_error \<Rightarrow> error" where
  "read_error PebbleNotFound = ValueNotFound"
| "read_error PebbleOther = StoreFailure"

fun serve_command ::
  "('sk, 'p1, 'p2, 'agg, 'db, 'z) env_scheme \<Rightarrow> 'db store \<Rightarrow> command
     \<Rightarrow> 'db store \<times> (nat \<times> StoreResult) list" where
  "serve_command E s (writeCommand key value) =
     (let s1 = s\<lparr>st_db := db_Set E (st_db s) key value\<rparr>
      in case st_obligations s key of
           Some senders \<Rightarrow>
             (s1\<lparr>st_obligations := (st_obligations s)(key := None)\<rparr>,
              map (\<lambda>sender. (sender, Inr value)) senders)
         | None \<Rightarrow> (s1, []))"
| "serve_command E s (readCommand key response) =
     (case db_Get E (st_db s) key of
        Inl err \<Rightarrow> (s, [(response, Inl (read_error err))])
      | Inr val \<Rightarrow> (s, [(response, Inr val)]))"
| "serve_command E s (notifyReadCommand key response) =
     (case db_Get E (st_db s) key of
        Inl PebbleNotFound \<Rightarrow>
          (let waiting = (case st_obligations s key of Some w \<Rightarrow> w | None \<Rightarrow> [])
           in (s\<lparr>st_obligations := (st_obligations s)(key \<mapsto> waiting @ [response])\<rparr>, []))
      | Inl PebbleOther \<Rightarrow> (s, [(response, Inl StoreFailure)])
      | Inr val \<Rightarrow> (s, [(response, Inr val)]))"
| "serve_command E s closeCommand = (s\<lparr>st_closed := True\<rparr>, [])"

text \<open>After \<open>Close\<close> the goroutine has returned and commands stay in the channel.\<close>

definition store_step ::
  "('sk, 'p1, 'p2, 'agg, 'db, 'z) env_scheme \<Rightarrow> 'db store \<Rightarrow> command
     \<Rightarrow> 'db store \<times> (nat \<times> StoreResult) list" where
  "store_step E s cmd = (if st_closed s then (s, []) else serve_command E s cmd)"

primrec store_run ::
  "('sk, 'p1, 'p2, 'agg, 'db, 'z) env_scheme \<Rightarrow> 'db store \<Rightarrow> command list
     \<Rightarrow> 'db store \<times> (nat \<times> StoreResult) list" where
  "store_run E s [] = (s, [])"
| "store_run E s (cmd # cmds) =
     (case store_step E s cmd of (s1, out1) \<Rightarrow>
      case store_run E s1 cmds of (s2, out2) \<Rightarrow> (s2, out1 @ out2))"

text \<open>\<open>Write\<close> sends the command; \<open>Read\<close> sends it and waits for the response.\<close>

definition Store_Write ::
  "('sk, 'p1, 'p2, 'agg, 'db, 'z) env_scheme \<Rightarrow> 'db store \<Rightarrow> byte list \<Rightarrow> byte list \<Rightarrow> 'db store" where
  "Store_Write E s key value = fst (store_step E s (writeCommand key value))"

definition Store_Read ::
  "('sk, 'p1, 'p2, 'agg, 'db, 'z) env_scheme \<Rightarrow> 'db store \<Rightarrow> byte list \<Rightarrow> StoreResult" where
  "Store_Read E s key = snd (hd (snd (serve_command E s (readCommand key 0))))"

subsection \<open>The contract of a store\<close>

locale kv_store =
  fixes usable :: "'s \<Rightarrow> bool"
    and get :: "'s \<Rightarrow> 'k \<Rightarrow> 'e + 'v"
    and put :: "'s \<Rightarrow> 'k \<Rightarrow> 'v \<Rightarrow> 's"
  assumes put_usable: "usable s \<Longrightarrow> usable (put s k v)"
    and get_put: "usable s \<Longrightarrow> get (put s k v) k = Inr v"
    and get_put_other: "usable s \<Longrightarrow> k' \<noteq> k \<Longrightarrow> get (put s k v) k' = get s k'"
begin

lemma puts_usable: "usable s \<Longrightarrow> usable (foldl (\<lambda>s (k, v). put s k v) s kvs)"
  by (induction kvs arbitrary: s) (auto simp: put_usable)

lemma get_put_if: "usable s \<Longrightarrow> get (put s k v) k' = (if k' = k then Inr v else get s k')"
  by (simp add: get_put get_put_other)

lemma get_puts:
  "usable s \<Longrightarrow> get (foldl (\<lambda>s (k, v). put s k v) s kvs) k =
     (case map_of (rev kvs) k of Some v \<Rightarrow> Inr v | None \<Rightarrow> get s k)"
proof (induction kvs arbitrary: s)
  case (Cons kv kvs)
  obtain a b where kv: "kv = (a, b)" by fastforce
  have "usable (put s a b)" using Cons.prems by (rule put_usable)
  from Cons.IH [OF this] show ?case
    using Cons.prems kv by (auto simp: get_put_if map_add_def split: option.splits)
qed simp

lemma put_keeps_presence:
  "usable s \<Longrightarrow> get s k' = Inr w \<Longrightarrow> \<exists>w'. get (put s k v) k' = Inr w'"
  by (simp add: get_put_if)

end

text \<open>No obligation is open for a key that the database holds.\<close>

definition store_ok :: "('sk, 'p1, 'p2, 'agg, 'db, 'z) env_scheme \<Rightarrow> 'db store \<Rightarrow> bool" where
  "store_ok E s \<longleftrightarrow> pebble_ok E \<and> \<not> st_closed s
     \<and> (\<forall>k. st_obligations s k \<noteq> None \<longrightarrow> db_Get E (st_db s) k = Inl PebbleNotFound)"

lemma Store_Read_eq:
  "Store_Read E s key = (case db_Get E (st_db s) key of Inl err \<Rightarrow> Inl (read_error err) | Inr v \<Rightarrow> Inr v)"
  by (simp add: Store_Read_def split: sum.splits)

lemma st_db_Write: "\<not> st_closed s \<Longrightarrow> st_db (Store_Write E s k v) = db_Set E (st_db s) k v"
  by (simp add: Store_Write_def store_step_def Let_def split: option.splits)

lemma db_Get_Set:
  "pebble_ok E \<Longrightarrow> db_Get E (db_Set E db k v) k' = (if k' = k then Inr v else db_Get E db k')"
  unfolding pebble_ok_def by auto

lemma store_step_ok:
  assumes "store_ok E s" "store_step E s cmd = (s', out)" "cmd \<noteq> closeCommand"
  shows "store_ok E s'"
  using assms
  by (cases cmd)
    (auto simp: store_ok_def store_step_def Let_def db_Get_Set
      split: option.splits sum.splits db_error.splits if_splits)

lemma Store_Write_ok: "store_ok E s \<Longrightarrow> store_ok E (Store_Write E s k v)"
  unfolding Store_Write_def
  by (rule store_step_ok [of E s "writeCommand k v" _ "snd (store_step E s (writeCommand k v))"]) auto

interpretation st: kv_store "store_ok E" "Store_Read E" "Store_Write E"
proof unfold_locales
  show "store_ok E (Store_Write E s k v)" if "store_ok E s" for s k v
    using that by (rule Store_Write_ok)
  show "Store_Read E (Store_Write E s k v) k = Inr v" if "store_ok E s" for s k v
    using that by (simp add: Store_Read_eq st_db_Write store_ok_def db_Get_Set)
  show "Store_Read E (Store_Write E s k v) k' = Store_Read E s k'" if "store_ok E s" "k' \<noteq> k" for s k k' v
    using that by (simp add: Store_Read_eq st_db_Write store_ok_def db_Get_Set)
qed

subsection \<open>Notified reads\<close>

definition waiting_on :: "'db store \<Rightarrow> byte list \<Rightarrow> nat list" where
  "waiting_on s k = (case st_obligations s k of Some w \<Rightarrow> w | None \<Rightarrow> [])"

fun mentions :: "command \<Rightarrow> nat \<Rightarrow> bool" where
  "mentions (readCommand k c) ch \<longleftrightarrow> c = ch"
| "mentions (notifyReadCommand k c) ch \<longleftrightarrow> c = ch"
| "mentions _ ch \<longleftrightarrow> False"

fun first_write :: "byte list \<Rightarrow> command list \<Rightarrow> byte list option" where
  "first_write k [] = None"
| "first_write k (writeCommand k' v # cmds) = (if k' = k then Some v else first_write k cmds)"
| "first_write k (_ # cmds) = first_write k cmds"

definition responses_to :: "nat \<Rightarrow> (nat \<times> StoreResult) list \<Rightarrow> StoreResult list" where
  "responses_to ch out = map snd (filter (\<lambda>(c, _). c = ch) out)"

text \<open>
  \<open>NotifyReadChannel\<close> leaves its channel \<open>ch\<close> with the store; \<open>NotifyRead\<close> also waits for the response,
  which may come while the \<open>later\<close> commands are served, or not yet.
\<close>

definition Store_NotifyReadChannel ::
  "('sk, 'p1, 'p2, 'agg, 'db, 'z) env_scheme \<Rightarrow> 'db store \<Rightarrow> byte list \<Rightarrow> nat
     \<Rightarrow> 'db store \<times> (nat \<times> StoreResult) list" where
  "Store_NotifyReadChannel E s key ch = store_step E s (notifyReadCommand key ch)"

definition Store_NotifyRead ::
  "('sk, 'p1, 'p2, 'agg, 'db, 'z) env_scheme \<Rightarrow> 'db store \<Rightarrow> byte list \<Rightarrow> nat \<Rightarrow> command list
     \<Rightarrow> StoreResult option" where
  "Store_NotifyRead E s key ch later =
     (let (s1, out) = Store_NotifyReadChannel E s key ch;
          (s2, out') = store_run E s1 later
      in case responses_to ch (out @ out') of [] \<Rightarrow> None | response # _ \<Rightarrow> Some response)"

definition Store_Close :: "('sk, 'p1, 'p2, 'agg, 'db, 'z) env_scheme \<Rightarrow> 'db store \<Rightarrow> 'db store" where
  "Store_Close E s = fst (store_step E s closeCommand)"

text \<open>A closed store serves nothing more: a read of it waits forever.\<close>

lemma closed_store_run: "st_closed s \<Longrightarrow> store_run E s cmds = (s, [])"
  by (induction cmds) (simp_all add: store_step_def)

lemma NotifyRead_closed: "Store_NotifyRead E (Store_Close E s) key ch later = None"
  by (simp add: Store_NotifyRead_def Store_NotifyReadChannel_def Store_Close_def store_step_def
      closed_store_run responses_to_def)

lemma responses_to_append [simp]: "responses_to ch (a @ b) = responses_to ch a @ responses_to ch b"
  by (simp add: responses_to_def)

lemma responses_to_Nil [simp]: "responses_to ch [] = []"
  by (simp add: responses_to_def)

lemma responses_to_broadcast:
  "responses_to ch (map (\<lambda>c. (c, r)) cs) = map (\<lambda>_. r) (filter (\<lambda>c. c = ch) cs)"
  by (induction cs) (auto simp: responses_to_def)

lemma serve_waiting:
  assumes "\<not> mentions cmd ch" "serve_command E s cmd = (s', out)"
    and "\<And>k'. filter (\<lambda>c. c = ch) (waiting_on s k') = (if W k' then [ch] else [])"
  shows "filter (\<lambda>c. c = ch) (waiting_on s' k') =
      (if W k' \<and> (\<forall>v. cmd \<noteq> writeCommand k' v) then [ch] else [])"
    and "responses_to ch out =
      (case cmd of writeCommand k v \<Rightarrow> if W k then [Inr v] else [] | _ \<Rightarrow> [])"
proof -
  show "filter (\<lambda>c. c = ch) (waiting_on s' k') =
      (if W k' \<and> (\<forall>v. cmd \<noteq> writeCommand k' v) then [ch] else [])"
    using assms(1,2) assms(3) [of k']
    by (cases cmd) (auto simp: waiting_on_def Let_def split: option.splits sum.splits
        db_error.splits if_splits)
  show "responses_to ch out =
      (case cmd of writeCommand k v \<Rightarrow> if W k then [Inr v] else [] | _ \<Rightarrow> [])"
  proof (cases cmd)
    case (writeCommand k v)
    then show ?thesis
      using assms(2) assms(3) [of k]
      by (auto simp: waiting_on_def Let_def responses_to_broadcast split: option.splits if_splits)
  qed (use assms(1,2) in \<open>auto simp: responses_to_def Let_def split: sum.splits db_error.splits\<close>)
qed

lemma run_waiting:
  assumes "\<not> st_closed s" "closeCommand \<notin> set cmds" "\<And>cmd. cmd \<in> set cmds \<Longrightarrow> \<not> mentions cmd ch"
    and "\<And>k'. filter (\<lambda>c. c = ch) (waiting_on s k') = (if w \<and> k' = k then [ch] else [])"
  shows "responses_to ch (snd (store_run E s cmds)) =
    (case first_write k cmds of Some v \<Rightarrow> if w then [Inr v] else [] | None \<Rightarrow> [])"
  using assms
proof (induction cmds arbitrary: s w)
  case (Cons cmd cmds)
  obtain s1 out1 where step: "serve_command E s cmd = (s1, out1)" by fastforce
  have open1: "\<not> st_closed s1"
    using Cons.prems(1,2) step by (cases cmd) (auto simp: Let_def split: option.splits sum.splits
        db_error.splits)
  have nm: "\<not> mentions cmd ch" using Cons.prems(3) by simp
  note sw = serve_waiting [OF nm step, where W = "\<lambda>k'. w \<and> k' = k", OF Cons.prems(4)]
  define w1 where "w1 = (w \<and> (\<forall>v. cmd \<noteq> writeCommand k v))"
  have "responses_to ch (snd (store_run E s1 cmds)) =
      (case first_write k cmds of Some v \<Rightarrow> if w1 then [Inr v] else [] | None \<Rightarrow> [])"
    using Cons.prems open1 sw(1) by (intro Cons.IH) (auto simp: w1_def)
  then show ?case
    using Cons.prems(1,2) step sw(2)
    by (cases cmd) (auto simp: store_step_def w1_def case_prod_unfold split: option.splits)
qed simp

lemma fresh_after_run:
  assumes "\<not> st_closed s" "closeCommand \<notin> set cmds" "\<And>cmd. cmd \<in> set cmds \<Longrightarrow> \<not> mentions cmd ch"
    and "\<And>k'. ch \<notin> set (waiting_on s k')"
  shows "\<not> st_closed (fst (store_run E s cmds))
    \<and> (\<forall>k'. ch \<notin> set (waiting_on (fst (store_run E s cmds)) k'))
    \<and> responses_to ch (snd (store_run E s cmds)) = []"
  using assms
proof (induction cmds arbitrary: s)
  case (Cons cmd cmds)
  obtain s1 out1 where step: "serve_command E s cmd = (s1, out1)" by fastforce
  have open1: "\<not> st_closed s1"
    using Cons.prems(1,2) step by (cases cmd) (auto simp: Let_def split: option.splits sum.splits
        db_error.splits)
  have nm: "\<not> mentions cmd ch" using Cons.prems(3) by simp
  have empty: "filter (\<lambda>c. c = ch) (waiting_on s k') = (if False then [ch] else [])" for k'
    using Cons.prems(4) [of k'] by (auto simp: filter_empty_conv)
  note sw = serve_waiting [OF nm step, where W = "\<lambda>_. False", OF empty]
  have fresh1: "ch \<notin> set (waiting_on s1 k')" for k'
    using sw(1) [of k'] by (auto simp: filter_empty_conv)
  have "responses_to ch out1 = []" using sw(2) by (cases cmd) auto
  then show ?case
    using Cons.IH [OF open1 _ _ fresh1] Cons.prems(1-3) step
    by (auto simp: store_step_def case_prod_unfold)
qed simp

lemma store_run_append:
  "store_run E s (xs @ ys) =
     (case store_run E s xs of (s1, out1) \<Rightarrow> case store_run E s1 ys of (s2, out2) \<Rightarrow> (s2, out1 @ out2))"
  by (induction xs arbitrary: s) (auto simp: case_prod_unfold)

end
