(* ===== verification/MempoolConfig.thy ===== *)
theory MempoolConfig
  imports Committee
begin

text \<open>
  \<open>mempool/config.go\<close>: the parameters of the mempool and its committee. The code repeats
  \<open>consensus/config.go\<close> on its own types, so the names here carry the prefix \<open>mp_\<close>. The mempool's
  committee is the second instance of the locale \<open>quorum_committee\<close>. The last part relates the two
  committees that a node builds from one list of authorities.
\<close>

subsection \<open>Configuration data\<close>

record mp_Parameters =
  mp_GcDepth :: u64
  mp_SyncRetryDelay :: u64
  mp_SyncRetryNodes :: u64
  mp_BatchSize :: u64
  mp_MaxBatchDelay :: u64

definition mp_DefaultParameters :: mp_Parameters where
  "mp_DefaultParameters =
     \<lparr>mp_GcDepth = 50, mp_SyncRetryDelay = 5000, mp_SyncRetryNodes = 3, mp_BatchSize = 500000,
      mp_MaxBatchDelay = 100\<rparr>"

record mp_Authority =
  mpa_Stake :: Stake
  mpa_Address :: PeerID

record mp_AuthorityInfo =
  mpi_Author :: PublicKey
  mpi_Stake :: Stake
  mpi_Address :: PeerID

record mp_Committee =
  mpc_Authorities :: "(PublicKey, mp_Authority) DAList.alist"
  mpc_Epoch :: EpochNumber

abbreviation mpc_entries :: "mp_Committee \<Rightarrow> (PublicKey \<times> mp_Authority) list" where
  "mpc_entries c \<equiv> DAList.impl_of (mpc_Authorities c)"

definition mpc_members :: "mp_Committee \<Rightarrow> PublicKey set" where
  "mpc_members c = fst ` set (mpc_entries c)"

fun mp_add_authorities ::
  "(PublicKey, mp_Authority) DAList.alist \<Rightarrow> mp_AuthorityInfo list
     \<Rightarrow> (PublicKey, mp_Authority) DAList.alist"
where
  "mp_add_authorities m [] = m"
| "mp_add_authorities m (a # info) =
     mp_add_authorities
       (DAList.update (mpi_Author a) \<lparr>mpa_Stake = mpi_Stake a, mpa_Address = mpi_Address a\<rparr> m) info"

definition mp_NewCommittee :: "mp_AuthorityInfo list \<Rightarrow> EpochNumber \<Rightarrow> mp_Committee" where
  "mp_NewCommittee info epoch =
     \<lparr>mpc_Authorities = mp_add_authorities DAList.empty info, mpc_Epoch = epoch\<rparr>"

definition mp_Stake :: "mp_Committee \<Rightarrow> PublicKey \<Rightarrow> Stake" where
  "mp_Stake c name =
     (case DAList.lookup (mpc_Authorities c) name of Some a \<Rightarrow> mpa_Stake a | None \<Rightarrow> 0)"

definition mp_QuorumThreshold :: "mp_Committee \<Rightarrow> Stake" where
  "mp_QuorumThreshold c =
     (let totalStake = foldl (\<lambda>t (_, a). t + mpa_Stake a) 0 (mpc_entries c)
      in 2 * totalStake div 3 + 1)"

definition mp_MempoolAddress :: "mp_Committee \<Rightarrow> PublicKey \<Rightarrow> PeerID \<times> bool" where
  "mp_MempoolAddress c name =
     (case DAList.lookup (mpc_Authorities c) name of
        Some authority \<Rightarrow> (mpa_Address authority, True)
      | None \<Rightarrow> ([], False))"

fun mp_broadcast_loop ::
  "PublicKey \<Rightarrow> (PublicKey \<times> mp_Authority) list \<Rightarrow> PublicKey list \<times> PeerID list" where
  "mp_broadcast_loop myself [] = ([], [])"
| "mp_broadcast_loop myself ((pk, a) # rest) =
     (let (names, addresses) = mp_broadcast_loop myself rest
      in if pk \<noteq> myself then (pk # names, mpa_Address a # addresses) else (names, addresses))"

definition mp_BroadcastAddresses :: "mp_Committee \<Rightarrow> PublicKey \<Rightarrow> PublicKey list \<times> PeerID list" where
  "mp_BroadcastAddresses c myself = mp_broadcast_loop myself (mpc_entries c)"

subsection \<open>The mempool committee as a consensus committee\<close>

text \<open>
  The two packages differ in their types only. \<open>as_authority\<close> and \<open>as_committee\<close> forget the
  difference; every operation of the mempool committee is the consensus operation on the image.
\<close>

definition as_authority :: "mp_Authority \<Rightarrow> Authority" where
  "as_authority a = \<lparr>au_Stake = mpa_Stake a, au_Address = mpa_Address a\<rparr>"

definition as_info :: "mp_AuthorityInfo \<Rightarrow> AuthorityInfo" where
  "as_info a = \<lparr>ai_Author = mpi_Author a, ai_Stake = mpi_Stake a, ai_Address = mpi_Address a\<rparr>"

definition as_committee :: "mp_Committee \<Rightarrow> Committee" where
  "as_committee c =
     \<lparr>cm_Authorities = Alist (map (apsnd as_authority) (mpc_entries c)), cm_Epoch = mpc_Epoch c\<rparr>"

lemma cm_entries_as_committee [simp]:
  "cm_entries (as_committee c) = map (apsnd as_authority) (mpc_entries c)"
  by (simp add: as_committee_def Alist_inverse comp_def)

lemma as_authority_simps [simp]:
  "au_Stake (as_authority a) = mpa_Stake a" "au_Address (as_authority a) = mpa_Address a"
  by (simp_all add: as_authority_def)

lemma lookup_as_committee:
  "DAList.lookup (cm_Authorities (as_committee c)) k
     = map_option as_authority (DAList.lookup (mpc_Authorities c) k)"
  by (simp add: lookup_impl_of map_of_map apsnd_def map_prod_def)

lemma update_apsnd:
  "AList.update k (f v) (map (apsnd f) xs) = map (apsnd f) (AList.update k v xs)"
  by (induction xs) auto

lemma add_authorities_apsnd:
  "DAList.impl_of m' = map (apsnd as_authority) (DAList.impl_of m) \<Longrightarrow>
   DAList.impl_of (add_authorities m' (map as_info info))
     = map (apsnd as_authority) (DAList.impl_of (mp_add_authorities m info))"
proof (induction info arbitrary: m m')
  case (Cons a info)
  show ?case
    unfolding list.map add_authorities.simps mp_add_authorities.simps
    by (intro Cons.IH)
      (simp add: impl_of_update Cons.prems update_apsnd [symmetric] as_info_def as_authority_def)
qed simp

lemma as_committee_NewCommittee:
  "as_committee (mp_NewCommittee info epoch) = NewCommittee (map as_info info) epoch"
proof -
  have "DAList.impl_of (add_authorities DAList.empty (map as_info info))
      = map (apsnd as_authority) (DAList.impl_of (mp_add_authorities DAList.empty info))"
    by (rule add_authorities_apsnd) (simp add: DAList.empty.rep_eq)
  then have "Alist (map (apsnd as_authority) (DAList.impl_of (mp_add_authorities DAList.empty info)))
      = add_authorities DAList.empty (map as_info info)"
    by (metis impl_of_inverse)
  then show ?thesis by (simp add: as_committee_def mp_NewCommittee_def NewCommittee_def)
qed

lemma Stake_as_committee: "Committee_Stake (as_committee c) k = mp_Stake c k"
  by (simp add: Committee_Stake_def mp_Stake_def lookup_as_committee split: option.splits)

lemma Threshold_as_committee: "QuorumThreshold (as_committee c) = mp_QuorumThreshold c"
proof -
  have "foldl (\<lambda>t (_, a). t + au_Stake a) s (map (apsnd as_authority) xs)
      = foldl (\<lambda>t (_, a). t + mpa_Stake a) s xs" for s and xs :: "(PublicKey \<times> mp_Authority) list"
    by (induction xs arbitrary: s) auto
  then show ?thesis by (simp add: QuorumThreshold_def mp_QuorumThreshold_def Let_def)
qed

lemma Address_as_committee: "Committee_Address (as_committee c) k = mp_MempoolAddress c k"
  by (simp add: Committee_Address_def mp_MempoolAddress_def lookup_as_committee split: option.splits)

lemma Broadcast_as_committee:
  "BroadcastAddresses (as_committee c) k = mp_BroadcastAddresses c k"
proof -
  have "broadcast_loop k (map (apsnd as_authority) xs) = mp_broadcast_loop k xs" for xs
    by (induction xs) (auto simp: Let_def split: prod.splits)
  then show ?thesis by (simp add: BroadcastAddresses_def mp_BroadcastAddresses_def)
qed

lemma members_as_committee [simp]: "cm_members (as_committee c) = mpc_members c"
  by (simp add: cm_members_def mpc_members_def image_image)

subsection \<open>Quorums of the mempool\<close>

definition mp_total_stake :: "mp_Committee \<Rightarrow> nat" where
  "mp_total_stake c = (\<Sum>k\<in>mpc_members c. unat (mp_Stake c k))"

definition mp_stake_fits :: "mp_Committee \<Rightarrow> bool" where
  "mp_stake_fits c \<longleftrightarrow> 2 * mp_total_stake c < 2 ^ 32"

lemma fits_as_committee: "stake_fits (as_committee c) \<longleftrightarrow> mp_stake_fits c"
  by (simp add: stake_fits_def mp_stake_fits_def total_stake_def mp_total_stake_def
      Stake_as_committee)

lemmas as_committee_simps =
  Stake_as_committee Threshold_as_committee fits_as_committee members_as_committee

interpretation mq: quorum_committee mp_stake_fits mpc_members mp_Stake mp_QuorumThreshold
proof unfold_locales
  fix c :: mp_Committee
  show "finite (mpc_members c)" by (simp add: mpc_members_def)
  show "k \<notin> mpc_members c \<Longrightarrow> mp_Stake c k = 0" for k
    using cq.stake_outside [of k "as_committee c"] by (simp add: as_committee_simps)
  show "(\<Sum>k\<in>mpc_members c. unat (mp_Stake c k)) < 2 ^ 32" if "mp_stake_fits c"
    using cq.total_fits [of "as_committee c"] that by (simp add: as_committee_simps)
  show "unat (mp_QuorumThreshold c) = 2 * (\<Sum>k\<in>mpc_members c. unat (mp_Stake c k)) div 3 + 1"
    if "mp_stake_fits c"
    using cq.threshold_exact [of "as_committee c"] that by (simp add: as_committee_simps)
qed

lemma mp_broadcast_loop_eq:
  "mp_broadcast_loop k xs =
     (map fst (filter (\<lambda>(pk, _). pk \<noteq> k) xs),
      map (\<lambda>(_, a). mpa_Address a) (filter (\<lambda>(pk, _). pk \<noteq> k) xs))"
  by (induction xs) (auto simp: Let_def)

lemma mp_broadcast_names:
  "set (fst (mp_BroadcastAddresses c k)) = mpc_members c - {k}"
  by (auto simp: mp_BroadcastAddresses_def mpc_members_def mp_broadcast_loop_eq)

lemma mp_broadcast_distinct: "distinct (fst (mp_BroadcastAddresses c k))"
  by (simp add: mp_BroadcastAddresses_def mp_broadcast_loop_eq distinct_map_fst_filter)

lemma mp_broadcast_lengths:
  "length (snd (mp_BroadcastAddresses c k)) = length (fst (mp_BroadcastAddresses c k))"
  by (simp add: mp_BroadcastAddresses_def mp_broadcast_loop_eq)

end
