(* ===== verification/MempoolWire.thy ===== *)
theory MempoolWire
  imports Store MempoolConfig
begin

text \<open>
  The mempool's wire format: the structs of \<open>mempoolpb/mempool.pb.go\<close> and the messages of
  \<open>mempool/message.go\<close>. The pointer of a \<open>oneof\<close> alternative is an \<open>option\<close>, as in \<open>Wire\<close>; reading
  through nil is a panic. \<open>mp_env\<close> adds to the environment the two protobuf functions for
  \<open>MempoolMessage\<close>, and \<open>mempool_proto_ok\<close> is what is relied on.
\<close>

record pb_Batch =
  pbba_Batch :: "byte list"

record pb_Request =
  pbrq_Missing :: "byte list list"
  pbrq_Origin :: "byte list"

datatype pb_MempoolMsg =
    PB_BatchMessage "pb_Batch option"
  | PB_ReqMessage "pb_Request option"

record pb_MempoolMessage =
  pbmm_Msg :: "pb_MempoolMsg option"

record ('sk, 'p1, 'p2, 'agg, 'db) mp_env = "('sk, 'p1, 'p2, 'agg, 'db) env" +
  pl_MarshalMempool :: "pb_MempoolMessage \<Rightarrow> byte list option"
  pl_UnmarshalMempool :: "byte list \<Rightarrow> pb_MempoolMessage option"

definition mempool_proto_ok :: "('sk, 'p1, 'p2, 'agg, 'db, 'z) mp_env_scheme \<Rightarrow> bool" where
  "mempool_proto_ok E \<longleftrightarrow>
     (\<forall>m bs. pl_MarshalMempool E m = Some bs \<longrightarrow> pl_UnmarshalMempool E bs = Some m)"

subsection \<open>Messages\<close>

datatype mempoolMessage =
    batchMessage "byte list"
  | requestMessage "Digest list" PublicKey

fun toMempoolPb :: "mempoolMessage \<Rightarrow> pb_MempoolMessage" where
  "toMempoolPb (batchMessage batch) =
     \<lparr>pbmm_Msg = Some (PB_BatchMessage (Some \<lparr>pbba_Batch = batch\<rparr>))\<rparr>"
| "toMempoolPb (requestMessage missing origin) =
     \<lparr>pbmm_Msg = Some (PB_ReqMessage (Some
        \<lparr>pbrq_Missing = map digest_bytes missing, pbrq_Origin = pk_bytes origin\<rparr>))\<rparr>"

definition serializeMempoolMessage ::
  "('sk, 'p1, 'p2, 'agg, 'db, 'z) mp_env_scheme \<Rightarrow> mempoolMessage \<Rightarrow> (error, byte list) result" where
  "serializeMempoolMessage E msg = (case pl_MarshalMempool E (toMempoolPb msg) of
     None \<Rightarrow> Err MarshalFailed | Some data \<Rightarrow> Ok data)"

fun fromMempoolPb :: "pb_MempoolMsg option \<Rightarrow> (error, mempoolMessage) result" where
  "fromMempoolPb (Some (PB_BatchMessage p)) =
     (case p of None \<Rightarrow> Panic NilDeref | Some b \<Rightarrow> Ok (batchMessage (pbba_Batch b)))"
| "fromMempoolPb (Some (PB_ReqMessage p)) =
     (case p of
        None \<Rightarrow> Panic NilDeref
      | Some r \<Rightarrow>
          bind_result (map_result (digest_FromBytes digest_zero) (pbrq_Missing r)) (\<lambda>missingDigests.
          bind_result (pk_FromBytes pk_zero (pbrq_Origin r)) (\<lambda>origin.
            Ok (requestMessage missingDigests origin))))"
| "fromMempoolPb None = Err ErroneousMessageType"

definition DeserializeMempoolMessage ::
  "('sk, 'p1, 'p2, 'agg, 'db, 'z) mp_env_scheme \<Rightarrow> byte list \<Rightarrow> (error, mempoolMessage) result" where
  "DeserializeMempoolMessage E data = (case pl_UnmarshalMempool E data of
     None \<Rightarrow> Err UnmarshalFailed | Some pmsg \<Rightarrow> fromMempoolPb (pbmm_Msg pmsg))"

interpretation mempool_codec: codec "\<lambda>m. pbmm_Msg (toMempoolPb m)" fromMempoolPb
proof unfold_locales
  show "fromMempoolPb (pbmm_Msg (toMempoolPb m)) = Ok m" for m
    by (cases m) (simp_all add: digest_codec.dec_list)
  show "p = pbmm_Msg (toMempoolPb m)" if "fromMempoolPb p = Ok m" for p m
    using that
    by (cases p rule: fromMempoolPb.cases)
      (auto simp: go_simps digest_codec.dec_list_Ok_iff split: option.splits)
qed

lemma Deserialize_Serialize_mempool:
  "mempool_proto_ok E \<Longrightarrow> serializeMempoolMessage E m = Ok data
    \<Longrightarrow> DeserializeMempoolMessage E data = Ok m"
  by (auto simp: serializeMempoolMessage_def DeserializeMempoolMessage_def mempool_proto_ok_def
      mempool_codec.dec_enc split: option.splits)

lemma serializeMempoolMessage_inject:
  assumes "mempool_proto_ok E" "serializeMempoolMessage E m = Ok data"
    and "serializeMempoolMessage E m' = Ok data"
  shows "m = m'"
  using Deserialize_Serialize_mempool [OF assms(1,2)] Deserialize_Serialize_mempool [OF assms(1,3)]
  by simp

lemma serializeMempoolMessage_no_panic: "serializeMempoolMessage E m \<noteq> Panic p"
  by (simp add: serializeMempoolMessage_def split: option.splits)

end
