(* ===== verification/Demo.thy ===== *)
theory Demo
  imports MempoolWire
begin

text \<open>
  An environment to compute with: the demonstration signature scheme of \<open>Crypto\<close>, a wire format in
  which a byte \<open>b\<close> of a field is sent as \<open>1, b\<close> and the end of the field as \<open>0\<close>, and a database that
  is a partial function. It shows that the hypotheses about the libraries can be met, and the
  witnesses of the development run on it.
\<close>

subsection \<open>A wire format\<close>

definition flat :: "byte list list \<Rightarrow> byte list" where
  "flat cs = concat (map (\<lambda>c. concat (map (\<lambda>b. [1, b]) c) @ [0]) cs)"

fun unflat :: "byte list \<Rightarrow> byte list \<Rightarrow> byte list list option" where
  "unflat cur [] = (if cur = [] then Some [] else None)"
| "unflat cur [x] = (if x = 0 then Some [cur] else None)"
| "unflat cur (x # b # xs) =
     (if x = 0 then map_option (Cons cur) (unflat [] (b # xs)) else unflat (cur @ [b]) xs)"

lemma unflat_end: "unflat cur (0 # xs) = map_option (Cons cur) (unflat [] xs)"
  by (cases xs) auto

lemma unflat_chunk:
  "unflat cur (concat (map (\<lambda>b. [1, b]) c) @ 0 # xs) = map_option (Cons (cur @ c)) (unflat [] xs)"
  by (induction c arbitrary: cur) (auto simp: unflat_end)

lemma unflat_flat [simp]: "unflat [] (flat cs) = Some cs"
  by (induction cs) (auto simp: flat_def unflat_chunk)

lemma those_map [simp]: "(\<And>x. f (g x) = Some x) \<Longrightarrow> those (map (f \<circ> g) xs) = Some xs"
  by (induction xs) auto

definition put_opt :: "('a \<Rightarrow> byte list) \<Rightarrow> 'a option \<Rightarrow> byte list" where
  "put_opt f x = (case x of None \<Rightarrow> [] | Some y \<Rightarrow> 1 # f y)"

fun get_opt :: "(byte list \<Rightarrow> 'a option) \<Rightarrow> byte list \<Rightarrow> 'a option option" where
  "get_opt f [] = Some None"
| "get_opt f (_ # c) = map_option Some (f c)"

lemma get_put_opt [simp]: "(\<And>x. f (g x) = Some x) \<Longrightarrow> get_opt f (put_opt g x) = Some x"
  by (cases x) (auto simp: put_opt_def)

definition put_qc :: "pb_QC \<Rightarrow> byte list" where
  "put_qc q = flat ([pbqc_Hash q, be64 (pbqc_Round q), pbqc_Signature q] @ pbqc_Voters q)"

definition get_qc :: "byte list \<Rightarrow> pb_QC option" where
  "get_qc c = (case unflat [] c of
     Some (h # r # s # vs) \<Rightarrow> Some \<lparr>pbqc_Hash = h, pbqc_Round = be_value 0 r, pbqc_Voters = vs,
       pbqc_Signature = s\<rparr>
   | _ \<Rightarrow> None)"

definition put_atr :: "pb_ATR \<Rightarrow> byte list" where
  "put_atr a = flat [pbatr_Name a, be64 (pbatr_Round a)]"

definition get_atr :: "byte list \<Rightarrow> pb_ATR option" where
  "get_atr c = (case unflat [] c of
     Some [n, r] \<Rightarrow> Some \<lparr>pbatr_Name = n, pbatr_Round = be_value 0 r\<rparr> | _ \<Rightarrow> None)"

definition put_tc :: "pb_TC \<Rightarrow> byte list" where
  "put_tc t = flat ([be64 (pbtc_Round t), pbtc_Signature t] @ map put_atr (pbtc_Atrs t))"

definition get_tc :: "byte list \<Rightarrow> pb_TC option" where
  "get_tc c = (case unflat [] c of
     Some (r # s # as) \<Rightarrow> map_option (\<lambda>atrs. \<lparr>pbtc_Round = be_value 0 r, pbtc_Atrs = atrs,
       pbtc_Signature = s\<rparr>) (those (map get_atr as))
   | _ \<Rightarrow> None)"

definition put_block :: "pb_Block \<Rightarrow> byte list" where
  "put_block b = flat ([put_opt put_qc (pbb_QuorumCert b), put_opt put_tc (pbb_TimeoutCert b),
     pbb_Author b, be64 (pbb_Round b), pbb_Signature b] @ pbb_Payload b)"

definition get_block :: "byte list \<Rightarrow> pb_Block option" where
  "get_block c = (case unflat [] c of
     Some (q # t # a # r # s # p) \<Rightarrow>
       (case (get_opt get_qc q, get_opt get_tc t) of
          (Some qc, Some tc) \<Rightarrow> Some \<lparr>pbb_QuorumCert = qc, pbb_TimeoutCert = tc, pbb_Author = a,
            pbb_Round = be_value 0 r, pbb_Payload = p, pbb_Signature = s\<rparr>
        | _ \<Rightarrow> None)
   | _ \<Rightarrow> None)"

definition put_vote :: "pb_Vote \<Rightarrow> byte list" where
  "put_vote v = flat [pbv_Hash v, be64 (pbv_Round v), pbv_Author v, pbv_Signature v]"

definition get_vote :: "byte list \<Rightarrow> pb_Vote option" where
  "get_vote c = (case unflat [] c of
     Some [h, r, a, s] \<Rightarrow> Some \<lparr>pbv_Hash = h, pbv_Round = be_value 0 r, pbv_Author = a,
       pbv_Signature = s\<rparr>
   | _ \<Rightarrow> None)"

definition put_timeout :: "pb_Timeout \<Rightarrow> byte list" where
  "put_timeout t = flat [put_opt put_qc (pbt_HighQC t), be64 (pbt_Round t), pbt_Author t,
     pbt_Signature t]"

definition get_timeout :: "byte list \<Rightarrow> pb_Timeout option" where
  "get_timeout c = (case unflat [] c of
     Some [q, r, a, s] \<Rightarrow> map_option (\<lambda>qc. \<lparr>pbt_HighQC = qc, pbt_Round = be_value 0 r,
       pbt_Author = a, pbt_Signature = s\<rparr>) (get_opt get_qc q)
   | _ \<Rightarrow> None)"

lemma get_put [simp]:
  "get_qc (put_qc q) = Some q" "get_atr (put_atr a) = Some a" "get_tc (put_tc t) = Some t"
  "get_block (put_block b) = Some b" "get_vote (put_vote v) = Some v"
  "get_timeout (put_timeout o') = Some o'"
proof -
  show qc: "get_qc (put_qc q) = Some q" for q by (simp add: get_qc_def put_qc_def)
  show atr: "get_atr (put_atr a) = Some a" for a by (simp add: get_atr_def put_atr_def)
  show tc: "get_tc (put_tc t) = Some t" for t by (simp add: get_tc_def put_tc_def atr)
  show "get_block (put_block b) = Some b" by (simp add: get_block_def put_block_def qc tc)
  show "get_vote (put_vote v) = Some v" by (simp add: get_vote_def put_vote_def)
  show "get_timeout (put_timeout o') = Some o'" by (simp add: get_timeout_def put_timeout_def qc)
qed

fun put_message :: "pb_Message \<Rightarrow> byte list list" where
  "put_message (PB_Testfield s) = [[1], bytes_of_string s]"
| "put_message (PB_Proposal b) = [[2], put_opt put_block b]"
| "put_message (PB_VMessage v) = [[3], put_opt put_vote v]"
| "put_message (PB_TMessage t) = [[4], put_opt put_timeout t]"
| "put_message (PB_TcMessage t) = [[5], put_opt put_tc t]"
| "put_message (PB_SrMessage d k) = [[6], d, k]"

definition get_message :: "byte list list \<Rightarrow> pb_Message option" where
  "get_message cs = (case cs of
     [[t], c] \<Rightarrow>
       (if t = 1 then Some (PB_Testfield (map (\<lambda>b. char_of (unat b)) c))
        else if t = 2 then map_option PB_Proposal (get_opt get_block c)
        else if t = 3 then map_option PB_VMessage (get_opt get_vote c)
        else if t = 4 then map_option PB_TMessage (get_opt get_timeout c)
        else map_option PB_TcMessage (get_opt get_tc c))
   | [[t], d, k] \<Rightarrow> Some (PB_SrMessage d k)
   | _ \<Rightarrow> None)"

lemma get_put_message: "get_message (put_message m) = Some m"
  by (cases m) (simp_all add: get_message_def bytes_of_string_def comp_def char_of_byte)

definition put_request :: "pb_Request \<Rightarrow> byte list" where
  "put_request r = flat (pbrq_Origin r # pbrq_Missing r)"

definition get_request :: "byte list \<Rightarrow> pb_Request option" where
  "get_request c = (case unflat [] c of
     Some (k # ds) \<Rightarrow> Some \<lparr>pbrq_Missing = ds, pbrq_Origin = k\<rparr> | _ \<Rightarrow> None)"

fun put_mempool :: "pb_MempoolMsg \<Rightarrow> byte list" where
  "put_mempool (PB_BatchMessage p) = 1 # put_opt pbba_Batch p"
| "put_mempool (PB_ReqMessage p) = 2 # put_opt put_request p"

fun get_mempool :: "byte list \<Rightarrow> pb_MempoolMsg option" where
  "get_mempool [] = None"
| "get_mempool (t # c) =
     (if t = 1 then map_option PB_BatchMessage (get_opt (\<lambda>b. Some \<lparr>pbba_Batch = b\<rparr>) c)
      else map_option PB_ReqMessage (get_opt get_request c))"

lemma get_put_mempool: "get_mempool (put_mempool m) = Some m"
proof -
  have "get_request (put_request r) = Some r" for r by (simp add: get_request_def put_request_def)
  then show ?thesis by (cases m) simp_all
qed

subsection \<open>The environment\<close>

type_synonym demo_db = "byte list \<Rightarrow> byte list option"

definition demo_env :: "(SecretKey, PublicKey, Signature, Signature option, demo_db) mp_env" where
  "demo_env = \<lparr>
     cl_Sum256 = cl_Sum256 demo_lib, cl_KeyGen = cl_KeyGen demo_lib,
     cl_SerializeSK = cl_SerializeSK demo_lib, cl_DeserializeSK = cl_DeserializeSK demo_lib,
     cl_FromSK = cl_FromSK demo_lib, cl_CompressP1 = cl_CompressP1 demo_lib,
     cl_UncompressP1 = cl_UncompressP1 demo_lib, cl_Sign = cl_Sign demo_lib,
     cl_CompressP2 = cl_CompressP2 demo_lib, cl_UncompressP2 = cl_UncompressP2 demo_lib,
     cl_VerifyCompressed = cl_VerifyCompressed demo_lib, cl_AggZero = cl_AggZero demo_lib,
     cl_AggAdd = cl_AggAdd demo_lib, cl_AggAggregate = cl_AggAggregate demo_lib,
     cl_ToAffine = cl_ToAffine demo_lib, cl_AggregateVerify = cl_AggregateVerify demo_lib,
     cl_FastAggregateVerify = cl_FastAggregateVerify demo_lib,
     pl_MarshalBlock = (\<lambda>b. Some (put_block b)), pl_UnmarshalBlock = get_block,
     pl_MarshalMessage = (\<lambda>m. Some (case pbm_Message m of None \<Rightarrow> [] | Some p \<Rightarrow> flat (put_message p))),
     pl_UnmarshalMessage = (\<lambda>bs. if bs = [] then Some \<lparr>pbm_Message = None\<rparr>
       else map_option (\<lambda>p. \<lparr>pbm_Message = Some p\<rparr>) (Option.bind (unflat [] bs) get_message)),
     db_Get = (\<lambda>db k. case db k of None \<Rightarrow> Inl PebbleNotFound | Some v \<Rightarrow> Inr v),
     db_Set = (\<lambda>db k v. db(k \<mapsto> v)),
     pl_MarshalMempool = (\<lambda>m. Some (case pbmm_Msg m of None \<Rightarrow> [] | Some p \<Rightarrow> put_mempool p)),
     pl_UnmarshalMempool = (\<lambda>bs. if bs = [] then Some \<lparr>pbmm_Msg = None\<rparr>
       else map_option (\<lambda>p. \<lparr>pbmm_Msg = Some p\<rparr>) (get_mempool bs))\<rparr>"

lemma flat_message_nonempty: "flat (put_message p) \<noteq> []"
  by (cases p) (simp_all add: flat_def)

lemma demo_proto_ok: "proto_ok demo_env"
  by (auto simp: proto_ok_def demo_env_def flat_message_nonempty get_put_message
      split: option.splits)

lemma put_mempool_nonempty: "put_mempool p \<noteq> []"
  by (cases p) simp_all

lemma demo_mempool_ok: "mempool_proto_ok demo_env"
  by (auto simp: mempool_proto_ok_def demo_env_def put_mempool_nonempty get_put_mempool
      split: option.splits)

lemma demo_serialize_mempool:
  "serializeMempoolMessage demo_env m = Ok (put_mempool (the (pbmm_Msg (toMempoolPb m))))"
  by (cases m) (simp_all add: serializeMempoolMessage_def demo_env_def)

lemma demo_pebble_ok: "pebble_ok demo_env"
  by (simp add: pebble_ok_def demo_env_def)

lemma demo_store_ok [simp]: "store_ok demo_env (NewStore Map.empty)"
  by (simp add: store_ok_def demo_pebble_ok NewStore_def)

text \<open>The cryptography of \<open>demo_env\<close> is that of \<open>demo_lib\<close>.\<close>

lemma demo_env_crypto [simp]:
  "NewDigest demo_env = NewDigest demo_lib" "Sign demo_env = Sign demo_lib"
  "Signature_Verify demo_env = Signature_Verify demo_lib"
  "AggregateSignature_Add demo_env = AggregateSignature_Add demo_lib"
  "ToSignature demo_env = ToSignature demo_lib"
  "FastAggregateVerify demo_env = FastAggregateVerify demo_lib"
  "AggregateVerify demo_env = AggregateVerify demo_lib"
  "cl_AggZero demo_env = cl_AggZero demo_lib"
  "cl_UncompressP2 demo_env = cl_UncompressP2 demo_lib"
  by (simp_all add: fun_eq_iff NewDigest_def Sign_def Signature_Verify_def
      AggregateSignature_Add_def ToSignature_def FastAggregateVerify_def AggregateVerify_def
      Let_def demo_env_def cong: option.case_cong)

lemma demo_env_bls_ok: "bls_ok demo_env"
  using demo_bls_ok
  by (simp add: bls_ok_def bls_decompress_ok_def bls_fast_aggregate_ok_def bls_aggregate_ok_def
      aggregate_of_def)

lemma demo_NewDigest: "NewDigest demo_lib bs = digest_copy digest_zero (rev bs)"
  by (simp add: NewDigest_def demo_lib_def)

lemma demo_Marshal [simp]: "Block_Serialize demo_env b = Ok (put_block (Block_toProto b))"
  by (simp add: Block_Serialize_def demo_env_def)

lemma demo_Unmarshal [simp]: "Block_Deserialize demo_env (put_block (Block_toProto b)) = Ok b"
  by (rule Block_Deserialize_Serialize [OF demo_proto_ok demo_Marshal])

lemma demo_Serialize_message: "\<exists>data. SerializeConsensusMessage demo_env m = Ok data"
  by (simp add: SerializeConsensusMessage_def demo_env_def)

lemma demo_Read_empty: "Store_Read demo_env (NewStore Map.empty) k = Inl ValueNotFound"
  by (simp add: Store_Read_eq NewStore_def) (simp add: demo_env_def)

text \<open>A committee of one authority with one unit of stake.\<close>

definition solo_committee :: Committee where
  "solo_committee = NewCommittee [\<lparr>ai_Author = demo_name 1, ai_Stake = 1, ai_Address = ''a''\<rparr>] 0"

lemma solo_entries: "cm_entries solo_committee = [(demo_name 1, \<lparr>au_Stake = 1, au_Address = ''a''\<rparr>)]"
  by (simp add: solo_committee_def NewCommittee_def impl_of_update DAList.empty.rep_eq)

lemma solo_members: "cm_members solo_committee = {demo_name 1}"
  by (simp add: cm_members_def solo_entries)

lemma solo_stake: "Committee_Stake solo_committee k = (if k = demo_name 1 then 1 else 0)"
  by (simp add: Committee_Stake_def lookup_impl_of solo_entries)

lemma solo_address: "Committee_Address solo_committee (demo_name 1) = (''a'', True)"
  by (simp add: Committee_Address_def lookup_impl_of solo_entries)

lemma solo_total: "total_stake solo_committee = 1"
  by (simp add: total_stake_def solo_members solo_stake)

lemma solo_fits [simp]: "stake_fits solo_committee"
  by (simp add: stake_fits_def solo_total)

lemma solo_threshold: "QuorumThreshold solo_committee = 1"
  by (simp add: QuorumThreshold_def solo_entries)

end
