(* ===== verification/Aggregator.thy ===== *)
theory Aggregator
  imports Messages
begin

text \<open>
  \<open>consensus/aggregator.go\<close>: the vote and timeout aggregators of a node. A maker collects the votes of
  one block (timeouts of one round) and yields a certificate when the collected stake reaches the
  quorum threshold; its weight is then reset to zero. The locale \<open>collector\<close> is the contract that
  \<open>qcMaker.append\<close> and \<open>tcMaker.append\<close> share, with the facts that follow from it: who is in a
  certificate, and that a maker yields at most one. The makers are pointers held in Go maps that no
  one else reaches, so updating the map entry is updating the object.
\<close>

subsection \<open>Makers\<close>

record 'agg qcMaker =
  qm_weight :: Stake
  qm_voters :: "PublicKey list"
  qm_used :: "PublicKey set"
  qm_aggregateSig :: 'agg

definition NewQcMaker :: "('sk, 'p1, 'p2, 'agg, 'z) crypto_lib_scheme \<Rightarrow> 'agg qcMaker" where
  "NewQcMaker L = \<lparr>qm_weight = 0, qm_voters = [], qm_used = {}, qm_aggregateSig = cl_AggZero L\<rparr>"

definition qcMaker_append ::
  "('sk, 'p1, 'p2, 'agg, 'z) crypto_lib_scheme \<Rightarrow> Committee \<Rightarrow> 'agg qcMaker \<Rightarrow> vote
     \<Rightarrow> 'agg qcMaker \<times> (error + QC option)" where
  "qcMaker_append L c maker v =
     (if v_author v \<in> qm_used maker then (maker, Inl (AppearsMultipleTimes (v_author v)))
      else
        let maker1 = maker\<lparr>qm_used := insert (v_author v) (qm_used maker),
                           qm_voters := qm_voters maker @ [v_author v],
                           qm_weight := qm_weight maker + Committee_Stake c (v_author v)\<rparr>;
            (sum1, err) = AggregateSignature_Add L (qm_aggregateSig maker1) (v_signature v);
            maker2 = maker1\<lparr>qm_aggregateSig := sum1\<rparr>
        in case err of
             Some e \<Rightarrow> (maker2, Inl e)
           | None \<Rightarrow>
               if qm_weight maker2 \<ge> QuorumThreshold c
               then (maker2\<lparr>qm_weight := 0\<rparr>,
                     Inr (Some \<lparr>qc_Hash = v_hash v, qc_Round = v_round v,
                                qc_Voters = qm_voters maker2,
                                qc_Signature = ToSignature L (qm_aggregateSig maker2)\<rparr>))
               else (maker2, Inr None))"

record 'agg tcMaker =
  tm_weight :: Stake
  tm_votes :: "authorityTimeoutRound list"
  tm_used :: "PublicKey set"
  tm_aggregateSig :: 'agg

definition NewTcMaker :: "('sk, 'p1, 'p2, 'agg, 'z) crypto_lib_scheme \<Rightarrow> 'agg tcMaker" where
  "NewTcMaker L = \<lparr>tm_weight = 0, tm_votes = [], tm_used = {}, tm_aggregateSig = cl_AggZero L\<rparr>"

definition tcMaker_append ::
  "('sk, 'p1, 'p2, 'agg, 'z) crypto_lib_scheme \<Rightarrow> Committee \<Rightarrow> 'agg tcMaker \<Rightarrow> timeout
     \<Rightarrow> 'agg tcMaker \<times> (error + TC option)" where
  "tcMaker_append L c maker t =
     (if t_author t \<in> tm_used maker then (maker, Inl (AppearsMultipleTimes (t_author t)))
      else
        let maker1 = maker\<lparr>tm_used := insert (t_author t) (tm_used maker),
                           tm_votes := tm_votes maker
                             @ [\<lparr>atr_name = t_author t, atr_round = qc_Round (t_highQC t)\<rparr>],
                           tm_weight := tm_weight maker + Committee_Stake c (t_author t)\<rparr>;
            (sum1, err) = AggregateSignature_Add L (tm_aggregateSig maker1) (t_signature t);
            maker2 = maker1\<lparr>tm_aggregateSig := sum1\<rparr>
        in case err of
             Some e \<Rightarrow> (maker2, Inl e)
           | None \<Rightarrow>
               if tm_weight maker2 \<ge> QuorumThreshold c
               then (maker2\<lparr>tm_weight := 0\<rparr>,
                     Inr (Some \<lparr>tc_Round = t_round t, tc_Votes = tm_votes maker2,
                                tc_Signature = ToSignature L (tm_aggregateSig maker2)\<rparr>))
               else (maker2, Inr None))"

subsection \<open>The aggregator\<close>

record 'agg aggregator =
  ag_committee :: Committee
  ag_voteAggregators :: "Round \<Rightarrow> (Digest \<Rightarrow> 'agg qcMaker option) option"
  ag_timeoutAggregators :: "Round \<Rightarrow> 'agg tcMaker option"

definition NewAggregator :: "Committee \<Rightarrow> 'agg aggregator" where
  "NewAggregator c = \<lparr>ag_committee = c, ag_voteAggregators = Map.empty,
     ag_timeoutAggregators = Map.empty\<rparr>"

definition AddVote ::
  "('sk, 'p1, 'p2, 'agg, 'z) crypto_lib_scheme \<Rightarrow> 'agg aggregator \<Rightarrow> vote
     \<Rightarrow> 'agg aggregator \<times> (error + QC option)" where
  "AddVote L a v =
     (let roundMap = (case ag_voteAggregators a (v_round v) of Some rm \<Rightarrow> rm | None \<Rightarrow> Map.empty);
          vdigest = vote_Digest L v;
          maker = (case roundMap vdigest of Some m \<Rightarrow> m | None \<Rightarrow> NewQcMaker L);
          (maker', res) = qcMaker_append L (ag_committee a) maker v
      in (a\<lparr>ag_voteAggregators :=
              (ag_voteAggregators a)(v_round v \<mapsto> roundMap(vdigest \<mapsto> maker'))\<rparr>, res))"

definition AddTimeout ::
  "('sk, 'p1, 'p2, 'agg, 'z) crypto_lib_scheme \<Rightarrow> 'agg aggregator \<Rightarrow> timeout
     \<Rightarrow> 'agg aggregator \<times> (error + TC option)" where
  "AddTimeout L a t =
     (let maker = (case ag_timeoutAggregators a (t_round t) of Some m \<Rightarrow> m | None \<Rightarrow> NewTcMaker L);
          (maker', res) = tcMaker_append L (ag_committee a) maker t
      in (a\<lparr>ag_timeoutAggregators := (ag_timeoutAggregators a)(t_round t \<mapsto> maker')\<rparr>, res))"

definition aggregator_cleanup :: "'agg aggregator \<Rightarrow> Round \<Rightarrow> 'agg aggregator" where
  "aggregator_cleanup a round =
     a\<lparr>ag_voteAggregators := (\<lambda>r. if r < round then None else ag_voteAggregators a r),
       ag_timeoutAggregators := (\<lambda>r. if r < round then None else ag_timeoutAggregators a r)\<rparr>"

subsection \<open>The contract of a maker\<close>

text \<open>\<open>collect f m vs\<close> feeds a list of votes to a maker and gathers the certificates it yields.\<close>

primrec collect ::
  "('m \<Rightarrow> 'v \<Rightarrow> 'm \<times> ('e + 'cert option)) \<Rightarrow> 'm \<Rightarrow> 'v list \<Rightarrow> 'm \<times> 'cert list" where
  "collect f m [] = (m, [])"
| "collect f m (v # vs) =
     (case f m v of (m1, r) \<Rightarrow>
      case collect f m1 vs of (m2, certs) \<Rightarrow>
        (m2, (case r of Inr (Some cert) \<Rightarrow> cert # certs | _ \<Rightarrow> certs)))"

locale collector =
  fixes author :: "'v \<Rightarrow> PublicKey"
    and names :: "'m \<Rightarrow> PublicKey list"
    and weight :: "'m \<Rightarrow> Stake"
    and wf :: "'m \<Rightarrow> bool"
    and app :: "Committee \<Rightarrow> 'm \<Rightarrow> 'v \<Rightarrow> 'm \<times> (error + 'cert option)"
    and cert_names :: "'cert \<Rightarrow> PublicKey list"
  assumes wf_distinct: "wf m \<Longrightarrow> distinct (names m)"
    and app_again:
      "wf m \<Longrightarrow> author v \<in> set (names m) \<Longrightarrow> app c m v = (m, Inl (AppearsMultipleTimes (author v)))"
    and app_new:
      "wf m \<Longrightarrow> author v \<notin> set (names m) \<Longrightarrow> app c m v = (m', r) \<Longrightarrow>
         wf m' \<and> names m' = names m @ [author v]"
    and app_certificate:
      "wf m \<Longrightarrow> app c m v = (m', Inr (Some cert)) \<Longrightarrow>
         cert_names cert = names m' \<and> weight m' = 0
         \<and> QuorumThreshold c \<le> weight m + Committee_Stake c (author v)"
    and app_pending:
      "wf m \<Longrightarrow> app c m v = (m', Inr None) \<Longrightarrow>
         weight m' = weight m + Committee_Stake c (author v) \<and> weight m' < QuorumThreshold c"
    and app_error:
      "wf m \<Longrightarrow> author v \<notin> set (names m) \<Longrightarrow> app c m v = (m', Inl e) \<Longrightarrow>
         weight m' = weight m + Committee_Stake c (author v)"
begin

text \<open>
  What a maker has counted: the weight is the stake of the collected names outside a set \<open>Q\<close>,
  which is empty before the certificate and holds the certificate's quorum after it.
\<close>

lemma weight_step:
  assumes "wf m" "author v \<notin> set (names m)" "stake_fits c" "Q \<subseteq> set (names m)"
    and "unat (weight m) = (\<Sum>k\<in>set (names m) - Q. unat (Committee_Stake c k))"
  shows "unat (weight m + Committee_Stake c (author v))
    = (\<Sum>k\<in>set (names m @ [author v]) - Q. unat (Committee_Stake c k))"
proof -
  let ?S = "insert (author v) (set (names m) - Q)"
  have "set (names m @ [author v]) - Q = ?S" using assms(2,4) by auto
  moreover have "(\<Sum>k\<in>?S. unat (Committee_Stake c k))
      = unat (weight m) + unat (Committee_Stake c (author v))"
    using assms(2,5) by simp
  moreover have "(\<Sum>k\<in>?S. unat (Committee_Stake c k)) < 2 ^ LENGTH(32)"
    using cq.weight_le_total [of ?S c] cq.total_fits [OF assms(3)] by simp
  ultimately show ?thesis by (simp add: unat_add_no_wrap)
qed

lemma none_after_certificate:
  assumes "wf m" "stake_fits c" "Q \<subseteq> set (names m)"
    and "unat (QuorumThreshold c) \<le> (\<Sum>k\<in>Q. unat (Committee_Stake c k))"
    and "unat (weight m) = (\<Sum>k\<in>set (names m) - Q. unat (Committee_Stake c k))"
  shows "snd (collect (app c) m vs) = []"
  using assms(1,3,5)
proof (induction vs arbitrary: m)
  case (Cons v vs)
  obtain m1 r where step: "app c m v = (m1, r)" by fastforce
  have fin: "finite Q" using Cons.prems(2) by (rule finite_subset) simp
  show ?case
  proof (cases "author v \<in> set (names m)")
    case True
    then have "m1 = m" "r = Inl (AppearsMultipleTimes (author v))"
      using app_again [OF Cons.prems(1)] step by auto
    with Cons step show ?thesis by (auto split: prod.splits)
  next
    case new: False
    note w = weight_step [OF Cons.prems(1) new assms(2) Cons.prems(2,3)]
    have m1: "wf m1" "names m1 = names m @ [author v]"
      using app_new [OF Cons.prems(1) new step] by auto
    have "(\<Sum>k\<in>set (names m @ [author v]) - Q. unat (Committee_Stake c k))
        < unat (QuorumThreshold c)"
      using assms(4) fin by (intro cq.disjoint_quorums_impossible [OF assms(2), of Q]) auto
    then have no: "\<not> QuorumThreshold c \<le> weight m + Committee_Stake c (author v)"
      using w by (simp add: word_le_nat_alt)
    have "weight m1 = weight m + Committee_Stake c (author v) \<and> (\<forall>cert. r \<noteq> Inr (Some cert))"
      using app_certificate [OF Cons.prems(1)] app_pending [OF Cons.prems(1)]
        app_error [OF Cons.prems(1) new] step no
      by (cases r; cases "projr r") auto
    moreover have "snd (collect (app c) m1 vs) = []"
      using m1 w calculation Cons.prems(2) by (intro Cons.IH) auto
    ultimately show ?thesis
      using step by (auto split: prod.splits sum.splits option.splits)
  qed
qed simp

lemma at_most_one_certificate:
  assumes "wf m" "stake_fits c"
    and "unat (weight m) = (\<Sum>k\<in>set (names m). unat (Committee_Stake c k))"
  shows "length (snd (collect (app c) m vs)) \<le> 1"
  using assms(1,3)
proof (induction vs arbitrary: m)
  case (Cons v vs)
  obtain m1 r where step: "app c m v = (m1, r)" by fastforce
  show ?case
  proof (cases "author v \<in> set (names m)")
    case True
    then have "m1 = m" "r = Inl (AppearsMultipleTimes (author v))"
      using app_again [OF Cons.prems(1)] step by auto
    with Cons step show ?thesis by (auto split: prod.splits)
  next
    case new: False
    have w: "unat (weight m + Committee_Stake c (author v))
        = (\<Sum>k\<in>set (names m @ [author v]). unat (Committee_Stake c k))"
      using weight_step [OF Cons.prems(1) new assms(2), of "{}"] Cons.prems(2) by simp
    have m1: "wf m1" "names m1 = names m @ [author v]"
      using app_new [OF Cons.prems(1) new step] by auto
    show ?thesis
    proof (cases "\<exists>cert. r = Inr (Some cert)")
      case True
      then have cert: "weight m1 = 0"
          "QuorumThreshold c \<le> weight m + Committee_Stake c (author v)"
        using app_certificate [OF Cons.prems(1)] step by auto
      have "snd (collect (app c) m1 vs) = []"
        using m1 cert w by (intro none_after_certificate [OF m1(1) assms(2), of "set (names m1)"])
          (auto simp: word_le_nat_alt)
      with step show ?thesis by (auto split: prod.splits sum.splits option.splits)
    next
      case False
      then have "weight m1 = weight m + Committee_Stake c (author v)"
        using app_pending [OF Cons.prems(1)] app_error [OF Cons.prems(1) new] step
        by (cases r; cases "projr r") auto
      then have "length (snd (collect (app c) m1 vs)) \<le> 1"
        using m1 w by (intro Cons.IH) auto
      with step False show ?thesis by (auto split: prod.splits sum.splits option.splits)
    qed
  qed
qed simp

text \<open>
  A quorum of votes that can be added yields exactly one certificate, in whatever order they come
  and however often they are repeated.
\<close>

lemma quorum_yields_certificate:
  assumes "wf m" "stake_fits c" "weight m < QuorumThreshold c"
    and "unat (weight m) = (\<Sum>k\<in>set (names m). unat (Committee_Stake c k))"
    and "\<And>v m m' e. v \<in> set vs \<Longrightarrow> wf m \<Longrightarrow> author v \<notin> set (names m) \<Longrightarrow> app c m v \<noteq> (m', Inl e)"
    and "unat (QuorumThreshold c) \<le>
      (\<Sum>k\<in>set (names m) \<union> author ` set vs. unat (Committee_Stake c k))"
  shows "length (snd (collect (app c) m vs)) = 1"
  using assms(1,3-6)
proof (induction vs arbitrary: m)
  case Nil
  then show ?case by (simp add: word_less_nat_alt)
next
  case (Cons v vs)
  obtain m1 r where step: "app c m v = (m1, r)" by fastforce
  have good: "u \<in> set vs \<Longrightarrow> wf n \<Longrightarrow> author u \<notin> set (names n) \<Longrightarrow> app c n u \<noteq> (n', Inl e)" for u n n' e
    using Cons.prems(4) by simp
  show ?case
  proof (cases "author v \<in> set (names m)")
    case True
    then have same: "m1 = m" "r = Inl (AppearsMultipleTimes (author v))"
      using app_again [OF Cons.prems(1)] step by auto
    have "set (names m) \<union> author ` set (v # vs) = set (names m) \<union> author ` set vs" using True by auto
    then have "length (snd (collect (app c) m vs)) = 1"
      using Cons.prems good by (intro Cons.IH) auto
    with same step show ?thesis by (auto split: prod.splits)
  next
    case new: False
    have w: "unat (weight m + Committee_Stake c (author v))
        = (\<Sum>k\<in>set (names m @ [author v]). unat (Committee_Stake c k))"
      using weight_step [OF Cons.prems(1) new assms(2), of "{}"] Cons.prems(3) by simp
    have m1: "wf m1" "names m1 = names m @ [author v]"
      using app_new [OF Cons.prems(1) new step] by auto
    obtain cert where r: "r = Inr cert"
      using Cons.prems(4) [of v m m1] Cons.prems(1) new step by (cases r) auto
    show ?thesis
    proof (cases cert)
      case None
      have "app c m v = (m1, Inr None)" using step r None by simp
      note pending = app_pending [OF Cons.prems(1) this]
      note p = conjunct1 [OF pending] conjunct2 [OF pending]
      have "set (names m1) \<union> author ` set vs = set (names m) \<union> author ` set (v # vs)"
        using m1(2) by auto
      then have "length (snd (collect (app c) m1 vs)) = 1"
        using m1 w p Cons.prems(5) good by (intro Cons.IH) auto
      with step r None show ?thesis by (auto split: prod.splits)
    next
      case (Some q)
      then have q: "weight m1 = 0" "QuorumThreshold c \<le> weight m + Committee_Stake c (author v)"
        using app_certificate [OF Cons.prems(1)] step r by auto
      have "snd (collect (app c) m1 vs) = []"
        using m1 q w by (intro none_after_certificate [OF m1(1) assms(2), of "set (names m1)"])
          (auto simp: word_le_nat_alt)
      with step r Some show ?thesis by (auto split: prod.splits)
    qed
  qed
qed

end

subsection \<open>Both makers meet the contract\<close>

text \<open>The names a maker marks as used are exactly those it has collected.\<close>

definition qm_wf :: "'agg qcMaker \<Rightarrow> bool" where
  "qm_wf m \<longleftrightarrow> distinct (qm_voters m) \<and> qm_used m = set (qm_voters m)"

definition tm_names :: "'agg tcMaker \<Rightarrow> PublicKey list" where
  "tm_names m = map atr_name (tm_votes m)"

definition tm_wf :: "'agg tcMaker \<Rightarrow> bool" where
  "tm_wf m \<longleftrightarrow> distinct (tm_names m) \<and> tm_used m = set (tm_names m)"

lemma qcMaker_append_used:
  "qm_wf m \<Longrightarrow> v_author v \<in> set (qm_voters m)
    \<Longrightarrow> qcMaker_append L c m v = (m, Inl (AppearsMultipleTimes (v_author v)))"
  by (simp add: qcMaker_append_def qm_wf_def)

lemma qcMaker_append_fresh:
  assumes "qm_wf m" "v_author v \<notin> set (qm_voters m)" "qcMaker_append L c m v = (m', r)"
  shows "qm_wf m' \<and> qm_voters m' = qm_voters m @ [v_author v]
    \<and> qm_aggregateSig m' = fst (AggregateSignature_Add L (qm_aggregateSig m) (v_signature v))
    \<and> (case r of
         Inl e \<Rightarrow> qm_weight m' = qm_weight m + Committee_Stake c (v_author v)
       | Inr None \<Rightarrow> qm_weight m' = qm_weight m + Committee_Stake c (v_author v)
           \<and> qm_weight m' < QuorumThreshold c
       | Inr (Some qc) \<Rightarrow> qm_weight m' = 0
           \<and> QuorumThreshold c \<le> qm_weight m + Committee_Stake c (v_author v)
           \<and> qc = \<lparr>qc_Hash = v_hash v, qc_Round = v_round v, qc_Voters = qm_voters m',
                   qc_Signature = ToSignature L (qm_aggregateSig m')\<rparr>)"
proof -
  have fresh: "v_author v \<notin> qm_used m" using assms(1,2) by (simp add: qm_wf_def)
  obtain s err where add: "AggregateSignature_Add L (qm_aggregateSig m) (v_signature v) = (s, err)"
    by fastforce
  define m2 where "m2 = m\<lparr>qm_used := insert (v_author v) (qm_used m),
    qm_voters := qm_voters m @ [v_author v],
    qm_weight := qm_weight m + Committee_Stake c (v_author v), qm_aggregateSig := s\<rparr>"
  have m2: "qm_used m2 = insert (v_author v) (qm_used m)" "qm_weight m2 = qm_weight m + Committee_Stake c (v_author v)"
    "qm_aggregateSig m2 = s" "qm_voters m2 = qm_voters m @ [v_author v]"
    by (simp_all add: m2_def)
  have eq: "qcMaker_append L c m v = (case err of
      Some e \<Rightarrow> (m2, Inl e)
    | None \<Rightarrow> if QuorumThreshold c \<le> qm_weight m2
        then (m2\<lparr>qm_weight := 0\<rparr>, Inr (Some \<lparr>qc_Hash = v_hash v, qc_Round = v_round v, qc_Voters = qm_voters m2,
                qc_Signature = ToSignature L (qm_aggregateSig m2)\<rparr>))
        else (m2, Inr None))"
    using fresh add
    by (cases err) (simp_all add: qcMaker_append_def Let_def m2_def cong: if_cong)
  have wf2: "qm_wf m2" using assms(1,2) m2 by (simp add: qm_wf_def)
  then have wf3: "qm_wf (m2\<lparr>qm_weight := 0\<rparr>)" by (simp add: qm_wf_def)
  consider (E) e where "err = Some e" | (Q) "err = None" "QuorumThreshold c \<le> qm_weight m2"
    | (P) "err = None" "\<not> QuorumThreshold c \<le> qm_weight m2" by (cases err) auto
  then show ?thesis
  proof cases
    case E
    then have "m' = m2" "r = Inl e" using eq assms(3) by simp_all
    then show ?thesis using wf2 m2 add by simp
  next
    case Q
    then have "m' = m2\<lparr>qm_weight := 0\<rparr>" "r = Inr (Some \<lparr>qc_Hash = v_hash v, qc_Round = v_round v, qc_Voters = qm_voters m2,
                qc_Signature = ToSignature L (qm_aggregateSig m2)\<rparr>)"
      using eq assms(3) by simp_all
    then show ?thesis using wf3 m2 add Q by simp
  next
    case P
    then have "m' = m2" "r = Inr None" using eq assms(3) by simp_all
    then show ?thesis using wf2 m2 add P by simp
  qed
qed

interpretation qm: collector v_author qm_voters qm_weight qm_wf "qcMaker_append L" qc_Voters
proof unfold_locales
  fix m c v m' cert
  assume *: "qm_wf m" "qcMaker_append L c m v = (m', Inr (Some cert))"
  then have "v_author v \<notin> set (qm_voters m)" by (auto simp: qcMaker_append_used)
  from qcMaker_append_fresh [OF *(1) this *(2)]
  show "qc_Voters cert = qm_voters m' \<and> qm_weight m' = 0
      \<and> QuorumThreshold c \<le> qm_weight m + Committee_Stake c (v_author v)" by auto
next
  fix m c v m' r
  assume *: "qm_wf m" "v_author v \<notin> set (qm_voters m)" "qcMaker_append L c m v = (m', r)"
  from qcMaker_append_fresh [OF this]
  show "qm_wf m' \<and> qm_voters m' = qm_voters m @ [v_author v]" by simp
next
  fix m c v m' e
  assume *: "qm_wf m" "v_author v \<notin> set (qm_voters m)" "qcMaker_append L c m v = (m', Inl e)"
  from qcMaker_append_fresh [OF this]
  show "qm_weight m' = qm_weight m + Committee_Stake c (v_author v)" by simp
next
  fix m c v m'
  assume *: "qm_wf m" "qcMaker_append L c m v = (m', Inr None)"
  then have "v_author v \<notin> set (qm_voters m)" by (auto simp: qcMaker_append_used)
  from qcMaker_append_fresh [OF *(1) this *(2)]
  show "qm_weight m' = qm_weight m + Committee_Stake c (v_author v)
      \<and> qm_weight m' < QuorumThreshold c" by auto
qed (simp_all add: qcMaker_append_used, simp add: qm_wf_def)

lemma tcMaker_append_used:
  "tm_wf m \<Longrightarrow> t_author t \<in> set (tm_names m)
    \<Longrightarrow> tcMaker_append L c m t = (m, Inl (AppearsMultipleTimes (t_author t)))"
  by (simp add: tcMaker_append_def tm_wf_def)

lemma tcMaker_append_fresh:
  assumes "tm_wf m" "t_author t \<notin> set (tm_names m)" "tcMaker_append L c m t = (m', r)"
  shows "tm_wf m'
    \<and> tm_votes m' = tm_votes m @ [\<lparr>atr_name = t_author t, atr_round = qc_Round (t_highQC t)\<rparr>]
    \<and> tm_aggregateSig m' = fst (AggregateSignature_Add L (tm_aggregateSig m) (t_signature t))
    \<and> (case r of
         Inl e \<Rightarrow> tm_weight m' = tm_weight m + Committee_Stake c (t_author t)
       | Inr None \<Rightarrow> tm_weight m' = tm_weight m + Committee_Stake c (t_author t)
           \<and> tm_weight m' < QuorumThreshold c
       | Inr (Some tc) \<Rightarrow> tm_weight m' = 0
           \<and> QuorumThreshold c \<le> tm_weight m + Committee_Stake c (t_author t)
           \<and> tc = \<lparr>tc_Round = t_round t, tc_Votes = tm_votes m',
                   tc_Signature = ToSignature L (tm_aggregateSig m')\<rparr>)"
proof -
  have fresh: "t_author t \<notin> tm_used m" using assms(1,2) by (simp add: tm_wf_def)
  obtain s err where add: "AggregateSignature_Add L (tm_aggregateSig m) (t_signature t) = (s, err)"
    by fastforce
  define m2 where "m2 = m\<lparr>tm_used := insert (t_author t) (tm_used m),
    tm_votes := tm_votes m @ [\<lparr>atr_name = t_author t, atr_round = qc_Round (t_highQC t)\<rparr>],
    tm_weight := tm_weight m + Committee_Stake c (t_author t), tm_aggregateSig := s\<rparr>"
  have m2: "tm_used m2 = insert (t_author t) (tm_used m)" "tm_weight m2 = tm_weight m + Committee_Stake c (t_author t)"
    "tm_aggregateSig m2 = s" "tm_votes m2 = tm_votes m @ [\<lparr>atr_name = t_author t, atr_round = qc_Round (t_highQC t)\<rparr>]"
    by (simp_all add: m2_def)
  have eq: "tcMaker_append L c m t = (case err of
      Some e \<Rightarrow> (m2, Inl e)
    | None \<Rightarrow> if QuorumThreshold c \<le> tm_weight m2
        then (m2\<lparr>tm_weight := 0\<rparr>, Inr (Some \<lparr>tc_Round = t_round t, tc_Votes = tm_votes m2,
                tc_Signature = ToSignature L (tm_aggregateSig m2)\<rparr>))
        else (m2, Inr None))"
    using fresh add
    by (cases err) (simp_all add: tcMaker_append_def Let_def m2_def cong: if_cong)
  have wf2: "tm_wf m2" using assms(1,2) m2 by (simp add: tm_wf_def tm_names_def)
  then have wf3: "tm_wf (m2\<lparr>tm_weight := 0\<rparr>)" by (simp add: tm_wf_def tm_names_def)
  consider (E) e where "err = Some e" | (Q) "err = None" "QuorumThreshold c \<le> tm_weight m2"
    | (P) "err = None" "\<not> QuorumThreshold c \<le> tm_weight m2" by (cases err) auto
  then show ?thesis
  proof cases
    case E
    then have "m' = m2" "r = Inl e" using eq assms(3) by simp_all
    then show ?thesis using wf2 m2 add by simp
  next
    case Q
    then have "m' = m2\<lparr>tm_weight := 0\<rparr>" "r = Inr (Some \<lparr>tc_Round = t_round t, tc_Votes = tm_votes m2,
                tc_Signature = ToSignature L (tm_aggregateSig m2)\<rparr>)"
      using eq assms(3) by simp_all
    then show ?thesis using wf3 m2 add Q by simp
  next
    case P
    then have "m' = m2" "r = Inr None" using eq assms(3) by simp_all
    then show ?thesis using wf2 m2 add P by simp
  qed
qed

interpretation tm: collector t_author tm_names tm_weight tm_wf "tcMaker_append L"
  "\<lambda>tc. map atr_name (tc_Votes tc)"
proof unfold_locales
  fix m c t m' cert
  assume *: "tm_wf m" "tcMaker_append L c m t = (m', Inr (Some cert))"
  then have "t_author t \<notin> set (tm_names m)" by (auto simp: tcMaker_append_used)
  from tcMaker_append_fresh [OF *(1) this *(2)]
  show "map atr_name (tc_Votes cert) = tm_names m' \<and> tm_weight m' = 0
      \<and> QuorumThreshold c \<le> tm_weight m + Committee_Stake c (t_author t)"
    by (auto simp: tm_names_def)
next
  fix m c t m'
  assume *: "tm_wf m" "tcMaker_append L c m t = (m', Inr None)"
  then have "t_author t \<notin> set (tm_names m)" by (auto simp: tcMaker_append_used)
  from tcMaker_append_fresh [OF *(1) this *(2)]
  show "tm_weight m' = tm_weight m + Committee_Stake c (t_author t)
      \<and> tm_weight m' < QuorumThreshold c" by auto
next
  fix m c t m' e
  assume *: "tm_wf m" "t_author t \<notin> set (tm_names m)" "tcMaker_append L c m t = (m', Inl e)"
  from tcMaker_append_fresh [OF this]
  show "tm_weight m' = tm_weight m + Committee_Stake c (t_author t)" by simp
next
  fix m c t m' r
  assume *: "tm_wf m" "t_author t \<notin> set (tm_names m)" "tcMaker_append L c m t = (m', r)"
  from tcMaker_append_fresh [OF this]
  show "tm_wf m' \<and> tm_names m' = tm_names m @ [t_author t]" by (simp add: tm_names_def)
qed (simp_all add: tcMaker_append_used, simp add: tm_wf_def)

subsection \<open>What the aggregator holds\<close>

text \<open>
  A maker for digest \<open>d\<close> is valid if its voters are distinct authorities with stake, its weight does
  not exceed their stake, and its aggregate is the sum of one verified signature on \<open>d\<close> for each.
  For timeouts the digest differs from author to author, with the round of the high QC.
\<close>

definition qm_valid ::
  "('sk, 'p1, 'p2, 'agg, 'z) crypto_lib_scheme \<Rightarrow> Committee \<Rightarrow> Digest \<Rightarrow> 'agg qcMaker \<Rightarrow> bool" where
  "qm_valid L c d m \<longleftrightarrow> qm_wf m \<and> (\<forall>v\<in>set (qm_voters m). Committee_Stake c v \<noteq> 0)
     \<and> unat (qm_weight m) \<le> voters_weight c (qm_voters m)
     \<and> (\<exists>ps. map fst ps = qm_voters m \<and> (\<forall>(pk, s)\<in>set ps. Signature_Verify L s d pk)
          \<and> qm_aggregateSig m = aggregate_of L (map snd ps))"

definition timeout_round_digest ::
  "('sk, 'p1, 'p2, 'agg, 'z) crypto_lib_scheme \<Rightarrow> Round \<Rightarrow> Round \<Rightarrow> Digest" where
  "timeout_round_digest L r q = NewDigest L (be64 r @ be64 q)"

definition tm_valid ::
  "('sk, 'p1, 'p2, 'agg, 'z) crypto_lib_scheme \<Rightarrow> Committee \<Rightarrow> Round \<Rightarrow> 'agg tcMaker \<Rightarrow> bool" where
  "tm_valid L c r m \<longleftrightarrow> tm_wf m \<and> (\<forall>v\<in>set (tm_names m). Committee_Stake c v \<noteq> 0)
     \<and> unat (tm_weight m) \<le> voters_weight c (tm_names m)
     \<and> (\<exists>ss. length ss = length (tm_votes m)
          \<and> (\<forall>(a, s)\<in>set (zip (tm_votes m) ss).
               Signature_Verify L s (timeout_round_digest L r (atr_round a)) (atr_name a))
          \<and> tm_aggregateSig m = aggregate_of L ss)"

definition aggregator_valid ::
  "('sk, 'p1, 'p2, 'agg, 'z) crypto_lib_scheme \<Rightarrow> 'agg aggregator \<Rightarrow> bool" where
  "aggregator_valid L a \<longleftrightarrow>
     (\<forall>r rm d m. ag_voteAggregators a r = Some rm \<longrightarrow> rm d = Some m
        \<longrightarrow> qm_valid L (ag_committee a) d m)
     \<and> (\<forall>r m. ag_timeoutAggregators a r = Some m \<longrightarrow> tm_valid L (ag_committee a) r m)"

lemma qm_valid_new: "qm_valid L c d (NewQcMaker L)"
  by (simp add: qm_valid_def qm_wf_def NewQcMaker_def)

lemma tm_valid_new: "tm_valid L c r (NewTcMaker L)"
  by (simp add: tm_valid_def tm_wf_def tm_names_def NewTcMaker_def)

lemma aggregator_valid_new: "aggregator_valid L (NewAggregator c)"
  by (simp add: aggregator_valid_def NewAggregator_def)

lemma unat_add_le: "unat (a + b) \<le> unat a + unat b"
  for a b :: "'w :: len word"
  by (metis le_trans mod_less_eq_dividend order_refl unat_word_ariths(1))

lemma voters_weight_snoc:
  "k \<notin> set vs \<Longrightarrow> voters_weight c (vs @ [k]) = voters_weight c vs + unat (Committee_Stake c k)"
  by (simp add: voters_weight_def)

lemma weight_after_append:
  assumes "unat w \<le> voters_weight c vs" "k \<notin> set vs"
  shows "unat (w + Committee_Stake c k) \<le> voters_weight c (vs @ [k])"
  using unat_add_le [of w "Committee_Stake c k"] assms by (simp add: voters_weight_snoc)

lemma qcMaker_append_valid:
  assumes "bls_ok L" "stake_fits c" "qm_valid L c d m"
    and "vote_verify L c v = None" "vote_Digest L v = d" "qcMaker_append L c m v = (m', r)"
  shows "qm_valid L c d m'"
    and "r = Inr (Some qc) \<Longrightarrow>
      QC_Verify L c qc = None \<and> qc_Hash qc = v_hash v \<and> qc_Round qc = v_round v"
proof -
  let ?a = "v_author v"
  have v: "Committee_Stake c ?a \<noteq> 0" "Signature_Verify L (v_signature v) d ?a"
    using assms(4,5) by (auto simp: vote_verify_None_iff)
  have wf: "qm_wf m" using assms(3) by (simp add: qm_valid_def)
  have both: "qm_valid L c d m' \<and> (\<forall>qc. r = Inr (Some qc) \<longrightarrow>
      QC_Verify L c qc = None \<and> qc_Hash qc = v_hash v \<and> qc_Round qc = v_round v)"
  proof (cases "?a \<in> set (qm_voters m)")
    case True
    with assms(3,6) qcMaker_append_used [OF wf True, of L c] show ?thesis by auto
  next
    case fresh: False
    note app = qcMaker_append_fresh [OF wf fresh assms(6)]
    obtain ps where ps: "map fst ps = qm_voters m"
        "\<forall>(pk, s)\<in>set ps. Signature_Verify L s d pk"
        "qm_aggregateSig m = aggregate_of L (map snd ps)"
      using assms(3) by (auto simp: qm_valid_def)
    let ?ps = "ps @ [(?a, v_signature v)]"
    have ps': "map fst ?ps = qm_voters m'" "\<forall>(pk, s)\<in>set ?ps. Signature_Verify L s d pk"
        "qm_aggregateSig m' = aggregate_of L (map snd ?ps)"
      using ps app v by auto
    have w: "unat (qm_weight m + Committee_Stake c ?a) \<le> voters_weight c (qm_voters m')"
      using assms(3) app fresh by (simp add: qm_valid_def weight_after_append)
    have w': "unat (qm_weight m') \<le> voters_weight c (qm_voters m')"
      using app w by (auto split: sum.splits option.splits)
    have stake: "\<forall>v\<in>set (qm_voters m'). Committee_Stake c v \<noteq> 0"
      using app v assms(3) by (auto simp: qm_valid_def)
    have valid: "qm_valid L c d m'"
      unfolding qm_valid_def using app stake w' ps' by blast
    moreover have "QC_Verify L c qc = None \<and> qc_Hash qc = v_hash v \<and> qc_Round qc = v_round v"
      if "r = Inr (Some qc)" for qc
    proof -
      from that app have qc: "QuorumThreshold c \<le> qm_weight m + Committee_Stake c ?a"
          "qc = \<lparr>qc_Hash = v_hash v, qc_Round = v_round v, qc_Voters = qm_voters m',
                 qc_Signature = ToSignature L (qm_aggregateSig m')\<rparr>" by auto
      have "distinct (qm_voters m')" using app unfolding qm_wf_def by blast
      then have "quorum_of c (qm_voters m')"
        using qc(1) w stake by (simp add: quorum_of_def word_le_nat_alt)
      moreover have "FastAggregateVerify L (ToSignature L (aggregate_of L (map snd ?ps))) d (map fst ?ps)"
        using ps'(2) by (intro bls_ok_fast [OF assms(1)]) simp_all
      moreover have "QC_Digest L qc = d"
        using qc(2) assms(5) by (simp add: QC_Digest_def vote_Digest_def)
      ultimately show ?thesis
        using qc(2) ps' by (simp add: QC_Verify_None_iff [OF assms(2)])
    qed
    ultimately show ?thesis by blast
  qed
  show "qm_valid L c d m'" using both by blast
  show "r = Inr (Some qc) \<Longrightarrow>
      QC_Verify L c qc = None \<and> qc_Hash qc = v_hash v \<and> qc_Round qc = v_round v"
    using both by blast
qed

lemma tcMaker_append_valid:
  assumes "bls_ok L" "stake_fits c" "tm_valid L c (t_round t) m"
    and "timeout_Verify L c t = None" "tcMaker_append L c m t = (m', r)"
  shows "tm_valid L c (t_round t) m'"
    and "r = Inr (Some tc) \<Longrightarrow> TC_Verify L c tc = None \<and> tc_Round tc = t_round t"
proof -
  let ?a = "t_author t" and ?D = "timeout_round_digest L (t_round t)"
  let ?e = "\<lparr>atr_name = ?a, atr_round = qc_Round (t_highQC t)\<rparr>"
  have v: "Committee_Stake c ?a \<noteq> 0"
      "Signature_Verify L (t_signature t) (?D (qc_Round (t_highQC t))) ?a"
    using assms(4) by (auto simp: timeout_Verify_None_iff timeout_Digest_def timeout_round_digest_def)
  have wf: "tm_wf m" using assms(3) by (simp add: tm_valid_def)
  have both: "tm_valid L c (t_round t) m' \<and> (\<forall>tc. r = Inr (Some tc) \<longrightarrow>
      TC_Verify L c tc = None \<and> tc_Round tc = t_round t)"
  proof (cases "?a \<in> set (tm_names m)")
    case True
    with assms(3,5) tcMaker_append_used [OF wf True, of L c] show ?thesis by auto
  next
    case fresh: False
    note app = tcMaker_append_fresh [OF wf fresh assms(5)]
    then have names: "tm_names m' = tm_names m @ [?a]" by (simp add: tm_names_def)
    obtain ss where ss: "length ss = length (tm_votes m)"
        "\<forall>(a, s)\<in>set (zip (tm_votes m) ss). Signature_Verify L s (?D (atr_round a)) (atr_name a)"
        "tm_aggregateSig m = aggregate_of L ss"
      using assms(3) by (auto simp: tm_valid_def)
    let ?ss = "ss @ [t_signature t]"
    have ss': "length ?ss = length (tm_votes m')"
        "\<forall>(a, s)\<in>set (zip (tm_votes m') ?ss). Signature_Verify L s (?D (atr_round a)) (atr_name a)"
        "tm_aggregateSig m' = aggregate_of L ?ss"
      using ss app v by auto
    have w: "unat (tm_weight m + Committee_Stake c ?a) \<le> voters_weight c (tm_names m')"
      using assms(3) names fresh by (simp add: tm_valid_def weight_after_append)
    have w': "unat (tm_weight m') \<le> voters_weight c (tm_names m')"
      using app w by (auto split: sum.splits option.splits)
    have stake: "\<forall>v\<in>set (tm_names m'). Committee_Stake c v \<noteq> 0"
      using names v assms(3) by (auto simp: tm_valid_def)
    have valid: "tm_valid L c (t_round t) m'"
      unfolding tm_valid_def using app stake w' ss' by blast
    moreover have "TC_Verify L c tc = None \<and> tc_Round tc = t_round t" if "r = Inr (Some tc)" for tc
    proof -
      from that app have tc: "QuorumThreshold c \<le> tm_weight m + Committee_Stake c ?a"
          "tc = \<lparr>tc_Round = t_round t, tc_Votes = tm_votes m',
                 tc_Signature = ToSignature L (tm_aggregateSig m')\<rparr>" by auto
      have "distinct (tm_names m')" using app by (simp add: tm_wf_def)
      then have q: "quorum_of c (tm_names m')"
        using tc(1) w stake by (simp add: quorum_of_def word_le_nat_alt)
      define ps where "ps = map (\<lambda>(a, s). (?D (atr_round a), atr_name a, s)) (zip (tm_votes m') ?ss)"
      have "ps \<noteq> []" using app by (simp add: ps_def ss(1))
      moreover have "\<forall>(d, pk, s)\<in>set ps. Signature_Verify L s d pk"
        using ss'(2) by (fastforce simp: ps_def)
      ultimately have "AggregateVerify L (ToSignature L (aggregate_of L (map (snd \<circ> snd) ps)))
          (map fst ps) (map (fst \<circ> snd) ps)"
        by (intro bls_ok_each [OF assms(1)])
      moreover have "map (snd \<circ> snd) ps = ?ss" "map fst ps = map (\<lambda>a. ?D (atr_round a)) (tm_votes m')"
          "map (fst \<circ> snd) ps = tm_names m'"
        using map_zip_snd [OF ss'(1) [symmetric], of "\<lambda>s. s"]
          map_zip_fst [OF ss'(1) [symmetric], of "\<lambda>a. ?D (atr_round a)"]
          map_zip_fst [OF ss'(1) [symmetric], of atr_name]
        by (simp_all add: ps_def tm_names_def comp_def case_prod_unfold)
      ultimately show ?thesis
        using tc(2) q ss'(3)
        by (simp add: TC_Verify_None_iff [OF assms(2)] tm_names_def timeout_round_digest_def)
    qed
    ultimately show ?thesis by blast
  qed
  show "tm_valid L c (t_round t) m'" using both by blast
  show "r = Inr (Some tc) \<Longrightarrow> TC_Verify L c tc = None \<and> tc_Round tc = t_round t"
    using both by blast
qed

lemma AddVote_valid:
  assumes "bls_ok L" "stake_fits (ag_committee a)" "aggregator_valid L a"
    and "vote_verify L (ag_committee a) v = None" "AddVote L a v = (a', r)"
  shows "aggregator_valid L a'" "ag_committee a' = ag_committee a"
    and "r = Inr (Some qc) \<Longrightarrow>
      QC_Verify L (ag_committee a) qc = None \<and> qc_Hash qc = v_hash v \<and> qc_Round qc = v_round v"
proof -
  define rm where "rm = (case ag_voteAggregators a (v_round v) of Some rm \<Rightarrow> rm | None \<Rightarrow> Map.empty)"
  define m where "m = (case rm (vote_Digest L v) of Some m \<Rightarrow> m | None \<Rightarrow> NewQcMaker L)"
  obtain m' where app: "qcMaker_append L (ag_committee a) m v = (m', r)"
      "a' = a\<lparr>ag_voteAggregators :=
              (ag_voteAggregators a)(v_round v \<mapsto> rm(vote_Digest L v \<mapsto> m'))\<rparr>"
    using assms(5) by (auto simp: AddVote_def rm_def m_def Let_def split: prod.splits)
  have rm: "rm d = Some k \<Longrightarrow> qm_valid L (ag_committee a) d k" for d k
    using assms(3) by (auto simp: rm_def aggregator_valid_def split: option.splits)
  have m: "qm_valid L (ag_committee a) (vote_Digest L v) m"
    using rm by (auto simp: m_def qm_valid_new split: option.splits)
  note valid = qcMaker_append_valid [OF assms(1,2) m assms(4) refl app(1)]
  show "aggregator_valid L a'"
    using assms(3) rm valid(1) app(2) by (auto simp: aggregator_valid_def split: if_splits)
  show "ag_committee a' = ag_committee a" using app(2) by simp
  show "r = Inr (Some qc) \<Longrightarrow>
      QC_Verify L (ag_committee a) qc = None \<and> qc_Hash qc = v_hash v \<and> qc_Round qc = v_round v"
    by (rule valid(2))
qed

lemma AddTimeout_valid:
  assumes "bls_ok L" "stake_fits (ag_committee a)" "aggregator_valid L a"
    and "timeout_Verify L (ag_committee a) t = None" "AddTimeout L a t = (a', r)"
  shows "aggregator_valid L a'" "ag_committee a' = ag_committee a"
    and "r = Inr (Some tc) \<Longrightarrow>
      TC_Verify L (ag_committee a) tc = None \<and> tc_Round tc = t_round t"
proof -
  define m where "m = (case ag_timeoutAggregators a (t_round t) of Some m \<Rightarrow> m | None \<Rightarrow> NewTcMaker L)"
  obtain m' where app: "tcMaker_append L (ag_committee a) m t = (m', r)"
      "a' = a\<lparr>ag_timeoutAggregators := (ag_timeoutAggregators a)(t_round t \<mapsto> m')\<rparr>"
    using assms(5) by (auto simp: AddTimeout_def m_def Let_def split: prod.splits)
  have m: "tm_valid L (ag_committee a) (t_round t) m"
    using assms(3) by (auto simp: m_def aggregator_valid_def tm_valid_new split: option.splits)
  note valid = tcMaker_append_valid [OF assms(1,2) m assms(4) app(1)]
  show "aggregator_valid L a'"
    using assms(3) valid(1) app(2) by (auto simp: aggregator_valid_def split: if_splits)
  show "ag_committee a' = ag_committee a" using app(2) by simp
  show "r = Inr (Some tc) \<Longrightarrow> TC_Verify L (ag_committee a) tc = None \<and> tc_Round tc = t_round t"
    by (rule valid(2))
qed

lemma aggregator_cleanup_valid:
  "aggregator_valid L a \<Longrightarrow> aggregator_valid L (aggregator_cleanup a r)"
  by (auto simp: aggregator_valid_def aggregator_cleanup_def split: if_splits)

lemma aggregator_cleanup_committee [simp]:
  "ag_committee (aggregator_cleanup a r) = ag_committee a"
  by (simp add: aggregator_cleanup_def)

subsection \<open>The aggregators of a node over its life\<close>

text \<open>
  What the core does to its aggregator: it adds votes and timeouts that it has verified, and cleans
  up when its round advances. Signatures with the right committee are all that gets in, so every
  state reached is valid.
\<close>

inductive aggregator_reach ::
  "('sk, 'p1, 'p2, 'agg, 'z) crypto_lib_scheme \<Rightarrow> Committee \<Rightarrow> 'agg aggregator \<Rightarrow> bool"
  for L c where
  reach_new: "aggregator_reach L c (NewAggregator c)"
| reach_vote:
    "aggregator_reach L c a \<Longrightarrow> vote_verify L c v = None \<Longrightarrow> AddVote L a v = (a', r) \<Longrightarrow>
     aggregator_reach L c a'"
| reach_timeout:
    "aggregator_reach L c a \<Longrightarrow> timeout_Verify L c t = None \<Longrightarrow> AddTimeout L a t = (a', r) \<Longrightarrow>
     aggregator_reach L c a'"
| reach_cleanup: "aggregator_reach L c a \<Longrightarrow> aggregator_reach L c (aggregator_cleanup a round)"

lemma aggregator_reach_valid:
  assumes "aggregator_reach L c a" "bls_ok L" "stake_fits c"
  shows "aggregator_valid L a \<and> ag_committee a = c"
  using assms(1)
proof (induction rule: aggregator_reach.induct)
  case reach_new
  show ?case by (simp add: aggregator_valid_new) (simp add: NewAggregator_def)
next
  case (reach_vote a v a' r)
  then show ?case using AddVote_valid [of L a v a' r] assms(2,3) by simp
next
  case (reach_timeout a t a' r)
  then show ?case using AddTimeout_valid [of L a t a' r] assms(2,3) by simp
next
  case (reach_cleanup a round)
  then show ?case by (simp add: aggregator_cleanup_valid)
qed

text \<open>A signature that verifies can be added.\<close>

lemma Add_verified:
  assumes "bls_ok L" "Signature_Verify L sig d pk"
  shows "snd (AggregateSignature_Add L s sig) = None"
  using assms by (auto simp: bls_ok_def bls_decompress_ok_def AggregateSignature_Add_def split: option.splits)

lemma qcMaker_append_verified:
  assumes "bls_ok L" "vote_verify L c v = None" "qm_wf m" "v_author v \<notin> set (qm_voters m)"
  shows "qcMaker_append L c m v \<noteq> (m', Inl e)"
proof -
  have "snd (AggregateSignature_Add L s (v_signature v)) = None" for s
    using assms(1,2) by (intro Add_verified) (auto simp: vote_verify_None_iff)
  then show ?thesis
    using assms(3,4) by (auto simp: qcMaker_append_def qm_wf_def Let_def case_prod_unfold split: if_splits)
qed

lemma qm_fresh [simp]: "qm_wf (NewQcMaker L)" "qm_voters (NewQcMaker L) = []" "qm_weight (NewQcMaker L) = 0"
  by (simp_all add: qm_wf_def NewQcMaker_def)

lemma tm_fresh [simp]: "tm_wf (NewTcMaker L)" "tm_names (NewTcMaker L) = []" "tm_weight (NewTcMaker L) = 0"
  by (simp_all add: tm_wf_def tm_names_def NewTcMaker_def)

lemma tcMaker_append_verified:
  assumes "bls_ok L" "timeout_Verify L c t = None" "tm_wf m" "t_author t \<notin> set (tm_names m)"
  shows "tcMaker_append L c m t \<noteq> (m', Inl e)"
proof -
  have "snd (AggregateSignature_Add L s (t_signature t)) = None" for s
    using assms(1,2) by (intro Add_verified) (auto simp: timeout_Verify_None_iff)
  then show ?thesis
    using assms(3,4) by (auto simp: tcMaker_append_def tm_wf_def Let_def case_prod_unfold split: if_splits)
qed

end
