(* ===== verification/Leader.thy ===== *)
theory Leader
  imports Messages "HOL-Library.Signed_Division"
begin

text \<open>
  \<open>consensus/leader.go\<close>: the round-robin leader elector. The index is computed in Go's \<open>int\<close>, 64 bits
  wide on the platforms the node runs on, with the truncating \<open>%\<close>; a round of \<open>2^63\<close> or more is a
  negative \<open>int\<close>, and the negative index that may follow is a panic. The locale \<open>leader_elector\<close> is
  the Go interface \<open>leaderElector\<close> with what its clients rely on.
\<close>

definition getLeader :: "Committee \<Rightarrow> Round \<Rightarrow> crash + PublicKey" where
  "getLeader c round =
     (let keys = sort (map fst (cm_entries c))
      in if Committee_Size c = 0 then Inl DivideByZero
         else let i = sint round smod int (Committee_Size c)
              in if i < 0 then Inl IndexOutOfRange else Inr (keys ! nat i))"

text \<open>The struct holds the committee, and \<open>getLeader\<close> is its method.\<close>

record rrLeaderElector =
  rle_committee :: Committee

definition NewRRLeaderElector :: "Committee \<Rightarrow> rrLeaderElector" where
  "NewRRLeaderElector committee = \<lparr>rle_committee = committee\<rparr>"

subsection \<open>The interface\<close>

locale leader_elector =
  fixes leader :: "'c \<Rightarrow> Round \<Rightarrow> crash + PublicKey"
    and members :: "'c \<Rightarrow> PublicKey set"
    and defined_at :: "'c \<Rightarrow> Round \<Rightarrow> bool"
  assumes finite_members: "finite (members c)"
    and leader_is_member: "defined_at c r \<Longrightarrow> \<exists>k\<in>members c. leader c r = Inr k"
    and everyone_leads:
      "(\<And>i. i < card (members c) \<Longrightarrow> defined_at c (r + of_nat i)) \<Longrightarrow> k \<in> members c
        \<Longrightarrow> \<exists>i<card (members c). leader c (r + of_nat i) = Inr k"
begin

text \<open>In a window of as many rounds as there are members, everyone leads exactly once.\<close>

lemma leads_once:
  assumes "\<And>i. i < card (members c) \<Longrightarrow> defined_at c (r + of_nat i)" "k \<in> members c"
  shows "\<exists>!i. i < card (members c) \<and> leader c (r + of_nat i) = Inr k"
proof -
  let ?n = "card (members c)"
  define f where "f i = (SOME k. leader c (r + of_nat i) = Inr k)" for i
  have f: "leader c (r + of_nat i) = Inr (f i)" if "i < ?n" for i
    using leader_is_member [OF assms(1) [OF that]] someI_ex [of "\<lambda>k. leader c (r + of_nat i) = Inr k"]
    by (auto simp: f_def)
  have "f ` {..<?n} = members c"
  proof (intro equalityI subsetI)
    show "x \<in> members c" if "x \<in> f ` {..<?n}" for x
      using that f leader_is_member assms(1) by fastforce
    show "x \<in> f ` {..<?n}" if "x \<in> members c" for x
      using everyone_leads [OF assms(1) that] f by force
  qed
  then have "card (f ` {..<?n}) = card {..<?n}" by simp
  then have "inj_on f {..<?n}" by (intro eq_card_imp_inj_on) auto
  moreover obtain i where "i < ?n" "leader c (r + of_nat i) = Inr k"
    using everyone_leads [OF assms] by blast
  ultimately show ?thesis
    using f by (intro ex1I [of _ i]) (auto simp: inj_on_def)
qed

end

subsection \<open>Round robin meets it\<close>

lemma sorted_keys: "sort (map fst (cm_entries c)) = sorted_list_of_set (cm_members c)"
  by (simp add: cm_members_def sorted_list_of_set_sort_remdups distinct_remdups_id
      flip: set_map)

lemma Committee_Size_card: "Committee_Size c = card (cm_members c)"
proof -
  have "card (set (map fst (cm_entries c))) = length (map fst (cm_entries c))"
    by (rule distinct_card) simp
  then show ?thesis by (simp add: Committee_Size_def cm_members_def)
qed

lemma sint_small: "unat r < 2 ^ 63 \<Longrightarrow> sint r = int (unat r)"
  for r :: u64
proof -
  assume "unat r < 2 ^ 63"
  then have "int (unat r) < int (2 ^ 63)" by (simp only: of_nat_less_iff)
  then have "uint r < 2 ^ 63" by simp
  then have "signed_take_bit 63 (uint r) = uint r"
    by (intro signed_take_bit_int_eq_self) (simp_all add: order.trans [OF _ uint_nonnegative])
  then show ?thesis by (simp add: sint_uint)
qed

lemma smod_nat: "0 < n \<Longrightarrow> int a smod int n = int (a mod n)"
  by (cases "a = 0") (simp_all add: signed_modulo_int_def zmod_int)

definition leader_defined :: "Committee \<Rightarrow> Round \<Rightarrow> bool" where
  "leader_defined c r \<longleftrightarrow> cm_members c \<noteq> {} \<and> unat r < 2 ^ 63"

lemma getLeader_small:
  assumes "leader_defined c r"
  shows "getLeader c r =
    Inr (sorted_list_of_set (cm_members c) ! (unat r mod card (cm_members c)))"
proof -
  have n: "0 < card (cm_members c)" using assms by (auto simp: leader_defined_def card_gt_0_iff)
  have "sint r smod int (card (cm_members c)) = int (unat r mod card (cm_members c))"
    using assms n sint_small [of r] smod_nat [OF n, of "unat r"] by (simp add: leader_defined_def)
  then show ?thesis
    using n assms
    by (simp only: getLeader_def sorted_keys Committee_Size_card Let_def)
      (simp add: leader_defined_def)
qed

lemma residue_in_window: "j < n \<Longrightarrow> \<exists>i<n. (a + i) mod n = j"
  for a j n :: nat
proof -
  assume j: "j < n"
  let ?i = "(j + (n - a mod n)) mod n"
  have "(a + ?i) mod n = (a mod n + (j + (n - a mod n))) mod n"
    by (metis mod_add_left_eq mod_add_right_eq)
  also have "a mod n + (j + (n - a mod n)) = j + n"
    using mod_less_divisor [of n a] j by linarith
  finally show ?thesis using j by (intro exI [of _ ?i]) simp
qed

lemma window_unat:
  fixes r :: u64
  assumes "\<And>i. i < n \<Longrightarrow> unat (r + of_nat i) < 2 ^ 63" "i < n"
  shows "unat (r + of_nat i) = unat r + i"
proof -
  have r: "unat r < 2 ^ 63" using assms(1) [of 0] assms(2) by simp
  have exact: "unat (r + of_nat j) = unat r + j" if "unat r + j < 2 ^ 64" for j
    using that by (simp add: unat_word_ariths unat_of_nat)
  have "unat r + i < 2 ^ 63"
  proof (rule ccontr)
    assume "\<not> ?thesis"
    then have "2 ^ 63 - unat r < n" using assms(2) by linarith
    from assms(1) [OF this] exact [of "2 ^ 63 - unat r"] r show False by simp
  qed
  then show ?thesis by (intro exact) simp
qed

interpretation rr: leader_elector getLeader cm_members leader_defined
proof unfold_locales
  show "finite (cm_members c)" for c by simp
  show "\<exists>k\<in>cm_members c. getLeader c r = Inr k" if "leader_defined c r" for c r
  proof -
    have "0 < card (cm_members c)" using that by (auto simp: leader_defined_def card_gt_0_iff)
    then have "sorted_list_of_set (cm_members c) ! (unat r mod card (cm_members c))
        \<in> set (sorted_list_of_set (cm_members c))"
      by (intro nth_mem) simp
    then show ?thesis by (simp add: getLeader_small [OF that])
  qed
next
  fix c r k
  assume w: "\<And>i. i < card (cm_members c) \<Longrightarrow> leader_defined c (r + of_nat i)"
    and k: "k \<in> cm_members c"
  show "\<exists>i<card (cm_members c). getLeader c (r + of_nat i) = Inr k"
  proof -
    let ?n = "card (cm_members c)"
    obtain j where j: "j < ?n" "sorted_list_of_set (cm_members c) ! j = k"
      using k by (metis finite_cm_members in_set_conv_nth length_sorted_list_of_set
          set_sorted_list_of_set)
    obtain i where i: "i < ?n" "(unat r + i) mod ?n = j"
      using residue_in_window [OF j(1)] by blast
    have "unat (r + of_nat i) = unat r + i"
      using w i(1) by (intro window_unat [of ?n]) (auto simp: leader_defined_def)
    then show ?thesis
      using i j w [OF i(1)] by (intro exI [of _ i]) (simp add: getLeader_small)
  qed
qed

end
