(* ===== verification/Synchronizer.thy ===== *)
theory Synchronizer
  imports Store
begin

text \<open>
  \<open>consensus/synchronizer.go\<close>: fetching missing ancestors. \<open>getParentBlock\<close> and \<open>getAncestors\<close> read the
  store and put a block whose parent is missing on the synchronizer's inner channel; the second
  component of their result lists the blocks sent there. The goroutine started by \<open>NewSynchronizer\<close>
  keeps the suspended blocks and the outstanding requests; its three cases are \<open>sync_inner\<close>,
  \<open>sync_waiting\<close> and \<open>sync_timer\<close>, and \<open>sync_step\<close> is the goroutine together with its \<open>blockWaiter\<close>
  goroutines and the store they wait on. Milliseconds are \<open>int64\<close>, so \<open>u64\<close> compared as signed.
\<close>

subsection \<open>Reading ancestors\<close>

definition getParentBlock ::
  "('sk, 'p1, 'p2, 'agg, 'db, 'z) env_scheme \<Rightarrow> 'db store \<Rightarrow> Block
     \<Rightarrow> (error, Block) result \<times> Block list" where
  "getParentBlock E s block =
     (if IsGenesisQC (blk_Qc block) then (Ok GenesisBlock, [])
      else case Store_Read E s (digest_bytes (Parent block)) of
             Inl err \<Rightarrow> (Err err, if err = ValueNotFound then [block] else [])
           | Inr bytes \<Rightarrow> (Block_Deserialize E bytes, []))"

definition getAncestors ::
  "('sk, 'p1, 'p2, 'agg, 'db, 'z) env_scheme \<Rightarrow> 'db store \<Rightarrow> Block
     \<Rightarrow> (error, Block \<times> Block) result \<times> Block list" where
  "getAncestors E s block =
     (case getParentBlock E s block of
        (Err err, sent) \<Rightarrow> (Err err, sent)
      | (Panic p, sent) \<Rightarrow> (Panic p, sent)
      | (Ok b1, sent) \<Rightarrow>
          (case getParentBlock E s b1 of
             (Err err, sent1) \<Rightarrow> (Panic LogFatal, sent @ sent1)
           | (Panic p, sent1) \<Rightarrow> (Panic p, sent @ sent1)
           | (Ok b0, sent1) \<Rightarrow> (Ok (b0, b1), sent @ sent1)))"

subsection \<open>The synchronizer goroutine\<close>

record sync_state =
  sn_pending :: "Digest set"
  sn_requests :: "(Digest, u64) DAList.alist"

datatype sync_effect =
    SpawnBlockWaiter Digest Block
  | SyncSend PeerID "byte list"
  | SyncBroadcast "PeerID list" "byte list"
  | SyncLoopback Block

definition sync_init :: sync_state where
  "sync_init = \<lparr>sn_pending = {}, sn_requests = DAList.empty\<rparr>"

definition sync_inner ::
  "('sk, 'p1, 'p2, 'agg, 'z) proto_lib_scheme \<Rightarrow> PublicKey \<Rightarrow> Committee \<Rightarrow> sync_state \<Rightarrow> Block \<Rightarrow> u64
     \<Rightarrow> (error, sync_state \<times> sync_effect list) result" where
  "sync_inner E name committee s block now =
     (let blockDigest = Block_Digest E block
      in if blockDigest \<in> sn_pending s then Ok (s, [])
         else
           let s1 = s\<lparr>sn_pending := insert blockDigest (sn_pending s)\<rparr>;
               parent = Parent block;
               author = blk_Author block;
               spawned = [SpawnBlockWaiter parent block]
           in case DAList.lookup (sn_requests s1) parent of
                Some _ \<Rightarrow> Ok (s1, spawned)
              | None \<Rightarrow>
                  let s2 = s1\<lparr>sn_requests := DAList.update parent now (sn_requests s1)\<rparr>;
                      (address, ok) = Committee_Address committee author
                  in if \<not> ok then Panic LogFatal
                     else case SerializeConsensusMessage E (syncRequestMessage parent name) of
                            Ok message \<Rightarrow> Ok (s2, spawned @ [SyncSend address message])
                          | _ \<Rightarrow> Panic LogFatal)"

definition sync_waiting ::
  "('sk, 'p1, 'p2, 'agg, 'z) crypto_lib_scheme \<Rightarrow> sync_state \<Rightarrow> Block
     \<Rightarrow> sync_state \<times> sync_effect list" where
  "sync_waiting E s block =
     (s\<lparr>sn_pending := sn_pending s - {Block_Digest E block},
        sn_requests := DAList.delete (Parent block) (sn_requests s)\<rparr>,
      [SyncLoopback block])"

text \<open>The retry loop over the requests; \<open>now d\<close> is the clock reading in the iteration for \<open>d\<close>.\<close>

fun sync_retry ::
  "('sk, 'p1, 'p2, 'agg, 'z) proto_lib_scheme \<Rightarrow> PublicKey \<Rightarrow> Committee \<Rightarrow> u64 \<Rightarrow> (Digest \<Rightarrow> u64)
     \<Rightarrow> (Digest \<times> u64) list \<Rightarrow> (error, sync_effect list) result" where
  "sync_retry E name committee delay now [] = Ok []"
| "sync_retry E name committee delay now ((digest, timestamp) # rest) =
     (if timestamp + delay <s now digest
      then let (_, addresses) = BroadcastAddresses committee name
           in case SerializeConsensusMessage E (syncRequestMessage digest name) of
                Ok message \<Rightarrow>
                  bind_result (sync_retry E name committee delay now rest)
                    (\<lambda>out. Ok (SyncBroadcast addresses message # out))
              | _ \<Rightarrow> Panic LogFatal
      else sync_retry E name committee delay now rest)"

definition sync_timer ::
  "('sk, 'p1, 'p2, 'agg, 'z) proto_lib_scheme \<Rightarrow> PublicKey \<Rightarrow> Committee \<Rightarrow> u64 \<Rightarrow> sync_state
     \<Rightarrow> (Digest \<Rightarrow> u64) \<Rightarrow> (error, sync_state \<times> sync_effect list) result" where
  "sync_timer E name committee syncRetryDelay s now =
     bind_result (sync_retry E name committee syncRetryDelay now (DAList.impl_of (sn_requests s)))
       (\<lambda>out. Ok (s, out))"

text \<open>
  The goroutine with its waiters and the keys the store holds. A \<open>blockWaiter\<close> may deliver once the
  key it waits on has been written, and ends without delivering when \<open>NotifyRead\<close> returns an error of
  the database, which may happen at any time. \<open>ss_failed\<close> records the waiters that ended so; no code
  reads it.
\<close>

record sync_sys =
  ss_state :: sync_state
  ss_waiters :: "(Digest \<times> Block) list"
  ss_failed :: "(Digest \<times> Block) list"
  ss_stored :: "Digest set"
  ss_out :: "sync_effect list"

definition spawned_waiters :: "sync_effect list \<Rightarrow> (Digest \<times> Block) list" where
  "spawned_waiters effs =
     concat (map (\<lambda>e. case e of SpawnBlockWaiter p b \<Rightarrow> [(p, b)] | _ \<Rightarrow> []) effs)"

inductive sync_step ::
  "('sk, 'p1, 'p2, 'agg, 'z) proto_lib_scheme \<Rightarrow> PublicKey \<Rightarrow> Committee \<Rightarrow> u64
     \<Rightarrow> sync_sys \<Rightarrow> sync_sys \<Rightarrow> bool"
  for E name committee delay where
  suspend:
    "sync_inner E name committee (ss_state y) b now = Ok (s', effs) \<Longrightarrow>
     sync_step E name committee delay y
       (y\<lparr>ss_state := s', ss_waiters := ss_waiters y @ spawned_waiters effs,
          ss_out := ss_out y @ effs\<rparr>)"
| deliver:
    "(p, b) \<in> set (ss_waiters y) \<Longrightarrow> p \<in> ss_stored y \<Longrightarrow>
     sync_waiting E (ss_state y) b = (s', effs) \<Longrightarrow>
     sync_step E name committee delay y
       (y\<lparr>ss_state := s', ss_waiters := remove1 (p, b) (ss_waiters y), ss_out := ss_out y @ effs\<rparr>)"
| waiter_error:
    "(p, b) \<in> set (ss_waiters y) \<Longrightarrow>
     sync_step E name committee delay y
       (y\<lparr>ss_waiters := remove1 (p, b) (ss_waiters y), ss_failed := ss_failed y @ [(p, b)]\<rparr>)"
| retry:
    "sync_timer E name committee delay (ss_state y) now = Ok (s', effs) \<Longrightarrow>
     sync_step E name committee delay y (y\<lparr>ss_state := s', ss_out := ss_out y @ effs\<rparr>)"
| stored:
    "sync_step E name committee delay y (y\<lparr>ss_stored := insert d (ss_stored y)\<rparr>)"

inductive sync_reachable ::
  "('sk, 'p1, 'p2, 'agg, 'z) proto_lib_scheme \<Rightarrow> PublicKey \<Rightarrow> Committee \<Rightarrow> u64 \<Rightarrow> sync_sys \<Rightarrow> bool"
  for E name committee delay where
  sync_start: "sync_reachable E name committee delay
     \<lparr>ss_state = sync_init, ss_waiters = [], ss_failed = [], ss_stored = D, ss_out = []\<rparr>"
| sync_next: "sync_reachable E name committee delay y \<Longrightarrow> sync_step E name committee delay y z \<Longrightarrow>
     sync_reachable E name committee delay z"

subsection \<open>Ancestors\<close>

lemma getParentBlock_Ok_sends_nothing:
  "getParentBlock E s b = (Ok p, sent) \<Longrightarrow> sent = []"
  by (auto simp: getParentBlock_def split: if_splits sum.splits)

lemma getParentBlock_cases:
  "getParentBlock E s b = (Ok p, sent) \<longleftrightarrow> sent = [] \<and>
     (if IsGenesisQC (blk_Qc b) then p = GenesisBlock
      else \<exists>bytes. Store_Read E s (digest_bytes (Parent b)) = Inr bytes
             \<and> Block_Deserialize E bytes = Ok p)"
  by (auto simp: getParentBlock_def split: if_splits sum.splits)

lemma getAncestors_Ok_iff:
  "getAncestors E s b = (Ok (b0, b1), sent) \<longleftrightarrow>
     sent = [] \<and> getParentBlock E s b = (Ok b1, []) \<and> getParentBlock E s b1 = (Ok b0, [])"
proof -
  obtain r1 o1 where 1: "getParentBlock E s b = (r1, o1)" by fastforce
  obtain r0 o0 where 0: "getParentBlock E s (case r1 of Ok x \<Rightarrow> x) = (r0, o0)" by fastforce
  show ?thesis
    using 1 0
    by (cases r1; cases r0)
      (auto simp: getAncestors_def dest: getParentBlock_Ok_sends_nothing)
qed

text \<open>The values of the store are serialized blocks under their digest.\<close>

lemma getParentBlock_stored:
  assumes "proto_ok E" "store_ok E s" "Block_Serialize E p = Ok bytes"
    and "\<not> IsGenesisQC (blk_Qc b)" "Parent b = Block_Digest E p"
  shows "getParentBlock E (Store_Write E s (digest_bytes (Block_Digest E p)) bytes) b = (Ok p, [])"
  using assms by (simp add: getParentBlock_cases st.get_put Block_Deserialize_Serialize)

subsection \<open>Invariant of the synchronizer\<close>

text \<open>
  The pending digests are those of the blocks whose waiter waits or has failed, no digest has two of
  these, every waiter is for its block's parent, and requests are outstanding only for parents of such
  blocks. A block is given back only when its parent is stored, and a block that got a waiter waits,
  was given back, or its waiter failed.
\<close>

definition held_blocks :: "sync_sys \<Rightarrow> (Digest \<times> Block) list" where
  "held_blocks y = ss_waiters y @ ss_failed y"

definition sync_inv :: "('sk, 'p1, 'p2, 'agg, 'z) crypto_lib_scheme \<Rightarrow> sync_sys \<Rightarrow> bool" where
  "sync_inv E y \<longleftrightarrow>
     sn_pending (ss_state y) = (\<lambda>(p, b). Block_Digest E b) ` set (held_blocks y)
     \<and> distinct (map (\<lambda>(p, b). Block_Digest E b) (held_blocks y))
     \<and> (\<forall>(p, b)\<in>set (held_blocks y). p = Parent b)
     \<and> (\<forall>d. DAList.lookup (sn_requests (ss_state y)) d \<noteq> None \<longrightarrow> d \<in> fst ` set (held_blocks y))
     \<and> (\<forall>b. SyncLoopback b \<in> set (ss_out y) \<longrightarrow> Parent b \<in> ss_stored y)
     \<and> (\<forall>p b. SpawnBlockWaiter p b \<in> set (ss_out y) \<longrightarrow>
          (p, b) \<in> set (held_blocks y) \<or> SyncLoopback b \<in> set (ss_out y))"

lemma in_spawned_waiters: "(p, b) \<in> set (spawned_waiters effs) \<longleftrightarrow> SpawnBlockWaiter p b \<in> set effs"
  by (induction effs) (auto simp: spawned_waiters_def split: sync_effect.splits)

lemma spawned_waiters_Nil [simp]: "spawned_waiters [] = []"
  by (simp add: spawned_waiters_def)

lemma sync_inner_cases:
  assumes "sync_inner E name c s b now = Ok (s', effs)"
  shows "(Block_Digest E b \<in> sn_pending s \<and> s' = s \<and> effs = [])
    \<or> (Block_Digest E b \<notin> sn_pending s
       \<and> sn_pending s' = insert (Block_Digest E b) (sn_pending s)
       \<and> spawned_waiters effs = [(Parent b, b)]
       \<and> (\<forall>b'. SyncLoopback b' \<notin> set effs)
       \<and> (\<forall>d. DAList.lookup (sn_requests s') d \<noteq> None \<longrightarrow>
             d = Parent b \<or> DAList.lookup (sn_requests s) d \<noteq> None))"
  using assms
  by (auto simp: sync_inner_def Let_def spawned_waiters_def DAList.lookup_update
      split: if_splits option.splits prod.splits result.splits)

lemma sync_retry_no_loopback:
  "sync_retry E name c delay now reqs = Ok effs \<Longrightarrow>
     (\<forall>b. SyncLoopback b \<notin> set effs) \<and> spawned_waiters effs = []"
  by (induction E name c delay now reqs arbitrary: effs rule: sync_retry.induct)
    (auto simp: go_simps spawned_waiters_def split: if_splits prod.splits result.splits)

lemma sync_inv_held:
  assumes "sync_inv E y" "set (held_blocks z) = set (held_blocks y)" "distinct (held_blocks z)"
    and "ss_state z = ss_state y" "ss_out z = ss_out y" "ss_stored y \<subseteq> ss_stored z"
  shows "sync_inv E z"
  using assms unfolding sync_inv_def distinct_map by auto

lemma sync_step_inv:
  assumes "sync_step E name c delay y z" "sync_inv E y"
  shows "sync_inv E z"
  using assms
proof (induction rule: sync_step.induct)
  case (suspend y b now s' effs)
  from sync_inner_cases [OF suspend.hyps] show ?case
  proof
    assume "Block_Digest E b \<in> sn_pending (ss_state y) \<and> s' = ss_state y \<and> effs = []"
    then show ?thesis using suspend.prems by (simp add: sync_inv_def held_blocks_def)
  next
    assume new: "Block_Digest E b \<notin> sn_pending (ss_state y)
       \<and> sn_pending s' = insert (Block_Digest E b) (sn_pending (ss_state y))
       \<and> spawned_waiters effs = [(Parent b, b)]
       \<and> (\<forall>b'. SyncLoopback b' \<notin> set effs)
       \<and> (\<forall>d. DAList.lookup (sn_requests s') d \<noteq> None \<longrightarrow>
             d = Parent b \<or> DAList.lookup (sn_requests (ss_state y)) d \<noteq> None)"
    let ?z = "y\<lparr>ss_state := s', ss_waiters := ss_waiters y @ spawned_waiters effs, ss_out := ss_out y @ effs\<rparr>"
    have held: "set (held_blocks ?z) = insert (Parent b, b) (set (held_blocks y))"
      using new by (simp add: held_blocks_def)
    have dist: "distinct (map (\<lambda>(p, b). Block_Digest E b) (held_blocks ?z))"
      using new suspend.prems by (auto simp: sync_inv_def held_blocks_def)
    have spawned: "SpawnBlockWaiter p b' \<in> set effs \<longleftrightarrow> p = Parent b \<and> b' = b" for p b'
      using new by (simp flip: in_spawned_waiters)
    show ?thesis
      using suspend.prems new dist spawned unfolding sync_inv_def held by (auto simp del: not_None_eq)
  qed
next
  case (deliver p b y s' effs)
  let ?hs = "held_blocks y" and ?f = "\<lambda>(p, b). Block_Digest E b"
  let ?z = "y\<lparr>ss_state := s', ss_waiters := remove1 (p, b) (ss_waiters y), ss_out := ss_out y @ effs\<rparr>"
  have held: "held_blocks ?z = remove1 (p, b) ?hs"
    using deliver.hyps(1) by (simp add: held_blocks_def remove1_append)
  have mem: "(p, b) \<in> set ?hs" using deliver.hyps(1) by (simp add: held_blocks_def)
  have inv: "distinct (map ?f ?hs)" "p = Parent b"
    using deliver.prems mem by (auto simp: sync_inv_def)
  have dist: "distinct ?hs" "inj_on ?f (set ?hs)" using inv(1) by (simp_all add: distinct_map)
  have rest: "set (remove1 (p, b) ?hs) = set ?hs - {(p, b)}" using dist(1) by simp
  have "?f ` (set ?hs - {(p, b)}) = ?f ` set ?hs - {Block_Digest E b}"
    using inj_on_image_set_diff [OF dist(2), of "set ?hs" "{(p, b)}"] mem by auto
  moreover have "distinct (map ?f (remove1 (p, b) ?hs))"
    using dist by (simp add: distinct_map inj_on_subset [OF dist(2)] set_remove1_subset)
  moreover have "fst ` set ?hs - {Parent b} \<subseteq> fst ` (set ?hs - {(Parent b, b)})"
    by force
  ultimately show ?case
    using deliver inv(2) unfolding sync_inv_def held rest
    by (auto simp: sync_waiting_def split: if_splits)
next
  case (waiter_error p b y)
  let ?z = "y\<lparr>ss_waiters := remove1 (p, b) (ss_waiters y), ss_failed := ss_failed y @ [(p, b)]\<rparr>"
  have "distinct (held_blocks y)" using waiter_error.prems by (simp add: sync_inv_def distinct_map)
  then have "set (held_blocks ?z) = set (held_blocks y)" "distinct (held_blocks ?z)"
    using waiter_error.hyps by (auto simp: held_blocks_def distinct_remove1)
  then show ?case by (rule sync_inv_held [OF waiter_error.prems]) simp_all
next
  case (retry y now s' effs)
  then have "sync_retry E name c delay now (DAList.impl_of (sn_requests (ss_state y))) = Ok effs"
      "s' = ss_state y"
    by (auto simp: sync_timer_def go_simps)
  then show ?case
    using retry sync_retry_no_loopback [of E name c delay now _ effs]
    by (auto simp: sync_inv_def held_blocks_def simp flip: in_spawned_waiters)
next
  case (stored y d)
  then show ?case by (auto simp: sync_inv_def held_blocks_def)
qed

lemma sync_reachable_inv: "sync_reachable E name c delay y \<Longrightarrow> sync_inv E y"
proof (induction rule: sync_reachable.induct)
  case sync_start
  show ?case by (simp add: sync_inv_def sync_init_def held_blocks_def)
next
  case (sync_next y z)
  then show ?case by (blast intro: sync_step_inv)
qed

text \<open>A block whose waiter has failed stays pending: it is never given back and gets no other waiter.\<close>

lemma sync_step_failed:
  assumes "sync_step E name c delay y z" "sync_inv E y" "(p, b) \<in> set (ss_failed y)"
  shows "(p, b) \<in> set (ss_failed z) \<and> (\<exists>effs. ss_out z = ss_out y @ effs
    \<and> (\<forall>p' b'. Block_Digest E b' = Block_Digest E b \<longrightarrow>
          SyncLoopback b' \<notin> set effs \<and> SpawnBlockWaiter p' b' \<notin> set effs))"
  using assms
proof (induction rule: sync_step.induct)
  case (suspend y b0 now s' effs)
  have pending: "Block_Digest E b \<in> sn_pending (ss_state y)"
    using suspend.prems by (force simp: sync_inv_def held_blocks_def)
  have "SyncLoopback b' \<notin> set effs \<and> SpawnBlockWaiter p' b' \<notin> set effs"
    if "Block_Digest E b' = Block_Digest E b" for p' b'
    using sync_inner_cases [OF suspend.hyps]
  proof
    assume new: "Block_Digest E b0 \<notin> sn_pending (ss_state y)
       \<and> sn_pending s' = insert (Block_Digest E b0) (sn_pending (ss_state y))
       \<and> spawned_waiters effs = [(Parent b0, b0)]
       \<and> (\<forall>b'. SyncLoopback b' \<notin> set effs)
       \<and> (\<forall>d. DAList.lookup (sn_requests s') d \<noteq> None \<longrightarrow>
             d = Parent b0 \<or> DAList.lookup (sn_requests (ss_state y)) d \<noteq> None)"
    then have "b' \<noteq> b0" using pending that by auto
    then show ?thesis using new by (simp flip: in_spawned_waiters)
  qed simp
  then show ?case using suspend.prems by simp
next
  case (deliver p0 b0 y s' effs)
  have "Block_Digest E b0 \<noteq> Block_Digest E b"
    using deliver.prems deliver.hyps(1) by (force simp: sync_inv_def held_blocks_def)
  then show ?case using deliver by (auto simp: sync_waiting_def split: if_splits)
next
  case (retry y now s' effs)
  then have "sync_retry E name c delay now (DAList.impl_of (sn_requests (ss_state y))) = Ok effs"
    by (auto simp: sync_timer_def go_simps)
  then show ?case
    using retry.prems sync_retry_no_loopback [of E name c delay now _ effs]
    by (auto simp flip: in_spawned_waiters)
qed auto

end
