(* ===== verification/MempoolDriver.thy ===== *)
theory MempoolDriver
  imports Store
begin

text \<open>
  \<open>consensus/mempool.go\<close>: the driver by which consensus makes sure that it has a block's payload, and
  the payload waiter that holds a block back until its missing batches are in the store. The waiter's
  main loop is \<open>pw_wait\<close>, \<open>pw_cleanup\<close> and \<open>pw_result\<close>; the goroutine that \<open>spawnWaiter\<close> starts for a
  block reads every missing key and then performs one \<open>select\<close>, which is \<open>waiter_receive\<close> or a
  cancellation. \<open>pw_step\<close> is the whole: main loop, waiters, and the store they wait on. A cancel
  channel is a number; \<open>pw_cancelled\<close> holds the channels with a token in them.
\<close>

subsection \<open>The driver\<close>

text \<open>The messages of \<open>mempool/mempool.go\<close> that consensus sends to the mempool.\<close>

datatype mempool_message = SynchronizeMessage "Digest list" PublicKey | CleanupMessage Round

datatype pwCommand = waitCommand | cleanupCommand

record PayloadWaiterMessage =
  pwm_msgType :: pwCommand
  pwm_missing :: "Digest list"
  pwm_block :: "Block option"
  pwm_round :: Round

definition missing_payload ::
  "('sk, 'p1, 'p2, 'agg, 'db, 'z) env_scheme \<Rightarrow> 'db store \<Rightarrow> Block \<Rightarrow> Digest list" where
  "missing_payload E s block =
     filter (\<lambda>x. case Store_Read E s (digest_bytes x) of Inl _ \<Rightarrow> True | Inr _ \<Rightarrow> False)
       (blk_Payload block)"

definition driver_verify ::
  "('sk, 'p1, 'p2, 'agg, 'db, 'z) env_scheme \<Rightarrow> 'db store \<Rightarrow> Block
     \<Rightarrow> bool \<times> mempool_message list \<times> PayloadWaiterMessage list" where
  "driver_verify E s block =
     (let missing = missing_payload E s block
      in if length missing = 0 then (True, [], [])
         else (False, [SynchronizeMessage missing (blk_Author block)],
               [\<lparr>pwm_msgType = waitCommand, pwm_missing = missing, pwm_block = Some block,
                 pwm_round = 0\<rparr>]))"

definition driver_cleanup :: "Round \<Rightarrow> mempool_message list \<times> PayloadWaiterMessage list" where
  "driver_cleanup round =
     ([CleanupMessage round],
      [\<lparr>pwm_msgType = cleanupCommand, pwm_missing = [], pwm_block = None, pwm_round = round\<rparr>])"

subsection \<open>The waiter of one block\<close>

type_synonym waiterResult = "error + Block"

text \<open>
  The \<open>select\<close> of \<open>spawnWaiter\<close> when a read has finished with \<open>err\<close>: what is sent on the result
  channel, if anything. The goroutine ends after it in every case.
\<close>

definition waiter_receive :: "Digest list \<Rightarrow> Block \<Rightarrow> error option \<Rightarrow> waiterResult option" where
  "waiter_receive missing deliver err =
     (case err of
        Some e \<Rightarrow> Some (Inl e)
      | None \<Rightarrow>
          let nrCount = int (length missing) - 1
          in if nrCount = 0 then Some (Inr deliver) else None)"

subsection \<open>The main loop\<close>

record pw_state =
  pw_pending :: "(Digest, Round \<times> nat) DAList.alist"
  pw_waiters :: "(nat \<times> Digest list \<times> Block) list"
  pw_cancelled :: "nat set"
  pw_results :: "waiterResult list"
  pw_loopback :: "Block list"

definition pw_init :: pw_state where
  "pw_init = \<lparr>pw_pending = DAList.empty, pw_waiters = [], pw_cancelled = {}, pw_results = [],
     pw_loopback = []\<rparr>"

definition pw_wait ::
  "('sk, 'p1, 'p2, 'agg, 'z) crypto_lib_scheme \<Rightarrow> pw_state \<Rightarrow> Digest list \<Rightarrow> Block \<Rightarrow> nat \<Rightarrow> pw_state" where
  "pw_wait L s missing block cancelCh =
     (let blockDigest = Block_Digest L block
      in case DAList.lookup (pw_pending s) blockDigest of
           Some _ \<Rightarrow> s
         | None \<Rightarrow>
             s\<lparr>pw_pending := DAList.update blockDigest (blk_Round block, cancelCh) (pw_pending s),
               pw_waiters := pw_waiters s @ [(cancelCh, missing, block)]\<rparr>)"

definition pw_cleanup :: "pw_state \<Rightarrow> Round \<Rightarrow> pw_state" where
  "pw_cleanup s round =
     (let old = filter (\<lambda>(_, r, _). r \<le> round) (DAList.impl_of (pw_pending s))
      in s\<lparr>pw_cancelled := pw_cancelled s \<union> set (map (\<lambda>(_, _, h). h) old),
           pw_pending := DAList.filter (\<lambda>(_, r, _). \<not> r \<le> round) (pw_pending s)\<rparr>)"

definition pw_result ::
  "('sk, 'p1, 'p2, 'agg, 'z) crypto_lib_scheme \<Rightarrow> pw_state \<Rightarrow> waiterResult \<Rightarrow> pw_state" where
  "pw_result L s result =
     (case result of
        Inl err \<Rightarrow> s
      | Inr block \<Rightarrow>
          s\<lparr>pw_pending := DAList.delete (Block_Digest L block) (pw_pending s),
            pw_loopback := pw_loopback s @ [block]\<rparr>)"

text \<open>\<open>pw_message\<close> dispatches on the command; a \<open>waitCommand\<close> without a block is a nil dereference.\<close>

definition pw_message ::
  "('sk, 'p1, 'p2, 'agg, 'z) crypto_lib_scheme \<Rightarrow> pw_state \<Rightarrow> PayloadWaiterMessage \<Rightarrow> nat
     \<Rightarrow> (error, pw_state) result" where
  "pw_message L s msg cancelCh =
     (case pwm_msgType msg of
        waitCommand \<Rightarrow>
          (case pwm_block msg of
             None \<Rightarrow> Panic NilDeref
           | Some block \<Rightarrow> Ok (pw_wait L s (pwm_missing msg) block cancelCh))
      | cleanupCommand \<Rightarrow> Ok (pw_cleanup s (pwm_round msg)))"

inductive pw_step ::
  "('sk, 'p1, 'p2, 'agg, 'z) crypto_lib_scheme \<Rightarrow> Digest set \<Rightarrow> pw_state \<Rightarrow> pw_state \<Rightarrow> bool"
  for L stored where
  pw_msg: "pw_message L s msg h = Ok s' \<Longrightarrow> pw_step L stored s s'"
| pw_res: "pw_results s = r # rs \<Longrightarrow> pw_step L stored s (pw_result L (s\<lparr>pw_results := rs\<rparr>) r)"
| pw_read:
    "(h, missing, b) \<in> set (pw_waiters s) \<Longrightarrow> d \<in> set missing \<Longrightarrow> d \<in> stored \<Longrightarrow>
     pw_step L stored s
       (s\<lparr>pw_waiters := remove1 (h, missing, b) (pw_waiters s),
          pw_results := pw_results s
            @ (case waiter_receive missing b None of Some r \<Rightarrow> [r] | None \<Rightarrow> [])\<rparr>)"
| pw_read_error:
    "(h, missing, b) \<in> set (pw_waiters s) \<Longrightarrow> d \<in> set missing \<Longrightarrow>
     pw_step L stored s
       (s\<lparr>pw_waiters := remove1 (h, missing, b) (pw_waiters s),
          pw_results := pw_results s
            @ (case waiter_receive missing b (Some StoreFailure) of Some r \<Rightarrow> [r] | None \<Rightarrow> [])\<rparr>)"
| pw_cancel:
    "(h, missing, b) \<in> set (pw_waiters s) \<Longrightarrow> h \<in> pw_cancelled s \<Longrightarrow>
     pw_step L stored s (s\<lparr>pw_waiters := remove1 (h, missing, b) (pw_waiters s),
       pw_cancelled := pw_cancelled s - {h}\<rparr>)"

text \<open>
  A run of the payload waiter: the set of stored keys may differ from step to step. \<open>pw_run\<close> records
  the wait messages that were accepted into \<open>pw_waiters\<close>.
\<close>

inductive pw_run ::
  "('sk, 'p1, 'p2, 'agg, 'z) crypto_lib_scheme \<Rightarrow> (Digest list \<times> Block) set \<Rightarrow> pw_state \<Rightarrow> bool"
  for L where
  pw_begin: "pw_run L {} pw_init"
| pw_next: "pw_run L H s \<Longrightarrow> pw_step L stored s s' \<Longrightarrow>
     pw_run L (H \<union> snd ` set (pw_waiters s')) s'"

subsection \<open>Facts\<close>

lemma missing_payload_empty_iff:
  "missing_payload E s b = [] \<longleftrightarrow>
     (\<forall>d\<in>set (blk_Payload b). \<exists>v. Store_Read E s (digest_bytes d) = Inr v)"
  by (auto simp: missing_payload_def filter_empty_conv split: sum.splits) (metis sum.exhaust)

lemma missing_payload_subset: "set (missing_payload E s b) \<subseteq> set (blk_Payload b)"
  by (auto simp: missing_payload_def)

lemma driver_verify_True_iff:
  "fst (driver_verify E s b) \<longleftrightarrow> missing_payload E s b = []"
  by (simp add: driver_verify_def Let_def)

text \<open>
  What the waiter hands back was submitted with exactly one missing digest: the single \<open>select\<close>
  delivers only if the one read it saw was the only one.
\<close>

definition pw_inv :: "(Digest list \<times> Block) set \<Rightarrow> pw_state \<Rightarrow> bool" where
  "pw_inv H s \<longleftrightarrow>
     snd ` set (pw_waiters s) \<subseteq> H
     \<and> (\<forall>b. Inr b \<in> set (pw_results s) \<longrightarrow> (\<exists>d. ([d], b) \<in> H))
     \<and> (\<forall>b\<in>set (pw_loopback s). \<exists>d. ([d], b) \<in> H)"

lemma waiter_receive_Inr:
  "waiter_receive missing b err = Some (Inr b') \<longleftrightarrow> err = None \<and> b' = b \<and> (\<exists>d. missing = [d])"
  by (auto simp: waiter_receive_def Let_def length_Suc_conv split: option.splits)

lemmas waiter_receive_delivers =
  waiter_receive_Inr waiter_receive_Inr [unfolded eq_commute [of "waiter_receive _ _ _"]]

lemma pw_message_keeps:
  "pw_message L s msg h = Ok s' \<Longrightarrow>
     pw_results s' = pw_results s \<and> pw_loopback s' = pw_loopback s"
  by (auto simp: pw_message_def pw_wait_def pw_cleanup_def Let_def
      split: pwCommand.splits option.splits)

lemma pw_step_inv:
  assumes "pw_step L stored s s'" "pw_inv H s"
  shows "pw_inv (H \<union> snd ` set (pw_waiters s')) s'"
  using assms
proof (induction rule: pw_step.induct)
  case (pw_msg s msg h s')
  then show ?case using pw_message_keeps [OF pw_msg.hyps] by (auto simp: pw_inv_def)
next
  case (pw_res s r rs)
  then show ?case by (cases r) (auto simp: pw_inv_def pw_result_def)
next
  case (pw_read h missing b s d)
  then have "(missing, b) \<in> H" by (force simp: pw_inv_def)
  then show ?case using pw_read
    by (auto simp: pw_inv_def waiter_receive_delivers split: option.splits)
next
  case (pw_read_error h missing b s d)
  then show ?case
    by (auto simp: pw_inv_def waiter_receive_delivers split: option.splits)
next
  case (pw_cancel h missing b s)
  then show ?case by (auto simp: pw_inv_def)
qed

lemma pw_run_inv: "pw_run L H s \<Longrightarrow> pw_inv H s"
proof (induction rule: pw_run.induct)
  case pw_begin
  show ?case by (simp add: pw_inv_def pw_init_def)
next
  case (pw_next H s stored s')
  then show ?case by (blast intro: pw_step_inv)
qed

end
