(* ===== verification/Core.thy ===== *)
theory Core
  imports Aggregator Leader Synchronizer MempoolDriver
begin

text \<open>
  \<open>consensus/core.go\<close>: the consensus core, one goroutine that handles protocol messages, blocks that
  come back on the loopback channel, and the round timer. The state is the struct \<open>Core\<close> with the
  store it reads and writes; what a handler sends on channels, hands to the network or asks the
  signature service to sign is appended to \<open>c_out\<close> in order. A handler returns the new state and
  how it ended: with Go's \<open>error\<close> value (\<open>Ret\<close>), by a panic or \<open>log.Fatal\<close> (\<open>Crash\<close>), or never
  (\<open>Hang\<close>). The other goroutines may write the store between two handlers, not within one.
\<close>

subsection \<open>State and effects\<close>

datatype proposerMessage =
    proposerMakeMessage Round QC "TC option"
  | proposerCleanupMessage "Digest list"

text \<open>What a node signs: the vote that \<open>NewVote\<close> makes for a block, or a timeout.\<close>

datatype signed = SVote Block vote | STimeout timeout

datatype core_effect =
    ESign signed
  | ESend PeerID "byte list"
  | EBroadcast "PeerID list" "byte list"
  | ETimerReset
  | EProposer proposerMessage
  | ECommit Block
  | EInner Block
  | EMempool mempool_message
  | EPayloadWaiter PayloadWaiterMessage

datatype outcome = Ret "error option" | Crash crash | Hang

record ('agg, 'db) core =
  c_name :: PublicKey
  c_committee :: Committee
  c_signatureService :: SignatureService
  c_store :: "'db store"
  c_round :: Round
  c_lastVotedRound :: Round
  c_lastCommittedRound :: Round
  c_highQC :: QC
  c_aggregator :: "'agg aggregator"
  c_out :: "core_effect list"

definition emit :: "core_effect list \<Rightarrow> ('agg, 'db) core \<Rightarrow> ('agg, 'db) core" where
  "emit es c = c\<lparr>c_out := c_out c @ es\<rparr>"

definition NewCore ::
  "PublicKey \<Rightarrow> Committee \<Rightarrow> SignatureService \<Rightarrow> 'db store \<Rightarrow> ('agg, 'db) core" where
  "NewCore name committee signatureService store =
     \<lparr>c_name = name, c_committee = committee, c_signatureService = signatureService,
      c_store = store, c_round = 1, c_lastVotedRound = 0, c_lastCommittedRound = 0,
      c_highQC = GenesisQC, c_aggregator = NewAggregator committee, c_out = []\<rparr>"

subsection \<open>Small steps\<close>

text \<open>\<open>storeBlock\<close>; the error of \<open>Serialize\<close> is only logged by the caller.\<close>

definition storeBlock ::
  "('sk, 'p1, 'p2, 'agg, 'db, 'z) env_scheme \<Rightarrow> ('agg, 'db) core \<Rightarrow> Block \<Rightarrow> ('agg, 'db) core" where
  "storeBlock E c block =
     (case Block_Serialize E block of
        Ok value \<Rightarrow>
          c\<lparr>c_store := Store_Write E (c_store c) (digest_bytes (Block_Digest E block)) value\<rparr>
      | _ \<Rightarrow> c)"

definition increaseLastVotedRound :: "('agg, 'db) core \<Rightarrow> Round \<Rightarrow> ('agg, 'db) core" where
  "increaseLastVotedRound c target = c\<lparr>c_lastVotedRound := max (c_lastVotedRound c) target\<rparr>"

text \<open>
  The second safety rule of \<open>make_vote\<close>: the block's QC is for the round before, or its TC is and
  the QC is at least as high as every high QC the TC reports. \<open>slices.Max\<close> panics on an empty
  slice; \<open>&&\<close> calls it only if the TC's round fits.
\<close>

definition safetyRule2 :: "Block \<Rightarrow> crash + bool" where
  "safetyRule2 block =
     (let direct = (qc_Round (blk_Qc block) + 1 = blk_Round block)
      in case blk_Tc block of
           None \<Rightarrow> Inr direct
         | Some tc \<Rightarrow>
             if tc_Round tc + 1 = blk_Round block
             then (case HighQCRounds tc of
                     [] \<Rightarrow> Inl MaxOfEmpty
                   | r # rs \<Rightarrow> Inr (direct \<or> qc_Round (blk_Qc block) \<ge> foldl max r rs))
             else Inr direct)"

definition make_vote ::
  "('sk, 'p1, 'p2, 'agg, 'db, 'z) env_scheme \<Rightarrow> ('agg, 'db) core \<Rightarrow> Block
     \<Rightarrow> ('agg, 'db) core \<times> (crash + vote option)" where
  "make_vote E c block =
     (let safetyRule1 = (blk_Round block > c_lastVotedRound c)
      in case safetyRule2 block of
           Inl p \<Rightarrow> (c, Inl p)
         | Inr rule2 \<Rightarrow>
             if \<not> (safetyRule1 \<and> rule2) then (c, Inr None)
             else
               let c1 = increaseLastVotedRound c (blk_Round block);
                   v = NewVote E block (c_name c) (c_signatureService c)
               in (emit [ESign (SVote block v)] c1, Inr (Some v)))"

definition updateHighQc :: "('agg, 'db) core \<Rightarrow> QC \<Rightarrow> ('agg, 'db) core" where
  "updateHighQc c qc = (if qc_Round qc > qc_Round (c_highQC c) then c\<lparr>c_highQC := qc\<rparr> else c)"

definition advanceRound :: "('agg, 'db) core \<Rightarrow> Round \<Rightarrow> ('agg, 'db) core" where
  "advanceRound c round =
     (if round < c_round c then c
      else
        let c1 = emit [ETimerReset] c;
            c2 = c1\<lparr>c_round := round + 1\<rparr>
        in c2\<lparr>c_aggregator := aggregator_cleanup (c_aggregator c2) (c_round c2)\<rparr>)"

definition generateProposal :: "('agg, 'db) core \<Rightarrow> TC option \<Rightarrow> ('agg, 'db) core" where
  "generateProposal c tc =
     emit [EProposer (proposerMakeMessage (c_round c) (c_highQC c) tc)] c"

definition cleanupProposer ::
  "('agg, 'db) core \<Rightarrow> Block \<Rightarrow> Block \<Rightarrow> Block \<Rightarrow> ('agg, 'db) core" where
  "cleanupProposer c b0 b1 block =
     emit [EProposer (proposerCleanupMessage
       (blk_Payload b0 @ blk_Payload b1 @ blk_Payload block))] c"

definition processQC :: "('agg, 'db) core \<Rightarrow> QC \<Rightarrow> ('agg, 'db) core" where
  "processQC c qc = updateHighQc (advanceRound c (qc_Round qc)) qc"

subsection \<open>Commit\<close>

text \<open>
  The loop that collects the ancestors between the last committed round and the block. It stops when
  an ancestor is old enough or cannot be read; otherwise it need not stop, hence the option.
\<close>

partial_function (option) commit_loop ::
  "('sk, 'p1, 'p2, 'agg, 'db, 'z) env_scheme \<Rightarrow> 'db store \<Rightarrow> Round \<Rightarrow> Block \<Rightarrow> Block list
     \<Rightarrow> ((crash + Block list) \<times> Block list) option" where
  "commit_loop E s lastCommitted parent toCommit =
     (if lastCommitted + 1 < blk_Round parent
      then case getParentBlock E s parent of
             (Err err, sent) \<Rightarrow> Some (Inl ExplicitPanic, sent)
           | (Panic p, sent) \<Rightarrow> Some (Inl p, sent)
           | (Ok ancestor, sent) \<Rightarrow>
               commit_loop E s lastCommitted ancestor (toCommit @ [ancestor])
      else Some (Inr toCommit, []))"

definition commit ::
  "('sk, 'p1, 'p2, 'agg, 'db, 'z) env_scheme \<Rightarrow> ('agg, 'db) core \<Rightarrow> Block
     \<Rightarrow> ('agg, 'db) core \<times> outcome" where
  "commit E c block =
     (if c_lastCommittedRound c \<ge> blk_Round block then (c, Ret None)
      else case commit_loop E (c_store c) (c_lastCommittedRound c) block [] of
             None \<Rightarrow> (c, Hang)
           | Some (Inl p, sent) \<Rightarrow> (emit (map EInner sent) c, Crash p)
           | Some (Inr ancestors, sent) \<Rightarrow>
               (let toCommit = ancestors @ [block]
                in (emit (map ECommit toCommit) (c\<lparr>c_lastCommittedRound := blk_Round block\<rparr>),
                    Ret None)))"

subsection \<open>Handlers\<close>

definition handleVote ::
  "('sk, 'p1, 'p2, 'agg, 'db, 'z) env_scheme \<Rightarrow> ('agg, 'db) core \<Rightarrow> vote
     \<Rightarrow> ('agg, 'db) core \<times> outcome" where
  "handleVote E c v =
     (if v_round v < c_round c then (c, Ret None)
      else case vote_verify E (c_committee c) v of
             Some err \<Rightarrow> (c, Ret (Some err))
           | None \<Rightarrow>
               (case AddVote E (c_aggregator c) v of
                  (a, Inl err) \<Rightarrow> (c\<lparr>c_aggregator := a\<rparr>, Ret (Some err))
                | (a, Inr None) \<Rightarrow> (c\<lparr>c_aggregator := a\<rparr>, Ret None)
                | (a, Inr (Some qc)) \<Rightarrow>
                    let c1 = processQC (c\<lparr>c_aggregator := a\<rparr>) qc
                    in case getLeader (c_committee c1) (c_round c1) of
                         Inl p \<Rightarrow> (c1, Crash p)
                       | Inr leader \<Rightarrow>
                           (if c_name c1 = leader then generateProposal c1 None else c1, Ret None)))"

definition handleTimeout ::
  "('sk, 'p1, 'p2, 'agg, 'db, 'z) env_scheme \<Rightarrow> ('agg, 'db) core \<Rightarrow> timeout
     \<Rightarrow> ('agg, 'db) core \<times> outcome" where
  "handleTimeout E c t =
     (if t_round t < c_round c then (c, Ret None)
      else case timeout_Verify E (c_committee c) t of
             Some err \<Rightarrow> (c, Ret (Some err))
           | None \<Rightarrow>
               (let c1 = processQC c (t_highQC t)
                in case AddTimeout E (c_aggregator c1) t of
                     (a, Inl err) \<Rightarrow> (c1\<lparr>c_aggregator := a\<rparr>, Ret (Some err))
                   | (a, Inr None) \<Rightarrow> (c1\<lparr>c_aggregator := a\<rparr>, Ret None)
                   | (a, Inr (Some tc)) \<Rightarrow>
                       let c2 = advanceRound (c1\<lparr>c_aggregator := a\<rparr>) (tc_Round tc);
                           (_, addresses) = BroadcastAddresses (c_committee c2) (c_name c2)
                       in case SerializeConsensusMessage E (tcMessage tc) of
                            Err err \<Rightarrow> (c2, Ret (Some err))
                          | Panic p \<Rightarrow> (c2, Crash p)
                          | Ok message \<Rightarrow>
                              let c3 = emit [EBroadcast addresses message] c2
                              in case getLeader (c_committee c3) (c_round c3) of
                                   Inl p \<Rightarrow> (c3, Crash p)
                                 | Inr leader \<Rightarrow>
                                     (if c_name c3 = leader then generateProposal c3 (Some tc) else c3,
                                      Ret None)))"

definition localTimeoutRound ::
  "('sk, 'p1, 'p2, 'agg, 'db, 'z) env_scheme \<Rightarrow> ('agg, 'db) core
     \<Rightarrow> ('agg, 'db) core \<times> outcome" where
  "localTimeoutRound E c =
     (let c1 = increaseLastVotedRound c (c_round c);
          t = NewTimeout E (c_highQC c1) (c_round c1) (c_name c1) (c_signatureService c1);
          c2 = emit [ESign (STimeout t), ETimerReset] c1;
          (_, addresses) = BroadcastAddresses (c_committee c2) (c_name c2)
      in case SerializeConsensusMessage E (timeoutMessage t) of
           Err err \<Rightarrow> (c2, Ret (Some err))
         | Panic p \<Rightarrow> (c2, Crash p)
         | Ok message \<Rightarrow> handleTimeout E (emit [EBroadcast addresses message] c2) t)"

text \<open>The last part of \<open>processBlock\<close>: vote, and hand the vote to the next leader.\<close>

definition vote_for_block ::
  "('sk, 'p1, 'p2, 'agg, 'db, 'z) env_scheme \<Rightarrow> ('agg, 'db) core \<Rightarrow> Block
     \<Rightarrow> ('agg, 'db) core \<times> outcome" where
  "vote_for_block E c block =
     (case make_vote E c block of
        (c1, Inl p) \<Rightarrow> (c1, Crash p)
      | (c1, Inr None) \<Rightarrow> (c1, Ret None)
      | (c1, Inr (Some v)) \<Rightarrow>
          (case getLeader (c_committee c1) (c_round c1 + 1) of
             Inl p \<Rightarrow> (c1, Crash p)
           | Inr nextLeader \<Rightarrow>
               if nextLeader = c_name c1
               then (case handleVote E c1 v of
                       (c2, Ret _) \<Rightarrow> (c2, Ret None)
                     | (c2, other) \<Rightarrow> (c2, other))
               else
                 let (address, ok) = Committee_Address (c_committee c1) nextLeader
                 in if \<not> ok then (c1, Ret (Some LeaderNotInCommittee))
                    else case SerializeConsensusMessage E (voteMessage v) of
                           Err err \<Rightarrow> (c1, Ret (Some err))
                         | Panic p \<Rightarrow> (c1, Crash p)
                         | Ok message \<Rightarrow> (emit [ESend address message] c1, Ret None)))"

definition processBlock ::
  "('sk, 'p1, 'p2, 'agg, 'db, 'z) env_scheme \<Rightarrow> ('agg, 'db) core \<Rightarrow> Block
     \<Rightarrow> ('agg, 'db) core \<times> outcome" where
  "processBlock E c block =
     (case getAncestors E (c_store c) block of
        (Err err, sent) \<Rightarrow> (emit (map EInner sent) c, Ret (Some err))
      | (Panic p, sent) \<Rightarrow> (emit (map EInner sent) c, Crash p)
      | (Ok (b0, b1), sent) \<Rightarrow>
          let c1 = storeBlock E (emit (map EInner sent) c) block;
              c2 = cleanupProposer c1 b0 b1 block
          in if blk_Round b0 + 1 = blk_Round b1
             then
               let (mm, pm) = driver_cleanup (blk_Round b0);
                   c3 = emit (map EMempool mm @ map EPayloadWaiter pm) c2
               in case commit E c3 b0 of
                    (c4, Ret None) \<Rightarrow> vote_for_block E c4 block
                  | (c4, other) \<Rightarrow> (c4, other)
             else vote_for_block E c2 block)"

definition handleProposal ::
  "('sk, 'p1, 'p2, 'agg, 'db, 'z) env_scheme \<Rightarrow> ('agg, 'db) core \<Rightarrow> Block
     \<Rightarrow> ('agg, 'db) core \<times> outcome" where
  "handleProposal E c block =
     (case getLeader (c_committee c) (blk_Round block) of
        Inl p \<Rightarrow> (c, Crash p)
      | Inr leader \<Rightarrow>
          if blk_Author block \<noteq> leader then (c, Ret (Some (WrongLeader (blk_Author block))))
          else case Block_Verify E (c_committee c) block of
                 Some err \<Rightarrow> (c, Ret (Some err))
               | None \<Rightarrow>
                   let c1 = processQC c (blk_Qc block);
                       c2 = (case blk_Tc block of Some tc \<Rightarrow> advanceRound c1 (tc_Round tc) | None \<Rightarrow> c1);
                       (ready, mm, pm) = driver_verify E (c_store c2) block;
                       c3 = emit (map EMempool mm @ map EPayloadWaiter pm) c2
                   in if \<not> ready then (c3, Ret None) else processBlock E c3 block)"

definition handleTC ::
  "('sk, 'p1, 'p2, 'agg, 'db, 'z) env_scheme \<Rightarrow> ('agg, 'db) core \<Rightarrow> TC
     \<Rightarrow> ('agg, 'db) core \<times> outcome" where
  "handleTC E c tc =
     (case TC_Verify E (c_committee c) tc of
        Some err \<Rightarrow> (c, Ret (Some err))
      | None \<Rightarrow>
          if tc_Round tc < c_round c then (c, Ret None)
          else
            let c1 = advanceRound c (tc_Round tc)
            in case getLeader (c_committee c1) (c_round c1) of
                 Inl p \<Rightarrow> (c1, Crash p)
               | Inr leader \<Rightarrow>
                   (if c_name c1 = leader then generateProposal c1 (Some tc) else c1, Ret None))"

subsection \<open>The main loop\<close>

definition core_start ::
  "PublicKey \<Rightarrow> Committee \<Rightarrow> SignatureService \<Rightarrow> 'db store \<Rightarrow> ('agg, 'db) core \<times> outcome" where
  "core_start name committee signatureService store =
     (let c = emit [ETimerReset] (NewCore name committee signatureService store)
      in case getLeader (c_committee c) (c_round c) of
           Inl p \<Rightarrow> (c, Crash p)
         | Inr leader \<Rightarrow> (if c_name c = leader then generateProposal c None else c, Ret None))"

datatype core_event = RxMessage consensusMessage | RxLoopback Block | TimerFired

fun core_step ::
  "('sk, 'p1, 'p2, 'agg, 'db, 'z) env_scheme \<Rightarrow> ('agg, 'db) core \<Rightarrow> core_event
     \<Rightarrow> ('agg, 'db) core \<times> outcome" where
  "core_step E c (RxMessage (proposeMessage b)) = handleProposal E c b"
| "core_step E c (RxMessage (voteMessage v)) = handleVote E c v"
| "core_step E c (RxMessage (timeoutMessage t)) = handleTimeout E c t"
| "core_step E c (RxMessage (tcMessage tc)) = handleTC E c tc"
| "core_step E c (RxMessage m) = (c, Crash ExplicitPanic)"
| "core_step E c (RxLoopback b) = processBlock E c b"
| "core_step E c TimerFired = localTimeoutRound E c"

subsection \<open>Frames\<close>

text \<open>Which fields the small steps leave alone; \<open>core_frames\<close> collects the equations.\<close>

named_theorems core_frames \<open>selectors of a core after one of the small steps\<close>

lemma emit_frames [core_frames, simp]:
  "c_name (emit es c) = c_name c" "c_committee (emit es c) = c_committee c"
  "c_signatureService (emit es c) = c_signatureService c" "c_store (emit es c) = c_store c"
  "c_round (emit es c) = c_round c" "c_lastVotedRound (emit es c) = c_lastVotedRound c"
  "c_lastCommittedRound (emit es c) = c_lastCommittedRound c" "c_highQC (emit es c) = c_highQC c"
  "c_aggregator (emit es c) = c_aggregator c" "c_out (emit es c) = c_out c @ es"
  by (simp_all add: emit_def)

lemma emit_Nil [simp]: "emit [] c = c"
  by (simp add: emit_def)

lemma emit_append: "emit (es @ fs) c = emit fs (emit es c)"
  by (simp add: emit_def)

lemma advanceRound_frames [core_frames]:
  "c_name (advanceRound c r) = c_name c" "c_committee (advanceRound c r) = c_committee c"
  "c_signatureService (advanceRound c r) = c_signatureService c"
  "c_store (advanceRound c r) = c_store c"
  "c_lastVotedRound (advanceRound c r) = c_lastVotedRound c"
  "c_lastCommittedRound (advanceRound c r) = c_lastCommittedRound c"
  "c_highQC (advanceRound c r) = c_highQC c"
  by (simp_all add: advanceRound_def Let_def)

lemma advanceRound_round: "c_round (advanceRound c r) = (if r < c_round c then c_round c else r + 1)"
  by (simp add: advanceRound_def Let_def)

lemma advanceRound_out:
  "c_out (advanceRound c r) = c_out c @ (if r < c_round c then [] else [ETimerReset])"
  by (simp add: advanceRound_def Let_def)

lemma advanceRound_aggregator:
  "c_aggregator (advanceRound c r) =
     (if r < c_round c then c_aggregator c else aggregator_cleanup (c_aggregator c) (r + 1))"
  by (simp add: advanceRound_def Let_def)

lemma updateHighQc_frames [core_frames]:
  "c_name (updateHighQc c qc) = c_name c" "c_committee (updateHighQc c qc) = c_committee c"
  "c_signatureService (updateHighQc c qc) = c_signatureService c"
  "c_store (updateHighQc c qc) = c_store c" "c_round (updateHighQc c qc) = c_round c"
  "c_lastVotedRound (updateHighQc c qc) = c_lastVotedRound c"
  "c_lastCommittedRound (updateHighQc c qc) = c_lastCommittedRound c"
  "c_aggregator (updateHighQc c qc) = c_aggregator c" "c_out (updateHighQc c qc) = c_out c"
  by (simp_all add: updateHighQc_def)

lemma updateHighQc_highQC:
  "c_highQC (updateHighQc c qc) = (if qc_Round qc > qc_Round (c_highQC c) then qc else c_highQC c)"
  by (simp add: updateHighQc_def)

lemma storeBlock_frames [core_frames]:
  "c_name (storeBlock E c b) = c_name c" "c_committee (storeBlock E c b) = c_committee c"
  "c_signatureService (storeBlock E c b) = c_signatureService c"
  "c_round (storeBlock E c b) = c_round c"
  "c_lastVotedRound (storeBlock E c b) = c_lastVotedRound c"
  "c_lastCommittedRound (storeBlock E c b) = c_lastCommittedRound c"
  "c_highQC (storeBlock E c b) = c_highQC c" "c_aggregator (storeBlock E c b) = c_aggregator c"
  "c_out (storeBlock E c b) = c_out c"
  by (simp_all add: storeBlock_def split: result.splits)

subsection \<open>Votes\<close>

lemma make_vote_Some_iff:
  "make_vote E c b = (c', Inr (Some v)) \<longleftrightarrow>
     c_lastVotedRound c < blk_Round b \<and> safetyRule2 b = Inr True
     \<and> v = NewVote E b (c_name c) (c_signatureService c)
     \<and> c' = emit [ESign (SVote b v)] (c\<lparr>c_lastVotedRound := blk_Round b\<rparr>)"
  by (auto simp: make_vote_def increaseLastVotedRound_def Let_def max_def
      split: sum.splits if_splits)

lemma make_vote_no_vote:
  "make_vote E c b = (c', Inr None) \<Longrightarrow> c' = c"
  "make_vote E c b = (c', Inl p) \<Longrightarrow> c' = c"
  by (auto simp: make_vote_def Let_def split: sum.splits if_splits)

lemma foldl_max: "foldl max r rs = Max (set (r # rs))"
  for r :: "'a :: linorder"
  by (simp only: Max.set_eq_fold foldl_conv_fold max.commute)

lemma safetyRule2_True_iff:
  "safetyRule2 b = Inr True \<longleftrightarrow>
     (case blk_Tc b of
        None \<Rightarrow> qc_Round (blk_Qc b) + 1 = blk_Round b
      | Some tc \<Rightarrow>
          if tc_Round tc + 1 = blk_Round b
          then tc_Votes tc \<noteq> []
            \<and> (qc_Round (blk_Qc b) + 1 = blk_Round b
               \<or> (\<forall>a\<in>set (tc_Votes tc). atr_round a \<le> qc_Round (blk_Qc b)))
          else qc_Round (blk_Qc b) + 1 = blk_Round b)"
  by (auto simp: safetyRule2_def Let_def HighQCRounds_def foldl_max split: option.splits list.splits)

lemma safetyRule2_no_panic:
  "(\<And>tc. blk_Tc b = Some tc \<Longrightarrow> tc_Votes tc \<noteq> []) \<Longrightarrow> \<exists>r. safetyRule2 b = Inr r"
  by (auto simp: safetyRule2_def Let_def HighQCRounds_def split: option.splits list.splits)

end
