(* ===== verification/CoreSteps.thy ===== *)
theory CoreSteps
  imports Core
begin

text \<open>
  The core as a sequence of small moves. \<open>core_move\<close> is the abstract view of the handlers of
  \<open>consensus/core.go\<close>: moving the round on a certificate, raising the high QC, collecting a vote or
  a timeout, storing a block, committing, signing a vote or a timeout, and sending. Every handler is
  a finite sequence of moves (\<open>core_step_moves\<close>), so an invariant or an ordering law of the core is
  proved once, rule by rule.

  A certificate is \<open>known\<close> if it verifies and its honest voters have signed what it certifies;
  \<open>S\<close> is the set of pairs of an honest signer and a digest it has signed. A block is known if its
  certificates are and it is one of the set \<open>B\<close> of blocks that the run is about; \<open>B\<close> is \<open>UNIV\<close>
  except where a theorem has to restrict the blocks. That signatures of honest
  nodes in an arriving message are such is the assumption \<open>event_genuine\<close> (unforgeability); for the
  certificates that the node aggregates itself it is proved.
\<close>

subsection \<open>What a node has signed\<close>

fun signed_of :: "core_effect list \<Rightarrow> signed list" where
  "signed_of [] = []"
| "signed_of (ESign s # es) = s # signed_of es"
| "signed_of (_ # es) = signed_of es"

fun signed_digest :: "('sk, 'p1, 'p2, 'agg, 'z) crypto_lib_scheme \<Rightarrow> signed \<Rightarrow> Digest" where
  "signed_digest L (SVote b v) = vote_Digest L v"
| "signed_digest L (STimeout t) = timeout_Digest L t"

fun signed_round :: "signed \<Rightarrow> Round" where
  "signed_round (SVote b v) = blk_Round b"
| "signed_round (STimeout t) = t_round t"

lemma signed_of_append [simp]: "signed_of (xs @ ys) = signed_of xs @ signed_of ys"
  by (induction xs rule: signed_of.induct) auto

lemma signed_of_none: "(\<And>s. ESign s \<notin> set es) \<Longrightarrow> signed_of es = []"
  by (induction es rule: signed_of.induct) auto

lemma in_signed_of: "s \<in> set (signed_of es) \<longleftrightarrow> ESign s \<in> set es"
  by (induction es rule: signed_of.induct) auto

definition own_pairs ::
  "('sk, 'p1, 'p2, 'agg, 'db, 'z) env_scheme \<Rightarrow> ('agg, 'db) core \<Rightarrow> (PublicKey \<times> Digest) set" where
  "own_pairs E c = (\<lambda>s. (c_name c, signed_digest E s)) ` set (signed_of (c_out c))"

subsection \<open>Known certificates\<close>

definition qc_known ::
  "('sk, 'p1, 'p2, 'agg, 'z) crypto_lib_scheme \<Rightarrow> Committee \<Rightarrow> (PublicKey \<Rightarrow> bool)
     \<Rightarrow> (PublicKey \<times> Digest) set \<Rightarrow> QC \<Rightarrow> bool" where
  "qc_known L cm hon S qc \<longleftrightarrow> qc = GenesisQC \<or>
     (QC_Verify L cm qc = None \<and> (\<forall>k\<in>set (qc_Voters qc). hon k \<longrightarrow> (k, QC_Digest L qc) \<in> S))"

definition tc_known ::
  "('sk, 'p1, 'p2, 'agg, 'z) crypto_lib_scheme \<Rightarrow> Committee \<Rightarrow> (PublicKey \<Rightarrow> bool)
     \<Rightarrow> (PublicKey \<times> Digest) set \<Rightarrow> TC \<Rightarrow> bool" where
  "tc_known L cm hon S tc \<longleftrightarrow> TC_Verify L cm tc = None \<and>
     (\<forall>a\<in>set (tc_Votes tc). hon (atr_name a) \<longrightarrow>
        (atr_name a, timeout_round_digest L (tc_Round tc) (atr_round a)) \<in> S)"

definition block_known ::
  "('sk, 'p1, 'p2, 'agg, 'z) crypto_lib_scheme \<Rightarrow> Committee \<Rightarrow> (PublicKey \<Rightarrow> bool) \<Rightarrow> Block set
     \<Rightarrow> (PublicKey \<times> Digest) set \<Rightarrow> Block \<Rightarrow> bool" where
  "block_known L cm hon B S b \<longleftrightarrow> (b = GenesisBlock \<or> b \<in> B) \<and> qc_known L cm hon S (blk_Qc b)
     \<and> (\<forall>tc. blk_Tc b = Some tc \<longrightarrow> tc_known L cm hon S tc)"

definition vote_genuine ::
  "('sk, 'p1, 'p2, 'agg, 'z) crypto_lib_scheme \<Rightarrow> Committee \<Rightarrow> (PublicKey \<Rightarrow> bool)
     \<Rightarrow> (PublicKey \<times> Digest) set \<Rightarrow> vote \<Rightarrow> bool" where
  "vote_genuine L cm hon S v \<longleftrightarrow>
     (vote_verify L cm v = None \<longrightarrow> hon (v_author v) \<longrightarrow> (v_author v, vote_Digest L v) \<in> S)"

definition timeout_genuine ::
  "('sk, 'p1, 'p2, 'agg, 'z) crypto_lib_scheme \<Rightarrow> Committee \<Rightarrow> (PublicKey \<Rightarrow> bool)
     \<Rightarrow> (PublicKey \<times> Digest) set \<Rightarrow> timeout \<Rightarrow> bool" where
  "timeout_genuine L cm hon S t \<longleftrightarrow>
     (timeout_Verify L cm t = None \<longrightarrow> qc_known L cm hon S (t_highQC t) \<and>
        (hon (t_author t) \<longrightarrow> (t_author t, timeout_Digest L t) \<in> S))"

definition loopback_from ::
  "('sk, 'p1, 'p2, 'agg, 'db, 'z) env_scheme \<Rightarrow> ('agg, 'db) core \<Rightarrow> Block \<Rightarrow> bool" where
  "loopback_from E c b \<longleftrightarrow>
     EInner b \<in> set (c_out c)
     \<or> (\<exists>m. EPayloadWaiter m \<in> set (c_out c) \<and> pwm_block m = Some b)
     \<or> (\<exists>r qc tc payload. EProposer (proposerMakeMessage r qc tc) \<in> set (c_out c)
          \<and> b = NewBlock E qc tc (c_name c) r payload (c_signatureService c))"

text \<open>
  What is assumed of an event: signatures of honest nodes that verify were made by them, and a block
  on the loopback channel was put there by the synchronizer or the payload waiter, which give back
  blocks they were given, or made by the proposer from a make message.
\<close>

fun event_genuine ::
  "('sk, 'p1, 'p2, 'agg, 'db, 'z) env_scheme \<Rightarrow> (PublicKey \<Rightarrow> bool) \<Rightarrow> Block set \<Rightarrow> (PublicKey \<times> Digest) set
     \<Rightarrow> ('agg, 'db) core \<Rightarrow> core_event \<Rightarrow> bool" where
  "event_genuine E hon B S c (RxMessage (proposeMessage b)) \<longleftrightarrow>
     (Block_Verify E (c_committee c) b = None \<longrightarrow> block_known E (c_committee c) hon B S b)"
| "event_genuine E hon B S c (RxMessage (voteMessage v)) \<longleftrightarrow> vote_genuine E (c_committee c) hon S v"
| "event_genuine E hon B S c (RxMessage (timeoutMessage t)) \<longleftrightarrow>
     timeout_genuine E (c_committee c) hon S t"
| "event_genuine E hon B S c (RxMessage (tcMessage tc)) \<longleftrightarrow>
     (TC_Verify E (c_committee c) tc = None \<longrightarrow> tc_known E (c_committee c) hon S tc)"
| "event_genuine E hon B S c (RxMessage m) \<longleftrightarrow> True"
| "event_genuine E hon B S c (RxLoopback b) \<longleftrightarrow> loopback_from E c b \<and> b \<in> B"
| "event_genuine E hon B S c TimerFired \<longleftrightarrow> True"

lemma qc_known_mono: "qc_known L cm hon S qc \<Longrightarrow> S \<subseteq> S' \<Longrightarrow> qc_known L cm hon S' qc"
  unfolding qc_known_def by blast

lemma tc_known_mono: "tc_known L cm hon S tc \<Longrightarrow> S \<subseteq> S' \<Longrightarrow> tc_known L cm hon S' tc"
  unfolding tc_known_def by blast

lemma block_known_mono: "block_known L cm hon B S b \<Longrightarrow> S \<subseteq> S' \<Longrightarrow> block_known L cm hon B S' b"
  unfolding block_known_def by (blast intro: qc_known_mono tc_known_mono)

lemmas known_mono = qc_known_mono tc_known_mono block_known_mono

lemma qc_known_Genesis [simp]: "qc_known L cm hon S GenesisQC"
  by (simp add: qc_known_def)

subsection \<open>Certificates the node makes itself\<close>

definition aggregator_backed ::
  "('sk, 'p1, 'p2, 'agg, 'z) crypto_lib_scheme \<Rightarrow> (PublicKey \<Rightarrow> bool) \<Rightarrow> (PublicKey \<times> Digest) set
     \<Rightarrow> 'agg aggregator \<Rightarrow> bool" where
  "aggregator_backed L hon S a \<longleftrightarrow>
     (\<forall>r rm d m. ag_voteAggregators a r = Some rm \<longrightarrow> rm d = Some m \<longrightarrow>
        (\<forall>k\<in>set (qm_voters m). hon k \<longrightarrow> (k, d) \<in> S))
     \<and> (\<forall>r m. ag_timeoutAggregators a r = Some m \<longrightarrow>
        (\<forall>t\<in>set (tm_votes m). hon (atr_name t) \<longrightarrow>
           (atr_name t, timeout_round_digest L r (atr_round t)) \<in> S))"

lemma aggregator_backed_mono:
  "aggregator_backed L hon S a \<Longrightarrow> S \<subseteq> S' \<Longrightarrow> aggregator_backed L hon S' a"
  unfolding aggregator_backed_def by blast

lemma aggregator_cleanup_backed:
  "aggregator_backed L hon S a \<Longrightarrow> aggregator_backed L hon S (aggregator_cleanup a r)"
  by (auto simp: aggregator_backed_def aggregator_cleanup_def split: if_splits)

lemma aggregator_backed_new: "aggregator_backed L hon S (NewAggregator c)"
  by (simp add: aggregator_backed_def NewAggregator_def)

lemma qcMaker_append_voters:
  assumes "qm_wf m" "qcMaker_append L c m v = (m', r)"
  shows "set (qm_voters m') \<subseteq> insert (v_author v) (set (qm_voters m))"
    and "r = Inr (Some qc) \<Longrightarrow> qc_Voters qc = qm_voters m' \<and> qc_Hash qc = v_hash v
      \<and> qc_Round qc = v_round v"
proof -
  have both: "set (qm_voters m') \<subseteq> insert (v_author v) (set (qm_voters m)) \<and>
    (\<forall>qc. r = Inr (Some qc) \<longrightarrow>
       qc_Voters qc = qm_voters m' \<and> qc_Hash qc = v_hash v \<and> qc_Round qc = v_round v)"
  proof (cases "v_author v \<in> set (qm_voters m)")
    case True
    then show ?thesis using qcMaker_append_used [OF assms(1) True, of L c] assms(2) by auto
  next
    case False
    note app = qcMaker_append_fresh [OF assms(1) False assms(2)]
    then have "qm_voters m' = qm_voters m @ [v_author v]" by blast
    moreover have "qc_Voters qc = qm_voters m' \<and> qc_Hash qc = v_hash v \<and> qc_Round qc = v_round v"
      if "r = Inr (Some qc)" for qc
    proof -
      from app that have "qc = \<lparr>qc_Hash = v_hash v, qc_Round = v_round v,
          qc_Voters = qm_voters m', qc_Signature = ToSignature L (qm_aggregateSig m')\<rparr>"
        by simp
      then show ?thesis by (metis QC.select_convs(1-3))
    qed
    ultimately show ?thesis by simp
  qed
  show "set (qm_voters m') \<subseteq> insert (v_author v) (set (qm_voters m))" using both by blast
  show "r = Inr (Some qc) \<Longrightarrow> qc_Voters qc = qm_voters m' \<and> qc_Hash qc = v_hash v
      \<and> qc_Round qc = v_round v" using both by blast
qed

lemma tcMaker_append_votes:
  assumes "tm_wf m" "tcMaker_append L c m t = (m', r)"
  shows "set (tm_votes m') \<subseteq>
      insert \<lparr>atr_name = t_author t, atr_round = qc_Round (t_highQC t)\<rparr> (set (tm_votes m))"
    and "r = Inr (Some tc) \<Longrightarrow> tc_Votes tc = tm_votes m' \<and> tc_Round tc = t_round t"
proof -
  have both: "set (tm_votes m') \<subseteq>
      insert \<lparr>atr_name = t_author t, atr_round = qc_Round (t_highQC t)\<rparr> (set (tm_votes m)) \<and>
    (\<forall>tc. r = Inr (Some tc) \<longrightarrow> tc_Votes tc = tm_votes m' \<and> tc_Round tc = t_round t)"
  proof (cases "t_author t \<in> set (tm_names m)")
    case True
    then show ?thesis using tcMaker_append_used [OF assms(1) True, of L c] assms(2) by auto
  next
    case False
    note app = tcMaker_append_fresh [OF assms(1) False assms(2)]
    then have "tm_votes m' =
        tm_votes m @ [\<lparr>atr_name = t_author t, atr_round = qc_Round (t_highQC t)\<rparr>]" by blast
    moreover have "tc_Votes tc = tm_votes m' \<and> tc_Round tc = t_round t"
      if "r = Inr (Some tc)" for tc
    proof -
      from app that have "tc = \<lparr>tc_Round = t_round t, tc_Votes = tm_votes m',
          tc_Signature = ToSignature L (tm_aggregateSig m')\<rparr>"
        by simp
      then show ?thesis by (metis TC.select_convs(1,2))
    qed
    ultimately show ?thesis by simp
  qed
  show "set (tm_votes m') \<subseteq>
      insert \<lparr>atr_name = t_author t, atr_round = qc_Round (t_highQC t)\<rparr> (set (tm_votes m))"
    using both by blast
  show "r = Inr (Some tc) \<Longrightarrow> tc_Votes tc = tm_votes m' \<and> tc_Round tc = t_round t"
    using both by blast
qed

lemma AddVote_backed:
  assumes "aggregator_valid L a" "aggregator_backed L hon S a" "AddVote L a v = (a', r)"
    and "hon (v_author v) \<Longrightarrow> (v_author v, vote_Digest L v) \<in> S"
  shows "aggregator_backed L hon S a'"
    and "r = Inr (Some qc) \<Longrightarrow> k \<in> set (qc_Voters qc) \<Longrightarrow> hon k \<Longrightarrow> (k, QC_Digest L qc) \<in> S"
proof -
  define rm where "rm = (case ag_voteAggregators a (v_round v) of Some rm \<Rightarrow> rm | None \<Rightarrow> Map.empty)"
  define m where "m = (case rm (vote_Digest L v) of Some m \<Rightarrow> m | None \<Rightarrow> NewQcMaker L)"
  obtain m' where app: "qcMaker_append L (ag_committee a) m v = (m', r)"
      "a' = a\<lparr>ag_voteAggregators :=
              (ag_voteAggregators a)(v_round v \<mapsto> rm(vote_Digest L v \<mapsto> m'))\<rparr>"
    using assms(3) by (auto simp: AddVote_def rm_def m_def Let_def split: prod.splits)
  have valid: "rm d = Some x \<Longrightarrow> qm_valid L (ag_committee a) d x" for d x
    using assms(1) by (auto simp: rm_def aggregator_valid_def split: option.splits)
  have signed: "rm d = Some x \<Longrightarrow> \<forall>k\<in>set (qm_voters x). hon k \<longrightarrow> (k, d) \<in> S" for d x
    using assms(2) by (auto simp: rm_def aggregator_backed_def split: option.splits)
  have wf: "qm_wf m"
    using valid qm_valid_new [of L "ag_committee a"]
    by (auto simp: m_def qm_valid_def split: option.splits)
  have old: "\<forall>k\<in>set (qm_voters m). hon k \<longrightarrow> (k, vote_Digest L v) \<in> S"
    using signed by (auto simp: m_def NewQcMaker_def split: option.splits)
  note voters = qcMaker_append_voters [OF wf app(1)]
  have new: "\<forall>k\<in>set (qm_voters m'). hon k \<longrightarrow> (k, vote_Digest L v) \<in> S"
    using voters(1) old assms(4) by blast
  show "aggregator_backed L hon S a'"
    using assms(2) app(2) signed new by (auto simp: aggregator_backed_def split: if_splits)
  show "(k, QC_Digest L qc) \<in> S"
    if "r = Inr (Some qc)" "k \<in> set (qc_Voters qc)" "hon k"
    using voters(2) [OF that(1)] that(2,3) new by (simp add: QC_Digest_def vote_Digest_def)
qed

lemma AddTimeout_backed:
  assumes "aggregator_valid L a" "aggregator_backed L hon S a" "AddTimeout L a t = (a', r)"
    and "hon (t_author t) \<Longrightarrow> (t_author t, timeout_Digest L t) \<in> S"
  shows "aggregator_backed L hon S a'"
    and "r = Inr (Some tc) \<Longrightarrow> x \<in> set (tc_Votes tc) \<Longrightarrow> hon (atr_name x) \<Longrightarrow>
      (atr_name x, timeout_round_digest L (tc_Round tc) (atr_round x)) \<in> S"
proof -
  define m where "m = (case ag_timeoutAggregators a (t_round t) of Some m \<Rightarrow> m | None \<Rightarrow> NewTcMaker L)"
  obtain m' where app: "tcMaker_append L (ag_committee a) m t = (m', r)"
      "a' = a\<lparr>ag_timeoutAggregators := (ag_timeoutAggregators a)(t_round t \<mapsto> m')\<rparr>"
    using assms(3) by (auto simp: AddTimeout_def m_def Let_def split: prod.splits)
  have "tm_valid L (ag_committee a) (t_round t) m"
    using assms(1) by (auto simp: m_def aggregator_valid_def tm_valid_new split: option.splits)
  then have wf: "tm_wf m" by (simp add: tm_valid_def)
  let ?P = "\<lambda>x. hon (atr_name x) \<longrightarrow>
    (atr_name x, timeout_round_digest L (t_round t) (atr_round x)) \<in> S"
  have old: "\<forall>x\<in>set (tm_votes m). ?P x"
    using assms(2) by (auto simp: m_def NewTcMaker_def aggregator_backed_def split: option.splits)
  note votes = tcMaker_append_votes [OF wf app(1)]
  have new: "\<forall>x\<in>set (tm_votes m'). ?P x"
    using votes(1) old assms(4) by (auto simp: timeout_round_digest_def timeout_Digest_def)
  show "aggregator_backed L hon S a'"
    using assms(2) app(2) new by (auto simp: aggregator_backed_def split: if_splits)
  show "(atr_name x, timeout_round_digest L (tc_Round tc) (atr_round x)) \<in> S"
    if "r = Inr (Some tc)" "x \<in> set (tc_Votes tc)" "hon (atr_name x)"
    using votes(2) [OF that(1)] that(2,3) new by simp
qed

subsection \<open>Moves\<close>

text \<open>\<open>parent_of L p b\<close>: \<open>p\<close> is the block that the QC of \<open>b\<close> is for.\<close>

definition parent_of ::
  "('sk, 'p1, 'p2, 'agg, 'z) crypto_lib_scheme \<Rightarrow> Block \<Rightarrow> Block \<Rightarrow> bool" where
  "parent_of L p b \<longleftrightarrow>
     (if IsGenesisQC (blk_Qc b) then p = GenesisBlock else Block_Digest L p = Parent b)"

fun plain_effect :: "core_effect \<Rightarrow> bool" where
  "plain_effect (ESend a m) = True"
| "plain_effect (EBroadcast as m) = True"
| "plain_effect ETimerReset = True"
| "plain_effect (EMempool m) = True"
| "plain_effect (EPayloadWaiter m) = (pwm_block m = None)"
| "plain_effect (EProposer (proposerCleanupMessage ds)) = True"
| "plain_effect _ = False"

abbreviation sigs ::
  "('sk, 'p1, 'p2, 'agg, 'db, 'z) env_scheme \<Rightarrow> (PublicKey \<times> Digest) set \<Rightarrow> ('agg, 'db) core
     \<Rightarrow> (PublicKey \<times> Digest) set" where
  "sigs E S c \<equiv> S \<union> own_pairs E c"

definition block_held ::
  "('sk, 'p1, 'p2, 'agg, 'db, 'z) env_scheme \<Rightarrow> (PublicKey \<Rightarrow> bool) \<Rightarrow> Block set \<Rightarrow> (PublicKey \<times> Digest) set
     \<Rightarrow> ('agg, 'db) core \<Rightarrow> Block \<Rightarrow> bool" where
  "block_held E hon B S c b \<longleftrightarrow> block_known E (c_committee c) hon B (sigs E S c) b
     \<and> qc_Round (blk_Qc b) \<le> qc_Round (c_highQC c)"

inductive core_move ::
  "('sk, 'p1, 'p2, 'agg, 'db, 'z) env_scheme \<Rightarrow> (PublicKey \<Rightarrow> bool) \<Rightarrow> Block set \<Rightarrow> (PublicKey \<times> Digest) set
     \<Rightarrow> ('agg, 'db) core \<Rightarrow> ('agg, 'db) core \<Rightarrow> bool"
  for E hon B S where
  move_emit: "plain_effect e \<Longrightarrow> core_move E hon B S c (emit [e] c)"
| move_hold:
    "block_held E hon B S c b \<Longrightarrow> e = EInner b \<or> (\<exists>m. e = EPayloadWaiter m \<and> pwm_block m = Some b) \<Longrightarrow>
     core_move E hon B S c (emit [e] c)"
| move_propose:
    "(\<And>t. tc = Some t \<Longrightarrow> tc_known E (c_committee c) hon (sigs E S c) t) \<Longrightarrow>
     core_move E hon B S c (generateProposal c tc)"
| move_advance_qc:
    "qc_known E (c_committee c) hon (sigs E S c) qc \<Longrightarrow>
     core_move E hon B S c (advanceRound c (qc_Round qc))"
| move_advance_tc:
    "tc_known E (c_committee c) hon (sigs E S c) tc \<Longrightarrow>
     core_move E hon B S c (advanceRound c (tc_Round tc))"
| move_high:
    "qc_known E (c_committee c) hon (sigs E S c) qc \<Longrightarrow> core_move E hon B S c (updateHighQc c qc)"
| move_collect_vote:
    "vote_verify E (c_committee c) v = None \<Longrightarrow>
     vote_genuine E (c_committee c) hon (sigs E S c) v \<Longrightarrow>
     AddVote E (c_aggregator c) v = (a, r) \<Longrightarrow> core_move E hon B S c (c\<lparr>c_aggregator := a\<rparr>)"
| move_collect_timeout:
    "timeout_Verify E (c_committee c) t = None \<Longrightarrow>
     timeout_genuine E (c_committee c) hon (sigs E S c) t \<Longrightarrow>
     AddTimeout E (c_aggregator c) t = (a, r) \<Longrightarrow> core_move E hon B S c (c\<lparr>c_aggregator := a\<rparr>)"
| move_store: "block_held E hon B S c b \<Longrightarrow> core_move E hon B S c (storeBlock E c b)"
| move_commit:
    "block_held E hon B S c b \<Longrightarrow> block_known E (c_committee c) hon B (sigs E S c) b1 \<Longrightarrow>
     block_known E (c_committee c) hon B (sigs E S c) b0 \<Longrightarrow>
     parent_of E b1 b \<Longrightarrow> parent_of E b0 b1 \<Longrightarrow> blk_Round b0 + 1 = blk_Round b1 \<Longrightarrow>
     commit E c b0 = (c', Ret None) \<Longrightarrow> core_move E hon B S c c'"
| move_vote:
    "block_held E hon B S c b \<Longrightarrow> make_vote E c b = (c', Inr (Some v)) \<Longrightarrow> core_move E hon B S c c'"
| move_timeout:
    "t = NewTimeout E (c_highQC c) (c_round c) (c_name c) (c_signatureService c) \<Longrightarrow>
     core_move E hon B S c (emit [ESign (STimeout t)] (increaseLastVotedRound c (c_round c)))"

abbreviation core_moves ::
  "('sk, 'p1, 'p2, 'agg, 'db, 'z) env_scheme \<Rightarrow> (PublicKey \<Rightarrow> bool) \<Rightarrow> Block set \<Rightarrow> (PublicKey \<times> Digest) set
     \<Rightarrow> ('agg, 'db) core \<Rightarrow> ('agg, 'db) core \<Rightarrow> bool" where
  "core_moves E hon B S \<equiv> (core_move E hon B S)\<^sup>*\<^sup>*"

subsection \<open>What a move changes\<close>

lemma commit_Ret_cases:
  assumes "commit E c b = (c', Ret None)"
  obtains "c' = c" "blk_Round b \<le> c_lastCommittedRound c"
  | ancestors sent where "c_lastCommittedRound c < blk_Round b"
      "commit_loop E (c_store c) (c_lastCommittedRound c) b [] = Some (Inr ancestors, sent)"
      "c' = emit (map ECommit (ancestors @ [b])) (c\<lparr>c_lastCommittedRound := blk_Round b\<rparr>)"
  using assms
  by (auto simp: commit_def Let_def not_less split: if_splits option.splits prod.splits sum.splits)

lemma signed_of_ECommit [simp]: "signed_of (map ECommit bs) = []"
  by (induction bs) auto

lemma signed_of_plain: "plain_effect e \<Longrightarrow> signed_of [e] = []"
  by (cases e) auto

text \<open>Everything that any proof asks of a single move.\<close>

definition extends :: "('agg, 'db) core \<Rightarrow> ('agg, 'db) core \<Rightarrow> bool" where
  "extends c c' \<longleftrightarrow> c_name c' = c_name c \<and> c_committee c' = c_committee c
     \<and> c_signatureService c' = c_signatureService c
     \<and> (\<exists>es. c_out c' = c_out c @ es)
     \<and> c_lastVotedRound c \<le> c_lastVotedRound c'
     \<and> c_lastCommittedRound c \<le> c_lastCommittedRound c'
     \<and> qc_Round (c_highQC c) \<le> qc_Round (c_highQC c')"

lemma extends_refl [simp]: "extends c c"
  by (simp add: extends_def)

lemma extends_trans: "extends a b \<Longrightarrow> extends b c \<Longrightarrow> extends a c"
  by (fastforce simp: extends_def)

lemma core_move_extends: "core_move E hon B S c c' \<Longrightarrow> extends c c'"
proof (induction rule: core_move.induct)
  case (move_commit c b b1 b0 c')
  then show ?case by (auto elim!: commit_Ret_cases simp: extends_def)
next
  case (move_vote c b c' v)
  then show ?case by (auto simp: make_vote_Some_iff extends_def)
qed (auto simp: extends_def core_frames updateHighQc_highQC advanceRound_out generateProposal_def
    increaseLastVotedRound_def max_def)

lemma core_moves_extends: "core_moves E hon B S c c' \<Longrightarrow> extends c c'"
  by (induction rule: rtranclp_induct) (auto intro: extends_trans core_move_extends)

lemma own_pairs_mono: "extends c c' \<Longrightarrow> own_pairs E c \<subseteq> own_pairs E c'"
  by (auto simp: extends_def own_pairs_def)

lemma block_held_extends: "block_held E hon B S c b \<Longrightarrow> extends c c' \<Longrightarrow> block_held E hon B S c' b"
  using own_pairs_mono [of c c' E]
  by (auto simp: block_held_def extends_def intro: block_known_mono)

subsection \<open>The invariant\<close>

text \<open>
  What a core keeps: its aggregator is for its committee, holds verified signatures only, and its
  honest voters have signed; the high QC is known; blocks handed to the synchronizer or the payload
  waiter are known and not above the high QC, and so is what the proposer is told; every stored
  block that can be read back is stored under its own digest and is known.
\<close>

fun effect_ok ::
  "('sk, 'p1, 'p2, 'agg, 'db, 'z) env_scheme \<Rightarrow> (PublicKey \<Rightarrow> bool) \<Rightarrow> Block set \<Rightarrow> (PublicKey \<times> Digest) set
     \<Rightarrow> ('agg, 'db) core \<Rightarrow> core_effect \<Rightarrow> bool" where
  "effect_ok E hon B S c (EInner b) \<longleftrightarrow> block_held E hon B S c b"
| "effect_ok E hon B S c (EPayloadWaiter m) \<longleftrightarrow>
     (\<forall>b. pwm_block m = Some b \<longrightarrow> block_held E hon B S c b)"
| "effect_ok E hon B S c (EProposer (proposerMakeMessage r qc tc)) \<longleftrightarrow>
     qc_known E (c_committee c) hon (sigs E S c) qc \<and> qc_Round qc \<le> qc_Round (c_highQC c)
     \<and> (\<forall>t. tc = Some t \<longrightarrow> tc_known E (c_committee c) hon (sigs E S c) t)"
| "effect_ok E hon B S c e \<longleftrightarrow> True"

definition stored_ok ::
  "('sk, 'p1, 'p2, 'agg, 'db, 'z) env_scheme \<Rightarrow> (PublicKey \<Rightarrow> bool) \<Rightarrow> Block set \<Rightarrow> (PublicKey \<times> Digest) set
     \<Rightarrow> Committee \<Rightarrow> 'db store \<Rightarrow> bool" where
  "stored_ok E hon B S cm s \<longleftrightarrow> store_ok E s \<and>
     (\<forall>d bytes p. Store_Read E s (digest_bytes d) = Inr bytes \<longrightarrow> Block_Deserialize E bytes = Ok p
        \<longrightarrow> Block_Digest E p = d \<and> block_known E cm hon B S p)"

definition core_ok ::
  "('sk, 'p1, 'p2, 'agg, 'db, 'z) env_scheme \<Rightarrow> (PublicKey \<Rightarrow> bool) \<Rightarrow> Block set \<Rightarrow> (PublicKey \<times> Digest) set
     \<Rightarrow> ('agg, 'db) core \<Rightarrow> bool" where
  "core_ok E hon B S c \<longleftrightarrow>
     ag_committee (c_aggregator c) = c_committee c
     \<and> aggregator_valid E (c_aggregator c)
     \<and> aggregator_backed E hon (sigs E S c) (c_aggregator c)
     \<and> qc_known E (c_committee c) hon (sigs E S c) (c_highQC c)
     \<and> (\<forall>e\<in>set (c_out c). effect_ok E hon B S c e)
     \<and> stored_ok E hon B (sigs E S c) (c_committee c) (c_store c)"

definition env_ok :: "('sk, 'p1, 'p2, 'agg, 'db, 'z) env_scheme \<Rightarrow> Committee \<Rightarrow> bool" where
  "env_ok E cm \<longleftrightarrow> proto_ok E \<and> bls_ok E \<and> stake_fits cm"

lemma effect_ok_extends:
  assumes "effect_ok E hon B S c e" "extends c c'"
  shows "effect_ok E hon B S c' e"
proof -
  have mono: "sigs E S c \<subseteq> sigs E S c'" "c_committee c' = c_committee c"
      "qc_Round (c_highQC c) \<le> qc_Round (c_highQC c')"
    using own_pairs_mono [OF assms(2), of E] assms(2) by (auto simp: extends_def)
  show ?thesis
  proof (cases e)
    case (EProposer m)
    then show ?thesis
      using assms(1) mono by (cases m) (auto intro: known_mono)
  qed (use assms in \<open>auto intro: block_held_extends\<close>)
qed

lemma effects_ok_extends:
  assumes "extends c c'" "c_out c' = c_out c @ es" "\<forall>e\<in>set (c_out c). effect_ok E hon B S c e"
    and "\<And>e. e \<in> set es \<Longrightarrow> effect_ok E hon B S c' e"
  shows "\<forall>e\<in>set (c_out c'). effect_ok E hon B S c' e"
  using assms by (auto intro: effect_ok_extends)

lemma stored_ok_mono:
  "stored_ok E hon B S cm s \<Longrightarrow> S \<subseteq> S' \<Longrightarrow> stored_ok E hon B S' cm s"
  unfolding stored_ok_def by (blast intro: known_mono)

lemma stored_ok_write:
  assumes "stored_ok E hon B S cm s" "proto_ok E" "Block_Serialize E b = Ok value"
    and "block_known E cm hon B S b"
  shows "stored_ok E hon B S cm (Store_Write E s (digest_bytes (Block_Digest E b)) value)"
  using assms
  by (auto simp: stored_ok_def Store_Write_ok st.get_put_if Block_Deserialize_Serialize)

lemma aggregator_parts:
  assumes "core_ok E hon B S c"
  shows "ag_committee (c_aggregator c) = c_committee c" "aggregator_valid E (c_aggregator c)"
    "aggregator_backed E hon (sigs E S c) (c_aggregator c)"
  using assms by (simp_all add: core_ok_def)

text \<open>A move that leaves the aggregator, the store and the high QC alone.\<close>

lemma core_ok_frame:
  assumes "core_ok E hon B S c" "extends c c'" "c_out c' = c_out c @ es"
    and "c_aggregator c' = c_aggregator c \<or>
         (\<exists>r. c_aggregator c' = aggregator_cleanup (c_aggregator c) r)"
    and "c_highQC c' = c_highQC c" "c_store c' = c_store c"
    and "\<And>e. e \<in> set es \<Longrightarrow> effect_ok E hon B S c' e"
  shows "core_ok E hon B S c'"
proof -
  have mono: "sigs E S c \<subseteq> sigs E S c'" "c_committee c' = c_committee c"
    using own_pairs_mono [OF assms(2), of E] assms(2) by (auto simp: extends_def)
  note ag = aggregator_parts [OF assms(1)]
  have "aggregator_backed E hon (sigs E S c') (c_aggregator c)"
    using ag(3) mono(1) by (rule aggregator_backed_mono)
  then have "ag_committee (c_aggregator c') = c_committee c' \<and> aggregator_valid E (c_aggregator c')
      \<and> aggregator_backed E hon (sigs E S c') (c_aggregator c')"
    using ag assms(4) mono(2) by (auto simp: aggregator_cleanup_valid aggregator_cleanup_backed)
  moreover have "qc_known E (c_committee c') hon (sigs E S c') (c_highQC c')"
    using assms(1,5) mono by (auto simp: core_ok_def intro: known_mono)
  moreover have "stored_ok E hon B (sigs E S c') (c_committee c') (c_store c')"
    using assms(1,6) mono by (auto simp: core_ok_def intro: stored_ok_mono)
  moreover have "\<forall>e\<in>set (c_out c'). effect_ok E hon B S c' e"
    using assms by (intro effects_ok_extends [OF assms(2,3)]) (auto simp: core_ok_def)
  ultimately show ?thesis unfolding core_ok_def by blast
qed

lemma own_pairs_frames:
  "own_pairs E (updateHighQc c qc) = own_pairs E c" "own_pairs E (storeBlock E' c b) = own_pairs E c"
  "own_pairs E (c\<lparr>c_aggregator := a\<rparr>) = own_pairs E c"
  by (simp_all add: own_pairs_def core_frames)

lemma core_ok_aggregator:
  assumes "core_ok E hon B S c" "ag_committee a = c_committee c" "aggregator_valid E a"
    "aggregator_backed E hon (sigs E S c) a"
  shows "core_ok E hon B S (c\<lparr>c_aggregator := a\<rparr>)"
proof -
  note eq = own_pairs_frames(3)
  have "effect_ok E hon B S (c\<lparr>c_aggregator := a\<rparr>) e = effect_ok E hon B S c e" for e
    by (cases "(E, hon, B, S, c, e)" rule: effect_ok.cases) (simp_all add: eq block_held_def)
  then show ?thesis using assms by (simp add: core_ok_def eq)
qed

lemma plain_effect_ok: "plain_effect e \<Longrightarrow> effect_ok E hon B S c e"
  by (cases e rule: plain_effect.cases) auto

lemma core_move_ok:
  assumes "core_move E hon B S c c'" "core_ok E hon B S c" "env_ok E (c_committee c)"
  shows "core_ok E hon B S c'"
proof -
  have ext: "extends c c'" using assms(1) by (rule core_move_extends)
  have env: "proto_ok E" "bls_ok E" "stake_fits (c_committee c)"
    using assms(3) by (simp_all add: env_ok_def)
  note ag = aggregator_parts [OF assms(2)]
  note frame = core_ok_frame [OF assms(2) ext]
  show ?thesis
    using assms(1)
  proof (cases rule: core_move.cases)
    case (move_emit e)
    then show ?thesis by (intro frame [of "[e]"]) (auto simp: plain_effect_ok)
  next
    case (move_hold b e)
    then show ?thesis
      using block_held_extends [OF move_hold(2) ext] by (intro frame [of "[e]"]) auto
  next
    case (move_propose tc)
    have mono: "sigs E S c \<subseteq> sigs E S c'" using own_pairs_mono [OF ext, of E] by blast
    have "effect_ok E hon B S c' (EProposer (proposerMakeMessage (c_round c) (c_highQC c) tc))"
      using move_propose assms(2) mono ext
      by (auto simp: generateProposal_def core_ok_def extends_def intro: known_mono)
    then show ?thesis
      using move_propose by (intro frame) (auto simp: generateProposal_def)
  next
    case (move_advance_qc qc)
    then show ?thesis
      by (intro frame) (auto simp: advanceRound_out core_frames advanceRound_aggregator
        split: if_splits)
  next
    case (move_advance_tc tc)
    then show ?thesis
      by (intro frame) (auto simp: advanceRound_out core_frames advanceRound_aggregator
        split: if_splits)
  next
    case (move_high qc)
    have "\<forall>e\<in>set (c_out c'). effect_ok E hon B S c' e"
      using assms(2) move_high(1) ext
      by (intro effects_ok_extends [of c c' "[]"]) (auto simp: core_ok_def core_frames)
    then show ?thesis
      using assms(2) move_high
      by (simp add: core_ok_def own_pairs_frames core_frames updateHighQc_highQC)
  next
    case (move_collect_vote v a r)
    have v: "vote_verify E (ag_committee (c_aggregator c)) v = None"
        "hon (v_author v) \<Longrightarrow> (v_author v, vote_Digest E v) \<in> sigs E S c"
      using move_collect_vote ag(1) by (auto simp: vote_genuine_def)
    note valid = AddVote_valid [OF env(2) _ ag(2) v(1) move_collect_vote(4)]
    show ?thesis
      unfolding move_collect_vote(1)
      using valid ag env AddVote_backed(1) [OF ag(2,3) move_collect_vote(4) v(2)]
      by (intro core_ok_aggregator [OF assms(2)]) simp_all
  next
    case (move_collect_timeout t a r)
    have t: "timeout_Verify E (ag_committee (c_aggregator c)) t = None"
        "hon (t_author t) \<Longrightarrow> (t_author t, timeout_Digest E t) \<in> sigs E S c"
      using move_collect_timeout ag(1) by (auto simp: timeout_genuine_def)
    note valid = AddTimeout_valid [OF env(2) _ ag(2) t(1) move_collect_timeout(4)]
    show ?thesis
      unfolding move_collect_timeout(1)
      using valid ag env AddTimeout_backed(1) [OF ag(2,3) move_collect_timeout(4) t(2)]
      by (intro core_ok_aggregator [OF assms(2)]) simp_all
  next
    case (move_store b)
    have "stored_ok E hon B (sigs E S c) (c_committee c) (c_store c')"
      using assms(2) move_store env(1)
      by (auto simp: core_ok_def storeBlock_def block_held_def stored_ok_write split: result.splits)
    moreover have "\<forall>e\<in>set (c_out c'). effect_ok E hon B S c' e"
      using assms(2) move_store(1) ext
      by (intro effects_ok_extends [of c c' "[]"]) (auto simp: core_ok_def core_frames)
    ultimately show ?thesis
      using assms(2) move_store by (simp add: core_ok_def own_pairs_frames core_frames)
  next
    case (move_commit b b1 b0)
    from move_commit(7) show ?thesis
    proof (cases rule: commit_Ret_cases)
      case 1
      then show ?thesis using assms(2) by simp
    next
      case (2 ancestors sent)
      then show ?thesis by (intro frame) auto
    qed
  next
    case (move_vote b v)
    then show ?thesis by (intro frame) (auto simp: make_vote_Some_iff)
  next
    case (move_timeout t)
    then show ?thesis by (intro frame) (auto simp: increaseLastVotedRound_def)
  qed
qed

lemma core_moves_ok:
  assumes "core_moves E hon B S c c'" "core_ok E hon B S c" "env_ok E (c_committee c)"
  shows "core_ok E hon B S c'"
  using assms
proof (induction rule: rtranclp_induct)
  case (step y z)
  have "c_committee y = c_committee c" using core_moves_extends [OF step(1)] by (simp add: extends_def)
  then show ?case using step core_move_ok by metis
qed simp

end
