(* ===== verification/CoreRefine.thy ===== *)
theory CoreRefine
  imports CoreSteps
begin

text \<open>
  Every handler of \<open>consensus/core.go\<close> is a sequence of moves (\<open>core_step_moves\<close>). \<open>steps_to\<close> adds
  what a handler that ends the process may still do after its last move: put blocks on the
  synchronizer's channel before it panics.
\<close>

definition steps_to ::
  "('sk, 'p1, 'p2, 'agg, 'db, 'z) env_scheme \<Rightarrow> (PublicKey \<Rightarrow> bool) \<Rightarrow> Block set \<Rightarrow> (PublicKey \<times> Digest) set
     \<Rightarrow> ('agg, 'db) core \<Rightarrow> ('agg, 'db) core \<Rightarrow> outcome \<Rightarrow> bool" where
  "steps_to E hon B S c c' out \<longleftrightarrow>
     (\<exists>c1 bs. core_moves E hon B S c c1 \<and> c' = emit (map EInner bs) c1
        \<and> (bs \<noteq> [] \<longrightarrow> (\<exists>p. out = Crash p)))"

lemma moves_steps_to: "core_moves E hon B S c c' \<Longrightarrow> steps_to E hon B S c c' out"
  unfolding steps_to_def by (rule exI [of _ c'], rule exI [of _ "[]"]) simp

lemma steps_to_trans:
  "core_moves E hon B S c c1 \<Longrightarrow> steps_to E hon B S c1 c' out \<Longrightarrow> steps_to E hon B S c c' out"
  unfolding steps_to_def by (elim exE conjE) (intro exI conjI, rule rtranclp_trans, auto)

lemma steps_to_Ret: "steps_to E hon B S c c' (Ret r) \<Longrightarrow> core_moves E hon B S c c'"
  by (auto simp: steps_to_def)

lemma steps_to_dying:
  "core_moves E hon B S c c1 \<Longrightarrow> steps_to E hon B S c (emit (map EInner bs) c1) (Crash p)"
  unfolding steps_to_def by blast

lemma move_then: "core_moves E hon B S c c1 \<Longrightarrow> core_move E hon B S c1 c2 \<Longrightarrow> core_moves E hon B S c c2"
  by (rule rtranclp.rtrancl_into_rtrancl)

subsection \<open>Small sequences\<close>

lemma emit_moves:
  assumes "\<And>e. e \<in> set es \<Longrightarrow> plain_effect e \<or>
    (\<exists>b. block_held E hon B S c b \<and> (e = EInner b \<or> (\<exists>m. e = EPayloadWaiter m \<and> pwm_block m = Some b)))"
  shows "core_moves E hon B S c (emit es c)"
  using assms
proof (induction es rule: rev_induct)
  case (snoc e es)
  then have "core_moves E hon B S c (emit es c)" by simp
  moreover have "core_move E hon B S (emit es c) (emit [e] (emit es c))"
  proof (cases "plain_effect e")
    case True
    then show ?thesis by (rule core_move.move_emit)
  next
    case False
    then obtain b where "block_held E hon B S c b"
        and e: "e = EInner b \<or> (\<exists>m. e = EPayloadWaiter m \<and> pwm_block m = Some b)"
      using snoc.prems [of e] by auto
    then have "block_held E hon B S (emit es c) b"
      by (rule_tac block_held_extends) (auto simp: extends_def)
    then show ?thesis using e by (rule core_move.move_hold)
  qed
  ultimately show ?case by (simp add: emit_append move_then)
qed simp

lemma sigs_advance: "own_pairs E (advanceRound c r) = own_pairs E c"
  by (simp add: own_pairs_def core_frames advanceRound_out)

lemma processQC_moves:
  assumes "qc_known E (c_committee c) hon (sigs E S c) qc"
  shows "core_moves E hon B S c (processQC c qc)"
proof -
  have "core_move E hon B S c (advanceRound c (qc_Round qc))"
    using assms by (rule core_move.move_advance_qc)
  moreover have "core_move E hon B S (advanceRound c (qc_Round qc)) (processQC c qc)"
    unfolding processQC_def using assms
    by (intro core_move.move_high) (simp add: sigs_advance core_frames)
  ultimately show ?thesis by (meson r_into_rtranclp move_then)
qed

lemma processQC_highQC: "qc_Round qc \<le> qc_Round (c_highQC (processQC c qc))"
  by (simp add: processQC_def updateHighQc_highQC core_frames not_less)

lemma processQC_frames [core_frames]:
  "c_name (processQC c qc) = c_name c" "c_committee (processQC c qc) = c_committee c"
  "c_signatureService (processQC c qc) = c_signatureService c"
  "c_store (processQC c qc) = c_store c"
  "c_lastVotedRound (processQC c qc) = c_lastVotedRound c"
  "c_lastCommittedRound (processQC c qc) = c_lastCommittedRound c"
  by (simp_all add: processQC_def core_frames)

lemma lead_moves:
  assumes "core_moves E hon B S c c1"
    and "\<And>t. tc = Some t \<Longrightarrow> tc_known E (c_committee c1) hon (sigs E S c1) t"
  shows "core_moves E hon B S c (if P then generateProposal c1 tc else c1)"
  using assms move_then [OF assms(1) core_move.move_propose [of tc E c1 hon S B]] by auto

lemma moves_committee: "core_moves E hon B S c c' \<Longrightarrow> c_committee c' = c_committee c"
  using core_moves_extends [of E hon B S c c'] by (simp add: extends_def)

lemma moves_sigs: "core_moves E hon B S c c' \<Longrightarrow> sigs E S c \<subseteq> sigs E S c'"
  using own_pairs_mono [OF core_moves_extends, of E hon B S c c'] by blast

subsection \<open>Votes and timeouts\<close>

lemma handleVote_moves:
  assumes "core_ok E hon B S c" "env_ok E (c_committee c)"
    and "vote_genuine E (c_committee c) hon (sigs E S c) v" "handleVote E c v = (c', out)"
  shows "core_moves E hon B S c c'"
proof (cases "v_round v < c_round c \<or> vote_verify E (c_committee c) v \<noteq> None")
  case True
  then have "c' = c" using assms(4) by (auto simp: handleVote_def split: if_splits)
  then show ?thesis by simp
next
  case False
  obtain a r where add: "AddVote E (c_aggregator c) v = (a, r)" by fastforce
  let ?c = "c\<lparr>c_aggregator := a\<rparr>"
  note ag = aggregator_parts [OF assms(1)]
  have v: "vote_verify E (ag_committee (c_aggregator c)) v = None"
      "hon (v_author v) \<Longrightarrow> (v_author v, vote_Digest E v) \<in> sigs E S c"
    using False assms(3) ag(1) by (auto simp: vote_genuine_def)
  have m: "core_moves E hon B S c ?c"
    using False assms(3) add by (intro r_into_rtranclp core_move.move_collect_vote) auto
  have known: "qc_known E (c_committee ?c) hon (sigs E S ?c) qc" if "r = Inr (Some qc)" for qc
    using AddVote_valid(3) [OF _ _ ag(2) v(1) add that]
      AddVote_backed(2) [OF ag(2,3) add v(2) that] assms(2) ag(1)
    by (auto simp: qc_known_def env_ok_def own_pairs_frames)
  have qc: "core_moves E hon B S c (processQC ?c qc)" if "r = Inr (Some qc)" for qc
    using rtranclp_trans [OF m processQC_moves [OF known [OF that]]] .
  have lead: "core_moves E hon B S c (if P then generateProposal (processQC ?c qc) None
      else processQC ?c qc)" if "r = Inr (Some qc)" for P qc
    by (rule lead_moves [OF qc [OF that]]) simp
  show ?thesis
  proof (cases "\<exists>qc. r = Inr (Some qc)")
    case True
    then obtain qc where r: "r = Inr (Some qc)" by blast
    then show ?thesis
      using False assms(4) add lead [OF r] qc [OF r]
      by (auto simp: handleVote_def Let_def split: sum.splits)
  next
    case no: False
    have "c' = ?c"
      using False assms(4) add no
      by (cases r; cases "projr r") (auto simp: handleVote_def Let_def)
    then show ?thesis using m by simp
  qed
qed

lemma handleTimeout_moves:
  assumes "core_ok E hon B S c" "env_ok E (c_committee c)"
    and "timeout_genuine E (c_committee c) hon (sigs E S c) t" "handleTimeout E c t = (c', out)"
  shows "core_moves E hon B S c c'"
proof (cases "t_round t < c_round c \<or> timeout_Verify E (c_committee c) t \<noteq> None")
  case True
  then have "c' = c" using assms(4) by (auto simp: handleTimeout_def split: if_splits)
  then show ?thesis by simp
next
  case False
  define c1 where "c1 = processQC c (t_highQC t)"
  have cm: "c_committee c1 = c_committee c" by (simp add: c1_def core_frames)
  have m1: "core_moves E hon B S c c1"
    using False assms(3) unfolding c1_def timeout_genuine_def by (intro processQC_moves) simp
  have ok1: "core_ok E hon B S c1" using core_moves_ok [OF m1 assms(1,2)] .
  have gen1: "timeout_genuine E (c_committee c1) hon (sigs E S c1) t"
    using assms(3) moves_sigs [OF m1] cm
    unfolding timeout_genuine_def by (auto intro: qc_known_mono)
  obtain a r where add: "AddTimeout E (c_aggregator c1) t = (a, r)" by fastforce
  define c2 where "c2 = c1\<lparr>c_aggregator := a\<rparr>"
  note ag = aggregator_parts [OF ok1]
  have t: "timeout_Verify E (ag_committee (c_aggregator c1)) t = None"
      "hon (t_author t) \<Longrightarrow> (t_author t, timeout_Digest E t) \<in> sigs E S c1"
    using False gen1 ag(1) cm by (auto simp: timeout_genuine_def)
  have "core_move E hon B S c1 c2"
    unfolding c2_def using False gen1 add cm by (intro core_move.move_collect_timeout) auto
  with m1 have m2: "core_moves E hon B S c c2" by (rule move_then)
  show ?thesis
  proof (cases "\<exists>tc. r = Inr (Some tc)")
    case no: False
    have "c' = c2"
      using False assms(4) add no unfolding c2_def c1_def
      by (cases r; cases "projr r") (auto simp: handleTimeout_def Let_def)
    then show ?thesis using m2 by simp
  next
    case True
    then obtain tc where r: "r = Inr (Some tc)" by blast
    have known: "tc_known E (c_committee c2) hon (sigs E S c2) tc"
      using AddTimeout_valid(3) [OF _ _ ag(2) t(1) add r]
        AddTimeout_backed(2) [OF ag(2,3) add t(2) r] assms(2) ag(1) cm
      by (auto simp: tc_known_def env_ok_def own_pairs_frames c2_def)
    define c3 where "c3 = advanceRound c2 (tc_Round tc)"
    have m3: "core_moves E hon B S c c3"
      unfolding c3_def by (rule move_then [OF m2 core_move.move_advance_tc [OF known]])
    define send where "send = EBroadcast (snd (BroadcastAddresses (c_committee c3) (c_name c3)))"
    define c4 where "c4 x = emit [send x] c3" for x
    have m4: "core_moves E hon B S c (c4 x)" for x
      unfolding c4_def send_def
      by (rule move_then [OF m3 core_move.move_emit]) simp
    have ext: "extends c2 (c4 x)" for x
      using core_moves_extends [of E hon B S c2 "c4 x"] m3
      by (simp add: c4_def c3_def send_def extends_def core_frames advanceRound_out)
    have "sigs E S c2 \<subseteq> sigs E S (c4 x)" "c_committee (c4 x) = c_committee c2" for x
      using own_pairs_mono [OF ext [of x], of E] ext [of x] by (auto simp: extends_def)
    then have known4: "tc_known E (c_committee (c4 x)) hon (sigs E S (c4 x)) tc" for x
      using known by (auto intro: tc_known_mono)
    have lead: "core_moves E hon B S c (generateProposal (c4 x) (Some tc))" for x
      by (rule move_then [OF m4 core_move.move_propose]) (use known4 in auto)
    have "handleTimeout E c t = (case SerializeConsensusMessage E (tcMessage tc) of
        Err e \<Rightarrow> (c3, Ret (Some e)) | Panic p \<Rightarrow> (c3, Crash p)
      | Ok x \<Rightarrow> (case getLeader (c_committee (c4 x)) (c_round (c4 x)) of
            Inl p \<Rightarrow> (c4 x, Crash p)
          | Inr l \<Rightarrow> (if c_name (c4 x) = l then generateProposal (c4 x) (Some tc) else c4 x, Ret None)))"
      using False add r
      by (simp add: handleTimeout_def Let_def case_prod_unfold c4_def send_def c3_def c2_def c1_def
          split: result.split sum.split)
    then show ?thesis
      using assms(4) m3 m4 lead by (auto split: result.splits sum.splits if_splits)
  qed
qed

lemma NewTimeout_fields [simp]:
  "t_author (NewTimeout L qc r a ss) = a" "t_highQC (NewTimeout L qc r a ss) = qc"
  "t_round (NewTimeout L qc r a ss) = r"
  by (simp_all add: NewTimeout_def Let_def)

lemma localTimeoutRound_moves:
  assumes "core_ok E hon B S c" "env_ok E (c_committee c)" "localTimeoutRound E c = (c', out)"
  shows "core_moves E hon B S c c'"
proof -
  define t where "t = NewTimeout E (c_highQC c) (c_round c) (c_name c) (c_signatureService c)"
  define c1 where "c1 = emit [ESign (STimeout t)] (increaseLastVotedRound c (c_round c))"
  have m1: "core_moves E hon B S c c1"
    unfolding c1_def by (intro r_into_rtranclp core_move.move_timeout) (rule t_def)
  define c2 where "c2 = emit [ETimerReset] c1"
  have m2: "core_moves E hon B S c c2"
    unfolding c2_def by (rule move_then [OF m1 core_move.move_emit]) simp
  define c3 where "c3 x = emit [EBroadcast (snd (BroadcastAddresses (c_committee c2) (c_name c2))) x] c2" for x
  have m3: "core_moves E hon B S c (c3 x)" for x
    unfolding c3_def by (rule move_then [OF m2 core_move.move_emit]) simp
  have own: "(c_name c, timeout_Digest E t) \<in> own_pairs E c1"
    by (auto simp: own_pairs_def c1_def increaseLastVotedRound_def image_iff)
  have gen: "timeout_genuine E (c_committee (c3 x)) hon (sigs E S (c3 x)) t" for x
  proof -
    have ext: "extends c (c3 x)" "extends c1 (c3 x)"
      by (rule core_moves_extends [OF m3]) (simp add: extends_def c3_def c2_def)
    then have "sigs E S c \<subseteq> sigs E S (c3 x)" "own_pairs E c1 \<subseteq> own_pairs E (c3 x)"
        "c_committee (c3 x) = c_committee c"
      using own_pairs_mono [OF ext(1), of E] own_pairs_mono [OF ext(2), of E]
      by (auto simp: extends_def)
    then show ?thesis
      using assms(1) own unfolding timeout_genuine_def core_ok_def
      by (auto simp: t_def intro: qc_known_mono)
  qed
  have eq: "emit [ESign (STimeout t), ETimerReset] (increaseLastVotedRound c (c_round c)) = c2"
    by (simp add: c2_def c1_def emit_def)
  have "c' = c2 \<or> (\<exists>x. handleTimeout E (c3 x) t = (c', out))"
    using assms(3) eq unfolding c3_def t_def
    by (auto simp: localTimeoutRound_def Let_def increaseLastVotedRound_def case_prod_unfold
        split: result.splits)
  then show ?thesis
  proof
    assume "\<exists>x. handleTimeout E (c3 x) t = (c', out)"
    then obtain x where "handleTimeout E (c3 x) t = (c', out)" ..
    from handleTimeout_moves [OF core_moves_ok [OF m3 assms(1,2)] _ gen this]
    have "core_moves E hon B S (c3 x) c'"
      using assms(2) moves_committee [OF m3 [of x]] by simp
    with m3 [of x] show ?thesis by (rule rtranclp_trans)
  qed (use m2 in simp)
qed

subsection \<open>Blocks\<close>

lemma getParentBlock_known:
  assumes "stored_ok E hon B S cm s" "getParentBlock E s b = (Ok p, sent)"
  shows "parent_of E p b \<and> block_known E cm hon B S p"
  using assms
  by (auto simp: getParentBlock_cases parent_of_def stored_ok_def block_known_def GenesisBlock_def
      split: if_splits)

lemma vote_for_block_moves:
  assumes "core_ok E hon B S c" "env_ok E (c_committee c)" "block_held E hon B S c b"
    and "vote_for_block E c b = (c', out)"
  shows "core_moves E hon B S c c'"
proof -
  obtain c1 r where mv: "make_vote E c b = (c1, r)" by fastforce
  show ?thesis
  proof (cases "\<exists>v. r = Inr (Some v)")
    case False
    then have "c1 = c" using mv make_vote_no_vote [of E c b c1]
      by (cases r; cases "projr r") auto
    then show ?thesis
      using assms(4) mv False
      by (auto simp: vote_for_block_def split: sum.splits option.splits)
  next
    case True
    then obtain v where v: "make_vote E c b = (c1, Inr (Some v))" using mv by auto
    have m1: "core_moves E hon B S c c1"
      using assms(3) v by (intro r_into_rtranclp core_move.move_vote)
    note ok1 = core_moves_ok [OF m1 assms(1,2)] and cm1 = moves_committee [OF m1]
    have "v_author v = c_name c1" "(c_name c1, vote_Digest E v) \<in> own_pairs E c1"
      using v by (auto simp: make_vote_Some_iff own_pairs_def image_iff)
    then have gen: "vote_genuine E (c_committee c1) hon (sigs E S c1) v"
      by (simp add: vote_genuine_def)
    have env: "env_ok E (c_committee c1)" using assms(2) cm1 by simp
    have m2: "core_moves E hon B S c c2" if "handleVote E c1 v = (c2, out')" for c2 out'
      using rtranclp_trans [OF m1 handleVote_moves [OF ok1 env gen that]] .
    have m3: "core_moves E hon B S c (emit [ESend a x] c1)" for a x
      by (rule move_then [OF m1 core_move.move_emit]) simp
    show ?thesis
      using assms(4) v m1 m2 m3
      by (auto simp: vote_for_block_def Let_def split: sum.splits if_splits prod.splits
          result.splits outcome.splits)
  qed
qed

lemma getAncestors_outcomes:
  assumes "getAncestors E s b = (r, sent)"
  shows "(\<exists>err. r = Err err \<and> set sent \<subseteq> {b}) \<or> (\<exists>p. r = Panic p)
    \<or> (\<exists>b0 b1. r = Ok (b0, b1) \<and> sent = [] \<and> getParentBlock E s b = (Ok b1, [])
        \<and> getParentBlock E s b1 = (Ok b0, []))"
proof (cases r)
  case (Ok p)
  then show ?thesis using assms getAncestors_Ok_iff [of E s b "fst p" "snd p" sent] by (cases p) auto
next
  case (Err err)
  then show ?thesis
    using assms
    by (auto simp: getAncestors_def getParentBlock_def split: result.splits prod.splits if_splits
        sum.splits)
qed simp

lemma commit_steps:
  assumes "core_ok E hon B S c" "block_held E hon B S c b"
    and "block_known E (c_committee c) hon B (sigs E S c) b1"
    and "block_known E (c_committee c) hon B (sigs E S c) b0" "parent_of E b1 b" "parent_of E b0 b1"
    and "blk_Round b0 + 1 = blk_Round b1" "commit E c b0 = (c', out)"
  shows "steps_to E hon B S c c' out \<and> (\<forall>r. out = Ret r \<longrightarrow> r = None)"
proof (cases "out = Ret None")
  case True
  then have "core_move E hon B S c c'"
    using assms(8) by (intro core_move.move_commit [OF assms(2-7)]) simp
  then show ?thesis using True by (blast intro: moves_steps_to)
next
  case False
  then have "(c' = c \<and> out = Hang) \<or> (\<exists>p sent. out = Crash p \<and> c' = emit (map EInner sent) c)"
    using assms(8)
    by (auto simp: commit_def Let_def split: if_splits option.splits prod.splits sum.splits)
  then show ?thesis
    using steps_to_dying [of E hon B S c c] moves_steps_to [of E hon B S c c out] by auto
qed

lemma processBlock_steps:
  assumes "core_ok E hon B S c" "env_ok E (c_committee c)" "block_held E hon B S c b"
    and "processBlock E c b = (c', out)"
  shows "steps_to E hon B S c c' out"
proof -
  obtain r sent where ga: "getAncestors E (c_store c) b = (r, sent)" by fastforce
  from getAncestors_outcomes [OF ga] show ?thesis
  proof (elim disjE exE conjE)
    fix err assume "r = Err err" "set sent \<subseteq> {b}"
    moreover from this have "core_moves E hon B S c (emit (map EInner sent) c)"
      using assms(3) by (intro emit_moves) auto
    ultimately show ?thesis using assms(4) ga by (auto simp: processBlock_def intro: moves_steps_to)
  next
    fix p assume "r = Panic p"
    then show ?thesis
      using assms(4) ga steps_to_dying [of E hon B S c c sent p] by (auto simp: processBlock_def)
  next
    fix b0 b1
    assume r: "r = Ok (b0, b1)" "sent = []" "getParentBlock E (c_store c) b = (Ok b1, [])"
      "getParentBlock E (c_store c) b1 = (Ok b0, [])"
    have stored: "stored_ok E hon B (sigs E S c) (c_committee c) (c_store c)"
      using assms(1) by (simp add: core_ok_def)
    note par1 = getParentBlock_known [OF stored r(3)] and par0 = getParentBlock_known [OF stored r(4)]
    define c1 where "c1 = storeBlock E c b"
    have m1: "core_moves E hon B S c c1"
      unfolding c1_def using assms(3) by (intro r_into_rtranclp core_move.move_store)
    define c2 where "c2 = cleanupProposer c1 b0 b1 b"
    have m2: "core_moves E hon B S c c2"
      unfolding c2_def cleanupProposer_def by (rule move_then [OF m1 core_move.move_emit]) simp
    define c3 where "c3 = emit (map EMempool (fst (driver_cleanup (blk_Round b0)))
        @ map EPayloadWaiter (snd (driver_cleanup (blk_Round b0)))) c2"
    have m3: "core_moves E hon B S c c3"
      unfolding c3_def
      by (rule rtranclp_trans [OF m2 emit_moves]) (auto simp: driver_cleanup_def)
    have vote: "steps_to E hon B S c c'' out'"
      if "core_moves E hon B S c d" "vote_for_block E d b = (c'', out')" for d c'' out'
      using that core_moves_ok [OF that(1) assms(1,2)] moves_committee [OF that(1)] assms(2)
        block_held_extends [OF assms(3) core_moves_extends [OF that(1)]]
      by (intro moves_steps_to rtranclp_trans [OF that(1) vote_for_block_moves]) auto
    have com: "steps_to E hon B S c c4 o4 \<and> (\<forall>r. o4 = Ret r \<longrightarrow> r = None)"
      if "blk_Round b0 + 1 = blk_Round b1" "commit E c3 b0 = (c4, o4)" for c4 o4
    proof -
      have "block_known E (c_committee c3) hon B (sigs E S c3) b1"
          "block_known E (c_committee c3) hon B (sigs E S c3) b0"
        using par1 par0 moves_committee [OF m3] moves_sigs [OF m3] by (auto intro: block_known_mono)
      from commit_steps [OF core_moves_ok [OF m3 assms(1,2)]
          block_held_extends [OF assms(3) core_moves_extends [OF m3]] this(1) this(2) _ _ that]
      show ?thesis using par1 par0 steps_to_trans [OF m3] by blast
    qed
    have step: "processBlock E c b =
        (if blk_Round b0 + 1 = blk_Round b1
         then case commit E c3 b0 of
                (c4, Ret None) \<Rightarrow> vote_for_block E c4 b
              | (c4, other) \<Rightarrow> (c4, other)
         else vote_for_block E c2 b)"
      using ga r
      by (simp add: processBlock_def Let_def c1_def c2_def c3_def case_prod_unfold)
    show ?thesis
    proof (cases "blk_Round b0 + 1 = blk_Round b1")
      case False
      then show ?thesis using step assms(4) vote [OF m2] by simp
    next
      case True
      obtain c4 o4 where c4: "commit E c3 b0 = (c4, o4)" by fastforce
      note com4 = com [OF True c4]
      show ?thesis
      proof (cases "o4 = Ret None")
        case True
        then have "core_moves E hon B S c c4" using com4 steps_to_Ret by blast
        then show ?thesis using step assms(4) c4 \<open>blk_Round b0 + 1 = blk_Round b1\<close> True vote by simp
      next
        case False
        then have "c' = c4 \<and> out = o4"
          using step assms(4) c4 \<open>blk_Round b0 + 1 = blk_Round b1\<close>
          by (simp split: outcome.splits option.splits)
        then show ?thesis using com4 by simp
      qed
    qed
  qed
qed

lemma handleProposal_steps:
  assumes "core_ok E hon B S c" "env_ok E (c_committee c)"
    and "Block_Verify E (c_committee c) b = None \<Longrightarrow> block_known E (c_committee c) hon B (sigs E S c) b"
    and "handleProposal E c b = (c', out)"
  shows "steps_to E hon B S c c' out"
proof (cases "getLeader (c_committee c) (blk_Round b) = Inr (blk_Author b)
    \<and> Block_Verify E (c_committee c) b = None")
  case False
  then have "c' = c"
    using assms(4) by (auto simp: handleProposal_def split: sum.splits option.splits if_splits)
  then show ?thesis by (simp add: moves_steps_to)
next
  case True
  then have known: "block_known E (c_committee c) hon B (sigs E S c) b" using assms(3) by simp
  define c1 where "c1 = processQC c (blk_Qc b)"
  have m1: "core_moves E hon B S c c1"
    unfolding c1_def using known by (intro processQC_moves) (simp add: block_known_def)
  define c2 where "c2 = (case blk_Tc b of Some tc \<Rightarrow> advanceRound c1 (tc_Round tc) | None \<Rightarrow> c1)"
  have known1: "block_known E (c_committee c1) hon B (sigs E S c1) b"
    using known moves_committee [OF m1] moves_sigs [OF m1] by (auto intro: block_known_mono)
  have step2: "core_moves E hon B S c1 c2"
    using known1
    by (auto simp: c2_def block_known_def split: option.splits intro: core_move.move_advance_tc)
  have m2: "core_moves E hon B S c c2" using m1 step2 by (rule rtranclp_trans)
  have held1: "block_held E hon B S c1 b"
    using known1 processQC_highQC [of "blk_Qc b" c] by (simp add: block_held_def c1_def)
  have held2: "block_held E hon B S c2 b"
    using held1 core_moves_extends [OF step2] by (rule block_held_extends)
  obtain ready mm pm where dv: "driver_verify E (c_store c2) b = (ready, mm, pm)"
    by (metis prod_cases3)
  define c3 where "c3 = emit (map EMempool mm @ map EPayloadWaiter pm) c2"
  have m3: "core_moves E hon B S c c3"
    unfolding c3_def using dv held2
    by (intro rtranclp_trans [OF m2] emit_moves)
      (auto simp: driver_verify_def Let_def split: if_splits)
  have held3: "block_held E hon B S c3 b"
    using held2 by (rule block_held_extends) (simp add: c3_def extends_def)
  have step: "handleProposal E c b = (if \<not> ready then (c3, Ret None) else processBlock E c3 b)"
    using True dv
    by (simp add: handleProposal_def Let_def c1_def [symmetric] c2_def [symmetric]
        c3_def [symmetric] del: map_append)
  show ?thesis
  proof (cases ready)
    case False
    then show ?thesis using step assms(4) m3 by (auto intro: moves_steps_to)
  next
    case True
    then have "processBlock E c3 b = (c', out)" using step assms(4) by simp
    from processBlock_steps [OF core_moves_ok [OF m3 assms(1,2)] _ held3 this]
    show ?thesis using assms(2) moves_committee [OF m3] by (intro steps_to_trans [OF m3]) simp
  qed
qed

lemma handleTC_moves:
  assumes "TC_Verify E (c_committee c) tc = None \<Longrightarrow> tc_known E (c_committee c) hon (sigs E S c) tc"
    and "handleTC E c tc = (c', out)"
  shows "core_moves E hon B S c c'"
proof (cases "TC_Verify E (c_committee c) tc = None \<and> \<not> tc_Round tc < c_round c")
  case False
  then have "c' = c" using assms(2) by (auto simp: handleTC_def split: option.splits)
  then show ?thesis by simp
next
  case True
  then have known: "tc_known E (c_committee c) hon (sigs E S c) tc" using assms(1) by simp
  define c1 where "c1 = advanceRound c (tc_Round tc)"
  have m1: "core_moves E hon B S c c1"
    unfolding c1_def by (rule r_into_rtranclp [of "core_move E hon B S", OF core_move.move_advance_tc])
      (rule known)
  have "core_moves E hon B S c (generateProposal c1 (Some tc))"
    by (rule move_then [OF m1 core_move.move_propose])
      (use known in \<open>auto simp: c1_def sigs_advance core_frames\<close>)
  moreover have "c' = c1 \<or> c' = generateProposal c1 (Some tc)"
    using True assms(2) by (auto simp: handleTC_def c1_def Let_def split: sum.splits if_splits)
  ultimately show ?thesis using m1 by auto
qed

subsection \<open>One step of the main loop\<close>

lemma loopback_held:
  assumes "core_ok E hon B S c" "loopback_from E c b" "b \<in> B"
  shows "block_held E hon B S c b"
proof -
  have ok: "effect_ok E hon B S c e" if "e \<in> set (c_out c)" for e
    using assms(1) that by (simp add: core_ok_def)
  from assms(2) show ?thesis
    unfolding loopback_from_def
  proof (elim disjE exE conjE)
    fix r qc tc payload
    assume "EProposer (proposerMakeMessage r qc tc) \<in> set (c_out c)"
      "b = NewBlock E qc tc (c_name c) r payload (c_signatureService c)"
    then show ?thesis using ok assms(3)
      by (auto simp: block_held_def block_known_def dest!: ok)
  qed (auto dest!: ok)
qed

lemma core_step_steps:
  assumes "core_ok E hon B S c" "env_ok E (c_committee c)" "event_genuine E hon B (sigs E S c) c ev"
    and "core_step E c ev = (c', out)"
  shows "steps_to E hon B S c c' out"
proof (cases "(E, c, ev)" rule: core_step.cases)
  case (1 E c b)
  then show ?thesis using assms by (auto intro: handleProposal_steps [of E hon B S c b])
next
  case (2 E c v)
  then show ?thesis using assms by (auto intro!: moves_steps_to handleVote_moves)
next
  case (3 E c t)
  then show ?thesis using assms by (auto intro!: moves_steps_to handleTimeout_moves)
next
  case (4 E c tc)
  then show ?thesis using assms by (auto intro!: moves_steps_to intro: handleTC_moves [of E c tc])
next
  case (6 E c b)
  then show ?thesis using assms by (auto intro!: processBlock_steps loopback_held)
next
  case (7 E c)
  then show ?thesis using assms by (auto intro!: moves_steps_to localTimeoutRound_moves)
qed (use assms in \<open>auto intro: moves_steps_to\<close>)

lemma NewCore_ok:
  assumes "stored_ok E hon B S committee store"
  shows "core_ok E hon B S (NewCore name committee ss store)"
  using assms
  by (auto simp: core_ok_def NewCore_def aggregator_valid_new aggregator_backed_new own_pairs_def)
    (simp add: NewAggregator_def)

lemma core_start_moves:
  assumes "core_start name committee ss store = (c', out)"
  shows "core_moves E hon B S (NewCore name committee ss store) c'"
proof -
  let ?c = "emit [ETimerReset] (NewCore name committee ss store)"
  have m: "core_moves E hon B S (NewCore name committee ss store) ?c"
    by (intro r_into_rtranclp core_move.move_emit) simp
  have "core_moves E hon B S (NewCore name committee ss store) (generateProposal ?c None)"
    by (rule move_then [OF m core_move.move_propose]) simp
  then show ?thesis
    using m assms by (auto simp: core_start_def Let_def split: sum.splits if_splits)
qed

end
