(* ===== verification/CoreLog.thy ===== *)
theory CoreLog
  imports CoreRefine
begin

text \<open>
  What a node signs over its life. \<open>log_ok\<close> is the promise of \<open>make_vote\<close> and \<open>localTimeoutRound\<close>:
  each vote is for a round above everything signed before it and obeys the second safety rule, and
  each timeout reports a high QC at least as high as the QC of every block voted for before.
\<close>

fun log_entry_ok ::
  "('sk, 'p1, 'p2, 'agg, 'z) crypto_lib_scheme \<Rightarrow> PublicKey \<Rightarrow> SignatureService \<Rightarrow> signed list
     \<Rightarrow> signed \<Rightarrow> bool" where
  "log_entry_ok L name ss earlier (SVote b v) \<longleftrightarrow> v = NewVote L b name ss
     \<and> 0 < blk_Round b \<and> safetyRule2 b = Inr True \<and> (\<forall>s\<in>set earlier. signed_round s < blk_Round b)"
| "log_entry_ok L name ss earlier (STimeout t) \<longleftrightarrow> t_author t = name
     \<and> (\<forall>b v. SVote b v \<in> set earlier \<longrightarrow> qc_Round (blk_Qc b) \<le> qc_Round (t_highQC t))"

definition log_ok ::
  "('sk, 'p1, 'p2, 'agg, 'db, 'z) env_scheme \<Rightarrow> ('agg, 'db) core \<Rightarrow> bool" where
  "log_ok E c \<longleftrightarrow>
     at_each (log_entry_ok E (c_name c) (c_signatureService c)) (signed_of (c_out c))
     \<and> (\<forall>s\<in>set (signed_of (c_out c)). signed_round s \<le> c_lastVotedRound c)
     \<and> (\<forall>b v. SVote b v \<in> set (signed_of (c_out c)) \<longrightarrow>
          qc_Round (blk_Qc b) \<le> qc_Round (c_highQC c))"

text \<open>A move signs nothing, or one vote, or one timeout.\<close>

lemma core_move_signed:
  assumes "core_move E hon B S c c'"
  obtains "signed_of (c_out c') = signed_of (c_out c)"
  | b where "block_held E hon B S c b" "safetyRule2 b = Inr True" "c_lastVotedRound c < blk_Round b"
      "signed_of (c_out c') = signed_of (c_out c) @ [SVote b (NewVote E b (c_name c) (c_signatureService c))]"
      "c_lastVotedRound c' = blk_Round b"
  | t where "t = NewTimeout E (c_highQC c) (c_round c) (c_name c) (c_signatureService c)"
      "signed_of (c_out c') = signed_of (c_out c) @ [STimeout t]" "c_round c \<le> c_lastVotedRound c'"
  using assms
proof (cases rule: core_move.cases)
  case (move_emit e)
  then show ?thesis using that(1) by (simp add: signed_of_plain)
next
  case (move_hold b e)
  then show ?thesis using that(1) by auto
next
  case (move_commit b b1 b0)
  then show ?thesis using that(1) by (auto elim!: commit_Ret_cases)
next
  case (move_vote b v)
  then show ?thesis using that(2) [of b] by (auto simp: make_vote_Some_iff)
next
  case (move_timeout t)
  then show ?thesis using that(3) [of t] by (simp add: increaseLastVotedRound_def)
qed (use that(1) in \<open>simp_all add: generateProposal_def core_frames advanceRound_out\<close>)

lemma log_ok_frame:
  assumes "log_ok E c" "extends c c'" "signed_of (c_out c') = signed_of (c_out c)"
  shows "log_ok E c'"
  using assms by (fastforce simp: log_ok_def extends_def)

lemma core_move_log_ok:
  assumes "core_move E hon B S c c'" "log_ok E c"
  shows "log_ok E c'"
proof -
  have ext: "extends c c'" using assms(1) by (rule core_move_extends)
  have id: "c_name c' = c_name c" "c_signatureService c' = c_signatureService c"
      "c_lastVotedRound c \<le> c_lastVotedRound c'" "qc_Round (c_highQC c) \<le> qc_Round (c_highQC c')"
    using ext by (simp_all add: extends_def)
  note old = assms(2) [unfolded log_ok_def]
  from assms(1) show ?thesis
  proof (cases rule: core_move_signed)
    case 1
    then show ?thesis using log_ok_frame [OF assms(2) ext] by simp
  next
    case (2 b)
    have "\<forall>s\<in>set (signed_of (c_out c)). signed_round s < blk_Round b"
      using old 2(3) by fastforce
    moreover have "0 < blk_Round b"
      using 2(3) by (rule le_less_trans [OF word_coorder.extremum])
    moreover have "qc_Round (blk_Qc b) \<le> qc_Round (c_highQC c')"
      using 2(1) id(4) by (auto simp: block_held_def)
    ultimately show ?thesis
      using old 2 id by (fastforce simp: log_ok_def at_each_snoc)
  next
    case (3 t)
    then show ?thesis
      using old id by (fastforce simp: log_ok_def at_each_snoc)
  qed
qed

lemma core_moves_log_ok: "core_moves E hon B S c c' \<Longrightarrow> log_ok E c \<Longrightarrow> log_ok E c'"
  by (induction rule: rtranclp_induct) (auto intro: core_move_log_ok)

lemma signed_of_EInner [simp]: "signed_of (map EInner bs) = []"
  by (induction bs) auto

lemma log_ok_steps:
  assumes "steps_to E hon B S c c' out" "log_ok E c"
  shows "log_ok E c'"
proof -
  obtain c1 bs where c1: "core_moves E hon B S c c1" "c' = emit (map EInner bs) c1"
    using assms(1) by (auto simp: steps_to_def)
  have "log_ok E c1" using c1(1) assms(2) by (rule core_moves_log_ok)
  then show ?thesis by (rule log_ok_frame) (simp_all add: c1(2) extends_def)
qed

lemma log_ok_NewCore: "log_ok E (NewCore name cm ss s)"
  by (simp add: log_ok_def NewCore_def)

text \<open>
  When a node votes it knows the certificates of the block: their honest signers had signed before.
\<close>

definition vote_knows ::
  "('sk, 'p1, 'p2, 'agg, 'db, 'z) env_scheme \<Rightarrow> Committee \<Rightarrow> (PublicKey \<Rightarrow> bool) \<Rightarrow> Block set
     \<Rightarrow> (PublicKey \<times> Digest) set \<Rightarrow> PublicKey \<Rightarrow> signed list \<Rightarrow> signed \<Rightarrow> bool" where
  "vote_knows E cm hon B S name earlier s \<longleftrightarrow>
     (\<forall>b v. s = SVote b v \<longrightarrow>
        block_known E cm hon B (S \<union> (\<lambda>s. (name, signed_digest E s)) ` set earlier) b)"

lemma core_moves_vote_knows:
  assumes "core_moves E hon B S c c'"
  shows "\<exists>new. signed_of (c_out c') = signed_of (c_out c) @ new
    \<and> at_each (vote_knows E (c_committee c) hon B (sigs E S c) (c_name c)) new"
  using assms
proof (induction rule: rtranclp_induct)
  case (step y z)
  then obtain new where new: "signed_of (c_out y) = signed_of (c_out c) @ new"
      "at_each (vote_knows E (c_committee c) hon B (sigs E S c) (c_name c)) new" by blast
  have ext: "extends c y" using step(1) by (rule core_moves_extends)
  from step(2) show ?case
  proof (cases rule: core_move_signed)
    case (2 b)
    have "own_pairs E y = own_pairs E c \<union> (\<lambda>s. (c_name c, signed_digest E s)) ` set new"
      using new(1) ext by (simp add: own_pairs_def extends_def image_Un)
    then have "vote_knows E (c_committee c) hon B (sigs E S c) (c_name c) new
        (SVote b (NewVote E b (c_name y) (c_signatureService y)))"
      using 2(1) ext by (simp add: vote_knows_def block_held_def extends_def Un_assoc)
    then show ?thesis using new 2(4) by (simp add: at_each_snoc)
  next
    case (3 t)
    have "vote_knows E (c_committee c) hon B (sigs E S c) (c_name c) new (STimeout t)"
      by (simp add: vote_knows_def)
    then show ?thesis using new 3(2) by (simp add: at_each_snoc)
  qed (use new in auto)
qed simp

lemma steps_vote_knows:
  assumes "steps_to E hon B S c c' out"
  shows "\<exists>new. signed_of (c_out c') = signed_of (c_out c) @ new
    \<and> at_each (vote_knows E (c_committee c) hon B (sigs E S c) (c_name c)) new"
proof -
  obtain c1 bs where "core_moves E hon B S c c1" "c' = emit (map EInner bs) c1"
    using assms by (auto simp: steps_to_def)
  then show ?thesis using core_moves_vote_knows by fastforce
qed

end
