(* ===== verification/CommitLog.thy ===== *)
theory CommitLog
  imports CoreLog
begin

text \<open>
  What a node commits. \<open>commit_loop\<close> collects ancestors of the block it is given, it ends when the
  stored chain leads down to a committed round, and every block that \<open>commit\<close> hands on is an
  ancestor of the head of a two-chain whose certificates the node knows (\<open>commits_ok\<close>).
\<close>

subsection \<open>Chains of known blocks\<close>

inductive lineage ::
  "('sk, 'p1, 'p2, 'agg, 'z) crypto_lib_scheme \<Rightarrow> (Block \<Rightarrow> bool) \<Rightarrow> Block \<Rightarrow> Block \<Rightarrow> bool"
  for L K a where
  lineage_refl: "lineage L K a a"
| lineage_step: "lineage L K a p \<Longrightarrow> parent_of L p b \<Longrightarrow> K p \<Longrightarrow> lineage L K a b"

lemma lineage_mono: "lineage L K a b \<Longrightarrow> (\<And>x. K x \<Longrightarrow> K' x) \<Longrightarrow> lineage L K' a b"
  by (induction rule: lineage.induct) (auto intro: lineage.intros)

lemma lineage_trans: "lineage L K b c \<Longrightarrow> lineage L K a b \<Longrightarrow> lineage L K a c"
  by (induction rule: lineage.induct) (auto intro: lineage.intros)

lemma lineage_comparable:
  assumes "lineage L K a c" "lineage L K b c"
    and unique: "\<And>p p' x. K p \<Longrightarrow> K p' \<Longrightarrow> parent_of L p x \<Longrightarrow> parent_of L p' x \<Longrightarrow> p = p'"
  shows "lineage L K a b \<or> lineage L K b a"
  using assms(1,2)
proof (induction rule: lineage.induct)
  case (lineage_step p c)
  from lineage_step.prems show ?case
  proof (cases rule: lineage.cases)
    case lineage_refl
    then show ?thesis
      using lineage.lineage_step [OF lineage_step.hyps(1)] lineage_step.hyps by metis
  next
    case (lineage_step p')
    then show ?thesis using unique [of p' p c] \<open>K p\<close> \<open>parent_of L p c\<close> lineage_step.IH by metis
  qed
qed simp

subsection \<open>The commit loop\<close>

lemma commit_loop_stop:
  "\<not> lc + 1 < blk_Round p \<Longrightarrow> commit_loop E s lc p acc = Some (Inr acc, [])"
  by (subst commit_loop.simps) simp

lemma commit_loop_go:
  "lc + 1 < blk_Round p \<Longrightarrow> getParentBlock E s p = (Ok a, sent) \<Longrightarrow>
     commit_loop E s lc p acc = commit_loop E s lc a (acc @ [a])"
  by (subst commit_loop.simps) simp

lemma commit_loop_lineage:
  assumes "commit_loop E s lc p acc = Some (Inr res, sent)" "stored_ok E hon B S cm s"
  shows "\<exists>as. res = acc @ as \<and>
    (\<forall>a\<in>set as. lineage E (block_known E cm hon B S) a p \<and> block_known E cm hon B S a)"
proof -
  let ?K = "block_known E cm hon B S"
  have "\<forall>res sent. y = (Inr res, sent) \<longrightarrow> stored_ok E hon B S cm s \<longrightarrow>
      (\<exists>as. res = acc @ as \<and> (\<forall>a\<in>set as. lineage E ?K a p \<and> ?K a))"
    if "commit_loop E s lc p acc = Some y" for y
  proof (rule commit_loop.raw_induct [OF _ that])
    fix loop E s lc p acc y
    assume IH: "\<And>E s lc p acc y. loop E s lc p acc = Some y \<Longrightarrow>
        \<forall>res sent. y = (Inr res, sent) \<longrightarrow> stored_ok E hon B S cm s \<longrightarrow> (\<exists>as. res = acc @ as \<and>
          (\<forall>a\<in>set as. lineage E (block_known E cm hon B S) a p \<and> block_known E cm hon B S a))"
      and run: "(if lc + 1 < blk_Round p
        then case getParentBlock E s p of
               (Ok ancestor, sent) \<Rightarrow> loop E s lc ancestor (acc @ [ancestor])
             | (Err err, sent) \<Rightarrow> Some (Inl ExplicitPanic, sent)
             | (Panic p, sent) \<Rightarrow> Some (Inl p, sent)
        else Some (Inr acc, [])) = Some y"
    show "\<forall>res sent. y = (Inr res, sent) \<longrightarrow> stored_ok E hon B S cm s \<longrightarrow> (\<exists>as. res = acc @ as \<and>
          (\<forall>a\<in>set as. lineage E (block_known E cm hon B S) a p \<and> block_known E cm hon B S a))"
    proof (intro allI impI)
      fix res sent
      assume y: "y = (Inr res, sent)" and ok: "stored_ok E hon B S cm s"
      show "\<exists>as. res = acc @ as \<and> (\<forall>a\<in>set as. lineage E (block_known E cm hon B S) a p
          \<and> block_known E cm hon B S a)"
      proof (cases "lc + 1 < blk_Round p")
        case False
        then show ?thesis using run y by auto
      next
        case True
        obtain r out where gp: "getParentBlock E s p = (r, out)" by fastforce
        obtain q where q: "r = Ok q" "loop E s lc q (acc @ [q]) = Some y"
          using run True gp y by (cases r) auto
        have par: "parent_of E q p" "block_known E cm hon B S q"
          using getParentBlock_known [OF ok] gp q(1) by blast+
        obtain as where as: "res = (acc @ [q]) @ as"
            "\<And>a. a \<in> set as \<Longrightarrow> lineage E (block_known E cm hon B S) a q \<and> block_known E cm hon B S a"
          using IH [OF q(2)] y ok by blast
        have "lineage E (block_known E cm hon B S) q p"
          by (rule lineage_step [where p = q]) (simp_all add: lineage_refl par)
        moreover have "lineage E (block_known E cm hon B S) a p" if "a \<in> set as" for a
          by (rule lineage_step [where p = q]) (use as(2) [OF that] par in simp_all)
        ultimately show ?thesis using as par(2) by (intro exI [of _ "q # as"]) auto
      qed
    qed
  qed
  then show ?thesis using assms by blast
qed

subsection \<open>Every committed block\<close>

definition two_chain_head ::
  "('sk, 'p1, 'p2, 'agg, 'z) crypto_lib_scheme \<Rightarrow> (Block \<Rightarrow> bool) \<Rightarrow> Block \<Rightarrow> bool" where
  "two_chain_head L K b0 \<longleftrightarrow> K b0 \<and> 0 < blk_Round b0 \<and>
     (\<exists>b1 b. K b1 \<and> K b \<and> parent_of L b0 b1 \<and> parent_of L b1 b \<and> blk_Round b0 + 1 = blk_Round b1)"

definition commits_ok ::
  "('sk, 'p1, 'p2, 'agg, 'db, 'z) env_scheme \<Rightarrow> (Block \<Rightarrow> bool) \<Rightarrow> ('agg, 'db) core \<Rightarrow> bool" where
  "commits_ok E K c \<longleftrightarrow>
     (\<forall>x. ECommit x \<in> set (c_out c) \<longrightarrow> K x \<and> (\<exists>b0. two_chain_head E K b0 \<and> lineage E K x b0))"

lemma two_chain_head_mono: "two_chain_head L K b \<Longrightarrow> (\<And>x. K x \<Longrightarrow> K' x) \<Longrightarrow> two_chain_head L K' b"
  unfolding two_chain_head_def by blast

lemma commits_ok_mono:
  assumes "commits_ok E K c" "\<And>x. K x \<Longrightarrow> K' x"
  shows "commits_ok E K' c"
  unfolding commits_ok_def
proof (intro allI impI)
  fix x assume "ECommit x \<in> set (c_out c)"
  then obtain b0 where x: "K x" "two_chain_head E K b0" "lineage E K x b0"
    using assms(1) by (auto simp: commits_ok_def)
  have "two_chain_head E K' b0" using x(2) assms(2) by (rule two_chain_head_mono)
  moreover have "lineage E K' x b0" using x(3) assms(2) by (rule lineage_mono)
  ultimately show "K' x \<and> (\<exists>b0. two_chain_head E K' b0 \<and> lineage E K' x b0)"
    using assms(2) [OF x(1)] by blast
qed

abbreviation core_knows ::
  "('sk, 'p1, 'p2, 'agg, 'db, 'z) env_scheme \<Rightarrow> (PublicKey \<Rightarrow> bool) \<Rightarrow> Block set
     \<Rightarrow> (PublicKey \<times> Digest) set \<Rightarrow> ('agg, 'db) core \<Rightarrow> Block \<Rightarrow> bool" where
  "core_knows E hon B S c \<equiv> block_known E (c_committee c) hon B (sigs E S c)"

lemma core_knows_extends:
  "core_knows E hon B S c b \<Longrightarrow> extends c c' \<Longrightarrow> core_knows E hon B S c' b"
  using own_pairs_mono [of c c' E] by (auto simp: extends_def intro: block_known_mono)

lemma commits_ok_frame:
  assumes "commits_ok E (core_knows E hon B S c) c" "extends c c'"
    and "\<And>x. ECommit x \<in> set (c_out c') \<Longrightarrow> ECommit x \<in> set (c_out c)"
  shows "commits_ok E (core_knows E hon B S c') c'"
proof -
  have "commits_ok E (core_knows E hon B S c') c"
    by (rule commits_ok_mono [OF assms(1)]) (rule core_knows_extends [OF _ assms(2)])
  then show ?thesis using assms(3) by (auto simp: commits_ok_def)
qed

lemma advanceRound_commits:
  "ECommit x \<in> set (c_out (advanceRound c r)) \<longleftrightarrow> ECommit x \<in> set (c_out c)"
  by (simp add: advanceRound_out)

lemma core_move_committing:
  assumes "core_move E hon B S c c'"
  obtains "\<And>x. ECommit x \<in> set (c_out c') \<Longrightarrow> ECommit x \<in> set (c_out c)"
  | b b1 b0 where "block_held E hon B S c b" "core_knows E hon B S c b1"
      "core_knows E hon B S c b0" "parent_of E b1 b" "parent_of E b0 b1"
      "blk_Round b0 + 1 = blk_Round b1" "commit E c b0 = (c', Ret None)"
  using assms
proof (cases rule: core_move.cases)
  case (move_emit e)
  then show ?thesis using that(1) by (cases e) auto
next
  case (move_hold b e)
  then show ?thesis using that(1) by auto
next
  case (move_commit b b1 b0)
  then show ?thesis using that(2) by blast
next
  case (move_vote b v)
  then show ?thesis using that(1) by (auto simp: make_vote_Some_iff)
qed (use that(1) in \<open>simp_all add: generateProposal_def core_frames advanceRound_commits
    increaseLastVotedRound_def\<close>)

lemma core_move_commits_ok:
  assumes "core_move E hon B S c c'" "core_ok E hon B S c"
    and "commits_ok E (core_knows E hon B S c) c"
  shows "commits_ok E (core_knows E hon B S c') c'"
proof -
  have ext: "extends c c'" using assms(1) by (rule core_move_extends)
  from assms(1) show ?thesis
  proof (cases rule: core_move_committing)
    case 1
    then show ?thesis by (rule commits_ok_frame [OF assms(3) ext])
  next
    case commit: (2 b b1 b0)
    from commit(7) show ?thesis
    proof (cases rule: commit_Ret_cases)
      case 1
      then show ?thesis using assms(3) by simp
    next
      case (2 ancestors sent)
      let ?K = "core_knows E hon B S c" and ?K' = "core_knows E hon B S c'"
      have K: "?K x \<Longrightarrow> ?K' x" for x using core_knows_extends [OF _ ext] .
      have stored: "stored_ok E hon B (sigs E S c) (c_committee c) (c_store c)"
        using assms(2) by (simp add: core_ok_def)
      have anc: "\<forall>a\<in>set ancestors. lineage E ?K a b0 \<and> ?K a"
        using commit_loop_lineage [OF 2(2) stored] by simp
      have "0 < blk_Round b0" using 2(1) by (rule le_less_trans [OF word_coorder.extremum])
      then have "two_chain_head E ?K b0"
        unfolding two_chain_head_def using commit by (auto simp: block_held_def)
      then have head: "two_chain_head E ?K' b0" using K by (rule two_chain_head_mono)
      have old: "commits_ok E ?K' c" using assms(3) K by (rule commits_ok_mono)
      have new: "?K' x \<and> lineage E ?K' x b0" if "x = b0 \<or> x \<in> set ancestors" for x
        using that anc K commit(3) lineage_refl lineage_mono [of E ?K x b0 ?K'] by metis
      have "set (c_out c') = set (c_out c) \<union> ECommit ` set (ancestors @ [b0])"
        unfolding 2(3) by simp
      then show ?thesis using old new head by (auto simp: commits_ok_def)
    qed
  qed
qed

lemma core_moves_commits_ok:
  assumes "core_moves E hon B S c c'" "core_ok E hon B S c" "env_ok E (c_committee c)"
    and "commits_ok E (core_knows E hon B S c) c"
  shows "commits_ok E (core_knows E hon B S c') c'"
  using assms
proof (induction rule: rtranclp_induct)
  case (step y z)
  have "core_ok E hon B S y" using core_moves_ok [OF step(1) step(4,5)] .
  then show ?case using step core_move_commits_ok by blast
qed simp

lemma commits_ok_steps:
  assumes "steps_to E hon B S c c' out" "core_ok E hon B S c" "env_ok E (c_committee c)"
    and "commits_ok E (core_knows E hon B S c) c"
  shows "commits_ok E (core_knows E hon B S c') c'"
proof -
  obtain c1 bs where c1: "core_moves E hon B S c c1" "c' = emit (map EInner bs) c1"
    using assms(1) by (auto simp: steps_to_def)
  have "extends c1 c'" by (simp add: c1(2) extends_def)
  then show ?thesis
    by (rule commits_ok_frame [OF core_moves_commits_ok [OF c1(1) assms(2-4)]]) (auto simp: c1(2))
qed

end
