(* ===== verification/Network.thy ===== *)
theory Network
  imports CommitLog
begin

text \<open>
  All honest nodes together. \<open>net\<close> holds the core of every node, which nodes still run, and the
  history of everything that honest nodes have signed, in order. A step lets one running node handle
  one event (\<open>act\<close>), or lets another goroutine of the node send a command to its store (\<open>other\<close>).
  What the faulty nodes and the network do is left open: an event may carry any message, as long as
  the signatures of honest nodes in it that verify were made before (\<open>event_genuine\<close>).
\<close>

record ('agg, 'db) net =
  n_core :: "PublicKey \<Rightarrow> ('agg, 'db) core"
  n_live :: "PublicKey set"
  n_hist :: "(PublicKey \<times> signed) list"

definition hist_pairs ::
  "('sk, 'p1, 'p2, 'agg, 'z) crypto_lib_scheme \<Rightarrow> (PublicKey \<times> signed) list
     \<Rightarrow> (PublicKey \<times> Digest) set" where
  "hist_pairs L H = (\<lambda>(k, s). (k, signed_digest L s)) ` set H"

definition net_start ::
  "Committee \<Rightarrow> (PublicKey \<Rightarrow> SignatureService) \<Rightarrow> (PublicKey \<Rightarrow> 'db store) \<Rightarrow> ('agg, 'db) net" where
  "net_start cm ss stores =
     \<lparr>n_core = (\<lambda>k. fst (core_start k cm (ss k) (stores k))),
      n_live = {k. snd (core_start k cm (ss k) (stores k) :: ('agg, 'db) core \<times> outcome) = Ret None},
      n_hist = []\<rparr>"

text \<open>A store that holds no block yet, and commands that do not put a block under a digest.\<close>

definition fresh_store ::
  "('sk, 'p1, 'p2, 'agg, 'db, 'z) env_scheme \<Rightarrow> 'db store \<Rightarrow> bool" where
  "fresh_store E s \<longleftrightarrow> store_ok E s \<and>
     (\<forall>d bytes p. Store_Read E s (digest_bytes d) = Inr bytes \<longrightarrow> Block_Deserialize E bytes \<noteq> Ok p)"

definition foreign_command ::
  "('sk, 'p1, 'p2, 'agg, 'db, 'z) env_scheme \<Rightarrow> command \<Rightarrow> bool" where
  "foreign_command E cmd \<longleftrightarrow> cmd \<noteq> closeCommand \<and>
     (\<forall>d bytes p. cmd = writeCommand (digest_bytes d) bytes \<longrightarrow> Block_Deserialize E bytes \<noteq> Ok p)"

inductive net_step ::
  "('sk, 'p1, 'p2, 'agg, 'db, 'z) env_scheme \<Rightarrow> (PublicKey \<Rightarrow> bool) \<Rightarrow> Block set
     \<Rightarrow> ('agg, 'db) net \<Rightarrow> ('agg, 'db) net \<Rightarrow> bool"
  for E hon B where
  act:
    "hon k \<Longrightarrow> k \<in> n_live y \<Longrightarrow> event_genuine E hon B (hist_pairs E (n_hist y)) (n_core y k) ev \<Longrightarrow>
     core_step E (n_core y k) ev = (c', out) \<Longrightarrow> c_out c' = c_out (n_core y k) @ es \<Longrightarrow>
     live = (case out of Ret _ \<Rightarrow> n_live y | _ \<Rightarrow> n_live y - {k}) \<Longrightarrow>
     net_step E hon B y
       \<lparr>n_core = (n_core y)(k := c'), n_live = live,
        n_hist = n_hist y @ map (Pair k) (signed_of es)\<rparr>"
| other:
    "hon k \<Longrightarrow> foreign_command E cmd \<Longrightarrow> store_step E (c_store (n_core y k)) cmd = (s', resp) \<Longrightarrow>
     net_step E hon B y (y\<lparr>n_core := (n_core y)(k := (n_core y k)\<lparr>c_store := s'\<rparr>)\<rparr>)"

inductive net_reach ::
  "('sk, 'p1, 'p2, 'agg, 'db, 'z) env_scheme \<Rightarrow> Committee \<Rightarrow> (PublicKey \<Rightarrow> bool) \<Rightarrow> Block set
     \<Rightarrow> (PublicKey \<Rightarrow> SignatureService) \<Rightarrow> ('agg, 'db) net \<Rightarrow> bool"
  for E cm hon B ss where
  net_init: "(\<And>k. hon k \<Longrightarrow> fresh_store E (stores k)) \<Longrightarrow> net_reach E cm hon B ss (net_start cm ss stores)"
| net_next: "net_reach E cm hon B ss y \<Longrightarrow> net_step E hon B y z \<Longrightarrow> net_reach E cm hon B ss z"

subsection \<open>The invariant of the network\<close>

definition node_inv ::
  "('sk, 'p1, 'p2, 'agg, 'db, 'z) env_scheme \<Rightarrow> Committee \<Rightarrow> (PublicKey \<Rightarrow> bool) \<Rightarrow> Block set
     \<Rightarrow> (PublicKey \<Rightarrow> SignatureService) \<Rightarrow> ('agg, 'db) net \<Rightarrow> PublicKey \<Rightarrow> bool" where
  "node_inv E cm hon B ss y k \<longleftrightarrow>
     c_name (n_core y k) = k \<and> c_committee (n_core y k) = cm
     \<and> c_signatureService (n_core y k) = ss k
     \<and> signed_of (c_out (n_core y k)) = map snd (filter (\<lambda>p. fst p = k) (n_hist y))
     \<and> log_ok E (n_core y k)
     \<and> commits_ok E (block_known E cm hon B (hist_pairs E (n_hist y))) (n_core y k)
     \<and> (k \<in> n_live y \<longrightarrow> core_ok E hon B (hist_pairs E (n_hist y)) (n_core y k))"

definition net_inv ::
  "('sk, 'p1, 'p2, 'agg, 'db, 'z) env_scheme \<Rightarrow> Committee \<Rightarrow> (PublicKey \<Rightarrow> bool) \<Rightarrow> Block set
     \<Rightarrow> (PublicKey \<Rightarrow> SignatureService) \<Rightarrow> ('agg, 'db) net \<Rightarrow> bool" where
  "net_inv E cm hon B ss y \<longleftrightarrow>
     (\<forall>k. hon k \<longrightarrow> node_inv E cm hon B ss y k)
     \<and> (\<forall>k s. (k, s) \<in> set (n_hist y) \<longrightarrow> hon k)
     \<and> at_each (\<lambda>H (k, s). \<forall>b v. s = SVote b v \<longrightarrow> block_known E cm hon B (hist_pairs E H) b)
         (n_hist y)"

lemma hist_pairs_append: "hist_pairs L (H @ H') = hist_pairs L H \<union> hist_pairs L H'"
  by (simp add: hist_pairs_def image_Un)

lemma hist_pairs_mono: "set H \<subseteq> set H' \<Longrightarrow> hist_pairs L H \<subseteq> hist_pairs L H'"
  unfolding hist_pairs_def by blast

lemma own_pairs_hist:
  assumes "signed_of (c_out c) = map snd (filter (\<lambda>p. fst p = k) H)" "c_name c = k"
  shows "own_pairs E c \<subseteq> hist_pairs E H"
  using assms by (force simp: own_pairs_def hist_pairs_def)

lemma core_ok_mono:
  assumes "core_ok E hon B S c" "S \<subseteq> S'"
  shows "core_ok E hon B S' c"
proof -
  have mono: "sigs E S c \<subseteq> sigs E S' c" using assms(2) by blast
  have held: "block_held E hon B S c b \<Longrightarrow> block_held E hon B S' c b" for b
    using mono by (auto simp: block_held_def intro: block_known_mono)
  have "effect_ok E hon B S' c e" if "effect_ok E hon B S c e" for e
  proof (cases e)
    case (EProposer m)
    then show ?thesis using that mono by (cases m) (auto intro: known_mono)
  qed (use that in \<open>auto intro: held\<close>)
  then show ?thesis
    using assms(1) mono unfolding core_ok_def
    by (blast intro: qc_known_mono stored_ok_mono aggregator_backed_mono)
qed

lemma stored_ok_foreign:
  assumes "stored_ok E hon B S cm s" "foreign_command E cmd" "store_step E s cmd = (s', resp)"
  shows "stored_ok E hon B S cm s'"
proof -
  have ok: "store_ok E s" "store_ok E s'" "\<not> st_closed s"
    using assms store_step_ok [OF _ assms(3)]
    by (auto simp: stored_ok_def foreign_command_def store_ok_def)
  show ?thesis
  proof (cases "\<exists>k v. cmd = writeCommand k v")
    case True
    then obtain k v where cmd: "cmd = writeCommand k v" by blast
    then have "s' = Store_Write E s k v" using assms(3) by (simp add: Store_Write_def)
    then show ?thesis
      using assms(1,2) ok(1) cmd
      by (auto simp: stored_ok_def st.get_put_if Store_Write_ok foreign_command_def)
  next
    case False
    then have "st_db s' = st_db s"
      using assms(2,3) ok(3)
      by (cases cmd) (auto simp: store_step_def foreign_command_def Let_def
          split: sum.splits db_error.splits option.splits)
    then have "Store_Read E s' k = Store_Read E s k" for k by (simp add: Store_Read_eq)
    then show ?thesis using assms(1) ok(2) by (simp add: stored_ok_def)
  qed
qed

lemma core_ok_store:
  assumes "core_ok E hon B S c" "stored_ok E hon B (sigs E S c) (c_committee c) s'"
  shows "core_ok E hon B S (c\<lparr>c_store := s'\<rparr>)"
proof -
  have eq: "own_pairs E (c\<lparr>c_store := s'\<rparr>) = own_pairs E c" by (simp add: own_pairs_def)
  have "effect_ok E hon B S (c\<lparr>c_store := s'\<rparr>) e = effect_ok E hon B S c e" for e
    by (cases "(E, hon, B, S, c, e)" rule: effect_ok.cases) (simp_all add: eq block_held_def)
  then show ?thesis using assms by (simp add: core_ok_def eq)
qed

lemma net_start_inv:
  fixes E :: "('sk, 'p1, 'p2, 'agg, 'db, 'z) env_scheme" and stores :: "PublicKey \<Rightarrow> 'db store"
  assumes "\<And>k. hon k \<Longrightarrow> fresh_store E (stores k)" "env_ok E cm"
  shows "net_inv E cm hon B ss (net_start cm ss stores)"
proof -
  have "node_inv E cm hon B ss (net_start cm ss stores) k" if "hon k" for k
  proof -
    let ?new = "NewCore k cm (ss k) (stores k)"
    obtain c' :: "('agg, 'db) core" and out where
      st: "core_start k cm (ss k) (stores k) = (c', out)" by fastforce
    have stored: "stored_ok E hon B {} cm (stores k)"
      using assms(1) [OF that] by (auto simp: fresh_store_def stored_ok_def)
    have m: "core_moves E hon B {} ?new c'" using st by (rule core_start_moves)
    have new: "core_ok E hon B {} ?new" using stored by (rule NewCore_ok)
    have env: "env_ok E (c_committee ?new)" using assms(2) by (simp add: NewCore_def)
    have ext: "extends ?new c'" using m by (rule core_moves_extends)
    have sig: "signed_of (c_out c') = []"
      using st by (auto simp: core_start_def Let_def NewCore_def generateProposal_def
          split: sum.splits if_splits)
    have com: "commits_ok E (core_knows E hon B {} c') c'"
      by (rule core_moves_commits_ok [OF m new env]) (simp add: commits_ok_def NewCore_def)
    have "own_pairs E c' = {}" using sig by (simp add: own_pairs_def)
    then show ?thesis
      using ext sig com core_moves_ok [OF m new env] core_moves_log_ok [OF m log_ok_NewCore] st
      by (simp add: node_inv_def net_start_def extends_def NewCore_def hist_pairs_def)
  qed
  then show ?thesis by (simp add: net_inv_def net_start_def)
qed

lemma act_node_inv:
  assumes "net_inv E cm hon B ss y" "env_ok E cm" "hon k" "k \<in> n_live y"
    and "event_genuine E hon B (hist_pairs E (n_hist y)) (n_core y k) ev"
    and "core_step E (n_core y k) ev = (c', out)" "c_out c' = c_out (n_core y k) @ es"
    and "live = (case out of Ret _ \<Rightarrow> n_live y | _ \<Rightarrow> n_live y - {k})"
    and "H' = n_hist y @ map (Pair k) (signed_of es)"
  shows "node_inv E cm hon B ss \<lparr>n_core = (n_core y)(k := c'), n_live = live, n_hist = H'\<rparr> k"
    and "at_each (vote_knows E cm hon B (hist_pairs E (n_hist y)) k) (signed_of es)"
proof -
  let ?c = "n_core y k" and ?S = "hist_pairs E (n_hist y)"
  have inv: "c_name ?c = k" "c_committee ?c = cm" "c_signatureService ?c = ss k"
      "signed_of (c_out ?c) = map snd (filter (\<lambda>p. fst p = k) (n_hist y))" "log_ok E ?c"
      "commits_ok E (block_known E cm hon B ?S) ?c" "core_ok E hon B ?S ?c"
    using assms(1,3,4) by (simp_all add: net_inv_def node_inv_def)
  have own: "sigs E ?S ?c = ?S" using own_pairs_hist [OF inv(4,1)] by blast
  have steps: "steps_to E hon B ?S ?c c' out"
    using core_step_steps [OF inv(7) _ _ assms(6)] assms(2,5) inv(2) own by simp
  then obtain c1 bs where c1: "core_moves E hon B ?S ?c c1" "c' = emit (map EInner bs) c1"
      "bs \<noteq> [] \<longrightarrow> (\<exists>p. out = Crash p)"
    by (auto simp: steps_to_def)
  have ext: "extends ?c c'"
    using core_moves_extends [OF c1(1)] by (auto simp: c1(2) extends_def)
  have fields: "c_name c' = k" "c_committee c' = cm" "c_signatureService c' = ss k"
    using ext inv(1-3) by (simp_all add: extends_def)
  have sig: "signed_of (c_out c') = signed_of (c_out ?c) @ signed_of es" using assms(7) by simp
  have hist: "signed_of (c_out c') = map snd (filter (\<lambda>p. fst p = k) H')"
    using sig inv(4) assms(9) by (simp add: filter_map comp_def)
  have sub: "?S \<subseteq> hist_pairs E H'" using assms(9) by (auto simp: hist_pairs_def)
  have own': "sigs E ?S c' \<subseteq> hist_pairs E H'"
    using own_pairs_hist [OF hist fields(1), of E] sub by blast
  have log: "log_ok E c'" using steps inv(5) by (rule log_ok_steps)
  have "commits_ok E (core_knows E hon B ?S c') c'"
    using commits_ok_steps [OF steps inv(7)] assms(2) inv(2,6) own by simp
  then have com: "commits_ok E (block_known E cm hon B (hist_pairs E H')) c'"
    by (rule commits_ok_mono) (use fields own' in \<open>auto intro: block_known_mono\<close>)
  have "core_ok E hon B (hist_pairs E H') c'" if "k \<in> live"
  proof -
    have "\<exists>r. out = Ret r" using that assms(8) by (cases out) auto
    then have "c' = c1" using c1(2,3) by auto
    then have "core_ok E hon B ?S c'"
      using core_moves_ok [OF c1(1) inv(7)] assms(2) inv(2) by simp
    then show ?thesis using sub by (rule core_ok_mono)
  qed
  then show "node_inv E cm hon B ss \<lparr>n_core = (n_core y)(k := c'), n_live = live, n_hist = H'\<rparr> k"
    using fields hist log com by (simp add: node_inv_def)
  obtain new where "signed_of (c_out c') = signed_of (c_out ?c) @ new"
      "at_each (vote_knows E (c_committee ?c) hon B (sigs E ?S ?c) (c_name ?c)) new"
    using steps_vote_knows [OF steps] by blast
  then show "at_each (vote_knows E cm hon B ?S k) (signed_of es)"
    using sig own inv(1,2) by simp
qed

lemma node_inv_other:
  assumes "node_inv E cm hon B ss y j" "n_core z j = n_core y j" "j \<in> n_live z \<longrightarrow> j \<in> n_live y"
    and "n_hist z = n_hist y @ H" "\<And>p. p \<in> set H \<Longrightarrow> fst p \<noteq> j"
  shows "node_inv E cm hon B ss z j"
proof -
  have sub: "hist_pairs E (n_hist y) \<subseteq> hist_pairs E (n_hist z)"
    using assms(4) by (auto simp: hist_pairs_def)
  have "filter (\<lambda>p. fst p = j) H = []" using assms(5) by (auto simp: filter_empty_conv)
  moreover have "commits_ok E (block_known E cm hon B (hist_pairs E (n_hist z))) (n_core y j)"
    using assms(1) sub unfolding node_inv_def
    by (auto intro: commits_ok_mono block_known_mono)
  ultimately show ?thesis
    using assms sub by (auto simp: node_inv_def intro: core_ok_mono)
qed

lemma at_each_append:
  assumes "at_each P xs" "\<And>us u vs. ys = us @ u # vs \<Longrightarrow> P (xs @ us) u"
  shows "at_each P (xs @ ys)"
  using assms(2)
proof (induction ys rule: rev_induct)
  case (snoc y ys)
  have "at_each P (xs @ ys)" using snoc.prems by (intro snoc.IH) simp
  moreover have "P (xs @ ys) y" using snoc.prems by simp
  ultimately show ?case using at_each_snoc [of P "xs @ ys" y] by simp
qed (use assms(1) in simp)

lemma net_step_inv:
  assumes "net_step E hon B y z" "net_inv E cm hon B ss y" "env_ok E cm"
  shows "net_inv E cm hon B ss z"
  using assms(1)
proof (cases rule: net_step.cases)
  case (act k ev c' out es live)
  let ?H = "n_hist y @ map (Pair k) (signed_of es)"
  note node = act_node_inv [OF assms(2,3) act(2-7) refl]
  have nodes: "node_inv E cm hon B ss z j" if "hon j" for j
  proof (cases "j = k")
    case True
    then show ?thesis using node(1) act(1) by simp
  next
    case False
    have live: "j \<in> n_live z \<longrightarrow> j \<in> n_live y"
      using act(1,7) by (auto split: outcome.splits)
    show ?thesis
      by (rule node_inv_other [where H = "map (Pair k) (signed_of es)"])
        (use assms(2) that False live act(1) in \<open>auto simp: net_inv_def\<close>)
  qed
  have "at_each (\<lambda>H (k, s). \<forall>b v. s = SVote b v \<longrightarrow> block_known E cm hon B (hist_pairs E H) b) ?H"
  proof (rule at_each_append)
    show "at_each (\<lambda>H (k, s). \<forall>b v. s = SVote b v \<longrightarrow> block_known E cm hon B (hist_pairs E H) b)
        (n_hist y)"
      using assms(2) by (simp add: net_inv_def)
  next
    fix us u vs
    assume "map (Pair k) (signed_of es) = us @ u # vs"
    then obtain us' s vs' where new: "signed_of es = us' @ s # vs'" "us = map (Pair k) us'" "u = (k, s)"
      by (auto simp: map_eq_append_conv map_eq_Cons_conv)
    have "hist_pairs E us = (\<lambda>s. (k, signed_digest E s)) ` set us'"
      by (auto simp: new(2) hist_pairs_def image_iff)
    then show "case u of (k, s) \<Rightarrow> \<forall>b v. s = SVote b v \<longrightarrow>
        block_known E cm hon B (hist_pairs E (n_hist y @ us)) b"
      using at_eachD [OF node(2) new(1)] new(3) by (simp add: vote_knows_def hist_pairs_append)
  qed
  then show ?thesis using nodes act(1,2) assms(2) by (auto simp: net_inv_def)
next
  case (other k cmd s' resp)
  have nodes: "node_inv E cm hon B ss z j" if "hon j" for j
  proof (cases "j = k")
    case False
    show ?thesis
      by (rule node_inv_other [where H = "[]"])
        (use assms(2) that False other(1) in \<open>auto simp: net_inv_def\<close>)
  next
    case True
    let ?c = "n_core y k" and ?S = "hist_pairs E (n_hist y)"
    have inv: "node_inv E cm hon B ss y k" using assms(2) other(2) by (simp add: net_inv_def)
    have "core_ok E hon B ?S (?c\<lparr>c_store := s'\<rparr>)" if "core_ok E hon B ?S ?c"
      using that stored_ok_foreign [OF _ other(3,4)]
      by (intro core_ok_store) (auto simp: core_ok_def)
    moreover have "log_ok E (?c\<lparr>c_store := s'\<rparr>) = log_ok E ?c" by (simp add: log_ok_def)
    moreover have "commits_ok E K (?c\<lparr>c_store := s'\<rparr>) = commits_ok E K ?c" for K
      by (simp add: commits_ok_def)
    ultimately show ?thesis using inv True other(1) by (simp add: node_inv_def)
  qed
  then show ?thesis using other(1) assms(2) by (simp add: net_inv_def)
qed

lemma net_reach_inv:
  "net_reach E cm hon B ss y \<Longrightarrow> env_ok E cm \<Longrightarrow> net_inv E cm hon B ss y"
proof (induction rule: net_reach.induct)
  case (net_init stores)
  then show ?case using net_start_inv by blast
next
  case (net_next y z)
  then show ?case using net_step_inv by blast
qed

end
