(* ===== verification/TwoChain.thy ===== *)
theory TwoChain
  imports Prelude
begin

text \<open>
  The two-chain rule in the abstract: what the voting and timeout rules of \<open>consensus/core.go\<close> promise
  to the protocol, and the safety that follows from the promise. A run is a history of ballots of
  honest nodes, in the order in which they were signed; a block carries its round and the
  certificate it extends. The locale is interpreted on the model of the network in \<open>Safety\<close>.
\<close>

subsection \<open>Ballots\<close>

text \<open>A vote for a block, or a timeout of a round with the round of the high QC it reports.\<close>

datatype 'b ballot = Vote 'b | Timeout nat nat

fun ballot_round :: "('b \<Rightarrow> nat) \<Rightarrow> 'b ballot \<Rightarrow> nat" where
  "ballot_round rnd (Vote b) = rnd b"
| "ballot_round rnd (Timeout n q) = n"

text \<open>The round of the certificate that a block extends; \<open>None\<close> is the genesis certificate.\<close>

definition high_round :: "('b \<Rightarrow> ('h \<times> nat) option) \<Rightarrow> 'b \<Rightarrow> nat" where
  "high_round qc_of b = (case qc_of b of None \<Rightarrow> 0 | Some (h, n) \<Rightarrow> n)"

text \<open>A hash is certified for a round if the honest members of a quorum voted for such a block.\<close>

definition backed ::
  "('k \<Rightarrow> bool) \<Rightarrow> ('k set \<Rightarrow> bool) \<Rightarrow> ('b \<Rightarrow> 'h) \<Rightarrow> ('b \<Rightarrow> nat) \<Rightarrow> ('k \<times> 'b ballot) list
     \<Rightarrow> 'h \<Rightarrow> nat \<Rightarrow> bool" where
  "backed honest quorum dig rnd H h n \<longleftrightarrow>
     (\<exists>V. quorum V \<and> (\<forall>k\<in>V. honest k \<longrightarrow> (\<exists>b. (k, Vote b) \<in> set H \<and> dig b = h \<and> rnd b = n)))"

lemma backed_mono:
  "backed hon Q dig rnd H h n \<Longrightarrow> set H \<subseteq> set H' \<Longrightarrow> backed hon Q dig rnd H' h n"
  unfolding backed_def by blast

text \<open>
  The abstract protocol: a history grows by one ballot at a time. An honest member votes for a block
  of a higher round than anything it has signed, if the block's certificate is backed and extends
  the round before, or a quorum has timed out in the round before with no higher certificate; and it
  times out with a certificate at least as high as that of any block it voted for.
\<close>

inductive ballots ::
  "('k \<Rightarrow> bool) \<Rightarrow> ('k set \<Rightarrow> bool) \<Rightarrow> ('b \<Rightarrow> 'h) \<Rightarrow> ('b \<Rightarrow> nat) \<Rightarrow> ('b \<Rightarrow> ('h \<times> nat) option)
     \<Rightarrow> ('k \<times> 'b ballot) list \<Rightarrow> bool"
  for honest quorum dig rnd qc_of where
  no_ballots: "ballots honest quorum dig rnd qc_of []"
| cast_vote:
    "ballots honest quorum dig rnd qc_of H \<Longrightarrow> honest k \<Longrightarrow>
     (\<And>e. (k, e) \<in> set H \<Longrightarrow> ballot_round rnd e < rnd b) \<Longrightarrow>
     (\<And>h n. qc_of b = Some (h, n) \<Longrightarrow> backed honest quorum dig rnd H h n) \<Longrightarrow>
     high_round qc_of b + 1 = rnd b \<or>
       (\<exists>n qs. n + 1 = rnd b \<and> quorum (fst ` qs) \<and> (\<forall>(j, q)\<in>qs. q \<le> high_round qc_of b \<and>
          (honest j \<longrightarrow> (j, Timeout n q) \<in> set H))) \<Longrightarrow>
     ballots honest quorum dig rnd qc_of (H @ [(k, Vote b)])"
| cast_timeout:
    "ballots honest quorum dig rnd qc_of H \<Longrightarrow> honest k \<Longrightarrow>
     (\<And>b. (k, Vote b) \<in> set H \<Longrightarrow> high_round qc_of b \<le> q) \<Longrightarrow>
     ballots honest quorum dig rnd qc_of (H @ [(k, Timeout n q)])"

locale two_chain =
  fixes run :: "'r \<Rightarrow> bool"
    and hist :: "'r \<Rightarrow> ('k \<times> 'b ballot) list"
    and honest :: "'r \<Rightarrow> 'k \<Rightarrow> bool"
    and quorum :: "'r \<Rightarrow> 'k set \<Rightarrow> bool"
    and dig :: "'r \<Rightarrow> 'b \<Rightarrow> 'h"
    and rnd :: "'b \<Rightarrow> nat"
    and qc_of :: "'b \<Rightarrow> ('h \<times> nat) option"
  assumes only_honest: "run r \<Longrightarrow> (k, e) \<in> set (hist r) \<Longrightarrow> honest r k"
    and quorums: "run r \<Longrightarrow> quorum r V \<Longrightarrow> quorum r W \<Longrightarrow> \<exists>k. k \<in> V \<and> k \<in> W \<and> honest r k"
    and increasing: "run r \<Longrightarrow> hist r = xs @ (k, Vote b) # ys \<Longrightarrow> (k, e) \<in> set xs \<Longrightarrow>
      ballot_round rnd e < rnd b"
    and vote_qc: "run r \<Longrightarrow> hist r = xs @ (k, Vote b) # ys \<Longrightarrow> qc_of b = Some (h, n) \<Longrightarrow>
      backed (honest r) (quorum r) (dig r) rnd xs h n"
    and vote_rule: "run r \<Longrightarrow> hist r = xs @ (k, Vote b) # ys \<Longrightarrow> high_round qc_of b + 1 = rnd b \<or>
      (\<exists>n qs. n + 1 = rnd b \<and> quorum r (fst ` qs) \<and> (\<forall>(j, q)\<in>qs. q \<le> high_round qc_of b \<and>
         (honest r j \<longrightarrow> (j, Timeout n q) \<in> set xs)))"
    and timeout_high: "run r \<Longrightarrow> hist r = xs @ (k, Timeout n q) # ys \<Longrightarrow> (k, Vote b) \<in> set xs \<Longrightarrow>
      high_round qc_of b \<le> q"
begin

abbreviation certified :: "'r \<Rightarrow> ('k \<times> 'b ballot) list \<Rightarrow> 'h \<Rightarrow> nat \<Rightarrow> bool" where
  "certified r \<equiv> backed (honest r) (quorum r) (dig r) rnd"

abbreviation high :: "'b \<Rightarrow> nat" where
  "high \<equiv> high_round qc_of"

text \<open>The history of a run is one of the abstract protocol, and so is every prefix of it.\<close>

lemma prefix_ballots:
  "run r \<Longrightarrow> hist r = xs @ ys \<Longrightarrow> ballots (honest r) (quorum r) (dig r) rnd qc_of xs"
proof (induction xs arbitrary: ys rule: rev_induct)
  case Nil
  show ?case by (rule no_ballots)
next
  case (snoc x xs)
  obtain k e where x: "x = (k, e)" by fastforce
  have split: "hist r = xs @ (k, e) # ys" using snoc.prems(2) x by simp
  have honest: "honest r k" using only_honest [OF snoc.prems(1), of k e] split by simp
  note before = snoc.IH [OF snoc.prems(1) split]
  show ?case
  proof (cases e)
    case (Vote b)
    note split' = split [unfolded Vote]
    show ?thesis unfolding x Vote
      by (rule cast_vote [OF before honest increasing [OF snoc.prems(1) split']
            vote_qc [OF snoc.prems(1) split'] vote_rule [OF snoc.prems(1) split']])
  next
    case (Timeout n q)
    show ?thesis unfolding x Timeout
      by (rule cast_timeout [OF before honest timeout_high [OF snoc.prems(1) split [unfolded Timeout]]])
  qed
qed

lemma certified_quorum:
  "certified r H h n \<Longrightarrow> \<exists>V. quorum r V \<and>
     (\<forall>k\<in>V. honest r k \<longrightarrow> (\<exists>b. (k, Vote b) \<in> set H \<and> dig r b = h \<and> rnd b = n))"
  by (simp add: backed_def)

lemma one_vote_per_round:
  assumes "run r" "(k, Vote b) \<in> set (hist r)" "(k, Vote b') \<in> set (hist r)" "rnd b = rnd b'"
  shows "b = b'"
proof (rule ccontr)
  assume ne: "b \<noteq> b'"
  obtain xs ys where xs: "hist r = xs @ (k, Vote b) # ys" using assms(2) by (meson split_list)
  have "(k, Vote b') \<notin> set xs" using increasing [OF assms(1) xs] assms(4) by fastforce
  then have "(k, Vote b') \<in> set ys" using assms(3) xs ne by auto
  then obtain us vs where "ys = us @ (k, Vote b') # vs" by (meson split_list)
  then have "hist r = (xs @ (k, Vote b) # us) @ (k, Vote b') # vs" using xs by simp
  from increasing [OF assms(1) this, of "Vote b"] show False using assms(4) by simp
qed

text \<open>No two different hashes are certified for the same round.\<close>

lemma no_conflict:
  assumes "run r" "certified r (hist r) h n" "certified r (hist r) h' n"
  shows "h = h'"
proof -
  obtain V where V: "quorum r V"
      "\<And>k. k \<in> V \<Longrightarrow> honest r k \<Longrightarrow> \<exists>b. (k, Vote b) \<in> set (hist r) \<and> dig r b = h \<and> rnd b = n"
    using certified_quorum [OF assms(2)] by blast
  obtain W where W: "quorum r W"
      "\<And>k. k \<in> W \<Longrightarrow> honest r k \<Longrightarrow> \<exists>b. (k, Vote b) \<in> set (hist r) \<and> dig r b = h' \<and> rnd b = n"
    using certified_quorum [OF assms(3)] by blast
  obtain k where "k \<in> V" "k \<in> W" "honest r k" using quorums [OF assms(1) V(1) W(1)] by blast
  then show ?thesis using V(2) W(2) one_vote_per_round [OF assms(1)] by metis
qed

text \<open>The blocks that honest nodes voted for, and the chain their certificates make.\<close>

definition voted :: "'r \<Rightarrow> 'b \<Rightarrow> bool" where
  "voted r b \<longleftrightarrow> (\<exists>k. honest r k \<and> (k, Vote b) \<in> set (hist r))"

inductive chain :: "'r \<Rightarrow> 'b \<Rightarrow> 'b \<Rightarrow> bool" for r b0 where
  chain_refl: "chain r b0 b0"
| chain_step: "chain r b0 p \<Longrightarrow> voted r p \<Longrightarrow> qc_of b = Some (dig r p, rnd p) \<Longrightarrow> chain r b0 b"

lemma chain_trans: "chain r b c \<Longrightarrow> chain r a b \<Longrightarrow> chain r a c"
  by (induction rule: chain.induct) (auto intro: chain_step)

lemma certified_mono:
  assumes "run r" "hist r = xs @ ys" "certified r xs h n"
  shows "\<exists>V. quorum r V \<and>
    (\<forall>k\<in>V. honest r k \<longrightarrow> (\<exists>b. (k, Vote b) \<in> set (hist r) \<and> dig r b = h \<and> rnd b = n))"
  using certified_quorum [OF assms(3)] assms(2) by fastforce

lemma certified_voter:
  assumes "run r" "certified r xs h n"
  shows "\<exists>k b. honest r k \<and> (k, Vote b) \<in> set xs \<and> dig r b = h \<and> rnd b = n"
  using certified_quorum [OF assms(2)] quorums [OF assms(1)] by blast

text \<open>
  The heart of the argument: if \<open>b1\<close> is certified and extends \<open>b0\<close> in the next round, then an honest
  vote for a block of a later round is for one whose certificate is at least of \<open>b0\<close>'s round.
\<close>

lemma later_vote_is_high:
  assumes "run r" "certified r (hist r) (dig r b1) (rnd b1)" "high b1 + 1 = rnd b1"
    and "\<And>b b'. voted r b \<Longrightarrow> voted r b' \<Longrightarrow> dig r b = dig r b' \<Longrightarrow> b = b'" "voted r b1"
    and "hist r = xs @ (k, Vote b) # ys" "rnd b1 < rnd b"
  shows "high b1 \<le> high b"
  using vote_rule [OF assms(1,6)]
proof
  assume "high b + 1 = rnd b"
  then show ?thesis using assms(3,7) by linarith
next
  assume "\<exists>n qs. n + 1 = rnd b \<and> quorum r (fst ` qs) \<and> (\<forall>(j, q)\<in>qs. q \<le> high b \<and>
     (honest r j \<longrightarrow> (j, Timeout n q) \<in> set xs))"
  then obtain n qs where tc: "n + 1 = rnd b" "quorum r (fst ` qs)"
      "\<And>j q. (j, q) \<in> qs \<Longrightarrow> q \<le> high b \<and> (honest r j \<longrightarrow> (j, Timeout n q) \<in> set xs)"
    by blast
  obtain V where V: "quorum r V" "\<And>k. k \<in> V \<Longrightarrow> honest r k \<Longrightarrow>
      \<exists>b. (k, Vote b) \<in> set (hist r) \<and> dig r b = dig r b1 \<and> rnd b = rnd b1"
    using certified_quorum [OF assms(2)] by blast
  obtain j where j: "j \<in> fst ` qs" "j \<in> V" "honest r j" using quorums [OF assms(1) tc(2) V(1)] by blast
  then obtain q where q: "(j, q) \<in> qs" by auto
  then have "(j, Timeout n q) \<in> set (hist r)" "q \<le> high b" using tc(3) j(3) assms(6) by auto
  moreover have "(j, Vote b1) \<in> set (hist r)"
    using V(2) [OF j(2,3)] assms(4,5) j(3) unfolding voted_def by metis
  ultimately obtain us vs where us: "hist r = us @ (j, Timeout n q) # vs" and v: "(j, Vote b1) \<in> set us \<or>
      (j, Vote b1) \<in> set vs" by (metis (no_types, lifting) Un_iff ballot.distinct(1) list.set_intros(2)
        prod.inject set_ConsD set_append split_list)
  have "(j, Vote b1) \<in> set us"
  proof (rule ccontr)
    assume "\<not> ?thesis"
    then obtain ws zs where "vs = ws @ (j, Vote b1) # zs" using v by (meson split_list)
    then have "hist r = (us @ (j, Timeout n q) # ws) @ (j, Vote b1) # zs" using us by simp
    from increasing [OF assms(1) this, of "Timeout n q"] have "n < rnd b1" by simp
    then show False using tc(1) assms(7) by linarith
  qed
  then have "high b1 \<le> q" using timeout_high [OF assms(1) us] by blast
  with \<open>q \<le> high b\<close> show ?thesis by simp
qed

text \<open>
  Two-chain commit: \<open>b0\<close> certified, and \<open>b1\<close> certified on top of it in the next round. Every vote
  for a certified block of that round or later is for an extension of \<open>b0\<close>.
\<close>

lemma voted_extends:
  assumes "run r" "certified r (hist r) (dig r b0) (rnd b0)"
    and "certified r (hist r) (dig r b1) (rnd b1)"
    and "qc_of b1 = Some (dig r b0, rnd b0)" "rnd b1 = rnd b0 + 1" "voted r b0" "voted r b1"
    and inj: "\<And>b b'. voted r b \<Longrightarrow> voted r b' \<Longrightarrow> dig r b = dig r b' \<Longrightarrow> b = b'"
    and "0 < rnd b0"
    and "hist r = xs @ ys" "certified r xs h n" "rnd b0 \<le> n"
  shows "\<exists>b. voted r b \<and> dig r b = h \<and> rnd b = n \<and> chain r b0 b"
  using assms(10-12)
proof (induction "length xs" arbitrary: xs ys h n rule: less_induct)
  case less
  obtain k b where b: "honest r k" "(k, Vote b) \<in> set xs" "dig r b = h" "rnd b = n"
    using certified_voter [OF assms(1) less.prems(2)] by blast
  then have vb: "voted r b" using less.prems(1) unfolding voted_def by auto
  obtain V where V: "quorum r V" "\<And>k. k \<in> V \<Longrightarrow> honest r k \<Longrightarrow>
      \<exists>b. (k, Vote b) \<in> set (hist r) \<and> dig r b = h \<and> rnd b = n"
    using certified_mono [OF assms(1) less.prems(1,2)] by blast
  have same: "b = x" if "certified r (hist r) (dig r x) (rnd x)" "voted r x" "n = rnd x" for x
  proof -
    note x = that
    obtain W where W: "quorum r W" "\<And>k. k \<in> W \<Longrightarrow> honest r k \<Longrightarrow>
        \<exists>b. (k, Vote b) \<in> set (hist r) \<and> dig r b = dig r x \<and> rnd b = rnd x"
      using certified_quorum [OF x(1)] by blast
    obtain k' where k': "k' \<in> V" "k' \<in> W" "honest r k'" using quorums [OF assms(1) V(1) W(1)] by blast
    obtain p q where "(k', Vote p) \<in> set (hist r)" "dig r p = h" "rnd p = n"
        "(k', Vote q) \<in> set (hist r)" "dig r q = dig r x" "rnd q = rnd x"
      using V(2) [OF k'(1,3)] W(2) [OF k'(2,3)] by blast
    moreover from this have "p = q" using one_vote_per_round [OF assms(1)] x(3) by simp
    ultimately show ?thesis using inj [OF vb x(2)] b(3) by metis
  qed
  have "chain r b0 b"
  proof -
    consider "n = rnd b0" | "n = rnd b1" | "rnd b1 < n" using less.prems(3) assms(5) by linarith
    then show ?thesis
    proof cases
      case 1
      then show ?thesis using same [OF assms(2,6)] chain_refl by metis
    next
      case 2
      then have "b = b1" using same [OF assms(3,7)] by simp
      then show ?thesis using chain_step [OF chain_refl assms(6,4)] by simp
    next
      case 3
      obtain us vs where us: "xs = us @ (k, Vote b) # vs" using b(2) by (meson split_list)
      then have h: "hist r = us @ (k, Vote b) # (vs @ ys)" using less.prems(1) by simp
      have hb1: "high b1 = rnd b0" using assms(4) by (simp add: high_round_def)
      have "high b1 + 1 = rnd b1" "rnd b1 < rnd b" using hb1 assms(5) 3 b(4) by simp_all
      from later_vote_is_high [OF assms(1,3) this(1) _ assms(7) h this(2)] inj
      have "high b1 \<le> high b" by blast
      then have high: "rnd b0 \<le> high b" using hb1 by simp
      then obtain h' n' where qc: "qc_of b = Some (h', n')" "high b = n'"
        using assms(9) by (auto simp: high_round_def split: option.splits)
      have "certified r us h' n'" using vote_qc [OF assms(1) h qc(1)] .
      moreover have "length us < length xs" using us by simp
      moreover have "hist r = us @ ((k, Vote b) # vs @ ys)" using h by simp
      ultimately obtain p where "voted r p" "dig r p = h'" "rnd p = n'" "chain r b0 p"
        using less.hyps [of us _ h' n'] high qc(2) by blast
      then show ?thesis using chain_step [of r b0 p b] qc(1) by simp
    qed
  qed
  then show ?case using vb b by blast
qed

end

end
