(* ===== verification/Safety.thy ===== *)
theory Safety
  imports Network TwoChain
begin

text \<open>
  Safety of the network: the model of \<open>Network\<close> keeps the promises of the abstract two-chain rule,
  so no two conflicting certificates exist, and committed blocks lie on one chain. \<open>safe_run\<close>
  collects the assumptions: a reachable network, faulty nodes with at most a third of the stake,
  and no collision among the byte strings hashed for the ballots and certificates of the run.

  \<open>Block.Digest\<close> covers the author, the round and the payload of a block, not its QC. A certificate
  is for a digest, so the chain below a certified digest is determined only if no two blocks of the
  run differ in their certificates alone; that is the assumption \<open>inj_on (Block_Digest E) B\<close>.
\<close>

subsection \<open>What is hashed in a run\<close>

fun signed_buf :: "signed \<Rightarrow> byte list" where
  "signed_buf (SVote b v) = digest_bytes (v_hash v) @ be64 (v_round v)"
| "signed_buf (STimeout t) = be64 (t_round t) @ be64 (qc_Round (t_highQC t))"

definition qc_buf :: "QC \<Rightarrow> byte list" where
  "qc_buf qc = digest_bytes (qc_Hash qc) @ be64 (qc_Round qc)"

definition tc_buf :: "Round \<Rightarrow> authorityTimeoutRound \<Rightarrow> byte list" where
  "tc_buf r a = be64 r @ be64 (atr_round a)"

definition block_bufs :: "Block \<Rightarrow> byte list set" where
  "block_bufs b = insert (qc_buf (blk_Qc b))
     (case blk_Tc b of None \<Rightarrow> {} | Some tc \<Rightarrow> tc_buf (tc_Round tc) ` set (tc_Votes tc))"

definition run_bufs :: "(PublicKey \<times> signed) list \<Rightarrow> byte list set" where
  "run_bufs H = (\<Union>(k, s)\<in>set H. insert (signed_buf s)
     (case s of SVote b v \<Rightarrow> block_bufs b | STimeout t \<Rightarrow> {}))"

lemma signed_digest_buf: "signed_digest L s = NewDigest L (signed_buf s)"
  by (cases s) (simp_all add: vote_Digest_def timeout_Digest_def)

lemma QC_Digest_buf: "QC_Digest L qc = NewDigest L (qc_buf qc)"
  by (simp add: QC_Digest_def qc_buf_def)

lemma signed_buf_in: "(k, s) \<in> set H \<Longrightarrow> signed_buf s \<in> run_bufs H"
  unfolding run_bufs_def by blast

lemma block_bufs_in: "(k, SVote b v) \<in> set H \<Longrightarrow> block_bufs b \<subseteq> run_bufs H"
  unfolding run_bufs_def by fastforce

lemma vote_buf_eq:
  "signed_buf s = qc_buf qc \<longleftrightarrow> (\<exists>b v. s = SVote b v \<and> v_hash v = qc_Hash qc \<and> v_round v = qc_Round qc)"
proof (cases s)
  case (STimeout t)
  have "length (qc_buf qc) = 40" by (simp add: qc_buf_def)
  then have "signed_buf s \<noteq> qc_buf qc" using STimeout by (auto dest!: arg_cong [of _ _ length])
  then show ?thesis using STimeout by simp
qed (auto simp: qc_buf_def append_eq_append_conv)

lemma timeout_buf_eq:
  "signed_buf s = tc_buf r a \<longleftrightarrow>
     (\<exists>t. s = STimeout t \<and> t_round t = r \<and> qc_Round (t_highQC t) = atr_round a)"
proof (cases s)
  case (SVote b v)
  have "length (tc_buf r a) = 16" by (simp add: tc_buf_def)
  then have "signed_buf s \<noteq> tc_buf r a" using SVote by (auto dest!: arg_cong [of _ _ length])
  then show ?thesis using SVote by simp
qed (auto simp: tc_buf_def)

subsection \<open>The abstract view\<close>

fun abs_ballot :: "signed \<Rightarrow> Block ballot" where
  "abs_ballot (SVote b v) = Vote b"
| "abs_ballot (STimeout t) = Timeout (unat (t_round t)) (unat (qc_Round (t_highQC t)))"

definition abs_hist :: "(PublicKey \<times> signed) list \<Rightarrow> (PublicKey \<times> Block ballot) list" where
  "abs_hist H = map (\<lambda>(k, s). (k, abs_ballot s)) H"

definition block_rnd :: "Block \<Rightarrow> nat" where
  "block_rnd b = unat (blk_Round b)"

definition block_qc :: "Block \<Rightarrow> (Digest \<times> nat) option" where
  "block_qc b = (if IsGenesisQC (blk_Qc b) then None
     else Some (qc_Hash (blk_Qc b), unat (qc_Round (blk_Qc b))))"

definition is_quorum :: "Committee \<Rightarrow> PublicKey set \<Rightarrow> bool" where
  "is_quorum cm V \<longleftrightarrow> finite V \<and> unat (QuorumThreshold cm) \<le> (\<Sum>k\<in>V. unat (Committee_Stake cm k))"

definition faulty_stake :: "Committee \<Rightarrow> (PublicKey \<Rightarrow> bool) \<Rightarrow> nat" where
  "faulty_stake cm hon = (\<Sum>k\<in>{k \<in> cm_members cm. \<not> hon k}. unat (Committee_Stake cm k))"

type_synonym ('sk, 'p1, 'p2, 'agg, 'db, 'z) run =
  "('sk, 'p1, 'p2, 'agg, 'db, 'z) env_scheme \<times> Committee \<times> (PublicKey \<Rightarrow> bool) \<times> Block set
     \<times> (PublicKey \<Rightarrow> SignatureService) \<times> ('agg, 'db) net"

fun safe_run :: "('sk, 'p1, 'p2, 'agg, 'db, 'z) run \<Rightarrow> bool" where
  "safe_run (E, cm, hon, B, ss, y) \<longleftrightarrow> net_reach E cm hon B ss y \<and> env_ok E cm
     \<and> 3 * faulty_stake cm hon \<le> total_stake cm \<and> inj_on (NewDigest E) (run_bufs (n_hist y))"

fun run_hist :: "('sk, 'p1, 'p2, 'agg, 'db, 'z) run \<Rightarrow> (PublicKey \<times> Block ballot) list" where
  "run_hist (E, cm, hon, B, ss, y) = abs_hist (n_hist y)"

fun run_honest :: "('sk, 'p1, 'p2, 'agg, 'db, 'z) run \<Rightarrow> PublicKey \<Rightarrow> bool" where
  "run_honest (E, cm, hon, B, ss, y) = hon"

fun run_quorum :: "('sk, 'p1, 'p2, 'agg, 'db, 'z) run \<Rightarrow> PublicKey set \<Rightarrow> bool" where
  "run_quorum (E, cm, hon, B, ss, y) = is_quorum cm"

fun run_digest :: "('sk, 'p1, 'p2, 'agg, 'db, 'z) run \<Rightarrow> Block \<Rightarrow> Digest" where
  "run_digest (E, cm, hon, B, ss, y) = Block_Digest E"

lemma quorum_of_is_quorum: "quorum_of cm vs \<Longrightarrow> is_quorum cm (set vs)"
  by (simp add: quorum_of_def is_quorum_def voters_weight_def)

lemma quorums_meet:
  assumes "stake_fits cm" "3 * faulty_stake cm hon \<le> total_stake cm" "is_quorum cm V" "is_quorum cm W"
  shows "\<exists>k. k \<in> V \<and> k \<in> W \<and> hon k"
proof -
  let ?F = "{k \<in> cm_members cm. \<not> hon k}"
  have "\<exists>k. k \<in> V \<and> k \<in> W \<and> k \<notin> ?F \<and> k \<in> cm_members cm"
    using assms by (intro cq.quorums_share_honest)
      (simp_all add: is_quorum_def faulty_stake_def total_stake_def)
  then show ?thesis by blast
qed

lemma abs_hist_split:
  assumes "abs_hist H = xs @ (k, e) # ys"
  obtains us s vs where "H = us @ (k, s) # vs" "xs = abs_hist us" "e = abs_ballot s"
  using assms by (auto simp: abs_hist_def map_eq_append_conv map_eq_Cons_conv)

lemma abs_ballot_Vote [simp]: "abs_ballot s = Vote b \<longleftrightarrow> (\<exists>v. s = SVote b v)"
  "Vote b = abs_ballot s \<longleftrightarrow> (\<exists>v. s = SVote b v)"
  by (cases s; auto)+

lemma ballot_round_abs: "ballot_round block_rnd (abs_ballot s) = unat (signed_round s)"
  by (cases s) (simp_all add: block_rnd_def)

subsection \<open>Entries of the history\<close>

lemma hist_entry:
  assumes "net_inv E cm hon B ss y" "n_hist y = us @ (k, s) # vs"
  shows "hon k" "log_entry_ok E k (ss k) (map snd (filter (\<lambda>p. fst p = k) us)) s"
    and "s = SVote b v \<Longrightarrow> block_known E cm hon B (hist_pairs E us) b"
proof -
  show hon: "hon k" using assms by (auto simp: net_inv_def)
  have node: "node_inv E cm hon B ss y k" using assms(1) hon by (simp add: net_inv_def)
  then have "at_each (log_entry_ok E k (ss k)) (map snd (filter (\<lambda>p. fst p = k) (n_hist y)))"
    by (auto simp: node_inv_def log_ok_def)
  then show "log_entry_ok E k (ss k) (map snd (filter (\<lambda>p. fst p = k) us)) s"
    by (rule at_eachD [where ys = "map snd (filter (\<lambda>p. fst p = k) vs)"]) (simp add: assms(2))
  show "block_known E cm hon B (hist_pairs E us) b" if "s = SVote b v"
    using assms that at_eachD [of _ "n_hist y" us "(k, s)" vs] by (fastforce simp: net_inv_def)
qed

lemma vote_entry:
  assumes "net_inv E cm hon B ss y" "(k, SVote b v) \<in> set (n_hist y)"
  shows "v_hash v = Block_Digest E b" "v_round v = blk_Round b"
proof -
  obtain us vs where "n_hist y = us @ (k, SVote b v) # vs" using assms(2) by (meson split_list)
  from hist_entry(2) [OF assms(1) this]
  show "v_hash v = Block_Digest E b" "v_round v = blk_Round b" by simp_all
qed

text \<open>A known QC is backed by votes for blocks with its hash and round.\<close>

lemma known_qc_backed:
  assumes "net_inv E cm hon B ss y" "stake_fits cm" "set us \<subseteq> set (n_hist y)"
    and "inj_on (NewDigest E) (insert (qc_buf qc) (run_bufs (n_hist y)))"
    and "qc_known E cm hon (hist_pairs E us) qc" "qc \<noteq> GenesisQC"
  shows "backed hon (is_quorum cm) (Block_Digest E) block_rnd (abs_hist us)
    (qc_Hash qc) (unat (qc_Round qc))"
proof -
  have qc: "quorum_of cm (qc_Voters qc)"
      "\<And>k. k \<in> set (qc_Voters qc) \<Longrightarrow> hon k \<Longrightarrow> (k, QC_Digest E qc) \<in> hist_pairs E us"
    using assms(2,5,6) by (auto simp: qc_known_def QC_Verify_None_iff)
  have "\<exists>b. (k, Vote b) \<in> set (abs_hist us) \<and> Block_Digest E b = qc_Hash qc \<and>
      block_rnd b = unat (qc_Round qc)" if k: "k \<in> set (qc_Voters qc)" "hon k" for k
  proof -
    obtain s where s: "(k, s) \<in> set us" "NewDigest E (signed_buf s) = NewDigest E (qc_buf qc)"
      using qc(2) [OF k] by (auto simp: hist_pairs_def signed_digest_buf QC_Digest_buf)
    then have "signed_buf s \<in> run_bufs (n_hist y)" using assms(3) signed_buf_in by blast
    then have "signed_buf s = qc_buf qc" using inj_onD [OF assms(4) s(2)] by blast
    then obtain b v where b: "s = SVote b v" "v_hash v = qc_Hash qc" "v_round v = qc_Round qc"
      by (auto simp: vote_buf_eq)
    have "(k, SVote b v) \<in> set (n_hist y)" using s(1) b(1) assms(3) by blast
    note vote_entry [OF assms(1) this]
    moreover have "(k, Vote b) \<in> set (abs_hist us)" using s(1) b(1) by (force simp: abs_hist_def)
    ultimately show ?thesis using b by (auto simp: block_rnd_def)
  qed
  then show ?thesis
    using quorum_of_is_quorum [OF qc(1)] unfolding backed_def by blast
qed

lemma known_tc_backed:
  assumes "net_inv E cm hon B ss y" "stake_fits cm" "set us \<subseteq> set (n_hist y)"
    and "inj_on (NewDigest E) (run_bufs (n_hist y))"
    and "tc_buf (tc_Round tc) ` set (tc_Votes tc) \<subseteq> run_bufs (n_hist y)"
    and "tc_known E cm hon (hist_pairs E us) tc"
  shows "is_quorum cm (atr_name ` set (tc_Votes tc))"
    and "a \<in> set (tc_Votes tc) \<Longrightarrow> hon (atr_name a) \<Longrightarrow>
      (atr_name a, Timeout (unat (tc_Round tc)) (unat (atr_round a))) \<in> set (abs_hist us)"
proof -
  have tc: "quorum_of cm (map atr_name (tc_Votes tc))"
      "\<And>a. a \<in> set (tc_Votes tc) \<Longrightarrow> hon (atr_name a) \<Longrightarrow>
         (atr_name a, NewDigest E (tc_buf (tc_Round tc) a)) \<in> hist_pairs E us"
    using assms(2,6)
    by (auto simp: tc_known_def TC_Verify_None_iff timeout_round_digest_def tc_buf_def)
  show "is_quorum cm (atr_name ` set (tc_Votes tc))" using quorum_of_is_quorum [OF tc(1)] by simp
  assume a: "a \<in> set (tc_Votes tc)" "hon (atr_name a)"
  obtain s where s: "(atr_name a, s) \<in> set us"
      "NewDigest E (signed_buf s) = NewDigest E (tc_buf (tc_Round tc) a)"
    using tc(2) [OF a] by (auto simp: hist_pairs_def signed_digest_buf)
  then have "signed_buf s \<in> run_bufs (n_hist y)" using assms(3) signed_buf_in by blast
  then have "signed_buf s = tc_buf (tc_Round tc) a"
    using inj_onD [OF assms(4) s(2)] assms(5) a(1) by blast
  then obtain t where "s = STimeout t" "t_round t = tc_Round tc" "qc_Round (t_highQC t) = atr_round a"
    by (auto simp: timeout_buf_eq)
  then show "(atr_name a, Timeout (unat (tc_Round tc)) (unat (atr_round a))) \<in> set (abs_hist us)"
    using s(1) by (force simp: abs_hist_def)
qed

lemma high_round_block: "high_round block_qc b = unat (qc_Round (blk_Qc b))"
  by (auto simp: high_round_def block_qc_def IsGenesisQC_def)

lemma unat_succ: "a + 1 = b \<Longrightarrow> b \<noteq> 0 \<Longrightarrow> unat a + 1 = unat b"
  for a b :: u64
  by (metis Suc_eq_plus1 unatSuc add.commute)

lemma safe_run_inv:
  assumes "safe_run (E, cm, hon, B, ss, y)"
  shows "net_inv E cm hon B ss y" "stake_fits cm" "inj_on (NewDigest E) (run_bufs (n_hist y))"
  using assms net_reach_inv [of E cm hon B ss y] by (simp_all add: env_ok_def)

lemma run_vote_split:
  assumes "run_hist (E, cm, hon, B, ss, y) = xs @ (k, Vote b) # ys"
  obtains us v vs where "n_hist y = us @ (k, SVote b v) # vs" "xs = abs_hist us"
proof -
  have "abs_hist (n_hist y) = xs @ (k, Vote b) # ys" using assms by simp
  then obtain us s vs where "n_hist y = us @ (k, s) # vs" "xs = abs_hist us" "Vote b = abs_ballot s"
    by (rule abs_hist_split)
  then show thesis using that by auto
qed

text \<open>What an honest vote, at its place in the history, says about its block.\<close>

lemma honest_vote:
  assumes "safe_run (E, cm, hon, B, ss, y)" "n_hist y = us @ (k, SVote b v) # vs"
  shows "block_qc b = Some (h, n) \<Longrightarrow>
      backed hon (is_quorum cm) (Block_Digest E) block_rnd (abs_hist us) h n"
    and "high_round block_qc b + 1 = block_rnd b \<or>
      (\<exists>n qs. n + 1 = block_rnd b \<and> is_quorum cm (fst ` qs) \<and> (\<forall>(j, q)\<in>qs.
         q \<le> high_round block_qc b \<and> (hon j \<longrightarrow> (j, Timeout n q) \<in> set (abs_hist us))))"
proof -
  note run = safe_run_inv(2,3,1) [OF assms(1)]
  note entry = hist_entry [OF run(3) assms(2)]
  have known: "block_known E cm hon B (hist_pairs E us) b" using entry(3) by simp
  have us: "set us \<subseteq> set (n_hist y)" using assms(2) by auto
  have bufs: "block_bufs b \<subseteq> run_bufs (n_hist y)"
    by (rule block_bufs_in [of k b v]) (simp add: assms(2))
  have sr: "0 < blk_Round b" "safetyRule2 b = Inr True" using entry(2) by simp_all
  show "backed hon (is_quorum cm) (Block_Digest E) block_rnd (abs_hist us) h n"
    if "block_qc b = Some (h, n)"
  proof -
    have "insert (qc_buf (blk_Qc b)) (run_bufs (n_hist y)) = run_bufs (n_hist y)"
      using bufs by (auto simp: block_bufs_def)
    then show ?thesis
      using known_qc_backed [OF run(3,1) us, of "blk_Qc b"] run(2) known that
      by (auto simp: block_known_def block_qc_def IsGenesisQC_iff split: if_splits)
  qed
  show "high_round block_qc b + 1 = block_rnd b \<or>
      (\<exists>n qs. n + 1 = block_rnd b \<and> is_quorum cm (fst ` qs) \<and> (\<forall>(j, q)\<in>qs.
         q \<le> high_round block_qc b \<and> (hon j \<longrightarrow> (j, Timeout n q) \<in> set (abs_hist us))))"
  proof (cases "qc_Round (blk_Qc b) + 1 = blk_Round b")
    case True
    then show ?thesis
      using unat_succ [OF True] sr(1) by (simp add: high_round_block block_rnd_def)
  next
    case False
    then obtain tc where tc: "blk_Tc b = Some tc" "tc_Round tc + 1 = blk_Round b"
        "\<forall>a\<in>set (tc_Votes tc). atr_round a \<le> qc_Round (blk_Qc b)"
      using sr(2) by (auto simp: safetyRule2_True_iff split: option.splits if_splits)
    have "tc_buf (tc_Round tc) ` set (tc_Votes tc) \<subseteq> run_bufs (n_hist y)"
      using bufs tc(1) by (simp add: block_bufs_def)
    note backed = known_tc_backed [OF run(3,1) us run(2) this]
    have known_tc: "tc_known E cm hon (hist_pairs E us) tc"
      using known tc(1) by (simp add: block_known_def)
    let ?qs = "(\<lambda>a. (atr_name a, unat (atr_round a))) ` set (tc_Votes tc)"
    have "unat (tc_Round tc) + 1 = block_rnd b"
      using unat_succ [OF tc(2)] sr(1) by (simp add: block_rnd_def)
    moreover have "is_quorum cm (fst ` ?qs)"
      using backed(1) [OF known_tc] by (simp add: image_image)
    moreover have "\<forall>(j, q)\<in>?qs. q \<le> high_round block_qc b \<and>
        (hon j \<longrightarrow> (j, Timeout (unat (tc_Round tc)) q) \<in> set (abs_hist us))"
      using tc(3) backed(2) [OF known_tc] by (auto simp: high_round_block word_le_nat_alt)
    ultimately show ?thesis by blast
  qed
qed

lemma honest_order:
  assumes "net_inv E cm hon B ss y" "n_hist y = us @ (k, s) # vs"
  shows "s = SVote b v \<Longrightarrow> (k, s') \<in> set us \<Longrightarrow> unat (signed_round s') < block_rnd b"
    and "s = STimeout t \<Longrightarrow> (k, SVote b v) \<in> set us \<Longrightarrow>
      high_round block_qc b \<le> unat (qc_Round (t_highQC t))"
proof -
  note entry = hist_entry(2) [OF assms]
  have own: "s' \<in> set (map snd (filter (\<lambda>p. fst p = k) us))" if "(k, s') \<in> set us" for s'
    using that by force
  show "unat (signed_round s') < block_rnd b" if "s = SVote b v" "(k, s') \<in> set us"
    using entry own [OF that(2)] that(1) by (auto simp: block_rnd_def word_less_nat_alt)
  show "high_round block_qc b \<le> unat (qc_Round (t_highQC t))"
    if "s = STimeout t" "(k, SVote b v) \<in> set us"
    using entry own [OF that(2)] that(1)
    by (auto simp: high_round_block simp flip: word_le_nat_alt)
qed

interpretation net: two_chain safe_run run_hist run_honest run_quorum run_digest block_rnd block_qc
proof unfold_locales
  fix r :: "('sk, 'p1, 'p2, 'agg, 'db, 'z) run" and k e
  assume r: "safe_run r" and mem: "(k, e) \<in> set (run_hist r)"
  obtain E cm hon B ss y where eq: "r = (E, cm, hon, B, ss, y)" by (cases r)
  obtain s where "(k, s) \<in> set (n_hist y)" using mem by (auto simp: eq abs_hist_def)
  then show "run_honest r k"
    using safe_run_inv(1) [OF r [unfolded eq]] by (auto simp: eq net_inv_def)
next
  fix r :: "('sk, 'p1, 'p2, 'agg, 'db, 'z) run" and V W
  assume "safe_run r" "run_quorum r V" "run_quorum r W"
  then show "\<exists>k. k \<in> V \<and> k \<in> W \<and> run_honest r k"
    by (cases r rule: safe_run.cases) (auto simp: env_ok_def intro!: quorums_meet)
next
  fix r :: "('sk, 'p1, 'p2, 'agg, 'db, 'z) run" and xs k b ys e
  assume r: "safe_run r" and split: "run_hist r = xs @ (k, Vote b) # ys" and e: "(k, e) \<in> set xs"
  obtain E cm hon B ss y where eq: "r = (E, cm, hon, B, ss, y)" by (cases r)
  note inv = safe_run_inv(1) [OF r [unfolded eq]]
  obtain us v vs where h: "n_hist y = us @ (k, SVote b v) # vs" "xs = abs_hist us"
    by (rule run_vote_split [OF split [unfolded eq]])
  obtain s' where "(k, s') \<in> set us" "e = abs_ballot s'" using e h(2) by (auto simp: abs_hist_def)
  then show "ballot_round block_rnd e < block_rnd b"
    using honest_order(1) [OF inv h(1) refl] by (simp add: ballot_round_abs)
next
  fix r :: "('sk, 'p1, 'p2, 'agg, 'db, 'z) run" and xs k b ys h n
  assume r: "safe_run r" and split: "run_hist r = xs @ (k, Vote b) # ys" and qc: "block_qc b = Some (h, n)"
  obtain E cm hon B ss y where eq: "r = (E, cm, hon, B, ss, y)" by (cases r)
  obtain us v vs where h: "n_hist y = us @ (k, SVote b v) # vs" "xs = abs_hist us"
    by (rule run_vote_split [OF split [unfolded eq]])
  show "backed (run_honest r) (run_quorum r) (run_digest r) block_rnd xs h n"
    using honest_vote(1) [OF r [unfolded eq] h(1) qc] by (simp add: eq h(2))
next
  fix r :: "('sk, 'p1, 'p2, 'agg, 'db, 'z) run" and xs k b ys
  assume r: "safe_run r" and split: "run_hist r = xs @ (k, Vote b) # ys"
  obtain E cm hon B ss y where eq: "r = (E, cm, hon, B, ss, y)" by (cases r)
  obtain us v vs where h: "n_hist y = us @ (k, SVote b v) # vs" "xs = abs_hist us"
    by (rule run_vote_split [OF split [unfolded eq]])
  show "high_round block_qc b + 1 = block_rnd b \<or>
      (\<exists>n qs. n + 1 = block_rnd b \<and> run_quorum r (fst ` qs) \<and> (\<forall>(j, q)\<in>qs.
         q \<le> high_round block_qc b \<and> (run_honest r j \<longrightarrow> (j, Timeout n q) \<in> set xs)))"
    using honest_vote(2) [OF r [unfolded eq] h(1)] by (simp add: eq h(2))
next
  fix r :: "('sk, 'p1, 'p2, 'agg, 'db, 'z) run" and xs k n q ys b
  assume r: "safe_run r" and split: "run_hist r = xs @ (k, Timeout n q) # ys"
    and b: "(k, Vote b) \<in> set xs"
  obtain E cm hon B ss y where eq: "r = (E, cm, hon, B, ss, y)" by (cases r)
  note inv = safe_run_inv(1) [OF r [unfolded eq]]
  obtain us s vs where h: "n_hist y = us @ (k, s) # vs" "xs = abs_hist us" "Timeout n q = abs_ballot s"
    using split by (auto simp: eq elim!: abs_hist_split)
  obtain t where t: "s = STimeout t" "q = unat (qc_Round (t_highQC t))" using h(3) by (cases s) auto
  obtain v where "(k, SVote b v) \<in> set us" using b h(2) by (auto simp: abs_hist_def)
  then show "high_round block_qc b \<le> q" using honest_order(2) [OF inv h(1) t(1)] t(2) by simp
qed

subsection \<open>Certificates for one round\<close>

lemma voted_facts:
  assumes "safe_run (E, cm, hon, B, ss, y)" "net.voted (E, cm, hon, B, ss, y) b"
  shows "0 < block_rnd b" "b \<noteq> GenesisBlock" "b \<in> B"
    "block_known E cm hon B (hist_pairs E (n_hist y)) b"
proof -
  note inv = safe_run_inv(1) [OF assms(1)]
  obtain k v where "(k, SVote b v) \<in> set (n_hist y)"
    using assms(2) by (auto simp: net.voted_def abs_hist_def)
  then obtain us vs where h: "n_hist y = us @ (k, SVote b v) # vs" by (meson split_list)
  show pos: "0 < block_rnd b"
    using hist_entry(2) [OF inv h] by (simp add: block_rnd_def word_less_nat_alt)
  then show "b \<noteq> GenesisBlock" by (auto simp: GenesisBlock_def block_rnd_def)
  then show "b \<in> B" using hist_entry(3) [OF inv h refl] by (simp add: block_known_def)
  show "block_known E cm hon B (hist_pairs E (n_hist y)) b"
    using hist_entry(3) [OF inv h refl] by (rule block_known_mono) (auto simp: h hist_pairs_def)
qed

lemma known_qc_certified:
  assumes "safe_run (E, cm, hon, B, ss, y)"
    and "inj_on (NewDigest E) (insert (qc_buf qc) (run_bufs (n_hist y)))"
    and "qc_known E cm hon (hist_pairs E (n_hist y)) qc" "qc \<noteq> GenesisQC"
  shows "net.certified (E, cm, hon, B, ss, y) (run_hist (E, cm, hon, B, ss, y)) (qc_Hash qc) (unat (qc_Round qc))"
  using known_qc_backed [OF safe_run_inv(1,2) [OF assms(1)] _ assms(2-4)] by simp

lemma known_qc_round:
  assumes "safe_run (E, cm, hon, B, ss, y)"
    and "inj_on (NewDigest E) (insert (qc_buf qc) (run_bufs (n_hist y)))"
    and "qc_known E cm hon (hist_pairs E (n_hist y)) qc" "qc \<noteq> GenesisQC"
  shows "qc_Round qc \<noteq> 0"
proof -
  obtain k b where b: "run_honest (E, cm, hon, B, ss, y) k"
      "(k, Vote b) \<in> set (run_hist (E, cm, hon, B, ss, y))" "block_rnd b = unat (qc_Round qc)"
    using net.certified_voter [OF assms(1) known_qc_certified [OF assms]] by blast
  then have "net.voted (E, cm, hon, B, ss, y) b" unfolding net.voted_def by blast
  then show ?thesis using voted_facts(1) [OF assms(1)] b(3) by fastforce
qed

lemma same_round_same_hash:
  assumes "safe_run (E, cm, hon, B, ss, y)"
    and "inj_on (NewDigest E) (insert (qc_buf qc) (insert (qc_buf qc') (run_bufs (n_hist y))))"
    and "qc_known E cm hon (hist_pairs E (n_hist y)) qc"
    and "qc_known E cm hon (hist_pairs E (n_hist y)) qc'" "qc_Round qc = qc_Round qc'"
  shows "qc_Hash qc = qc_Hash qc'"
proof -
  have inj: "inj_on (NewDigest E) (insert (qc_buf qc) (run_bufs (n_hist y)))"
      "inj_on (NewDigest E) (insert (qc_buf qc') (run_bufs (n_hist y)))"
    using assms(2) by (auto elim: inj_on_subset)
  note round = known_qc_round [OF assms(1) inj(1) assms(3)] known_qc_round [OF assms(1) inj(2) assms(4)]
  have zero: "qc_Round GenesisQC = 0" by (simp add: GenesisQC_def)
  show ?thesis
  proof (cases "qc = GenesisQC \<or> qc' = GenesisQC")
    case True
    then show ?thesis using round zero assms(5) by metis
  next
    case False
    then show ?thesis
      using net.no_conflict [OF assms(1) known_qc_certified [OF assms(1) inj(1) assms(3)]
          known_qc_certified [OF assms(1) inj(2) assms(4), folded assms(5)]] by blast
  qed
qed

subsection \<open>Committed blocks\<close>

lemma chain_lineage:
  assumes "safe_run (E, cm, hon, B, ss, y)" "net.chain (E, cm, hon, B, ss, y) b0 b"
  shows "lineage E (block_known E cm hon B (hist_pairs E (n_hist y))) b0 b"
  using assms(2)
proof (induction rule: net.chain.induct)
  case chain_refl
  show ?case by (rule lineage_refl)
next
  case (chain_step p b)
  have "parent_of E p b"
    using chain_step.hyps(3) by (auto simp: block_qc_def parent_of_def Parent_def split: if_splits)
  then show ?case
    using chain_step voted_facts(4) [OF assms(1)] by (auto intro: lineage_step)
qed

lemma parent_unique:
  assumes "inj_on (Block_Digest E) (insert GenesisBlock B)"
    and "block_known E cm hon B S p" "block_known E cm hon B S p'" "parent_of E p b" "parent_of E p' b"
  shows "p = p'"
  using assms(2-5) inj_onD [OF assms(1), of p p']
  by (auto simp: parent_of_def block_known_def split: if_splits)

text \<open>A known block whose hash a known QC certifies is one that an honest node voted for.\<close>

lemma certified_block_voted:
  assumes "safe_run (E, cm, hon, B, ss, y)"
    and "inj_on (NewDigest E) (insert (qc_buf (blk_Qc b)) (run_bufs (n_hist y)))"
    and "inj_on (Block_Digest E) (insert GenesisBlock B)"
    and "block_known E cm hon B (hist_pairs E (n_hist y)) b"
    and "block_known E cm hon B (hist_pairs E (n_hist y)) p" "parent_of E p b" "p \<noteq> GenesisBlock"
  shows "net.voted (E, cm, hon, B, ss, y) p" "block_qc b = Some (Block_Digest E p, block_rnd p)"
    "net.certified (E, cm, hon, B, ss, y) (run_hist (E, cm, hon, B, ss, y)) (Block_Digest E p) (block_rnd p)"
proof -
  let ?r = "(E, cm, hon, B, ss, y)"
  have qc: "blk_Qc b \<noteq> GenesisQC" "qc_Hash (blk_Qc b) = Block_Digest E p"
    using assms(6,7) by (auto simp: parent_of_def IsGenesisQC_iff Parent_def split: if_splits)
  have known: "qc_known E cm hon (hist_pairs E (n_hist y)) (blk_Qc b)"
    using assms(4) by (simp add: block_known_def)
  note cert = known_qc_certified [OF assms(1,2) known qc(1)]
  obtain k q where q: "run_honest ?r k" "(k, Vote q) \<in> set (run_hist ?r)"
      "run_digest ?r q = qc_Hash (blk_Qc b)" "block_rnd q = unat (qc_Round (blk_Qc b))"
    using net.certified_voter [OF assms(1) cert] by blast
  then have voted: "net.voted ?r q" unfolding net.voted_def by blast
  have "q = p"
    using inj_onD [OF assms(3), of q p] q(3) qc(2) voted_facts(3) [OF assms(1) voted] assms(5)
    by (auto simp: block_known_def)
  then show "net.voted ?r p" "block_qc b = Some (Block_Digest E p, block_rnd p)"
      "net.certified ?r (run_hist ?r) (Block_Digest E p) (block_rnd p)"
    using voted q(4) qc cert by (simp_all add: block_qc_def IsGenesisQC_iff)
qed

lemma head_facts:
  assumes "safe_run (E, cm, hon, B, ss, y)"
    and "inj_on (NewDigest E) (run_bufs (n_hist y) \<union> (\<Union>b\<in>B. block_bufs b))"
    and "inj_on (Block_Digest E) (insert GenesisBlock B)"
    and "two_chain_head E (block_known E cm hon B (hist_pairs E (n_hist y))) b0"
  obtains b1 where "net.voted (E, cm, hon, B, ss, y) b0" "net.voted (E, cm, hon, B, ss, y) b1"
    "block_qc b1 = Some (Block_Digest E b0, block_rnd b0)" "block_rnd b1 = block_rnd b0 + 1"
    "net.certified (E, cm, hon, B, ss, y) (run_hist (E, cm, hon, B, ss, y)) (Block_Digest E b0) (block_rnd b0)"
    "net.certified (E, cm, hon, B, ss, y) (run_hist (E, cm, hon, B, ss, y)) (Block_Digest E b1) (block_rnd b1)"
proof -
  let ?K = "block_known E cm hon B (hist_pairs E (n_hist y))"
  obtain b1 b where b: "?K b0" "0 < blk_Round b0" "?K b1" "?K b" "parent_of E b0 b1"
      "parent_of E b1 b" "blk_Round b0 + 1 = blk_Round b1"
    using assms(4) by (auto simp: two_chain_head_def)
  have ng0: "b0 \<noteq> GenesisBlock" using b(2) by (auto simp: GenesisBlock_def)
  have ng1: "b1 \<noteq> GenesisBlock"
    using b(5) ng0 by (auto simp: parent_of_def GenesisBlock_def IsGenesisQC_def GenesisQC_def)
  have ng: "b \<noteq> GenesisBlock"
    using b(6) ng1 by (auto simp: parent_of_def GenesisBlock_def IsGenesisQC_def GenesisQC_def)
  have inj: "inj_on (NewDigest E) (insert (qc_buf (blk_Qc x)) (run_bufs (n_hist y)))"
    if "?K x" "x \<noteq> GenesisBlock" for x
    using that by (intro inj_on_subset [OF assms(2)]) (auto simp: block_known_def block_bufs_def)
  note v1 = certified_block_voted [OF assms(1) inj [OF b(4) ng] assms(3) b(4,3,6) ng1]
  note v0 = certified_block_voted [OF assms(1) inj [OF b(3) ng1] assms(3) b(3,1,5) ng0]
  have "blk_Round b1 \<noteq> 0" using voted_facts(1) [OF assms(1) v1(1)] by (auto simp: block_rnd_def)
  then have "block_rnd b1 = block_rnd b0 + 1" using unat_succ [OF b(7)] by (simp add: block_rnd_def)
  then show thesis using that v0 v1 by blast
qed

lemma heads_comparable:
  assumes "safe_run (E, cm, hon, B, ss, y)"
    and "inj_on (NewDigest E) (run_bufs (n_hist y) \<union> (\<Union>b\<in>B. block_bufs b))"
    and "inj_on (Block_Digest E) (insert GenesisBlock B)"
    and "two_chain_head E (block_known E cm hon B (hist_pairs E (n_hist y))) b"
    and "two_chain_head E (block_known E cm hon B (hist_pairs E (n_hist y))) c"
    and "block_rnd b \<le> block_rnd c"
  shows "lineage E (block_known E cm hon B (hist_pairs E (n_hist y))) b c"
proof -
  let ?r = "(E, cm, hon, B, ss, y)"
  obtain b1 where b: "net.voted ?r b" "net.voted ?r b1"
      "block_qc b1 = Some (Block_Digest E b, block_rnd b)" "block_rnd b1 = block_rnd b + 1"
      "net.certified ?r (run_hist ?r) (Block_Digest E b) (block_rnd b)"
      "net.certified ?r (run_hist ?r) (Block_Digest E b1) (block_rnd b1)"
    by (rule head_facts [OF assms(1-4)])
  obtain c1 where c: "net.voted ?r c"
      "net.certified ?r (run_hist ?r) (Block_Digest E c) (block_rnd c)"
    by (rule head_facts [OF assms(1-3,5)])
  have inj: "p = q" if "net.voted ?r p" "net.voted ?r q" "run_digest ?r p = run_digest ?r q" for p q
    using that inj_onD [OF assms(3), of p q] voted_facts(3) [OF assms(1)] by simp
  obtain d where "net.voted ?r d" "run_digest ?r d = Block_Digest E c" "net.chain ?r b d"
    using net.voted_extends [OF assms(1) _ _ _ b(4,1,2) inj voted_facts(1) [OF assms(1) b(1)],
        of "run_hist ?r" "[]" "Block_Digest E c" "block_rnd c"] b(3,5,6) c(2) assms(6)
    by (auto simp: simp del: run_hist.simps run_honest.simps run_quorum.simps)
  moreover from this have "d = c" using inj [OF _ c(1)] by simp
  ultimately show ?thesis using chain_lineage [OF assms(1)] by blast
qed

lemma committed_comparable:
  assumes "safe_run (E, cm, hon, B, ss, y)"
    and "inj_on (NewDigest E) (run_bufs (n_hist y) \<union> (\<Union>b\<in>B. block_bufs b))"
    and "inj_on (Block_Digest E) (insert GenesisBlock B)"
    and "hon j" "hon k" "ECommit x \<in> set (c_out (n_core y j))" "ECommit z \<in> set (c_out (n_core y k))"
  shows "lineage E (block_known E cm hon B (hist_pairs E (n_hist y))) x z
    \<or> lineage E (block_known E cm hon B (hist_pairs E (n_hist y))) z x"
proof -
  let ?K = "block_known E cm hon B (hist_pairs E (n_hist y))"
  have head: "\<exists>b0. two_chain_head E ?K b0 \<and> lineage E ?K u b0"
    if "hon i" "ECommit u \<in> set (c_out (n_core y i))" for i u
    using that safe_run_inv(1) [OF assms(1)] by (auto simp: net_inv_def node_inv_def commits_ok_def)
  obtain b where b: "two_chain_head E ?K b" "lineage E ?K x b" using head [OF assms(4,6)] by blast
  obtain c where c: "two_chain_head E ?K c" "lineage E ?K z c" using head [OF assms(5,7)] by blast
  have compare: "lineage E ?K u v \<or> lineage E ?K v u" if "lineage E ?K u w" "lineage E ?K v w" for u v w
    using that by (rule lineage_comparable) (rule parent_unique [OF assms(3)])
  consider "block_rnd b \<le> block_rnd c" | "block_rnd c \<le> block_rnd b" by linarith
  then show ?thesis
  proof cases
    case 1
    then have "lineage E ?K x c"
      using heads_comparable [OF assms(1-3) b(1) c(1)] lineage_trans b(2) by blast
    then show ?thesis using compare c(2) by metis
  next
    case 2
    then have "lineage E ?K z b"
      using heads_comparable [OF assms(1-3) c(1) b(1)] lineage_trans c(2) by blast
    then show ?thesis using compare b(2) by metis
  qed
qed

end
