(* ===== verification/DemoRun.thy ===== *)
theory DemoRun
  imports Demo Safety
begin

text \<open>
  A run to evaluate the theorems on: the committee of one authority in the demonstration
  environment. The node proposes, votes for and certifies one block in each round; its third
  block commits the first.
\<close>

definition solo_ss :: SignatureService where
  "solo_ss = NewSignatureService (demo_sk 1)"

definition solo_block :: "QC \<Rightarrow> Round \<Rightarrow> Block" where
  "solo_block qc r = NewBlock demo_env qc None (demo_name 1) r [] solo_ss"

definition solo_vote :: "Block \<Rightarrow> vote" where
  "solo_vote b = NewVote demo_env b (demo_name 1) solo_ss"

definition solo_qc :: "Block \<Rightarrow> QC" where
  "solo_qc b = \<lparr>qc_Hash = Block_Digest demo_env b, qc_Round = blk_Round b,
     qc_Voters = [demo_name 1], qc_Signature = v_signature (solo_vote b)\<rparr>"

lemma solo_block_fields [simp]:
  "blk_Qc (solo_block qc r) = qc" "blk_Tc (solo_block qc r) = None"
  "blk_Author (solo_block qc r) = demo_name 1" "blk_Round (solo_block qc r) = r"
  "blk_Payload (solo_block qc r) = []"
  by (simp_all add: solo_block_def)

lemma solo_vote_fields [simp]:
  "v_author (solo_vote b) = demo_name 1" "v_hash (solo_vote b) = Block_Digest demo_env b"
  "v_round (solo_vote b) = blk_Round b"
  by (simp_all add: solo_vote_def)

lemma solo_vote_signature:
  "v_signature (solo_vote b) =
     demo_sig (digest_bytes (vote_Digest demo_env (solo_vote b))) (pk_bytes (demo_name 1))"
  by (simp add: solo_vote_def NewVote_def Let_def RequestSignature_def solo_ss_def
      NewSignatureService_def demo_name_def vote_Digest_def)

lemma solo_vote_verify: "vote_verify demo_env solo_committee (solo_vote b) = None"
  by (simp add: vote_verify_None_iff solo_stake solo_vote_signature)

lemma solo_leader: "unat r < 2 ^ 63 \<Longrightarrow> getLeader solo_committee r = Inr (demo_name 1)"
  by (simp add: getLeader_small leader_defined_def solo_members)

lemma solo_addresses: "BroadcastAddresses solo_committee (demo_name 1) = ([], [])"
  by (simp add: BroadcastAddresses_def solo_entries)

lemma solo_append:
  "qcMaker_append demo_env solo_committee (NewQcMaker demo_env) (solo_vote b) =
     (\<lparr>qm_weight = 0, qm_voters = [demo_name 1], qm_used = {demo_name 1},
       qm_aggregateSig = Some (v_signature (solo_vote b))\<rparr>, Inr (Some (solo_qc b)))"
  by (simp add: qcMaker_append_def NewQcMaker_def solo_stake solo_threshold solo_qc_def)

text \<open>The vote of the sole authority completes a certificate and starts the next round.\<close>

lemma solo_AddVote:
  assumes "ag_committee a = solo_committee" "ag_voteAggregators a (blk_Round b) = None"
  shows "\<exists>a'. AddVote demo_env a (solo_vote b) = (a', Inr (Some (solo_qc b)))
    \<and> ag_committee a' = solo_committee
    \<and> (\<forall>r. r \<noteq> blk_Round b \<longrightarrow> ag_voteAggregators a' r = ag_voteAggregators a r)"
  using assms by (simp add: AddVote_def solo_append)

definition solo_core ::
  "Round \<Rightarrow> (Signature option, demo_db) core \<Rightarrow> bool" where
  "solo_core r c \<longleftrightarrow> c_name c = demo_name 1 \<and> c_committee c = solo_committee
     \<and> c_signatureService c = solo_ss \<and> c_round c = r \<and> c_lastVotedRound c < r
     \<and> qc_Round (c_highQC c) < r \<and> ag_committee (c_aggregator c) = solo_committee
     \<and> (\<forall>s\<ge>r. ag_voteAggregators (c_aggregator c) s = None) \<and> store_ok demo_env (c_store c)"

lemma solo_votes:
  assumes "solo_core r c" "unat r < 2 ^ 62" "blk_Round b = r" "safetyRule2 b = Inr True"
  shows "\<exists>c'. vote_for_block demo_env c b = (c', Ret None) \<and> solo_core (r + 1) c'
    \<and> c_highQC c' = solo_qc b \<and> c_store c' = c_store c
    \<and> c_lastCommittedRound c' = c_lastCommittedRound c
    \<and> c_out c' = c_out c @ [ESign (SVote b (solo_vote b)), ETimerReset,
        EProposer (proposerMakeMessage (r + 1) (solo_qc b) None)]"
proof -
  note c = assms(1) [unfolded solo_core_def]
  have succ: "unat (r + 1) = unat r + 1" using assms(2) by (simp add: unat_word_ariths)
  then have less: "r < r + 1" by (simp add: word_less_nat_alt)
  define c1 where "c1 = emit [ESign (SVote b (solo_vote b))] (c\<lparr>c_lastVotedRound := blk_Round b\<rparr>)"
  have mv: "make_vote demo_env c b = (c1, Inr (Some (solo_vote b)))"
    using c assms(3,4) by (simp add: make_vote_Some_iff c1_def solo_vote_def)
  obtain a where a: "AddVote demo_env (c_aggregator c) (solo_vote b) = (a, Inr (Some (solo_qc b)))"
      "ag_committee a = solo_committee"
      "\<forall>s. s \<noteq> r \<longrightarrow> ag_voteAggregators a s = ag_voteAggregators (c_aggregator c) s"
    using solo_AddVote [of "c_aggregator c" b] c assms(3) by auto
  define c2 where "c2 = processQC (c1\<lparr>c_aggregator := a\<rparr>) (solo_qc b)"
  have qc: "qc_Round (solo_qc b) = r" using assms(3) by (simp add: solo_qc_def)
  have c2: "c_round c2 = r + 1" "c_highQC c2 = solo_qc b" "c_lastVotedRound c2 = r"
      "c_aggregator c2 = aggregator_cleanup a (r + 1)" "c_out c2 = c_out c1 @ [ETimerReset]"
      "c_name c2 = demo_name 1" "c_committee c2 = solo_committee" "c_signatureService c2 = solo_ss"
      "c_store c2 = c_store c" "c_lastCommittedRound c2 = c_lastCommittedRound c"
    using c qc assms(3)
    by (simp_all add: c2_def c1_def processQC_def core_frames updateHighQc_highQC
        advanceRound_round advanceRound_out advanceRound_aggregator)
  have lead: "getLeader solo_committee (r + 1) = Inr (demo_name 1)"
    using succ assms(2) by (intro solo_leader) simp
  have hv: "handleVote demo_env c1 (solo_vote b) = (generateProposal c2 None, Ret None)"
  proof -
    have "c_round c1 = r" "c_committee c1 = solo_committee" "c_aggregator c1 = c_aggregator c"
      using c by (simp_all add: c1_def)
    then show ?thesis
      using assms(3) a(1) c2(1,6,7) lead
      by (simp add: handleVote_def Let_def solo_vote_verify c2_def [symmetric])
  qed
  have vb: "vote_for_block demo_env c b = (generateProposal c2 None, Ret None)"
    using c mv hv lead by (simp add: vote_for_block_def c1_def)
  have "ag_voteAggregators (aggregator_cleanup a (r + 1)) s = None" if "r + 1 \<le> s" for s
    using a(3) c that less by (auto simp: aggregator_cleanup_def)
  then have "solo_core (r + 1) (generateProposal c2 None)"
    using c c2 less qc a(2) by (auto simp: solo_core_def generateProposal_def)
  then show ?thesis
    using vb c2 by (simp add: generateProposal_def c1_def)
qed

subsection \<open>One round\<close>

lemma solo_process:
  assumes "solo_core r c" "unat r < 2 ^ 62" "blk_Round b = r" "safetyRule2 b = Inr True"
    and anc: "getAncestors demo_env (c_store c) b = (Ok (b0, b1), [])"
    and next_round: "blk_Round b0 + 1 = blk_Round b1 \<Longrightarrow> \<not> c_lastCommittedRound c + 1 < blk_Round b0"
  shows "\<exists>c' es. core_step demo_env c (RxLoopback b) = (c', Ret None) \<and> solo_core (r + 1) c'
    \<and> c_highQC c' = solo_qc b \<and> c_out c' = c_out c @ es
    \<and> c_store c' = Store_Write demo_env (c_store c) (digest_bytes (Block_Digest demo_env b))
        (put_block (Block_toProto b))
    \<and> signed_of es = [SVote b (solo_vote b)]
    \<and> EProposer (proposerMakeMessage (r + 1) (solo_qc b) None) \<in> set es
    \<and> (\<exists>cl. es = EProposer (proposerCleanupMessage (blk_Payload b0 @ blk_Payload b1 @ blk_Payload b)) # cl
          @ (if blk_Round b0 + 1 = blk_Round b1 \<and> c_lastCommittedRound c < blk_Round b0 then [ECommit b0] else [])
          @ [ESign (SVote b (solo_vote b)), ETimerReset,
              EProposer (proposerMakeMessage (r + 1) (solo_qc b) None)]
          \<and> (\<forall>e\<in>set cl. (\<exists>m. e = EMempool m) \<or> (\<exists>m. e = EPayloadWaiter m)))
    \<and> (blk_Round b0 + 1 = blk_Round b1 \<and> c_lastCommittedRound c < blk_Round b0 \<longrightarrow>
         ECommit b0 \<in> set es \<and> c_lastCommittedRound c' = blk_Round b0)
    \<and> (\<not> (blk_Round b0 + 1 = blk_Round b1 \<and> c_lastCommittedRound c < blk_Round b0) \<longrightarrow>
         c_lastCommittedRound c' = c_lastCommittedRound c)"
proof -
  let ?s = "Store_Write demo_env (c_store c) (digest_bytes (Block_Digest demo_env b))
      (put_block (Block_toProto b))"
  define c1 where "c1 = cleanupProposer (storeBlock demo_env c b) b0 b1 b"
  have st: "c_store c1 = ?s" by (simp add: c1_def cleanupProposer_def storeBlock_def)
  have other: "c_name c1 = c_name c" "c_committee c1 = c_committee c" "c_round c1 = c_round c"
      "c_signatureService c1 = c_signatureService c" "c_lastVotedRound c1 = c_lastVotedRound c"
      "c_highQC c1 = c_highQC c" "c_aggregator c1 = c_aggregator c"
      "c_lastCommittedRound c1 = c_lastCommittedRound c"
      "c_out c1 = c_out c @ [EProposer (proposerCleanupMessage
         (blk_Payload b0 @ blk_Payload b1 @ blk_Payload b))]"
    by (simp_all add: c1_def cleanupProposer_def core_frames)
  have core1: "solo_core r c1"
    using assms(1) st other by (simp add: solo_core_def st.put_usable)
  define cl where "cl = map EMempool (fst (driver_cleanup (blk_Round b0)))
      @ map EPayloadWaiter (snd (driver_cleanup (blk_Round b0)))"
  have cl: "signed_of cl = []" by (simp add: cl_def driver_cleanup_def)
  define go where "go \<longleftrightarrow> blk_Round b0 + 1 = blk_Round b1 \<and> c_lastCommittedRound c < blk_Round b0"
  define pre where "pre = (if blk_Round b0 + 1 = blk_Round b1 then cl else [])
      @ (if go then [ECommit b0] else [])"
  define c2 where "c2 = emit pre
      (if go then c1\<lparr>c_lastCommittedRound := blk_Round b0\<rparr> else c1)"
  have core2: "solo_core r c2" using core1 by (auto simp: c2_def solo_core_def)
  have step: "processBlock demo_env c b = vote_for_block demo_env c2 b"
  proof (cases "blk_Round b0 + 1 = blk_Round b1")
    case False
    then show ?thesis
      using anc by (simp add: processBlock_def Let_def c1_def [symmetric] c2_def pre_def go_def
          case_prod_unfold)
  next
    case True
    have "commit demo_env (emit cl c1) b0 = (c2, Ret None)"
      using True next_round [OF True] other(8)
      by (auto simp: commit_def go_def c2_def pre_def emit_def Let_def commit_loop_stop)
    then show ?thesis
      using anc True
      by (simp add: processBlock_def Let_def c1_def [symmetric] cl_def case_prod_unfold)
  qed
  from solo_votes [OF core2 assms(2-4)] obtain c' where c':
      "vote_for_block demo_env c2 b = (c', Ret None)" "solo_core (r + 1) c'"
      "c_highQC c' = solo_qc b" "c_store c' = c_store c2"
      "c_lastCommittedRound c' = c_lastCommittedRound c2"
      "c_out c' = c_out c2 @ [ESign (SVote b (solo_vote b)), ETimerReset,
         EProposer (proposerMakeMessage (r + 1) (solo_qc b) None)]" by blast
  define es where "es = [EProposer (proposerCleanupMessage
      (blk_Payload b0 @ blk_Payload b1 @ blk_Payload b))] @ pre @
      [ESign (SVote b (solo_vote b)), ETimerReset,
         EProposer (proposerMakeMessage (r + 1) (solo_qc b) None)]"
  have "c_out c' = c_out c @ es" using c'(6) other(9) by (simp add: c2_def es_def)
  moreover have "signed_of es = [SVote b (solo_vote b)]" using cl by (simp add: es_def pre_def)
  moreover have "c_store c' = ?s" using c'(4) st by (simp add: c2_def)
  moreover have "\<exists>cl. es = EProposer (proposerCleanupMessage
        (blk_Payload b0 @ blk_Payload b1 @ blk_Payload b)) # cl
      @ (if go then [ECommit b0] else []) @ [ESign (SVote b (solo_vote b)), ETimerReset,
          EProposer (proposerMakeMessage (r + 1) (solo_qc b) None)]
      \<and> (\<forall>e\<in>set cl. (\<exists>m. e = EMempool m) \<or> (\<exists>m. e = EPayloadWaiter m))"
    unfolding es_def pre_def
    by (rule exI [of _ "if blk_Round b0 + 1 = blk_Round b1 then cl else []"])
      (auto simp: cl_def driver_cleanup_def)
  moreover have "go \<Longrightarrow> ECommit b0 \<in> set es" by (simp add: es_def pre_def)
  moreover have "c_lastCommittedRound c' = (if go then blk_Round b0 else c_lastCommittedRound c)"
    using c'(5) other(8) by (simp add: c2_def)
  ultimately show ?thesis
    using step c'(1-3) unfolding go_def [symmetric]
    by (intro exI [of _ c'] exI [of _ es]) (simp add: es_def)
qed

subsection \<open>The run\<close>

definition solo_honest :: "PublicKey \<Rightarrow> bool" where
  "solo_honest k \<longleftrightarrow> k = demo_name 1"

abbreviation "solo_reach B y \<equiv> net_reach demo_env solo_committee solo_honest B (\<lambda>_. solo_ss) y"

lemma solo_act:
  assumes "solo_reach B y" "n_core y (demo_name 1) = c" "demo_name 1 \<in> n_live y"
    and "n_hist y = map (Pair (demo_name 1)) (signed_of (c_out c))"
    and "solo_core r c" "EProposer (proposerMakeMessage r qc None) \<in> set (c_out c)"
    and "solo_block qc r \<in> B" "core_step demo_env c (RxLoopback (solo_block qc r)) = (c', Ret None)"
    and "c_out c' = c_out c @ es"
  shows "\<exists>y'. solo_reach B y' \<and> n_core y' (demo_name 1) = c' \<and> demo_name 1 \<in> n_live y'
    \<and> n_hist y' = map (Pair (demo_name 1)) (signed_of (c_out c'))"
proof -
  have "loopback_from demo_env c (solo_block qc r)"
  proof -
    have "solo_block qc r = NewBlock demo_env qc None (c_name c) r [] (c_signatureService c)"
      using assms(5) by (simp add: solo_block_def solo_core_def)
    then show ?thesis unfolding loopback_from_def using assms(6) by blast
  qed
  moreover define y' where "y' = \<lparr>n_core = (n_core y)(demo_name 1 := c'),
      n_live = (case Ret None of Ret _ \<Rightarrow> n_live y | _ \<Rightarrow> n_live y - {demo_name 1}),
      n_hist = n_hist y @ map (Pair (demo_name 1)) (signed_of es)\<rparr>"
  ultimately have "net_step demo_env solo_honest B y y'"
    unfolding y'_def
    using assms
    by (intro net_step.act [where ev = "RxLoopback (solo_block qc r)", OF _ _ _ _ _ refl])
      (auto simp: solo_honest_def)
  from net_reach.net_next [OF assms(1) this] show ?thesis
    by (intro exI [of _ y'] conjI) (simp_all add: y'_def assms(3,4,9))
qed

definition blk1 :: Block where "blk1 = solo_block GenesisQC 1"
definition blk2 :: Block where "blk2 = solo_block (solo_qc blk1) 2"
definition blk3 :: Block where "blk3 = solo_block (solo_qc blk2) 3"

lemma blk_fields [simp]:
  "blk_Round blk1 = 1" "blk_Round blk2 = 2" "blk_Round blk3 = 3"
  "blk_Qc blk1 = GenesisQC" "blk_Qc blk2 = solo_qc blk1" "blk_Qc blk3 = solo_qc blk2"
  "blk_Tc blk1 = None" "blk_Tc blk2 = None" "blk_Tc blk3 = None"
  by (simp_all add: blk1_def blk2_def blk3_def)

lemma solo_qc_fields [simp]:
  "qc_Hash (solo_qc b) = Block_Digest demo_env b" "qc_Round (solo_qc b) = blk_Round b"
  "qc_Voters (solo_qc b) = [demo_name 1]"
  by (simp_all add: solo_qc_def)

text \<open>The demonstration hash keeps the last 32 bytes, so the round at the end of a vote.\<close>

lemma demo_digest_round:
  assumes "NewDigest demo_lib (xs @ be64 r) = NewDigest demo_lib (ys @ be64 s)"
    and "length xs = n" "length ys = n"
  shows "r = s"
proof -
  have "take 8 (digest_bytes (NewDigest demo_lib (xs @ be64 r))) = rev (be64 r)" for xs r
    by (simp add: demo_NewDigest digest_bytes_copy go_copy_def)
  then have "rev (be64 r) = rev (be64 s)" using assms(1) by metis
  then show ?thesis by simp
qed

lemma demo_block_digest:
  "blk_Author b = demo_name 1 \<Longrightarrow> blk_Payload b = [] \<Longrightarrow> blk_Author c = demo_name 1 \<Longrightarrow>
    blk_Payload c = [] \<Longrightarrow> Block_Digest demo_env b = Block_Digest demo_env c \<longleftrightarrow> blk_Round b = blk_Round c"
  by (auto simp: Block_Digest_def Block_buf_def dest: demo_digest_round)

lemma demo_qc_digest:
  "NewDigest demo_env (qc_buf p) = NewDigest demo_env (qc_buf q) \<Longrightarrow> qc_Round p = qc_Round q"
  by (auto simp: qc_buf_def dest: demo_digest_round)

lemma solo_qc_nongenesis: "blk_Round b \<noteq> 0 \<Longrightarrow> \<not> IsGenesisQC (solo_qc b)"
  by (simp add: IsGenesisQC_def)

lemma blk_digests:
  "Block_Digest demo_env blk1 \<noteq> Block_Digest demo_env blk2"
  "Block_Digest demo_env blk2 \<noteq> Block_Digest demo_env blk1"
  by (simp_all add: demo_block_digest blk1_def blk2_def)

definition solo_start :: "(Signature option, demo_db) core" where
  "solo_start = fst (core_start (demo_name 1) solo_committee solo_ss (NewStore Map.empty))"

lemma solo_started:
  "core_start (demo_name 1) solo_committee solo_ss (NewStore Map.empty) = (solo_start, Ret None)"
  "solo_core 1 solo_start" "c_out solo_start = [ETimerReset,
     EProposer (proposerMakeMessage 1 GenesisQC None)]" "c_lastCommittedRound solo_start = 0"
  "c_store solo_start = NewStore Map.empty"
  using solo_leader [of 1]
  by (simp_all add: solo_start_def core_start_def NewCore_def Let_def generateProposal_def
      solo_core_def NewAggregator_def GenesisQC_def)

lemma solo_reach_start: "solo_reach B (net_start solo_committee (\<lambda>_. solo_ss) (\<lambda>_. NewStore Map.empty))"
proof (rule net_reach.net_init)
  have "Store_Read demo_env (NewStore Map.empty) k = Inl ValueNotFound" for k
    by (simp add: Store_Read_eq NewStore_def demo_env_def)
  then show "fresh_store demo_env (NewStore Map.empty)" by (simp add: fresh_store_def)
qed

text \<open>Reading back what the node stored.\<close>

lemma solo_read:
  assumes "store_ok demo_env s" "Parent b = Block_Digest demo_env p" "\<not> IsGenesisQC (blk_Qc b)"
    and "Store_Read demo_env s (digest_bytes (Block_Digest demo_env p)) = Inr (put_block (Block_toProto p))"
  shows "getParentBlock demo_env s b = (Ok p, [])"
  using assms by (simp add: getParentBlock_cases)

lemma solo_run3:
  "\<exists>c es1 es2 es3. c_out c = c_out solo_start @ es1 @ es2 @ es3 \<and> c_highQC c = solo_qc blk3
     \<and> ECommit blk1 \<in> set (c_out c) \<and> signed_of (c_out c) = [SVote blk1 (solo_vote blk1),
          SVote blk2 (solo_vote blk2), SVote blk3 (solo_vote blk3)]
     \<and> (\<exists>y. solo_reach {blk1, blk2, blk3} y \<and> n_core y (demo_name 1) = c
          \<and> demo_name 1 \<in> n_live y
          \<and> n_hist y = map (Pair (demo_name 1)) (signed_of (c_out c)))"
proof -
  let ?B = "{blk1, blk2, blk3}" and ?k = "demo_name 1"
  let ?y0 = "net_start solo_committee (\<lambda>_. solo_ss) (\<lambda>_. NewStore Map.empty) :: (Signature option, demo_db) net"
  let ?key = "\<lambda>b. digest_bytes (Block_Digest demo_env b)"
  note s = solo_started
  have y0: "n_core ?y0 ?k = solo_start" "?k \<in> n_live ?y0" "n_hist ?y0 = map (Pair ?k) (signed_of (c_out solo_start))"
    using s(3) by (simp_all add: net_start_def s(1))
  have gen: "getParentBlock demo_env st b = (Ok GenesisBlock, [])" if "blk_Qc b = GenesisQC" for st b
    using that by (simp add: getParentBlock_cases IsGenesisQC_iff)
  have genb: "blk_Qc GenesisBlock = GenesisQC" "blk_Round GenesisBlock = 0"
    by (simp_all add: GenesisBlock_def)
  have anc1: "getAncestors demo_env (c_store solo_start) blk1 = (Ok (GenesisBlock, GenesisBlock), [])"
    by (simp add: getAncestors_Ok_iff gen genb)
  have rule1: "safetyRule2 blk1 = Inr True" by (simp add: safetyRule2_True_iff GenesisQC_def)
  obtain c1 es1 where c1: "core_step demo_env solo_start (RxLoopback blk1) = (c1, Ret None)"
      "solo_core 2 c1" "c_out c1 = c_out solo_start @ es1"
      "c_store c1 = Store_Write demo_env (NewStore Map.empty) (?key blk1) (put_block (Block_toProto blk1))"
      "signed_of es1 = [SVote blk1 (solo_vote blk1)]" "c_lastCommittedRound c1 = 0"
      "EProposer (proposerMakeMessage 2 (solo_qc blk1) None) \<in> set es1"
    using solo_process [OF s(2) _ _ rule1 anc1] s(4,5) genb by auto
  obtain y1 where y1: "solo_reach ?B y1" "n_core y1 ?k = c1" "?k \<in> n_live y1"
      "n_hist y1 = map (Pair ?k) (signed_of (c_out c1))"
    using solo_act [OF solo_reach_start [of ?B] y0 s(2) _ _ c1(1) [unfolded blk1_def] c1(3)] s(3)
    by (auto simp: blk1_def)
  have st1: "store_ok demo_env (NewStore Map.empty :: demo_db store)" by simp
  have read1: "Store_Read demo_env (c_store c1) (?key blk1) = Inr (put_block (Block_toProto blk1))"
    by (simp add: c1(4) st.get_put)
  have par2: "getParentBlock demo_env (c_store c1) blk2 = (Ok blk1, [])"
    using c1(2) read1 by (intro solo_read) (auto simp: solo_core_def Parent_def solo_qc_nongenesis)
  have anc2: "getAncestors demo_env (c_store c1) blk2 = (Ok (GenesisBlock, blk1), [])"
    by (simp add: getAncestors_Ok_iff gen par2)
  have rule2: "safetyRule2 blk2 = Inr True" by (simp add: safetyRule2_True_iff)
  obtain c2 es2 where c2: "core_step demo_env c1 (RxLoopback blk2) = (c2, Ret None)"
      "solo_core 3 c2" "c_out c2 = c_out c1 @ es2"
      "c_store c2 = Store_Write demo_env (c_store c1) (?key blk2) (put_block (Block_toProto blk2))"
      "signed_of es2 = [SVote blk2 (solo_vote blk2)]" "c_lastCommittedRound c2 = 0"
      "EProposer (proposerMakeMessage 3 (solo_qc blk2) None) \<in> set es2"
    using solo_process [OF c1(2) _ _ rule2 anc2] c1(6) genb by auto
  obtain y2 where y2: "solo_reach ?B y2" "n_core y2 ?k = c2" "?k \<in> n_live y2"
      "n_hist y2 = map (Pair ?k) (signed_of (c_out c2))"
    using solo_act [OF y1 c1(2) _ _ c2(1) [unfolded blk2_def] c2(3)] c1(3,7)
    by (auto simp: blk2_def)
  have ok1: "store_ok demo_env (c_store c1)" using c1(2) by (simp add: solo_core_def)
  have read2: "Store_Read demo_env (c_store c2) (?key blk1) = Inr (put_block (Block_toProto blk1))"
      "Store_Read demo_env (c_store c2) (?key blk2) = Inr (put_block (Block_toProto blk2))"
    using read1 blk_digests by (simp_all add: c2(4) st.get_put_if ok1)
  have "getParentBlock demo_env (c_store c2) blk3 = (Ok blk2, [])"
      "getParentBlock demo_env (c_store c2) blk2 = (Ok blk1, [])"
    using c2(2) read2 by (auto intro!: solo_read simp: solo_core_def Parent_def solo_qc_nongenesis)
  then have anc3: "getAncestors demo_env (c_store c2) blk3 = (Ok (blk1, blk2), [])"
    by (simp add: getAncestors_Ok_iff)
  have rule3: "safetyRule2 blk3 = Inr True" by (simp add: safetyRule2_True_iff)
  obtain c3 es3 where c3: "core_step demo_env c2 (RxLoopback blk3) = (c3, Ret None)"
      "c_highQC c3 = solo_qc blk3" "c_out c3 = c_out c2 @ es3" "ECommit blk1 \<in> set es3"
      "signed_of es3 = [SVote blk3 (solo_vote blk3)]"
    using solo_process [OF c2(2) _ _ rule3 anc3] c2(6) by auto
  obtain y3 where y3: "solo_reach ?B y3" "n_core y3 ?k = c3" "?k \<in> n_live y3"
      "n_hist y3 = map (Pair ?k) (signed_of (c_out c3))"
    using solo_act [OF y2 c2(2) _ _ c3(1) [unfolded blk3_def] c3(3)] c2(3,7)
    by (auto simp: blk3_def)
  show ?thesis
    by (rule exI [of _ c3], rule exI [of _ es1], rule exI [of _ es2], rule exI [of _ es3])
      (use y3 c3 c2(3,5) c1(3,5) s(3) in auto)
qed

subsection \<open>The hypotheses of the safety theorems hold for it\<close>

definition solo_votes_hist :: "(PublicKey \<times> signed) list" where
  "solo_votes_hist = map (Pair (demo_name 1)) [SVote blk1 (solo_vote blk1),
     SVote blk2 (solo_vote blk2), SVote blk3 (solo_vote blk3)]"

lemma solo_run:
  obtains y where "solo_reach {blk1, blk2, blk3} y" "n_hist y = solo_votes_hist"
    "demo_name 1 \<in> n_live y" "c_highQC (n_core y (demo_name 1)) = solo_qc blk3"
    "ECommit blk1 \<in> set (c_out (n_core y (demo_name 1)))"
  using solo_run3 by (auto simp: solo_votes_hist_def)

lemma solo_env_ok: "env_ok demo_env solo_committee"
  by (simp add: env_ok_def demo_proto_ok demo_env_bls_ok)

lemma solo_no_faults: "3 * faulty_stake solo_committee solo_honest \<le> total_stake solo_committee"
proof -
  have "{k \<in> cm_members solo_committee. \<not> solo_honest k} = {}"
    by (auto simp: solo_members solo_honest_def)
  then have "faulty_stake solo_committee solo_honest = 0" unfolding faulty_stake_def by (simp only: sum.empty)
  then show ?thesis by simp
qed

lemma solo_bufs:
  "run_bufs solo_votes_hist \<union> (\<Union>b\<in>{blk1, blk2, blk3}. block_bufs b) =
     qc_buf ` {GenesisQC, solo_qc blk1, solo_qc blk2, solo_qc blk3}"
  "run_bufs solo_votes_hist = qc_buf ` {GenesisQC, solo_qc blk1, solo_qc blk2, solo_qc blk3}"
  by (auto simp: run_bufs_def solo_votes_hist_def block_bufs_def qc_buf_def)

lemma solo_inj: "inj_on (NewDigest demo_env) (qc_buf ` {GenesisQC, solo_qc blk1, solo_qc blk2, solo_qc blk3})"
proof (rule inj_onI)
  fix x y
  assume "x \<in> qc_buf ` {GenesisQC, solo_qc blk1, solo_qc blk2, solo_qc blk3}"
    "y \<in> qc_buf ` {GenesisQC, solo_qc blk1, solo_qc blk2, solo_qc blk3}"
    "NewDigest demo_env x = NewDigest demo_env y"
  moreover have "qc_Round GenesisQC = 0" by (simp add: GenesisQC_def)
  ultimately show "x = y" by (auto dest!: demo_qc_digest simp del: demo_env_crypto)
qed

lemma solo_blocks_inj: "inj_on (Block_Digest demo_env) (insert GenesisBlock {blk1, blk2, blk3})"
proof (rule inj_onI)
  fix x y
  assume xy: "x \<in> insert GenesisBlock {blk1, blk2, blk3}" "y \<in> insert GenesisBlock {blk1, blk2, blk3}"
    and eq: "Block_Digest demo_env x = Block_Digest demo_env y"
  have "Block_buf b = pk_bytes (blk_Author b) @ be64 (blk_Round b)"
    if "b \<in> insert GenesisBlock {blk1, blk2, blk3}" for b
    using that by (auto simp: Block_buf_def GenesisBlock_def blk1_def blk2_def blk3_def)
  from this [OF xy(1)] this [OF xy(2)] eq
  have "NewDigest demo_lib (pk_bytes (blk_Author x) @ be64 (blk_Round x))
      = NewDigest demo_lib (pk_bytes (blk_Author y) @ be64 (blk_Round y))"
    by (simp add: Block_Digest_def)
  then have "blk_Round x = blk_Round y" by (rule demo_digest_round [where n = 48]) simp_all
  moreover have "blk_Round GenesisBlock = 0" by (simp add: GenesisBlock_def)
  ultimately show "x = y" using xy by auto
qed

lemma solo_qc_known:
  "b \<in> {blk1, blk2, blk3} \<Longrightarrow>
     qc_known demo_env solo_committee solo_honest (hist_pairs demo_env solo_votes_hist) (solo_qc b)"
proof -
  assume b: "b \<in> {blk1, blk2, blk3}"
  have "quorum_of solo_committee [demo_name 1]"
    by (simp add: quorum_of_def solo_stake solo_threshold voters_weight_def)
  moreover have d: "QC_Digest demo_env (solo_qc b) = vote_Digest demo_env (solo_vote b)"
    by (simp add: QC_Digest_def vote_Digest_def)
  moreover have "qc_Signature (solo_qc b) = v_signature (solo_vote b)" by (simp add: solo_qc_def)
  ultimately have "QC_Verify demo_env solo_committee (solo_qc b) = None"
    by (simp add: QC_Verify_None_iff solo_vote_signature)
  moreover have "(demo_name 1, vote_Digest demo_env (solo_vote b)) \<in> hist_pairs demo_env solo_votes_hist"
    using b by (auto simp: hist_pairs_def solo_votes_hist_def)
  ultimately show ?thesis using d by (simp add: qc_known_def)
qed

end
