(* ===== verification/ComponentProps.thy ===== *)
theory ComponentProps
  imports DemoRun
begin

text \<open>
  What each component of consensus promises, with its limits: the committee, the certificates, the
  wire format, the aggregator, the leader elector, the store, the synchronizer and the mempool
  driver. The witnesses run on the one-authority committee and the environment of \<open>Demo\<close>.
\<close>

subsection \<open>Committee\<close>

text \<open>
  C24: Quorum intersection. If no stake arithmetic wraps, two sets of authorities that each reach the
  quorum threshold have an authority in common outside any set \<open>F\<close> of at most a third of the stake.
\<close>

theorem quorum_intersection:
  assumes "stake_fits c" "finite A" "finite B" "finite F"
    and "unat (QuorumThreshold c) \<le> (\<Sum>k\<in>A. unat (Committee_Stake c k))"
    and "unat (QuorumThreshold c) \<le> (\<Sum>k\<in>B. unat (Committee_Stake c k))"
    and "3 * (\<Sum>k\<in>F. unat (Committee_Stake c k)) \<le> (\<Sum>k\<in>cm_members c. unat (Committee_Stake c k))"
  shows "\<exists>k. k \<in> A \<and> k \<in> B \<and> k \<notin> F \<and> k \<in> cm_members c"
  by (rule cq.quorums_share_honest [OF assms])

theorem quorum_intersection_witness:
  "\<exists>k. k \<in> {demo_name 1} \<and> k \<in> {demo_name 1, demo_name 2} \<and> k \<notin> {demo_name 2}
     \<and> k \<in> cm_members solo_committee"
  by (rule quorum_intersection) (simp_all add: solo_stake solo_threshold solo_members)

definition wrapping_committee :: Committee where
  "wrapping_committee = NewCommittee
     [\<lparr>ai_Author = demo_name 1, ai_Stake = 2 ^ 30, ai_Address = ''a''\<rparr>,
      \<lparr>ai_Author = demo_name 2, ai_Stake = 2 ^ 30, ai_Address = ''b''\<rparr>] 0"

lemma wrapping_entries:
  "cm_entries wrapping_committee = [(demo_name 1, \<lparr>au_Stake = 2 ^ 30, au_Address = ''a''\<rparr>),
     (demo_name 2, \<lparr>au_Stake = 2 ^ 30, au_Address = ''b''\<rparr>)]"
  by (simp add: wrapping_committee_def NewCommittee_def impl_of_update DAList.empty.rep_eq)

text \<open>
  C27: Where the arithmetic does wrap the threshold is worthless: \<open>2 * totalStake\<close> is computed in
  32 bits, so two authorities with \<open>2^30\<close> units each give a threshold of one unit, and each of them
  alone is a quorum although the two sets are disjoint.
\<close>

theorem threshold_wraps:
  "QuorumThreshold wrapping_committee = 1 \<and> total_stake wrapping_committee = 2 ^ 31
     \<and> quorum_of wrapping_committee [demo_name 1] \<and> quorum_of wrapping_committee [demo_name 2]"
proof -
  have thr: "QuorumThreshold wrapping_committee = 1"
    by (simp add: QuorumThreshold_def wrapping_entries)
  have stake: "Committee_Stake wrapping_committee (demo_name 1) = 2 ^ 30"
      "Committee_Stake wrapping_committee (demo_name 2) = 2 ^ 30"
    by (simp_all add: Committee_Stake_def lookup_impl_of wrapping_entries)
  show ?thesis
    using thr stake
    by (simp add: quorum_of_def voters_weight_def total_stake_def cm_members_def wrapping_entries)
qed

text \<open>
  \<open>BroadcastAddresses\<close> lists every authority but the node itself, once, each with the address
  that \<open>Address\<close> gives for it.
\<close>

theorem broadcast_reaches_all_others:
  "BroadcastAddresses c myself = (names, addresses) \<Longrightarrow>
     distinct names \<and> set names = cm_members c - {myself}
     \<and> map (\<lambda>k. (k, Committee_Address c k)) names = zip names (map (\<lambda>a. (a, True)) addresses)"
proof -
  assume b: "BroadcastAddresses c myself = (names, addresses)"
  define es where "es = filter (\<lambda>(k, _). k \<noteq> myself) (cm_entries c)"
  have na: "names = map fst es" "addresses = map (\<lambda>(_, a). au_Address a) es"
    using b by (simp_all add: BroadcastAddresses_def broadcast_loop_eq es_def)
  have "distinct (map fst es)"
    unfolding es_def by (rule distinct_map_filter) simp
  moreover have "fst ` set es = cm_members c - {myself}"
    by (auto simp: es_def cm_members_def image_iff)
  moreover have "(k, a) \<in> set es \<Longrightarrow> Committee_Address c k = (au_Address a, True)" for k a
    by (auto simp: es_def Committee_Address_def lookup_Some_iff [THEN iffD2])
  then have "map (\<lambda>k. (k, Committee_Address c k)) (map fst es)
      = zip (map fst es) (map (\<lambda>a. (a, True)) (map (\<lambda>(_, a). au_Address a) es))"
    by (intro nth_equalityI) (auto simp: case_prod_unfold nth_mem)
  ultimately show ?thesis unfolding na by simp
qed

theorem broadcast_reaches_all_others_witness:
  "distinct [demo_name 2] \<and> set [demo_name 2] = cm_members wrapping_committee - {demo_name 1}
     \<and> map (\<lambda>k. (k, Committee_Address wrapping_committee k)) [demo_name 2]
        = zip [demo_name 2] (map (\<lambda>a. (a, True)) [''b''])"
  by (rule broadcast_reaches_all_others) (simp add: BroadcastAddresses_def wrapping_entries)

subsection \<open>Certificates and blocks\<close>

text \<open>
  C25: \<open>QC.Verify\<close> accepts a certificate exactly when its voters are distinct authorities with stake
  that together reach the threshold, and its signature is their aggregate on the hash and round.
\<close>

theorem qc_verify_exact:
  assumes "stake_fits c"
  shows "QC_Verify L c qc = None \<longleftrightarrow>
    distinct (qc_Voters qc) \<and> (\<forall>v\<in>set (qc_Voters qc). Committee_Stake c v \<noteq> 0)
    \<and> unat (QuorumThreshold c) \<le> (\<Sum>v\<in>set (qc_Voters qc). unat (Committee_Stake c v))
    \<and> FastAggregateVerify L (qc_Signature qc)
        (NewDigest L (digest_bytes (qc_Hash qc) @ be64 (qc_Round qc))) (qc_Voters qc)"
  by (auto simp: QC_Verify_None_iff [OF assms] quorum_of_def voters_weight_def QC_Digest_def)

theorem qc_verify_exact_witness:
  "QC_Verify demo_env solo_committee (solo_qc blk1) = None"
proof -
  have "FastAggregateVerify demo_env (qc_Signature (solo_qc blk1))
      (NewDigest demo_env (digest_bytes (qc_Hash (solo_qc blk1)) @ be64 (qc_Round (solo_qc blk1))))
      (qc_Voters (solo_qc blk1))"
    by (simp add: solo_qc_def solo_vote_signature vote_Digest_def)
  then show ?thesis
    using qc_verify_exact [OF solo_fits, of demo_env "solo_qc blk1"]
    by (simp add: solo_stake solo_threshold)
qed

text \<open>
  \<open>Block.Verify\<close> does not bind a block to the certificate it extends: the digest that the author
  signs leaves the QC and the TC out, so in a valid block they can be exchanged for any others that
  verify, and the block stays valid, with the same digest.
\<close>

theorem block_certificates_unsigned:
  assumes "Block_Verify L c b = None" "QC_Verify L c qc = None"
    and "\<And>t. tc = Some t \<Longrightarrow> TC_Verify L c t = None"
  shows "Block_Verify L c (b\<lparr>blk_Qc := qc, blk_Tc := tc\<rparr>) = None
    \<and> Block_Digest L (b\<lparr>blk_Qc := qc, blk_Tc := tc\<rparr>) = Block_Digest L b"
proof -
  have d: "Block_Digest L (b\<lparr>blk_Qc := qc, blk_Tc := tc\<rparr>) = Block_Digest L b"
    by (simp add: Block_Digest_def Block_buf_def)
  show ?thesis using assms by (simp add: Block_Verify_None_iff d)
qed

lemma solo_block_verify:
  "IsGenesisQC qc \<or> QC_Verify demo_env solo_committee qc = None \<Longrightarrow>
     Block_Verify demo_env solo_committee (solo_block qc r) = None"
proof -
  have "blk_Signature (solo_block qc r) =
      demo_sig (digest_bytes (Block_Digest demo_env (solo_block qc r))) (pk_bytes (demo_name 1))"
    by (simp add: solo_block_def NewBlock_def Let_def RequestSignature_def solo_ss_def
        NewSignatureService_def demo_name_def Block_Digest_def Block_buf_def)
  then show "IsGenesisQC qc \<or> QC_Verify demo_env solo_committee qc = None \<Longrightarrow>
     Block_Verify demo_env solo_committee (solo_block qc r) = None"
    by (simp add: Block_Verify_None_iff solo_stake)
qed

lemma solo_qc_verify: "QC_Verify demo_env solo_committee (solo_qc b) = None"
  by (simp add: QC_Verify_None_iff quorum_of_def solo_stake solo_threshold voters_weight_def
      QC_Digest_def) (simp add: solo_qc_def solo_vote_signature vote_Digest_def)

theorem block_certificates_unsigned_witness:
  "Block_Verify demo_env solo_committee (blk3\<lparr>blk_Qc := solo_qc blk1, blk_Tc := None\<rparr>) = None
    \<and> Parent (blk3\<lparr>blk_Qc := solo_qc blk1, blk_Tc := None\<rparr>) \<noteq> Parent blk3"
proof -
  have "Block_Verify demo_env solo_committee blk3 = None"
    unfolding blk3_def by (rule solo_block_verify) (simp add: solo_qc_verify)
  from block_certificates_unsigned [OF this solo_qc_verify, of None blk1]
  show ?thesis using blk_digests by (simp add: Parent_def)
qed

lemma length_neq_eq: "length xs \<noteq> length ys \<Longrightarrow> xs \<noteq> ys"
  by auto

lemma every_hash_agrees:
  "(\<forall>S. NewDigest (L\<lparr>cl_Sum256 := S\<rparr>) x = NewDigest (L\<lparr>cl_Sum256 := S\<rparr>) y) \<longleftrightarrow> x = y"
proof
  assume all: "\<forall>S. NewDigest (L\<lparr>cl_Sum256 := S\<rparr>) x = NewDigest (L\<lparr>cl_Sum256 := S\<rparr>) y"
  have "digest_bytes (digest_copy digest_zero [1]) \<noteq> digest_bytes digest_zero"
    by (simp add: digest_bytes_copy go_copy_def eval_nat_numeral)
  then have "digest_copy digest_zero [1] \<noteq> digest_zero" by metis
  then show "x = y"
    using spec [OF all, of "\<lambda>z. if z = x then digest_copy digest_zero [1] else digest_zero"]
    by (simp add: NewDigest_def split: if_splits)
qed simp

text \<open>
  C26: What a signature covers. Short of a collision of the hash, that is, under every hash function in
  the place of SHA-256, the digests of two votes agree exactly when their block hashes and rounds do,
  those of two timeouts exactly when their rounds and the rounds of their high QCs do, and those of two
  blocks exactly when author, round and payload do; the QC and the TC of a block are not covered. The
  digest of a certificate is that of the votes for its block and round. A vote, a timeout and a block
  never have one digest, so a signature on one cannot stand for one on another.
\<close>

theorem signed_bytes_unambiguous:
  "((\<forall>S. vote_Digest (L\<lparr>cl_Sum256 := S\<rparr>) v = vote_Digest (L\<lparr>cl_Sum256 := S\<rparr>) v') \<longleftrightarrow>
        v_hash v = v_hash v' \<and> v_round v = v_round v')
   \<and> ((\<forall>S. timeout_Digest (L\<lparr>cl_Sum256 := S\<rparr>) t = timeout_Digest (L\<lparr>cl_Sum256 := S\<rparr>) t') \<longleftrightarrow>
        t_round t = t_round t' \<and> qc_Round (t_highQC t) = qc_Round (t_highQC t'))
   \<and> ((\<forall>S. Block_Digest (L\<lparr>cl_Sum256 := S\<rparr>) b = Block_Digest (L\<lparr>cl_Sum256 := S\<rparr>) b') \<longleftrightarrow>
        blk_Author b = blk_Author b' \<and> blk_Round b = blk_Round b' \<and> blk_Payload b = blk_Payload b')
   \<and> ((\<forall>S. QC_Digest (L\<lparr>cl_Sum256 := S\<rparr>) qc = vote_Digest (L\<lparr>cl_Sum256 := S\<rparr>) v) \<longleftrightarrow>
        qc_Hash qc = v_hash v \<and> qc_Round qc = v_round v)
   \<and> \<not> (\<forall>S. vote_Digest (L\<lparr>cl_Sum256 := S\<rparr>) v = timeout_Digest (L\<lparr>cl_Sum256 := S\<rparr>) t)
   \<and> \<not> (\<forall>S. Block_Digest (L\<lparr>cl_Sum256 := S\<rparr>) b = vote_Digest (L\<lparr>cl_Sum256 := S\<rparr>) v)
   \<and> \<not> (\<forall>S. Block_Digest (L\<lparr>cl_Sum256 := S\<rparr>) b = timeout_Digest (L\<lparr>cl_Sum256 := S\<rparr>) t)"
proof -
  have "digest_bytes (v_hash v) @ be64 (v_round v) \<noteq> be64 (t_round t) @ be64 (qc_Round (t_highQC t))"
    by (rule length_neq_eq) simp
  moreover have "Block_buf b \<noteq> digest_bytes (v_hash v) @ be64 (v_round v)"
    by (rule length_neq_eq) (simp add: length_Block_buf)
  moreover have "Block_buf b \<noteq> be64 (t_round t) @ be64 (qc_Round (t_highQC t))"
    by (rule length_neq_eq) (simp add: length_Block_buf)
  ultimately show ?thesis
    by (simp add: vote_Digest_def timeout_Digest_def Block_Digest_def QC_Digest_def every_hash_agrees
        Block_buf_inject append_eq_append_conv)
qed

subsection \<open>Aggregation\<close>

text \<open>
  C28: Whatever verified votes and timeouts a node has aggregated before, and whenever it has cleaned
  up, a QC that \<open>AddVote\<close> returns for a verified vote verifies under the node's committee and is for
  the vote's block and round.
\<close>

theorem vote_certificate_verifies:
  assumes "aggregator_reach L c a" "bls_ok L" "stake_fits c" "vote_verify L c v = None"
    and "AddVote L a v = (a', Inr (Some qc))"
  shows "QC_Verify L c qc = None \<and> qc_Hash qc = v_hash v \<and> qc_Round qc = v_round v"
  using AddVote_valid(3) [of L a v a' "Inr (Some qc)" qc] aggregator_reach_valid [OF assms(1-3)] assms
  by simp

theorem vote_certificate_verifies_witness:
  "QC_Verify demo_env solo_committee (solo_qc blk1) = None
     \<and> qc_Hash (solo_qc blk1) = v_hash (solo_vote blk1) \<and> qc_Round (solo_qc blk1) = v_round (solo_vote blk1)"
proof -
  have a: "ag_committee (NewAggregator solo_committee) = solo_committee"
      "ag_voteAggregators (NewAggregator solo_committee) (blk_Round blk1) = None"
    by (simp_all add: NewAggregator_def)
  obtain a' where "AddVote demo_env (NewAggregator solo_committee) (solo_vote blk1) = (a', Inr (Some (solo_qc blk1)))"
    using solo_AddVote [OF a] by blast
  then show ?thesis
    by (rule vote_certificate_verifies [OF reach_new demo_env_bls_ok solo_fits solo_vote_verify])
qed

text \<open>
  C22: The aggregator is well formed over the whole life of a node: in every maker the collected names
  are distinct, have stake, and are exactly those marked as used, so that no one is counted twice,
  and the weight never exceeds their stake; it is less once a certificate was made.
\<close>

theorem aggregator_well_formed:
  assumes "aggregator_reach L c a" "bls_ok L" "stake_fits c"
  shows "(ag_voteAggregators a r = Some rm \<and> rm d = Some m \<longrightarrow>
      distinct (qm_voters m) \<and> qm_used m = set (qm_voters m)
      \<and> (\<forall>k\<in>set (qm_voters m). Committee_Stake c k \<noteq> 0)
      \<and> unat (qm_weight m) \<le> voters_weight c (qm_voters m))
    \<and> (ag_timeoutAggregators a r = Some m' \<longrightarrow>
      distinct (tm_names m') \<and> tm_used m' = set (tm_names m')
      \<and> (\<forall>k\<in>set (tm_names m'). Committee_Stake c k \<noteq> 0)
      \<and> unat (tm_weight m') \<le> voters_weight c (tm_names m'))"
  using aggregator_reach_valid [OF assms]
  by (auto simp: aggregator_valid_def qm_valid_def qm_wf_def tm_valid_def tm_wf_def)

theorem aggregator_well_formed_witness:
  "\<exists>a rm d m. aggregator_reach demo_env solo_committee a
     \<and> ag_voteAggregators a (blk_Round blk1) = Some rm \<and> rm d = Some m
     \<and> qm_used m = set (qm_voters m)"
proof -
  let ?d = "vote_Digest demo_env (solo_vote blk1)"
  obtain a r where add: "AddVote demo_env (NewAggregator solo_committee) (solo_vote blk1) = (a, r)"
    by fastforce
  have reach: "aggregator_reach demo_env solo_committee a"
    by (rule reach_vote [OF reach_new solo_vote_verify add])
  have "\<exists>m. ag_voteAggregators a (blk_Round blk1) = Some [?d \<mapsto> m]"
    using add by (auto simp: AddVote_def Let_def NewAggregator_def split: prod.splits)
  then obtain m where m: "ag_voteAggregators a (blk_Round blk1) = Some [?d \<mapsto> m]" "[?d \<mapsto> m] ?d = Some m"
    by auto
  have "qm_used m = set (qm_voters m)"
    using aggregator_well_formed [OF reach demo_env_bls_ok solo_fits] m by blast
  then show ?thesis using reach m by blast
qed

text \<open>
  The same for timeouts: a TC that \<open>AddTimeout\<close> returns verifies, and is for the round of the
  timeout.
\<close>

theorem timeout_certificate_verifies:
  assumes "aggregator_reach L c a" "bls_ok L" "stake_fits c" "timeout_Verify L c t = None"
    and "AddTimeout L a t = (a', Inr (Some tc))"
  shows "TC_Verify L c tc = None \<and> tc_Round tc = t_round t"
  using AddTimeout_valid(3) [of L a t a' "Inr (Some tc)" tc] aggregator_reach_valid [OF assms(1-3)] assms
  by simp

definition solo_timeout :: "QC \<Rightarrow> Round \<Rightarrow> timeout" where
  "solo_timeout qc r = NewTimeout demo_env qc r (demo_name 1) solo_ss"

lemma solo_timeout_fields [simp]:
  "t_highQC (solo_timeout qc r) = qc" "t_round (solo_timeout qc r) = r"
  "t_author (solo_timeout qc r) = demo_name 1"
  by (simp_all add: solo_timeout_def)

definition solo_tc :: "QC \<Rightarrow> Round \<Rightarrow> TC" where
  "solo_tc qc r = \<lparr>tc_Round = r, tc_Votes = [\<lparr>atr_name = demo_name 1, atr_round = qc_Round qc\<rparr>],
     tc_Signature = t_signature (solo_timeout qc r)\<rparr>"

lemma solo_timeout_verify: "timeout_Verify demo_env solo_committee (solo_timeout GenesisQC r) = None"
proof -
  have "t_signature (solo_timeout GenesisQC r) = demo_sig
      (digest_bytes (timeout_Digest demo_env (solo_timeout GenesisQC r))) (pk_bytes (demo_name 1))"
    by (simp add: solo_timeout_def NewTimeout_def Let_def RequestSignature_def solo_ss_def
        NewSignatureService_def demo_name_def timeout_Digest_def)
  then show ?thesis by (simp add: timeout_Verify_None_iff solo_stake IsGenesisQC_iff GenesisQC_def)
qed

lemma solo_tcMaker:
  "tcMaker_append demo_env solo_committee (NewTcMaker demo_env) (solo_timeout qc r) =
     (\<lparr>tm_weight = 0, tm_votes = tc_Votes (solo_tc qc r), tm_used = {demo_name 1},
       tm_aggregateSig = Some (t_signature (solo_timeout qc r))\<rparr>, Inr (Some (solo_tc qc r)))"
  by (simp add: tcMaker_append_def NewTcMaker_def solo_stake solo_threshold solo_tc_def)

theorem timeout_certificate_verifies_witness:
  "TC_Verify demo_env solo_committee (solo_tc GenesisQC 4) = None \<and> tc_Round (solo_tc GenesisQC 4) = 4"
proof -
  have "AddTimeout demo_env (NewAggregator solo_committee) (solo_timeout GenesisQC 4) =
      (\<lparr>ag_committee = solo_committee, ag_voteAggregators = Map.empty,
        ag_timeoutAggregators = [4 \<mapsto> fst (tcMaker_append demo_env solo_committee
          (NewTcMaker demo_env) (solo_timeout GenesisQC 4))]\<rparr>, Inr (Some (solo_tc GenesisQC 4)))"
    by (simp add: AddTimeout_def NewAggregator_def solo_tcMaker)
  from timeout_certificate_verifies [OF reach_new demo_env_bls_ok solo_fits solo_timeout_verify this]
  show ?thesis by simp
qed

text \<open>
  Votes for one block, in any order and with any repetitions, yield at most one certificate, and
  exactly one when verified votes of authorities that reach the threshold are among them. The weight
  is reset when the certificate is made, and the stake that is left cannot reach the threshold again.
\<close>

theorem one_certificate_per_quorum:
  assumes "stake_fits c"
  shows "length (snd (collect (qcMaker_append L c) (NewQcMaker L) vs)) \<le> 1
    \<and> (bls_ok L \<longrightarrow> (\<forall>v\<in>set vs. vote_verify L c v = None)
        \<longrightarrow> unat (QuorumThreshold c) \<le> (\<Sum>k\<in>v_author ` set vs. unat (Committee_Stake c k))
        \<longrightarrow> length (snd (collect (qcMaker_append L c) (NewQcMaker L) vs)) = 1)"
proof (intro conjI impI)
  show "length (snd (collect (qcMaker_append L c) (NewQcMaker L) vs)) \<le> 1"
    by (rule qm.at_most_one_certificate [OF _ assms]) simp_all
  assume *: "bls_ok L" "\<forall>v\<in>set vs. vote_verify L c v = None"
    "unat (QuorumThreshold c) \<le> (\<Sum>k\<in>v_author ` set vs. unat (Committee_Stake c k))"
  show "length (snd (collect (qcMaker_append L c) (NewQcMaker L) vs)) = 1"
    by (rule qm.quorum_yields_certificate [OF _ assms])
      (use * in \<open>auto simp: word_neq_0_conv [symmetric] QuorumThreshold_nonzero qcMaker_append_verified\<close>)
qed

theorem one_certificate_per_quorum_witness:
  "length (snd (collect (qcMaker_append demo_env solo_committee) (NewQcMaker demo_env)
     [solo_vote blk1, solo_vote blk1])) = 1"
  using one_certificate_per_quorum [OF solo_fits, of demo_env "[solo_vote blk1, solo_vote blk1]"]
  by (simp add: demo_env_bls_ok solo_vote_verify solo_stake solo_threshold)

subsection \<open>Leaders\<close>

text \<open>
  Round robin: in every window of as many rounds as there are authorities, below \<open>2^63\<close>, each
  authority leads exactly one round.
\<close>

theorem everyone_leads_once:
  assumes "k \<in> cm_members c" "unat r + card (cm_members c) \<le> 2 ^ 63"
  shows "\<exists>!i. i < card (cm_members c) \<and> getLeader c (r + of_nat i) = Inr k"
proof (rule rr.leads_once [OF _ assms(1)])
  fix i assume i: "i < card (cm_members c)"
  then have "unat r + i < 2 ^ 63" using assms(2) by simp
  moreover from this have "unat (r + of_nat i) = unat r + i"
    by (simp add: unat_word_ariths unat_of_nat)
  ultimately show "leader_defined c (r + of_nat i)"
    using assms(1) by (auto simp: leader_defined_def)
qed

theorem everyone_leads_once_witness:
  "\<exists>!i. i < card (cm_members wrapping_committee)
     \<and> getLeader wrapping_committee (7 + of_nat i) = Inr (demo_name 2)"
  by (rule everyone_leads_once) (simp_all add: cm_members_def wrapping_entries)

subsection \<open>The wire format\<close>

text \<open>
  C36: A node accepts exactly the canonical form of a message: what arrives is decoded to \<open>m\<close> if and
  only if it unmarshals to what \<open>m\<close> is encoded as, so every field has the right length and nothing is
  lost or made up; and what was serialized is decoded to what it was.
\<close>

theorem messages_roundtrip:
  "(DeserializeConsensusMessage E data = Ok m \<longleftrightarrow> pl_UnmarshalMessage E data = Some (toConsensusPb m))
   \<and> (proto_ok E \<longrightarrow> SerializeConsensusMessage E m = Ok data \<longrightarrow>
        DeserializeConsensusMessage E data = Ok m)
   \<and> (proto_ok E \<longrightarrow> Block_Serialize E b = Ok data \<longrightarrow> Block_Deserialize E data = Ok b)"
proof (intro conjI impI)
  have "p = toConsensusPb m" if "pbm_Message p = pbm_Message (toConsensusPb m)" for p
    using that by (cases p; cases "toConsensusPb m") simp
  then show "DeserializeConsensusMessage E data = Ok m \<longleftrightarrow>
      pl_UnmarshalMessage E data = Some (toConsensusPb m)"
    by (auto simp: DeserializeConsensusMessage_def msg_codec.dec_Ok_iff msg_codec.dec_enc
        split: option.splits)
qed (simp_all add: Deserialize_Serialize_message Block_Deserialize_Serialize)

theorem messages_roundtrip_witness:
  "\<exists>data. SerializeConsensusMessage demo_env (proposeMessage blk3) = Ok data
     \<and> DeserializeConsensusMessage demo_env data = Ok (proposeMessage blk3)"
proof -
  obtain data where "SerializeConsensusMessage demo_env (proposeMessage blk3) = Ok data"
    using demo_Serialize_message by blast
  then show ?thesis
    using messages_roundtrip [of demo_env data "proposeMessage blk3" blk1] demo_proto_ok by blast
qed

end
