(* ===== verification/StoreProps.thy ===== *)
theory StoreProps
  imports DemoRun
begin

text \<open>
  What the store and the two goroutines that wait on it promise: reads and notified reads of the
  store, the ancestors that the synchronizer reads and holds blocks back for, and the payload check
  of the mempool driver with its waiter.
\<close>

subsection \<open>The store\<close>

primrec last_write :: "byte list \<Rightarrow> command list \<Rightarrow> byte list option" where
  "last_write k [] = None"
| "last_write k (cmd # cmds) =
     (case last_write k cmds of
        Some v \<Rightarrow> Some v
      | None \<Rightarrow> (case cmd of writeCommand k' v \<Rightarrow> if k' = k then Some v else None | _ \<Rightarrow> None))"

lemma store_step_read:
  assumes "store_ok E s" "cmd \<noteq> closeCommand"
  shows "Store_Read E (fst (store_step E s cmd)) k =
    (case cmd of writeCommand k' v \<Rightarrow> if k' = k then Inr v else Store_Read E s k | _ \<Rightarrow> Store_Read E s k)"
proof (cases cmd)
  case (writeCommand k' v)
  then have "fst (store_step E s cmd) = Store_Write E s k' v" by (simp add: Store_Write_def)
  then show ?thesis using writeCommand st.get_put_if [OF assms(1)] by simp
next
  case (readCommand k' ch)
  then show ?thesis
    using assms by (auto simp: store_step_def store_ok_def Store_Read_eq split: sum.splits)
next
  case (notifyReadCommand k' ch)
  then show ?thesis
    using assms
    by (auto simp: store_step_def store_ok_def Store_Read_eq Let_def split: sum.splits db_error.splits)
qed (use assms in simp)

text \<open>
  Read your writes: after any sequence of commands without \<open>Close\<close>, a key reads as the last value
  written to it, and as it read before where none was written.
\<close>

theorem store_reads_last_write:
  assumes "store_ok E s" "closeCommand \<notin> set cmds"
  shows "Store_Read E (fst (store_run E s cmds)) k =
    (case last_write k cmds of Some v \<Rightarrow> Inr v | None \<Rightarrow> Store_Read E s k)"
  using assms
proof (induction cmds arbitrary: s)
  case (Cons cmd cmds)
  obtain s1 out where step: "store_step E s cmd = (s1, out)" by fastforce
  have "store_ok E s1" using store_step_ok [OF Cons.prems(1) step] Cons.prems(2) by auto
  from Cons.IH [OF this] Cons.prems step store_step_read [OF Cons.prems(1), of cmd k]
  show ?case by (auto simp: case_prod_unfold split: option.splits command.splits)
qed simp

theorem store_reads_last_write_witness:
  "Store_Read demo_env (fst (store_run demo_env (NewStore Map.empty)
     [writeCommand [1] [2], notifyReadCommand [3] 0, writeCommand [1] [4], writeCommand [3] [5]])) [1]
   = Inr [4]"
  by (subst store_reads_last_write) simp_all

lemma waiting_on_NewStore [simp]: "waiting_on (NewStore db) k = []"
  by (simp add: waiting_on_def NewStore_def)

lemma responses_to_one: "responses_to ch [(c, r)] = (if c = ch then [r] else [])"
  by (simp add: responses_to_def)

text \<open>
  C38: \<open>NotifyRead\<close> answers its channel exactly once: at once with the value if the key is there, at
  once with the error if the database fails, and otherwise with the first value written to the key
  afterwards, however many commands come between.
\<close>

theorem notify_read_answered_once:
  assumes "store_ok E s" "closeCommand \<notin> set before" "closeCommand \<notin> set after"
    and "\<And>cmd. cmd \<in> set before \<union> set after \<Longrightarrow> \<not> mentions cmd ch" "\<And>k'. ch \<notin> set (waiting_on s k')"
  shows "responses_to ch (snd (store_run E s (before @ notifyReadCommand k ch # after))) =
    (case Store_Read E (fst (store_run E s before)) k of
       Inr v \<Rightarrow> [Inr v]
     | Inl ValueNotFound \<Rightarrow> (case first_write k after of Some v \<Rightarrow> [Inr v] | None \<Rightarrow> [])
     | Inl e \<Rightarrow> [Inl e])"
proof -
  obtain s1 out1 where run: "store_run E s before = (s1, out1)" by fastforce
  have before: "\<not> st_closed s1" "\<And>k'. ch \<notin> set (waiting_on s1 k')" "responses_to ch out1 = []"
    using fresh_after_run [of s before ch E] assms run by (auto simp: store_ok_def)
  obtain s2 out2 where step: "store_step E s1 (notifyReadCommand k ch) = (s2, out2)" by fastforce
  have no_mention: "\<And>cmd. cmd \<in> set after \<Longrightarrow> \<not> mentions cmd ch" using assms(4) by simp
  have total: "responses_to ch (snd (store_run E s (before @ notifyReadCommand k ch # after))) =
      responses_to ch out2 @ responses_to ch (snd (store_run E s2 after))"
    using run step before(3) by (simp add: store_run_append case_prod_unfold)
  have old: "filter (\<lambda>c. c = ch) (waiting_on s1 k') = []" for k'
    using before(2) [of k'] by (auto simp: filter_empty_conv)
  have rest: "responses_to ch (snd (store_run E s1 after)) = []"
    using fresh_after_run [OF before(1) assms(3) no_mention before(2), of E] by blast
  show ?thesis
  proof (cases "db_Get E (st_db s1) k")
    case (Inl err)
    show ?thesis
    proof (cases err)
      case PebbleNotFound
      then have s2: "s2 = s1\<lparr>st_obligations := (st_obligations s1)(k \<mapsto> waiting_on s1 k @ [ch])\<rparr>" "out2 = []"
        using step Inl before(1) by (auto simp: store_step_def waiting_on_def Let_def)
      have "filter (\<lambda>c. c = ch) (waiting_on s2 k') = (if True \<and> k' = k then [ch] else [])" for k'
      proof -
        have "waiting_on s2 k' = (if k' = k then waiting_on s1 k @ [ch] else waiting_on s1 k')"
          by (simp add: s2 waiting_on_def)
        then show ?thesis by (simp add: old)
      qed
      from run_waiting [OF _ assms(3) no_mention this, of E]
      show ?thesis
        using total s2 before(1) run Inl PebbleNotFound by (auto simp: Store_Read_eq split: option.splits)
    next
      case PebbleOther
      then have "s2 = s1" "out2 = [(ch, Inl StoreFailure)]"
        using step Inl before(1) by (auto simp: store_step_def)
      then show ?thesis
        using total run Inl PebbleOther rest by (simp add: Store_Read_eq responses_to_one)
    qed
  next
    case (Inr v)
    then have "s2 = s1" "out2 = [(ch, Inr v)]"
      using step before(1) by (auto simp: store_step_def)
    then show ?thesis
      using total run Inr rest by (simp add: Store_Read_eq responses_to_one)
  qed
qed

theorem notify_read_answered_once_witness:
  "responses_to 7 (snd (store_run demo_env (NewStore Map.empty)
     ([writeCommand [2] [9]] @ notifyReadCommand [1] 7 #
      [writeCommand [2] [8], writeCommand [1] [5], writeCommand [1] [6]]))) = [Inr [5]]"
proof (subst notify_read_answered_once)
  have "Store_Read demo_env (fst (store_run demo_env (NewStore Map.empty) [writeCommand [2] [9]])) [1]
      = Inl ValueNotFound"
    by (simp add: store_step_def NewStore_def Let_def Store_Read_eq) (simp add: demo_env_def)
  then show "(case Store_Read demo_env (fst (store_run demo_env (NewStore Map.empty) [writeCommand [2] [9]])) [1] of
       Inr v \<Rightarrow> [Inr v]
     | Inl ValueNotFound \<Rightarrow> (case first_write [1] [writeCommand [2] [8], writeCommand [1] [5],
         writeCommand [1] [6]] of Some v \<Rightarrow> [Inr v] | None \<Rightarrow> [])
     | Inl e \<Rightarrow> [Inl e]) = [Inr [5]]"
    by simp
qed auto

subsection \<open>The synchronizer\<close>

text \<open>
  C39: Blocks held back for their parent. In every state of the synchronizer the pending digests are
  those of the blocks whose waiter waits or has ended with an error of the store, each once; parents
  are requested only for such blocks, and a block is given back only when its parent is stored. A block
  that was taken in waits until it is given back, unless its waiter fails: then its digest stays
  pending, and no later step gives the block back or starts another waiter for it.
\<close>

theorem suspended_blocks_accounted_for:
  assumes "sync_reachable E name c delay y"
  shows "sn_pending (ss_state y) = (\<lambda>(p, b). Block_Digest E b) ` set (ss_waiters y @ ss_failed y)
    \<and> distinct (map (\<lambda>(p, b). Block_Digest E b) (ss_waiters y @ ss_failed y))
    \<and> (\<forall>d. DAList.lookup (sn_requests (ss_state y)) d \<noteq> None \<longrightarrow>
          d \<in> fst ` set (ss_waiters y @ ss_failed y))
    \<and> (\<forall>b. SyncLoopback b \<in> set (ss_out y) \<longrightarrow> Parent b \<in> ss_stored y)
    \<and> (\<forall>p b. SpawnBlockWaiter p b \<in> set (ss_out y) \<longrightarrow> p = Parent b
          \<and> ((p, b) \<in> set (ss_waiters y @ ss_failed y) \<or> SyncLoopback b \<in> set (ss_out y)))
    \<and> (\<forall>p b z. (p, b) \<in> set (ss_failed y) \<longrightarrow> sync_step E name c delay y z \<longrightarrow>
          (p, b) \<in> set (ss_failed z) \<and> (\<exists>effs. ss_out z = ss_out y @ effs
            \<and> (\<forall>p' b'. Block_Digest E b' = Block_Digest E b \<longrightarrow>
                  SyncLoopback b' \<notin> set effs \<and> SpawnBlockWaiter p' b' \<notin> set effs)))"
proof -
  have inv: "sync_inv E y" using assms by (rule sync_reachable_inv)
  have "SpawnBlockWaiter p b \<in> set (ss_out y) \<longrightarrow> p = Parent b" for p b
    using assms
  proof (induction rule: sync_reachable.induct)
    case (sync_next y z)
    from sync_next.hyps(2) sync_next.IH show ?case
    proof (cases rule: sync_step.cases)
      case (suspend b now s' effs)
      then show ?thesis
        using sync_next.IH sync_inner_cases [OF suspend(2)] by (auto simp flip: in_spawned_waiters)
    next
      case (retry now s' effs)
      then show ?thesis
        using sync_next.IH sync_retry_no_loopback [of E name c delay now _ effs]
        by (auto simp: sync_timer_def go_simps simp flip: in_spawned_waiters)
    qed (auto simp: sync_waiting_def)
  qed simp
  moreover have "(p, b) \<in> set (ss_failed z) \<and> (\<exists>effs. ss_out z = ss_out y @ effs
      \<and> (\<forall>p' b'. Block_Digest E b' = Block_Digest E b \<longrightarrow>
            SyncLoopback b' \<notin> set effs \<and> SpawnBlockWaiter p' b' \<notin> set effs))"
    if "(p, b) \<in> set (ss_failed y)" "sync_step E name c delay y z" for p b z
    by (rule sync_step_failed [OF that(2) inv that(1)])
  ultimately show ?thesis
    using inv [unfolded sync_inv_def held_blocks_def] by (intro conjI; elim conjE) (assumption | iprover)+
qed

theorem suspended_blocks_accounted_for_witness:
  "\<exists>y. sync_reachable demo_env (demo_name 1) solo_committee 100 y
     \<and> SyncLoopback blk2 \<in> set (ss_out y) \<and> Block_Digest demo_env blk1 \<in> ss_stored y"
proof -
  let ?step = "sync_step demo_env (demo_name 1) solo_committee 100"
  have par: "Parent blk2 = Block_Digest demo_env blk1" by (simp add: Parent_def blk_digests)
  define y0 where "y0 = \<lparr>ss_state = sync_init, ss_waiters = [], ss_failed = [], ss_stored = {}, ss_out = []\<rparr>"
  have r0: "sync_reachable demo_env (demo_name 1) solo_committee 100 y0"
    unfolding y0_def by (rule sync_start)
  obtain msg where msg: "SerializeConsensusMessage demo_env
      (syncRequestMessage (Parent blk2) (demo_name 1)) = Ok msg"
    using demo_Serialize_message by blast
  have "blk_Author blk2 = demo_name 1" by (simp add: blk2_def)
  then obtain s1 where in1: "sync_inner demo_env (demo_name 1) solo_committee sync_init blk2 0
      = Ok (s1, [SpawnBlockWaiter (Parent blk2) blk2, SyncSend ''a'' msg])"
    by (simp add: sync_inner_def sync_init_def solo_address msg Let_def)
  define y1 where "y1 = y0\<lparr>ss_state := s1, ss_waiters := [(Parent blk2, blk2)],
    ss_out := [SpawnBlockWaiter (Parent blk2) blk2, SyncSend ''a'' msg]\<rparr>"
  have "?step y0 y1"
    using sync_step.suspend [of demo_env "demo_name 1" solo_committee y0 blk2 0 s1 _ 100] in1
    by (simp add: y0_def y1_def spawned_waiters_def)
  with r0 have r1: "sync_reachable demo_env (demo_name 1) solo_committee 100 y1" by (rule sync_next)
  define y2 where "y2 = y1\<lparr>ss_stored := {Parent blk2}\<rparr>"
  have "?step y1 y2" using sync_step.stored [of _ _ _ _ y1 "Parent blk2"] by (simp add: y1_def y2_def y0_def)
  with r1 have r2: "sync_reachable demo_env (demo_name 1) solo_committee 100 y2" by (rule sync_next)
  define y3 where "y3 = y2\<lparr>ss_state := fst (sync_waiting demo_env s1 blk2), ss_waiters := [],
    ss_out := ss_out y2 @ [SyncLoopback blk2]\<rparr>"
  have "?step y2 y3"
    using sync_step.deliver [of "Parent blk2" blk2 y2 demo_env "fst (sync_waiting demo_env s1 blk2)" "[SyncLoopback blk2]"]
    by (simp add: y3_def y2_def y1_def y0_def sync_waiting_def)
  with r2 have r3: "sync_reachable demo_env (demo_name 1) solo_committee 100 y3" by (rule sync_next)
  have "SyncLoopback blk2 \<in> set (ss_out y3)" by (simp add: y3_def)
  moreover from this have "Parent blk2 \<in> ss_stored y3"
    using suspended_blocks_accounted_for [OF r3] by blast
  ultimately show ?thesis using r3 unfolding par by blast
qed

subsection \<open>The payload of a block\<close>

text \<open>
  \<open>verify\<close> lets a block pass exactly when the store can read every digest of its payload. If not,
  it asks the mempool to fetch exactly the digests that are missing, from the block's author, and
  gives the block with them to the payload waiter.
\<close>

theorem payload_checked:
  "(fst (driver_verify E s b) \<longleftrightarrow> (\<forall>d\<in>set (blk_Payload b). \<exists>v. Store_Read E s (digest_bytes d) = Inr v))
   \<and> (\<not> fst (driver_verify E s b) \<longrightarrow> (\<exists>missing w.
        driver_verify E s b = (False, [SynchronizeMessage missing (blk_Author b)], [w])
        \<and> pwm_msgType w = waitCommand \<and> pwm_missing w = missing \<and> pwm_block w = Some b
        \<and> set missing = {d \<in> set (blk_Payload b). \<forall>v. Store_Read E s (digest_bytes d) \<noteq> Inr v}))"
proof -
  have set_missing:
    "set (missing_payload E s b) = {d \<in> set (blk_Payload b). \<forall>v. Store_Read E s (digest_bytes d) \<noteq> Inr v}"
    by (auto simp: missing_payload_def split: sum.splits) (metis sum.exhaust)
  have "\<not> fst (driver_verify E s b) \<Longrightarrow> \<exists>missing w.
        driver_verify E s b = (False, [SynchronizeMessage missing (blk_Author b)], [w])
        \<and> pwm_msgType w = waitCommand \<and> pwm_missing w = missing \<and> pwm_block w = Some b
        \<and> set missing = {d \<in> set (blk_Payload b). \<forall>v. Store_Read E s (digest_bytes d) \<noteq> Inr v}"
    by (auto simp: driver_verify_def Let_def set_missing [symmetric] split: if_splits)
  then show ?thesis by (simp add: driver_verify_True_iff missing_payload_empty_iff)
qed

theorem payload_checked_witness:
  "\<exists>w. driver_verify demo_env (NewStore Map.empty) (blk1\<lparr>blk_Payload := [digest_zero]\<rparr>) =
     (False, [SynchronizeMessage [digest_zero] (demo_name 1)], [w])"
proof -
  let ?b = "blk1\<lparr>blk_Payload := [digest_zero]\<rparr>"
  have "\<not> fst (driver_verify demo_env (NewStore Map.empty) ?b)"
    by (simp add: driver_verify_True_iff missing_payload_def demo_Read_empty)
  then obtain missing w where
      "driver_verify demo_env (NewStore Map.empty) ?b = (False, [SynchronizeMessage missing (demo_name 1)], [w])"
    using payload_checked [of demo_env "NewStore Map.empty" ?b] by (auto simp: blk1_def)
  then show ?thesis by (auto simp: driver_verify_def missing_payload_def demo_Read_empty Let_def)
qed

text \<open>
  C40: The payload waiter gives a block back only if it was waiting for a single digest: its goroutine
  receives one result and ends, so a block with two or more missing batches is never given back,
  even when all of them arrive.
\<close>

theorem two_missing_batches_block_forever:
  assumes "pw_run L H s" "\<And>missing. (missing, b) \<in> H \<Longrightarrow> 2 \<le> length missing"
  shows "b \<notin> set (pw_loopback s)"
proof
  assume "b \<in> set (pw_loopback s)"
  then obtain d where "([d], b) \<in> H" using pw_run_inv [OF assms(1)] by (auto simp: pw_inv_def)
  then show False using assms(2) by fastforce
qed

theorem two_missing_batches_block_forever_witness:
  "\<exists>s H. pw_run demo_env H s \<and> ([digest_zero, digest_copy digest_zero [1]], blk1) \<in> H
     \<and> pw_waiters s = [] \<and> DAList.lookup (pw_pending s) (Block_Digest demo_env blk1) \<noteq> None
     \<and> blk1 \<notin> set (pw_loopback s)"
proof -
  let ?m = "[digest_zero, digest_copy digest_zero [1]]"
  define s1 where "s1 = pw_wait demo_env pw_init ?m blk1 0"
  define s2 where "s2 = s1\<lparr>pw_waiters := [], pw_results := []\<rparr>"
  have s1: "pw_waiters s1 = [(0, ?m, blk1)]" "pw_results s1 = []"
      "DAList.lookup (pw_pending s1) (Block_Digest demo_env blk1) \<noteq> None"
    by (simp_all add: s1_def pw_wait_def pw_init_def)
  have "pw_step demo_env UNIV pw_init s1"
    by (rule pw_msg [where msg = "\<lparr>pwm_msgType = waitCommand, pwm_missing = ?m, pwm_block = Some blk1,
        pwm_round = 0\<rparr>" and h = 0]) (simp add: pw_message_def s1_def)
  from pw_next [OF pw_begin this]
  have r1: "pw_run demo_env {(?m, blk1)} s1" by (simp add: s1)
  have "pw_step demo_env UNIV s1 (s1\<lparr>pw_waiters := remove1 (0, ?m, blk1) (pw_waiters s1),
      pw_results := pw_results s1 @ (case waiter_receive ?m blk1 None of Some r \<Rightarrow> [r] | None \<Rightarrow> [])\<rparr>)"
    by (rule pw_read [where d = digest_zero]) (simp_all add: s1)
  then have "pw_step demo_env UNIV s1 s2"
    by (simp add: s1 s2_def waiter_receive_def)
  from pw_next [OF r1 this] have r2: "pw_run demo_env {(?m, blk1)} s2" by (simp add: s2_def)
  have "blk1 \<notin> set (pw_loopback s2)"
    by (rule two_missing_batches_block_forever [OF r2]) simp
  then show ?thesis
    using r2 s1 by (intro exI [of _ s2] exI [of _ "{(?m, blk1)}"]) (simp add: s2_def)
qed

end
