(* ===== verification/CoreProps.thy ===== *)
theory CoreProps
  imports DemoRun
begin

text \<open>
  What the consensus core promises on its own: what it ignores, when it crashes, what it keeps, how
  it makes progress and what it commits. The witnesses run on the one-authority committee.
\<close>

subsection \<open>Messages that change nothing\<close>

text \<open>
  A vote or timeout for a past round or that does not verify, a TC that does not verify or is
  for a past round, and a proposal by anyone but the leader or that does not verify leave the state
  as it was: nothing is stored, sent, signed or counted.
\<close>

theorem invalid_messages_ignored:
  "(v_round v < c_round c \<or> vote_verify E (c_committee c) v \<noteq> None \<longrightarrow>
      fst (core_step E c (RxMessage (voteMessage v))) = c)
   \<and> (t_round t < c_round c \<or> timeout_Verify E (c_committee c) t \<noteq> None \<longrightarrow>
      fst (core_step E c (RxMessage (timeoutMessage t))) = c)
   \<and> (tc_Round tc < c_round c \<or> TC_Verify E (c_committee c) tc \<noteq> None \<longrightarrow>
      fst (core_step E c (RxMessage (tcMessage tc))) = c)
   \<and> (getLeader (c_committee c) (blk_Round b) \<noteq> Inr (blk_Author b)
        \<or> Block_Verify E (c_committee c) b \<noteq> None \<longrightarrow>
      fst (core_step E c (RxMessage (proposeMessage b))) = c)"
  by (auto simp: handleVote_def handleTimeout_def handleTC_def handleProposal_def
      split: option.splits sum.splits)

theorem invalid_messages_ignored_witness:
  "fst (core_step demo_env solo_start (RxMessage (voteMessage (solo_vote GenesisBlock)))) = solo_start"
  using invalid_messages_ignored [of "solo_vote GenesisBlock" solo_start demo_env] solo_started(2)
  by (simp add: solo_core_def GenesisBlock_def)

text \<open>
  C30: A proposal for a round of \<open>2^63\<close> or more takes the node down, whoever sends it: the leader of
  the block's round is computed before any signature is checked, and the negative index panics. Here
  for the last round, with two or more authorities.
\<close>

theorem unsigned_proposal_crashes_node:
  assumes "2 \<le> Committee_Size (c_committee c)" "blk_Round b = - 1"
  shows "core_step E c (RxMessage (proposeMessage b)) = (c, Crash IndexOutOfRange)"
proof -
  have "(- 1) smod int (Committee_Size (c_committee c)) = - 1"
    using assms(1) by (simp add: signed_modulo_int_def)
  then have "getLeader (c_committee c) (- 1) = Inl IndexOutOfRange"
    using assms(1) by (simp add: getLeader_def Let_def)
  then show ?thesis using assms(2) by (simp add: handleProposal_def)
qed

definition two_committee :: Committee where
  "two_committee = NewCommittee
     [\<lparr>ai_Author = demo_name 1, ai_Stake = 1, ai_Address = ''a''\<rparr>,
      \<lparr>ai_Author = demo_name 2, ai_Stake = 1, ai_Address = ''b''\<rparr>] 0"

lemma two_entries:
  "cm_entries two_committee = [(demo_name 1, \<lparr>au_Stake = 1, au_Address = ''a''\<rparr>),
     (demo_name 2, \<lparr>au_Stake = 1, au_Address = ''b''\<rparr>)]"
  by (simp add: two_committee_def NewCommittee_def impl_of_update DAList.empty.rep_eq)

theorem unsigned_proposal_crashes_node_witness:
  "core_step demo_env (NewCore (demo_name 1) two_committee solo_ss (NewStore Map.empty))
     (RxMessage (proposeMessage (GenesisBlock\<lparr>blk_Round := - 1\<rparr>)))
   = (NewCore (demo_name 1) two_committee solo_ss (NewStore Map.empty), Crash IndexOutOfRange)"
  by (rule unsigned_proposal_crashes_node)
    (simp_all add: NewCore_def Committee_Size_def two_entries)

text \<open>
  \<open>slices.Max\<close> is never called on an empty slice for a block that verified: a TC that verifies
  has votes, so \<open>make_vote\<close> returns.
\<close>

theorem verified_block_never_panics:
  assumes "Block_Verify E cm b = None"
  shows "\<exists>r. snd (make_vote E c b) = Inr r"
proof -
  have "tc_Votes tc \<noteq> []" if "blk_Tc b = Some tc" for tc
    using assms that TC_Verify_nonempty [of E cm tc] by (auto simp: Block_Verify_None_iff)
  from safetyRule2_no_panic [OF this] obtain r where "safetyRule2 b = Inr r" by blast
  then show ?thesis by (simp add: make_vote_def Let_def)
qed

theorem verified_block_never_panics_witness:
  "\<exists>r. snd (make_vote demo_env solo_start blk1) = Inr r"
proof (rule verified_block_never_panics)
  have "blk_Signature blk1 = demo_sig (digest_bytes (Block_Digest demo_env blk1)) (pk_bytes (demo_name 1))"
    by (simp add: blk1_def solo_block_def NewBlock_def Let_def RequestSignature_def solo_ss_def
        NewSignatureService_def demo_name_def Block_Digest_def Block_buf_def)
  moreover have "blk_Author blk1 = demo_name 1" by (simp add: blk1_def)
  ultimately show "Block_Verify demo_env solo_committee blk1 = None"
    by (simp add: Block_Verify_None_iff solo_stake IsGenesisQC_iff)
qed

subsection \<open>What a node keeps over a run\<close>

text \<open>
  C9: Every vote of an honest node obeys both rules: when it is cast, the certificates of the block
  verify and their honest signers have signed, the QC is for the round before or the TC is and the
  QC is at least as high as every high QC in it, and the vote is the one \<open>NewVote\<close> makes.
\<close>

theorem votes_obey_the_rules:
  assumes "net_reach E cm hon B ss y" "env_ok E cm" "n_hist y = H @ (k, SVote b v) # H'"
  shows "block_known E cm hon B (hist_pairs E H) b \<and> v = NewVote E b k (ss k)
    \<and> (qc_Round (blk_Qc b) + 1 = blk_Round b
       \<or> (\<exists>tc. blk_Tc b = Some tc \<and> tc_Round tc + 1 = blk_Round b
            \<and> (\<forall>a\<in>set (tc_Votes tc). atr_round a \<le> qc_Round (blk_Qc b))))"
proof -
  have inv: "net_inv E cm hon B ss y" using assms(1,2) by (rule net_reach_inv)
  have known: "block_known E cm hon B (hist_pairs E H) b"
    using inv at_eachD [OF _ assms(3)] unfolding net_inv_def by fastforce
  have "hon k" using inv assms(3) unfolding net_inv_def by fastforce
  then have node: "node_inv E cm hon B ss y k" using inv by (simp add: net_inv_def)
  have "signed_of (c_out (n_core y k)) =
      map snd (filter (\<lambda>p. fst p = k) H) @ SVote b v # map snd (filter (\<lambda>p. fst p = k) H')"
    using node assms(3) by (simp add: node_inv_def)
  moreover have "log_ok E (n_core y k)" "c_name (n_core y k) = k" "c_signatureService (n_core y k) = ss k"
    using node by (simp_all add: node_inv_def)
  then have "at_each (log_entry_ok E k (ss k)) (signed_of (c_out (n_core y k)))"
    unfolding log_ok_def by metis
  ultimately have "log_entry_ok E k (ss k) (map snd (filter (\<lambda>p. fst p = k) H)) (SVote b v)"
    by (metis at_eachD)
  then show ?thesis
    using known by (auto simp: safetyRule2_True_iff split: option.splits if_splits)
qed

theorem votes_obey_the_rules_witness:
  "\<exists>H. block_known demo_env solo_committee solo_honest {blk1, blk2, blk3} (hist_pairs demo_env H) blk3
     \<and> H \<noteq> []"
proof -
  obtain y where y: "solo_reach {blk1, blk2, blk3} y" "n_hist y = solo_votes_hist" by (rule solo_run)
  have "n_hist y = map (Pair (demo_name 1)) [SVote blk1 (solo_vote blk1), SVote blk2 (solo_vote blk2)]
      @ (demo_name 1, SVote blk3 (solo_vote blk3)) # []"
    using y(2) by (simp add: solo_votes_hist_def)
  from votes_obey_the_rules [OF y(1) solo_env_ok this] show ?thesis by blast
qed

text \<open>
  C13: What a running honest node holds and hands on is certified: its high QC is the genesis QC or
  verifies, and so is the QC of everything it tells its proposer to propose, whose TC verifies.
\<close>

theorem node_holds_valid_certificates:
  fixes y :: "('agg, 'db) net"
  assumes "net_reach E cm hon B ss y" "env_ok E cm" "hon k" "k \<in> n_live y"
  shows "(c_highQC (n_core y k) = GenesisQC \<or> QC_Verify E cm (c_highQC (n_core y k)) = None)
    \<and> (\<forall>r qc tc. EProposer (proposerMakeMessage r qc tc) \<in> set (c_out (n_core y k)) \<longrightarrow>
         (qc = GenesisQC \<or> QC_Verify E cm qc = None)
         \<and> qc_Round qc \<le> qc_Round (c_highQC (n_core y k))
         \<and> (\<forall>t. tc = Some t \<longrightarrow> TC_Verify E cm t = None))"
proof -
  let ?c = "n_core y k"
  have "node_inv E cm hon B ss y k" using net_reach_inv [OF assms(1,2)] assms(3) by (simp add: net_inv_def)
  then have ok: "core_ok E hon B (hist_pairs E (n_hist y)) ?c" and cm: "c_committee ?c = cm"
    using assms(4) by (simp_all add: node_inv_def)
  have "effect_ok E hon B (hist_pairs E (n_hist y)) ?c e" if "e \<in> set (c_out ?c)" for e
    using ok that by (simp add: core_ok_def)
  from this [of "EProposer (proposerMakeMessage r qc tc)" for r qc tc] show ?thesis
    using ok cm by (fastforce simp: core_ok_def qc_known_def tc_known_def)
qed

theorem node_holds_valid_certificates_witness:
  "\<exists>y. solo_reach {blk1, blk2, blk3} y \<and> c_highQC (n_core y (demo_name 1)) = solo_qc blk3
     \<and> QC_Verify demo_env solo_committee (solo_qc blk3) = None"
proof -
  obtain y where y: "solo_reach {blk1, blk2, blk3} y" "demo_name 1 \<in> n_live y"
      "c_highQC (n_core y (demo_name 1)) = solo_qc blk3"
    by (rule solo_run)
  have hon: "solo_honest (demo_name 1)" by (simp add: solo_honest_def)
  have "solo_qc blk3 \<noteq> GenesisQC" using solo_qc_nongenesis [of blk3] by (simp add: IsGenesisQC_iff)
  then show ?thesis
    using node_holds_valid_certificates [OF y(1) solo_env_ok hon y(2)] y by auto
qed

text \<open>
  No step of the network takes anything back from an honest node: its last voted round, its last
  committed round and the round of its high QC never go down, and its outgoing effects only grow.
\<close>

theorem node_state_monotone:
  assumes "net_reach E cm hon B ss y" "net_step E hon B y z" "env_ok E cm" "hon k"
  shows "c_lastVotedRound (n_core y k) \<le> c_lastVotedRound (n_core z k)
    \<and> c_lastCommittedRound (n_core y k) \<le> c_lastCommittedRound (n_core z k)
    \<and> qc_Round (c_highQC (n_core y k)) \<le> qc_Round (c_highQC (n_core z k))
    \<and> (\<exists>es. c_out (n_core z k) = c_out (n_core y k) @ es)"
proof -
  have inv: "net_inv E cm hon B ss y" using assms(1,3) by (rule net_reach_inv)
  have "extends (n_core y k) (n_core z k)"
    using assms(2)
  proof (cases rule: net_step.cases)
    case (act j ev c' out es live)
    show ?thesis
    proof (cases "j = k")
      case True
      let ?S = "hist_pairs E (n_hist y)"
      have node: "c_name (n_core y k) = k" "c_committee (n_core y k) = cm"
          "signed_of (c_out (n_core y k)) = map snd (filter (\<lambda>p. fst p = k) (n_hist y))"
          "core_ok E hon B ?S (n_core y k)"
        using inv assms(4) act(3) True by (simp_all add: net_inv_def node_inv_def)
      have "sigs E ?S (n_core y k) = ?S" using own_pairs_hist [OF node(3,1)] by blast
      then have "steps_to E hon B ?S (n_core y k) c' out"
        using core_step_steps [OF node(4)] node(2) assms(3) act(4,5) True by simp
      then obtain c1 bs where c1: "core_moves E hon B ?S (n_core y k) c1" "c' = emit (map EInner bs) c1"
        by (auto simp: steps_to_def)
      have "extends c1 c'" by (simp add: c1(2) extends_def)
      then show ?thesis using core_moves_extends [OF c1(1)] act(1) True by (auto intro: extends_trans)
    qed (use act(1) in simp)
  next
    case (other j cmd s' resp)
    then show ?thesis by (simp add: extends_def)
  qed
  then show ?thesis by (simp add: extends_def)
qed

theorem node_state_monotone_witness:
  "\<exists>y z. solo_reach {} y \<and> net_step demo_env solo_honest {} y z
     \<and> c_lastVotedRound (n_core y (demo_name 1)) \<le> c_lastVotedRound (n_core z (demo_name 1))"
proof -
  let ?y = "net_start solo_committee (\<lambda>_. solo_ss) (\<lambda>_. NewStore Map.empty) :: (Signature option, demo_db) net"
  have hon: "solo_honest (demo_name 1)" by (simp add: solo_honest_def)
  have "\<exists>z. net_step demo_env solo_honest {} ?y z"
    by (intro exI, rule net_step.other [where k = "demo_name 1" and cmd = "readCommand [] 0"],
        rule hon, simp add: foreign_command_def, rule prod.collapse [symmetric])
  then obtain z where "net_step demo_env solo_honest {} ?y z" by blast
  then show ?thesis
    using node_state_monotone [OF solo_reach_start _ solo_env_ok hon] solo_reach_start by blast
qed

end
