(* ===== verification/CommitProps.thy ===== *)
theory CommitProps
  imports CoreProps ComponentProps
begin

text \<open>
  What \<open>commit\<close> hands to the application and when it returns, and how a quorum of votes moves a node
  to the next round.
\<close>

subsection \<open>The order of commits\<close>

text \<open>\<open>commit_walk E s lc b as\<close>: \<open>as\<close> are the ancestors of \<open>b\<close> that the loop of \<open>commit\<close> visits.\<close>

fun commit_walk ::
  "('sk, 'p1, 'p2, 'agg, 'db, 'z) env_scheme \<Rightarrow> 'db store \<Rightarrow> Round \<Rightarrow> Block \<Rightarrow> Block list \<Rightarrow> bool" where
  "commit_walk E s lc b [] \<longleftrightarrow> blk_Round b \<le> lc + 1"
| "commit_walk E s lc b (a # as) \<longleftrightarrow>
     lc + 1 < blk_Round b \<and> getParentBlock E s b = (Ok a, []) \<and> commit_walk E s lc a as"

lemma commit_loop_walk:
  "commit_walk E s lc b as \<Longrightarrow> commit_loop E s lc b acc = Some (Inr (acc @ as), [])"
proof (induction as arbitrary: b acc)
  case Nil
  then show ?case by (simp add: commit_loop_stop not_less)
next
  case (Cons a as)
  then show ?case using commit_loop_go [of lc b E s a "[]" acc] by simp
qed

lemma commit_walk_commits:
  assumes "c_lastCommittedRound c < blk_Round b"
    and "commit_walk E (c_store c) (c_lastCommittedRound c) b as"
  shows "commit E c b =
    (emit (map ECommit (as @ [b])) (c\<lparr>c_lastCommittedRound := blk_Round b\<rparr>), Ret None)"
  using assms(1) by (simp add: commit_def commit_loop_walk [OF assms(2)] Let_def not_le)

lemma commit_loop_walked:
  assumes "commit_loop E s lc b acc = Some (Inr res, sent)"
  shows "\<exists>as. res = acc @ as \<and> commit_walk E s lc b as"
proof -
  have "\<forall>res sent. y = (Inr res, sent) \<longrightarrow> (\<exists>as. res = acc @ as \<and> commit_walk E s lc b as)"
    if "commit_loop E s lc b acc = Some y" for y
  proof (rule commit_loop.raw_induct [OF _ that])
    fix f E s lc b acc y
    assume IH: "\<And>E s lc b acc y. f E s lc b acc = Some y \<Longrightarrow>
        \<forall>res sent. y = (Inr res, sent) \<longrightarrow> (\<exists>as. res = acc @ as \<and> commit_walk E s lc b as)"
      and step: "(if lc + 1 < blk_Round b
        then case getParentBlock E s b of
             (Ok a, sent) \<Rightarrow> f E s lc a (acc @ [a])
           | (Err err, sent) \<Rightarrow> Some (Inl ExplicitPanic, sent)
           | (Panic p, sent) \<Rightarrow> Some (Inl p, sent)
        else Some (Inr acc, [])) = Some y"
    show "\<forall>res sent. y = (Inr res, sent) \<longrightarrow> (\<exists>as. res = acc @ as \<and> commit_walk E s lc b as)"
    proof (cases "lc + 1 < blk_Round b")
      case True
      show ?thesis
      proof (intro allI impI)
        fix res sent assume y: "y = (Inr res, sent)"
        obtain a sent' where a: "getParentBlock E s b = (Ok a, sent')" "f E s lc a (acc @ [a]) = Some y"
          using True step y by (auto split: prod.splits result.splits)
        obtain as where "res = (acc @ [a]) @ as" "commit_walk E s lc a as"
          using IH [OF a(2)] y by blast
        then show "\<exists>as. res = acc @ as \<and> commit_walk E s lc b as"
          using True a(1) getParentBlock_Ok_sends_nothing [OF a(1)] by (intro exI [of _ "a # as"]) simp
      qed
    next
      case False
      have "y = (Inr acc, [])" using step False by simp
      moreover have "commit_walk E s lc b []" using False by (simp add: not_less)
      ultimately
      show ?thesis by (intro allI impI exI [of _ "[]"]) simp
    qed
  qed
  then show ?thesis using assms by blast
qed

text \<open>
  C33: What \<open>commit\<close> hands to the application. For a block above the last committed round it returns
  exactly when the ancestors that its loop visits can be read and are finitely many; then it hands on
  all of them, nearest first, and the block itself after them, and returns no error. The loop stops at
  the first block whose round is at most one above the last committed one. After a gap in the rounds
  it visits the parent that was committed last (or the genesis block) once more, and hands it on
  again, as \<open>round_gap_commits_twice\<close> shows.
\<close>

theorem commit_hands_on_nearest_first:
  assumes "c_lastCommittedRound c < blk_Round b"
  shows "commit E c b = (c', Ret r) \<longleftrightarrow>
    r = None \<and> (\<exists>as. commit_walk E (c_store c) (c_lastCommittedRound c) b as
      \<and> c' = emit (map ECommit (as @ [b])) (c\<lparr>c_lastCommittedRound := blk_Round b\<rparr>))"
proof
  assume ret: "commit E c b = (c', Ret r)"
  then have "r = None"
    using assms
    by (auto simp: commit_def Let_def not_le split: if_splits option.splits prod.splits sum.splits)
  with ret assms show "r = None \<and> (\<exists>as. commit_walk E (c_store c) (c_lastCommittedRound c) b as
      \<and> c' = emit (map ECommit (as @ [b])) (c\<lparr>c_lastCommittedRound := blk_Round b\<rparr>))"
    by (auto elim!: commit_Ret_cases dest!: commit_loop_walked)
qed (use commit_walk_commits [OF assms] in blast)

definition solo_put :: "Block \<Rightarrow> demo_db store \<Rightarrow> demo_db store" where
  "solo_put b s = Store_Write demo_env s (digest_bytes (Block_Digest demo_env b)) (put_block (Block_toProto b))"

lemma solo_put_ok [simp]: "store_ok demo_env s \<Longrightarrow> store_ok demo_env (solo_put b s)"
  by (simp add: solo_put_def Store_Write_ok)

lemma solo_put_parent:
  assumes "store_ok demo_env s" "\<not> IsGenesisQC (blk_Qc b)" "Parent b = Block_Digest demo_env p"
  shows "getParentBlock demo_env (solo_put p s) b = (Ok p, [])"
    and "Block_Digest demo_env q \<noteq> Block_Digest demo_env p \<Longrightarrow>
      getParentBlock demo_env s b = (Ok p, []) \<Longrightarrow> getParentBlock demo_env (solo_put q s) b = (Ok p, [])"
  using assms by (simp_all add: getParentBlock_cases solo_put_def st.get_put_if)

lemma solo_qc_genesis [simp]: "\<not> IsGenesisQC (solo_qc b)"
  by (simp add: IsGenesisQC_iff GenesisQC_def solo_qc_def)

definition solo_stored :: "(Signature option, demo_db) core" where
  "solo_stored = solo_start\<lparr>c_store := solo_put blk2 (solo_put blk1 (NewStore Map.empty))\<rparr>"

theorem commit_hands_on_nearest_first_witness:
  "snd (commit demo_env solo_stored blk3) = Ret None
   \<and> c_out (fst (commit demo_env solo_stored blk3)) =
       c_out solo_start @ [ECommit blk2, ECommit blk1, ECommit blk3]"
proof -
  have par: "Parent blk3 = Block_Digest demo_env blk2" "Parent blk2 = Block_Digest demo_env blk1"
      "\<not> IsGenesisQC (blk_Qc blk3)" "\<not> IsGenesisQC (blk_Qc blk2)"
    by (simp_all add: Parent_def solo_qc_genesis)
  let ?s = "solo_put blk1 (NewStore Map.empty)"
  have "getParentBlock demo_env ?s blk2 = (Ok blk1, [])"
    by (rule solo_put_parent(1)) (simp_all add: par)
  then have "getParentBlock demo_env (solo_put blk2 ?s) blk2 = (Ok blk1, [])"
    using blk_digests(1) by (rule_tac solo_put_parent(2)) (simp_all add: par)
  then have "getParentBlock demo_env (c_store solo_stored) blk2 = (Ok blk1, [])"
    by (simp add: solo_stored_def)
  moreover have "getParentBlock demo_env (c_store solo_stored) blk3 = (Ok blk2, [])"
    by (simp add: solo_stored_def, rule solo_put_parent(1)) (simp_all add: par)
  ultimately have "commit_walk demo_env (c_store solo_stored) (c_lastCommittedRound solo_stored) blk3 [blk2, blk1]"
    using solo_started(4) by (simp add: solo_stored_def)
  moreover have "c_lastCommittedRound solo_stored < blk_Round blk3"
    using solo_started(4) by (simp add: solo_stored_def)
  ultimately have "commit demo_env solo_stored blk3
      = (emit (map ECommit ([blk2, blk1] @ [blk3])) (solo_stored\<lparr>c_lastCommittedRound := blk_Round blk3\<rparr>), Ret None)"
    using commit_hands_on_nearest_first by blast
  then show ?thesis by (simp add: solo_stored_def)
qed

text \<open>
  A block is handed on twice when the next commit leaves a gap in the rounds: the loop stops one
  block too late, at the parent that was committed last, and hands that parent on again. The same
  happens to the genesis block.
\<close>

theorem round_gap_commits_twice:
  assumes "c_lastCommittedRound c < blk_Round p" "commit E c p = (c1, Ret None)"
    and "getParentBlock E (c_store c) b = (Ok p, [])" "unat (blk_Round p) + 1 < unat (blk_Round b)"
  shows "\<exists>c2. commit E c1 b = (c2, Ret None) \<and> 2 \<le> count_list (c_out c2) (ECommit p)"
proof -
  obtain as where c1: "c1 = emit (map ECommit (as @ [p])) (c\<lparr>c_lastCommittedRound := blk_Round p\<rparr>)"
    using assms(1,2) by (auto elim!: commit_Ret_cases)
  have succ: "unat (blk_Round p + 1) = unat (blk_Round p) + 1"
    using assms(4) unsigned_less [of "blk_Round b", where 'a = nat]
    by (simp add: unat_word_ariths)
  then have "commit_walk E (c_store c1) (c_lastCommittedRound c1) b [p]"
    using assms(3,4) by (simp add: c1 word_less_nat_alt word_le_nat_alt)
  from commit_walk_commits [OF _ this]
  show ?thesis using assms(4) by (simp add: c1 word_less_nat_alt)
qed

theorem round_gap_commits_twice_witness:
  "\<exists>c1 c2. commit demo_env solo_stored blk1 = (c1, Ret None)
     \<and> commit demo_env c1 (solo_block (solo_qc blk1) 4) = (c2, Ret None)
     \<and> 2 \<le> count_list (c_out c2) (ECommit blk1)"
proof -
  let ?b = "solo_block (solo_qc blk1) 4"
  have "getParentBlock demo_env (solo_put blk1 (NewStore Map.empty)) ?b = (Ok blk1, [])"
    by (rule solo_put_parent(1)) (simp_all add: Parent_def)
  then have "getParentBlock demo_env (solo_put blk2 (solo_put blk1 (NewStore Map.empty))) ?b = (Ok blk1, [])"
    using blk_digests(1) by (rule_tac solo_put_parent(2)) (simp_all add: Parent_def)
  then have par: "getParentBlock demo_env (c_store solo_stored) ?b = (Ok blk1, [])"
    by (simp add: solo_stored_def)
  have "commit_walk demo_env (c_store solo_stored) (c_lastCommittedRound solo_stored) blk1 []"
    using solo_started(4) by (simp add: solo_stored_def)
  from commit_walk_commits [OF _ this]
  have first: "commit demo_env solo_stored blk1 =
      (emit [ECommit blk1] (solo_stored\<lparr>c_lastCommittedRound := 1\<rparr>), Ret None)"
    using solo_started(4) by (simp add: solo_stored_def)
  have "c_lastCommittedRound solo_stored < blk_Round blk1"
    using solo_started(4) by (simp add: solo_stored_def)
  from round_gap_commits_twice [OF this first par] first show ?thesis by simp
qed

subsection \<open>When commit returns\<close>

text \<open>
  \<open>commit\<close> returns or panics, and never runs on, if every stored block has a higher round than
  the parent that is read for it.
\<close>

theorem commit_ends:
  assumes "\<And>x p sent. c_lastCommittedRound c + 1 < blk_Round x
      \<Longrightarrow> getParentBlock E (c_store c) x = (Ok p, sent) \<Longrightarrow> blk_Round p < blk_Round x"
  shows "snd (commit E c b) \<noteq> Hang"
proof -
  let ?lc = "c_lastCommittedRound c"
  have "\<exists>y. commit_loop E (c_store c) ?lc x acc = Some y" for x acc
  proof (induction "unat (blk_Round x)" arbitrary: x acc rule: less_induct)
    case less
    obtain r sent where gp: "getParentBlock E (c_store c) x = (r, sent)" by fastforce
    show ?case
    proof (cases "?lc + 1 < blk_Round x")
      case True
      then show ?thesis
        using gp less [of "case r of Ok p \<Rightarrow> p"] assms [OF True]
        by (subst commit_loop.simps) (cases r; simp add: word_less_nat_alt)
    qed (simp add: commit_loop_stop)
  qed
  from this [of b "[]"] show ?thesis
    by (auto simp: commit_def Let_def split: option.splits sum.splits)
qed

theorem commit_ends_witness: "snd (commit demo_env solo_start blk3) \<noteq> Hang"
proof (rule commit_ends)
  fix x p sent
  assume x: "c_lastCommittedRound solo_start + 1 < blk_Round x"
    "getParentBlock demo_env (c_store solo_start) x = (Ok p, sent)"
  then have "p = GenesisBlock"
    using solo_started(5) by (auto simp: getParentBlock_cases demo_Read_empty split: if_splits)
  then show "blk_Round p < blk_Round x"
    using x(1) solo_started(4) by (auto simp: GenesisBlock_def intro: less_trans [of 0 1])
qed

text \<open>
  C34: Without that, it need not return: any block that has a certificate can be sent again with that
  certificate as its own QC. It still verifies, since the leader's signature leaves the QC out, and it
  has the same digest, so storing it replaces the original; then the block is its own parent. A commit
  of it two rounds or more above the last one never ends.
\<close>

theorem replayed_block_hangs_commit:
  assumes "Block_Verify E cm b = None" "QC_Verify E cm qc = None" "qc_Hash qc = Block_Digest E b"
    and "qc_Round qc \<noteq> 0" "b' = b\<lparr>blk_Qc := qc, blk_Tc := None\<rparr>"
    and "proto_ok E" "store_ok E (c_store c)" "Block_Serialize E b' = Ok value"
    and "c_lastCommittedRound c < blk_Round b" "c_lastCommittedRound c + 1 < blk_Round b"
  shows "Block_Verify E cm b' = None \<and> snd (commit E (storeBlock E c b') b') = Hang"
proof -
  have dig: "Block_Digest E b' = Block_Digest E b"
    by (simp add: assms(5) Block_Digest_def Block_buf_def)
  have "Block_Verify E cm b' = None"
    using assms(1,2,5) dig by (simp add: Block_Verify_None_iff)
  moreover have "getParentBlock E (c_store (storeBlock E c b')) b' = (Ok b', [])"
  proof -
    have "c_store (storeBlock E c b') = Store_Write E (c_store c) (digest_bytes (Block_Digest E b')) value"
      by (simp add: storeBlock_def assms(8))
    moreover have "\<not> IsGenesisQC (blk_Qc b')" "Parent b' = Block_Digest E b'"
      using assms(3,4) dig by (simp_all add: assms(5) IsGenesisQC_iff GenesisQC_def Parent_def) auto
    ultimately show ?thesis using getParentBlock_stored [OF assms(6-8)] by simp
  qed
  moreover have "commit_loop E s lc b' acc = None"
    if "getParentBlock E s b' = (Ok b', [])" "lc + 1 < blk_Round b'" for s lc acc
  proof (rule ccontr)
    assume "commit_loop E s lc b' acc \<noteq> None"
    then obtain y where y: "commit_loop E s lc b' acc = Some y" by blast
    have "getParentBlock E s b' = (Ok b', []) \<longrightarrow> \<not> lc + 1 < blk_Round b'"
      by (rule commit_loop.raw_induct [OF _ y]) (auto split: if_splits)
    then show False using that by blast
  qed
  ultimately show ?thesis
    using assms(5,9,10) by (simp add: commit_def core_frames not_le)
qed

theorem replayed_block_hangs_commit_witness:
  "snd (commit demo_env (storeBlock demo_env solo_start (blk3\<lparr>blk_Qc := solo_qc blk3, blk_Tc := None\<rparr>))
     (blk3\<lparr>blk_Qc := solo_qc blk3, blk_Tc := None\<rparr>)) = Hang"
proof -
  have ver: "Block_Verify demo_env solo_committee blk3 = None"
    unfolding blk3_def by (rule solo_block_verify) (simp add: solo_qc_verify)
  have "store_ok demo_env (c_store solo_start)" by (simp add: solo_started(5))
  from replayed_block_hangs_commit [OF ver solo_qc_verify _ _ refl demo_proto_ok this demo_Marshal]
  show ?thesis using solo_started(4) by simp
qed

subsection \<open>Progress\<close>

text \<open>Handling a list of votes one after the other.\<close>

definition handle_votes ::
  "('sk, 'p1, 'p2, 'agg, 'db, 'z) env_scheme \<Rightarrow> ('agg, 'db) core \<Rightarrow> vote list \<Rightarrow> ('agg, 'db) core" where
  "handle_votes E = foldl (\<lambda>c v. fst (handleVote E c v))"

text \<open>The maker that the aggregator has for a vote.\<close>

definition maker_for ::
  "('sk, 'p1, 'p2, 'agg, 'z) crypto_lib_scheme \<Rightarrow> 'agg aggregator \<Rightarrow> Round \<Rightarrow> Digest \<Rightarrow> 'agg qcMaker" where
  "maker_for L a r d = (case ag_voteAggregators a r of
     Some rm \<Rightarrow> (case rm d of Some m \<Rightarrow> m | None \<Rightarrow> NewQcMaker L) | None \<Rightarrow> NewQcMaker L)"

lemma AddVote_maker:
  assumes "AddVote L a v = (a', r)"
  shows "qcMaker_append L (ag_committee a) (maker_for L a (v_round v) (vote_Digest L v)) v =
      (maker_for L a' (v_round v) (vote_Digest L v), r)"
    and "ag_committee a' = ag_committee a"
  using assms
  by (auto simp: AddVote_def maker_for_def Let_def case_prod_unfold split: option.splits)

lemma handleVote_stale: "v_round v < c_round c \<Longrightarrow> handleVote E c v = (c, Ret None)"
  by (simp add: handleVote_def)

lemma handle_votes_stale:
  "(\<And>v. v \<in> set vs \<Longrightarrow> v_round v < c_round c) \<Longrightarrow> handle_votes E c vs = c"
  by (induction vs) (simp_all add: handle_votes_def handleVote_stale)

lemma handleVote_certificate:
  assumes "c_round c \<le> v_round v" "vote_verify E (c_committee c) v = None"
    and "AddVote E (c_aggregator c) v = (a, Inr (Some qc))" "qc_Round qc = v_round v"
  shows "c_round (fst (handleVote E c v)) = v_round v + 1
    \<and> v_round v \<le> qc_Round (c_highQC (fst (handleVote E c v)))"
proof -
  let ?c1 = "processQC (c\<lparr>c_aggregator := a\<rparr>) qc"
  have "c_round ?c1 = v_round v + 1"
    using assms(1,4) by (auto simp: processQC_def updateHighQc_frames advanceRound_round)
  moreover have "v_round v \<le> qc_Round (c_highQC ?c1)"
    using processQC_highQC [of qc "c\<lparr>c_aggregator := a\<rparr>"] assms(4) by simp
  moreover have "c_round (fst (handleVote E c v)) = c_round ?c1
      \<and> c_highQC (fst (handleVote E c v)) = c_highQC ?c1"
    using assms(1-3)
    by (auto simp: handleVote_def Let_def generateProposal_def not_less split: sum.splits)
  ultimately show ?thesis by simp
qed

lemma handleVote_pending:
  assumes "c_round c \<le> v_round v" "vote_verify E (c_committee c) v = None"
    and "AddVote E (c_aggregator c) v = (a, r)" "\<And>qc. r \<noteq> Inr (Some qc)"
  shows "fst (handleVote E c v) = c\<lparr>c_aggregator := a\<rparr>"
  using assms by (cases r; cases "projr r") (auto simp: handleVote_def not_less)

lemma collected_certificate_advances:
  assumes "c_round c \<le> r" "unat r < 2 ^ 64 - 1" "ag_committee (c_aggregator c) = c_committee c"
    and "\<And>v. v \<in> set vs \<Longrightarrow> vote_verify E (c_committee c) v = None \<and> v_round v = r \<and> vote_Digest E v = d"
    and "qm_wf (maker_for E (c_aggregator c) r d)"
    and "snd (collect (qcMaker_append E (c_committee c)) (maker_for E (c_aggregator c) r d) vs) \<noteq> []"
  shows "c_round (handle_votes E c vs) = r + 1 \<and> r \<le> qc_Round (c_highQC (handle_votes E c vs))"
  using assms
proof (induction vs arbitrary: c)
  case (Cons v vs)
  have v: "vote_verify E (c_committee c) v = None" "v_round v = r" "vote_Digest E v = d"
    using Cons.prems(4) by simp_all
  obtain a res where add: "AddVote E (c_aggregator c) v = (a, res)" by fastforce
  note mk = AddVote_maker [OF add]
  have app: "qcMaker_append E (c_committee c) (maker_for E (c_aggregator c) r d) v = (maker_for E a r d, res)"
    using mk(1) v Cons.prems(3) by simp
  have fold: "handle_votes E c (v # vs) = handle_votes E (fst (handleVote E c v)) vs"
    by (simp add: handle_votes_def)
  show ?case
  proof (cases "\<exists>qc. res = Inr (Some qc)")
    case True
    then obtain qc where qc: "res = Inr (Some qc)" by blast
    have "qc_Round qc = v_round v"
      using app qc by (auto simp: qcMaker_append_def Let_def case_prod_unfold split: if_splits option.splits)
    from handleVote_certificate [OF _ v(1) add [unfolded qc] this] v(2) Cons.prems(1)
    have step: "c_round (fst (handleVote E c v)) = r + 1"
        "r \<le> qc_Round (c_highQC (fst (handleVote E c v)))" by simp_all
    have "r < r + 1" using Cons.prems(2) by (simp add: word_less_nat_alt unat_word_ariths)
    then have "handle_votes E (fst (handleVote E c v)) vs = fst (handleVote E c v)"
      using step(1) Cons.prems(4) by (intro handle_votes_stale) auto
    then show ?thesis using fold step by simp
  next
    case False
    have step: "fst (handleVote E c v) = c\<lparr>c_aggregator := a\<rparr>"
      using handleVote_pending [OF _ v(1) add] v(2) Cons.prems(1) False by simp
    have wf: "qm_wf (maker_for E a r d)"
      using app Cons.prems(5) qcMaker_append_fresh [OF Cons.prems(5) _ app]
        qcMaker_append_used [OF Cons.prems(5), of v E "c_committee c"]
      by (cases "v_author v \<in> set (qm_voters (maker_for E (c_aggregator c) r d))") auto
    have "snd (collect (qcMaker_append E (c_committee c)) (maker_for E a r d) vs) \<noteq> []"
      using Cons.prems(6) app False
      by (cases res; cases "projr res") (auto simp: case_prod_unfold)
    then show ?thesis
      unfolding fold step using Cons.prems(1-4) mk(2) wf by (intro Cons.IH) auto
  qed
qed simp

text \<open>
  A quorum of verified votes for one block moves a node on: whatever votes for it come in between
  and in whatever order, after them the node is in the round after the block's and its high QC is at
  least for the block's round, provided it had no votes for the block before.
\<close>

theorem quorum_of_votes_advances_round:
  assumes "stake_fits (c_committee c)" "bls_ok E" "ag_committee (c_aggregator c) = c_committee c"
    and "c_round c \<le> r" "unat r < 2 ^ 64 - 1" "maker_for E (c_aggregator c) r d = NewQcMaker E"
    and "\<And>v. v \<in> set vs \<Longrightarrow> vote_verify E (c_committee c) v = None \<and> v_round v = r \<and> vote_Digest E v = d"
    and "unat (QuorumThreshold (c_committee c)) \<le>
      (\<Sum>k\<in>v_author ` set vs. unat (Committee_Stake (c_committee c) k))"
  shows "c_round (handle_votes E c vs) = r + 1 \<and> r \<le> qc_Round (c_highQC (handle_votes E c vs))"
proof (rule collected_certificate_advances [OF assms(4,5,3,7)])
  have "length (snd (collect (qcMaker_append E (c_committee c)) (NewQcMaker E) vs)) = 1"
    by (rule qm.quorum_yields_certificate [OF _ assms(1)])
      (use assms(2,7,8) in \<open>auto simp: word_neq_0_conv [symmetric] QuorumThreshold_nonzero
        qcMaker_append_verified\<close>)
  then show "snd (collect (qcMaker_append E (c_committee c)) (maker_for E (c_aggregator c) r d) vs) \<noteq> []"
    using assms(6) by auto
qed (simp_all add: assms(6))

theorem quorum_of_votes_advances_round_witness:
  "c_round (handle_votes demo_env solo_start [solo_vote blk1]) = 2"
proof -
  have solo: "c_committee solo_start = solo_committee" "c_round solo_start = 1"
      "ag_committee (c_aggregator solo_start) = solo_committee"
      "ag_voteAggregators (c_aggregator solo_start) 1 = None"
    using solo_started(2) by (simp_all add: solo_core_def)
  have "c_round (handle_votes demo_env solo_start [solo_vote blk1]) = 1 + 1
      \<and> 1 \<le> qc_Round (c_highQC (handle_votes demo_env solo_start [solo_vote blk1]))"
    by (rule quorum_of_votes_advances_round [where d = "vote_Digest demo_env (solo_vote blk1)"])
      (simp_all add: solo solo_vote_verify solo_stake solo_threshold demo_env_bls_ok maker_for_def)
  then show ?thesis by simp
qed

end
