(* ===== verification/Acks.thy ===== *)
theory Acks
  imports MempoolConfig
begin

text \<open>
  Waiting for acknowledgements, as \<open>quorumWaiter.run\<close> of the mempool and \<open>Proposer.makeBlock\<close> of
  consensus do it: one goroutine per broadcast target waits for the reply and then delivers the
  stake of the target, one more delivers the node's own stake, and a loop adds up what is delivered.
  \<open>acks\<close> is the state of such a wait: who has not delivered yet, and the sum, which wraps at \<open>2^32\<close>.
  The facts are proved once in the locale \<open>quorum_committee\<close>, for either committee.
\<close>

record 'k acks =
  ak_names :: "'k list"
  ak_waiting :: "nat list"
  ak_own :: bool
  ak_total :: Stake

datatype ack_event = AckReply nat | AckOwn

definition start_acks :: "'k list \<Rightarrow> 'k acks" where
  "start_acks names =
     \<lparr>ak_names = names, ak_waiting = [0..<length names], ak_own = True, ak_total = 0\<rparr>"

definition ack_step :: "('k \<Rightarrow> Stake) \<Rightarrow> Stake \<Rightarrow> 'k acks \<Rightarrow> ack_event \<Rightarrow> 'k acks option" where
  "ack_step stake own w ev =
     (case ev of
        AckReply i \<Rightarrow>
          if i \<in> set (ak_waiting w)
          then Some (w\<lparr>ak_waiting := remove1 i (ak_waiting w),
                       ak_total := ak_total w + stake (ak_names w ! i)\<rparr>)
          else None
      | AckOwn \<Rightarrow>
          if ak_own w then Some (w\<lparr>ak_own := False, ak_total := ak_total w + own\<rparr>) else None)"

primrec ack_run :: "('k \<Rightarrow> Stake) \<Rightarrow> Stake \<Rightarrow> 'k acks \<Rightarrow> ack_event list \<Rightarrow> 'k acks option" where
  "ack_run stake own w [] = Some w"
| "ack_run stake own w (ev # evs) =
     (case ack_step stake own w ev of None \<Rightarrow> None | Some w1 \<Rightarrow> ack_run stake own w1 evs)"

text \<open>The nodes that have acknowledged, in order.\<close>

fun acked :: "'k \<Rightarrow> 'k list \<Rightarrow> ack_event list \<Rightarrow> 'k list" where
  "acked me names [] = []"
| "acked me names (AckReply i # evs) = names ! i # acked me names evs"
| "acked me names (AckOwn # evs) = me # acked me names evs"

lemma acked_append: "acked me names (xs @ ys) = acked me names xs @ acked me names ys"
  by (induction me names xs rule: acked.induct) auto

lemma ack_run_snoc:
  "ack_run stake own w (evs @ [ev]) =
     (case ack_run stake own w evs of None \<Rightarrow> None | Some w1 \<Rightarrow> ack_step stake own w1 ev)"
  by (induction evs arbitrary: w) (auto split: option.splits)

text \<open>Everyone is counted at most once, with their stake, and whoever is still waited for is not counted.\<close>

definition acks_inv :: "('k \<Rightarrow> Stake) \<Rightarrow> 'k \<Rightarrow> 'k list \<Rightarrow> ack_event list \<Rightarrow> 'k acks \<Rightarrow> bool" where
  "acks_inv stake me names evs w \<longleftrightarrow>
     ak_names w = names \<and> distinct (ak_waiting w)
     \<and> (\<forall>i\<in>set (ak_waiting w). i < length names \<and> names ! i \<notin> set (acked me names evs))
     \<and> (ak_own w \<longrightarrow> me \<notin> set (acked me names evs))
     \<and> distinct (acked me names evs)
     \<and> ak_total w = foldl (+) 0 (map stake (acked me names evs))"

lemma ack_step_inv:
  assumes "distinct names" "me \<notin> set names"
    and "acks_inv stake me names evs w" "ack_step stake (stake me) w ev = Some w'"
  shows "acks_inv stake me names (evs @ [ev]) w'"
proof (cases ev)
  case (AckReply i)
  then have i: "i \<in> set (ak_waiting w)" and w': "w' = w\<lparr>ak_waiting := remove1 i (ak_waiting w),
      ak_total := ak_total w + stake (ak_names w ! i)\<rparr>"
    using assms(4) by (auto simp: ack_step_def split: if_splits)
  have less: "i < length names" using i assms(3) by (simp add: acks_inv_def)
  then have "names ! i \<noteq> me" using assms(2) by auto
  moreover have "names ! j \<noteq> names ! i" if "j \<in> set (remove1 i (ak_waiting w))" for j
    using that assms(1,3) less by (auto simp: acks_inv_def nth_eq_iff_index_eq)
  ultimately show ?thesis
    using assms(3) i AckReply unfolding w' by (auto simp: acks_inv_def acked_append)
next
  case AckOwn
  then have "ak_own w" "w' = w\<lparr>ak_own := False, ak_total := ak_total w + stake me\<rparr>"
    using assms(4) by (auto simp: ack_step_def split: if_splits)
  then show ?thesis
    using assms(2,3) AckOwn by (auto simp: acks_inv_def acked_append)
qed

lemma ack_run_inv:
  assumes "distinct names" "me \<notin> set names"
    and "ack_run stake (stake me) (start_acks names) evs = Some w"
  shows "acks_inv stake me names evs w"
  using assms(3)
proof (induction evs arbitrary: w rule: rev_induct)
  case Nil
  then show ?case by (auto simp: acks_inv_def start_acks_def)
next
  case (snoc ev evs)
  then show ?case
    using ack_step_inv [OF assms(1,2)] by (auto simp: ack_run_snoc split: option.splits)
qed

context quorum_committee
begin

lemma ack_run_reaches:
  assumes "fits c" "distinct names" "me \<notin> set names"
    and "ack_run (stake c) (stake c me) (start_acks names) evs = Some w"
  shows "threshold c \<le> ak_total w
    \<longleftrightarrow> unat (threshold c) \<le> (\<Sum>k\<in>set (acked me names evs). unat (stake c k))"
proof -
  have "distinct (acked me names evs)"
    and "ak_total w = foldl (+) 0 (map (stake c) (acked me names evs))"
    using ack_run_inv [OF assms(2-4)] by (simp_all add: acks_inv_def)
  then show ?thesis using acked_stake_reaches [OF assms(1)] by simp
qed

end

end
