(* ===== verification/Senders.thy ===== *)
theory Senders
  imports Committee "HOL-Library.Sublist" "HOL-Library.Multiset"
begin

text \<open>
  \<open>network/reliablesender.go\<close>, \<open>network/simplesender.go\<close> and \<open>network/receiver.go\<close>: how messages leave
  a node and how they are taken in. libp2p is not modelled: whether a connection attempt, a write or
  a read succeeds is part of an event. A connection of the reliable sender is \<open>reliableConnection\<close>;
  \<open>rc_step\<close> is one event of its \<open>run\<close> and \<open>keepAlive\<close> loops, None where the event cannot happen. The
  locale \<open>fifo_link\<close> is the contract of a link that keeps the order of what it carries and loses
  nothing but what it reports as dropped.
\<close>

subsection \<open>The contract of a link\<close>

text \<open>\<open>run_steps\<close> performs events in order; \<open>each f\<close> collects what \<open>f\<close> finds in a list, in order.\<close>

primrec run_steps ::
  "('s \<Rightarrow> 'e \<Rightarrow> ('s \<times> 'o list) option) \<Rightarrow> 's \<Rightarrow> 'e list \<Rightarrow> ('s \<times> 'o list) option" where
  "run_steps step s [] = Some (s, [])"
| "run_steps step s (e # es) =
     (case step s e of
        None \<Rightarrow> None
      | Some (s1, out1) \<Rightarrow>
          (case run_steps step s1 es of None \<Rightarrow> None | Some (s2, out2) \<Rightarrow> Some (s2, out1 @ out2)))"

definition each :: "('a \<Rightarrow> 'b list) \<Rightarrow> 'a list \<Rightarrow> 'b list" where
  "each f xs = concat (map f xs)"

lemma each_simps [simp]:
  "each f [] = []" "each f (x # xs) = f x @ each f xs" "each f (xs @ ys) = each f xs @ each f ys"
  by (simp_all add: each_def)

lemma in_each: "y \<in> set (each f xs) \<longleftrightarrow> (\<exists>x\<in>set xs. y \<in> set (f x))"
  by (auto simp: each_def)

lemma run_steps_ConsE:
  assumes "run_steps step s (e # es) = Some (s', out)"
  obtains s1 out1 out2 where "step s e = Some (s1, out1)" "run_steps step s1 es = Some (s', out2)"
    "out = out1 @ out2"
  using assms by (auto split: option.splits)

text \<open>
  The specification: a first-in first-out queue, a step of which either takes in and gives out
  messages at its ends, or drops one message of it.
\<close>

definition fifo_moves ::
  "'m list \<Rightarrow> 'm list \<Rightarrow> 'm list \<Rightarrow> 'm list \<Rightarrow> 'm list \<Rightarrow> bool" where
  "fifo_moves q ins outs drops q' \<longleftrightarrow>
     q @ ins = outs @ q' \<and> drops = []
   \<or> ins = [] \<and> outs = [] \<and> (\<exists>xs m ys. q = xs @ m # ys \<and> q' = xs @ ys \<and> drops = [m])"

lemma fifo_moves_order:
  assumes "fifo_moves q ins outs drops q'"
  shows "subseq (outs @ q') (q @ ins)" and "mset (q @ ins) = mset (outs @ q') + mset drops"
proof -
  have drop: "subseq (xs @ ys) (xs @ m # ys)" for xs ys and m :: 'a
    by (intro list_emb_append_mono) auto
  consider "q @ ins = outs @ q'" "drops = []"
    | xs m ys where "ins = []" "outs = []" "q = xs @ m # ys" "q' = xs @ ys" "drops = [m]"
    using assms by (auto simp: fifo_moves_def)
  then have "subseq (outs @ q') (q @ ins) \<and> mset (q @ ins) = mset (outs @ q') + mset drops"
  proof cases
    case 1
    show ?thesis unfolding 1 by simp
  next
    case (2 xs m ys)
    then show ?thesis using drop [of xs ys m] by simp
  qed
  then show "subseq (outs @ q') (q @ ins)" "mset (q @ ins) = mset (outs @ q') + mset drops"
    by blast+
qed

lemma chain_sums:
  fixes x :: "'a multiset"
  assumes "x = a + q + d" "q + e = b + r + f"
  shows "x + e = (a + b + r) + (d + f)"
proof -
  have "x + e = a + d + (q + e)" unfolding assms(1) by (simp add: add_ac)
  then show ?thesis unfolding assms(2) by (simp add: add_ac)
qed

locale fifo_link =
  fixes step :: "'s \<Rightarrow> 'e \<Rightarrow> ('s \<times> 'o list) option"
    and queue :: "'s \<Rightarrow> 'm list"
    and submitted :: "'e \<Rightarrow> 'm list"
    and answered :: "'o \<Rightarrow> 'm list"
    and dropped :: "'o \<Rightarrow> 'm list"
  assumes moves: "step s e = Some (s', out) \<Longrightarrow>
    fifo_moves (queue s) (submitted e) (each answered out) (each dropped out) (queue s')"
begin

lemma run_order:
  "run_steps step s es = Some (s', out) \<Longrightarrow>
     subseq (each answered out @ queue s') (queue s @ each submitted es)
     \<and> mset (queue s @ each submitted es) = mset (each answered out @ queue s') + mset (each dropped out)"
proof (induction es arbitrary: s out)
  case (Cons e es)
  from Cons.prems obtain s1 out1 out2 where first: "step s e = Some (s1, out1)"
      and rest: "run_steps step s1 es = Some (s', out2)" and out: "out = out1 @ out2"
    by (rule run_steps_ConsE)
  note ih = Cons.IH [OF rest]
  note one = fifo_moves_order [OF moves [OF first]]
  have "subseq (each answered out1 @ each answered out2 @ queue s')
      (each answered out1 @ queue s1 @ each submitted es)"
    by (rule list_emb_append_mono) (use ih in simp_all)
  moreover have "subseq ((each answered out1 @ queue s1) @ each submitted es)
      ((queue s @ submitted e) @ each submitted es)"
    by (rule list_emb_append_mono) (use one in simp_all)
  ultimately have order: "subseq (each answered out1 @ each answered out2 @ queue s')
      (queue s @ submitted e @ each submitted es)"
    unfolding append.assoc by (rule subseq_order.trans)
  have "mset (queue s @ submitted e)
      = mset (each answered out1) + mset (queue s1) + mset (each dropped out1)"
    using one(2) by simp
  moreover have "mset (queue s1) + mset (each submitted es)
      = mset (each answered out2) + mset (queue s') + mset (each dropped out2)"
    using ih by simp
  ultimately have "mset (queue s @ submitted e) + mset (each submitted es)
      = mset (each answered out1) + mset (each answered out2) + mset (queue s')
        + (mset (each dropped out1) + mset (each dropped out2))"
    by (rule chain_sums)
  with order show ?case by (simp add: out add.assoc)
qed simp

lemma nothing_dropped_in_order:
  assumes "run_steps step s es = Some (s', out)" "each dropped out = []"
  shows "queue s @ each submitted es = each answered out @ queue s'"
proof -
  have "mset (queue s @ each submitted es) = mset (each answered out @ queue s')"
    using run_order [OF assms(1)] assms(2) by simp
  then have "length (each answered out @ queue s') = length (queue s @ each submitted es)"
    by (rule mset_eq_length [symmetric])
  with run_order [OF assms(1)] show ?thesis using subseq_same_length by metis
qed

end

subsection \<open>A connection of the reliable sender\<close>

definition RELIABLE_RETRY_DELAY :: u64 where
  "RELIABLE_RETRY_DELAY = 200"

text \<open>A context and a response channel are numbers.\<close>

record innerMessage =
  im_ctx :: nat
  im_data :: "byte list"
  im_response :: nat

text \<open>
  \<open>rc_pendingReplies\<close> is None while the connection is down, that is outside \<open>keepAlive\<close>. The two
  counters of \<open>run\<close> are kept although nothing reads them.
\<close>

record reliableConnection =
  rc_address :: PeerID
  rc_retryDelay :: u64
  rc_buffer :: "innerMessage list"
  rc_pendingReplies :: "innerMessage list option"
  rc_delay :: u64
  rc_retry :: int

definition SpawnConnection :: "PeerID \<Rightarrow> reliableConnection" where
  "SpawnConnection address =
     \<lparr>rc_address = address, rc_retryDelay = RELIABLE_RETRY_DELAY, rc_buffer = [],
      rc_pendingReplies = None, rc_delay = RELIABLE_RETRY_DELAY, rc_retry = 0\<rparr>"

text \<open>
  The events: the outcome of \<open>dhtConnect\<close>; the end of the timer after a failed attempt; a message on
  \<open>receiver\<close>; one round of the loop that empties the buffer, with the cancelled contexts and whether
  the write succeeds; data from the peer; the end of the stream.
\<close>

datatype rc_event =
    RcConnected
  | RcRetryTimer
  | RcReceive innerMessage
  | RcFlush "nat set" bool
  | RcData "byte list"
  | RcReadBroke

datatype rc_out =
    RcWrote innerMessage
  | RcResponse innerMessage "byte list"
  | RcSkipped innerMessage

text \<open>\<open>keepAlive\<close> returns: the messages without reply go back to the front of the buffer, last first.\<close>

fun requeue :: "innerMessage list \<Rightarrow> innerMessage list \<Rightarrow> innerMessage list" where
  "requeue pendingReplies buffer =
     (if length pendingReplies \<noteq> 0 then requeue (butlast pendingReplies) (last pendingReplies # buffer)
      else buffer)"

declare requeue.simps [simp del]

definition rc_leave :: "reliableConnection \<Rightarrow> reliableConnection" where
  "rc_leave c = (case rc_pendingReplies c of
     None \<Rightarrow> c
   | Some p \<Rightarrow> c\<lparr>rc_buffer := requeue p (rc_buffer c), rc_pendingReplies := None\<rparr>)"

fun rc_flush ::
  "reliableConnection \<Rightarrow> innerMessage list \<Rightarrow> nat set \<Rightarrow> bool
     \<Rightarrow> (reliableConnection \<times> rc_out list) option" where
  "rc_flush c p cancelled written =
     (case rc_buffer c of
        [] \<Rightarrow> None
      | msg # buffer \<Rightarrow>
          if im_ctx msg \<in> cancelled then Some (c\<lparr>rc_buffer := buffer\<rparr>, [RcSkipped msg])
          else if written then
            Some (c\<lparr>rc_buffer := buffer, rc_pendingReplies := Some (p @ [msg])\<rparr>, [RcWrote msg])
          else Some (rc_leave (c\<lparr>rc_buffer := msg # buffer\<rparr>), []))"

definition rc_step ::
  "reliableConnection \<Rightarrow> rc_event \<Rightarrow> (reliableConnection \<times> rc_out list) option" where
  "rc_step c ev =
     (case rc_pendingReplies c of
        None \<Rightarrow>
          (case ev of
             RcConnected \<Rightarrow>
               Some (c\<lparr>rc_pendingReplies := Some [], rc_delay := rc_retryDelay c, rc_retry := 0\<rparr>, [])
           | RcRetryTimer \<Rightarrow>
               Some (c\<lparr>rc_delay := min (2 * rc_delay c) 60000, rc_retry := rc_retry c + 1\<rparr>, [])
           | RcReceive msg \<Rightarrow> Some (c\<lparr>rc_buffer := rc_buffer c @ [msg]\<rparr>, [])
           | _ \<Rightarrow> None)
      | Some p \<Rightarrow>
          if rc_buffer c \<noteq> [] then
            (case ev of RcFlush cancelled written \<Rightarrow> rc_flush c p cancelled written | _ \<Rightarrow> None)
          else
            (case ev of
               RcReceive msg \<Rightarrow> Some (c\<lparr>rc_buffer := rc_buffer c @ [msg]\<rparr>, [])
             | RcReadBroke \<Rightarrow> Some (rc_leave c, [])
             | RcData response \<Rightarrow>
                 (case p of
                    [] \<Rightarrow> Some (rc_leave c, [])
                  | msg # p1 \<Rightarrow>
                      Some (c\<lparr>rc_pendingReplies := Some p1\<rparr>, [RcResponse msg response]))
             | _ \<Rightarrow> None))"

subsection \<open>The connection as a link\<close>

definition rc_queue :: "reliableConnection \<Rightarrow> innerMessage list" where
  "rc_queue c = (case rc_pendingReplies c of None \<Rightarrow> [] | Some p \<Rightarrow> p) @ rc_buffer c"

fun rc_submitted :: "rc_event \<Rightarrow> innerMessage list" where
  "rc_submitted (RcReceive msg) = [msg]"
| "rc_submitted _ = []"

fun rc_answered :: "rc_out \<Rightarrow> innerMessage list" where
  "rc_answered (RcResponse msg data) = [msg]"
| "rc_answered _ = []"

fun rc_skipped :: "rc_out \<Rightarrow> innerMessage list" where
  "rc_skipped (RcSkipped msg) = [msg]"
| "rc_skipped _ = []"

lemma requeue_append: "requeue p b = p @ b"
proof (induction p arbitrary: b rule: rev_induct)
  case (snoc x p)
  have "requeue (p @ [x]) b = requeue p (x # b)" by (subst requeue.simps) simp
  then show ?case by (simp add: snoc.IH)
qed (simp add: requeue.simps)

lemma rc_leave_queue: "rc_queue (rc_leave c) = rc_queue c"
  by (simp add: rc_leave_def rc_queue_def requeue_append split: option.splits)

lemma fifo_skip: "fifo_moves (p @ m # b) [] [] [m] (p @ b)"
  by (auto simp: fifo_moves_def)

interpretation rl: fifo_link rc_step rc_queue rc_submitted rc_answered rc_skipped
proof unfold_locales
  fix c ev c' out assume step: "rc_step c ev = Some (c', out)"
  show "fifo_moves (rc_queue c) (rc_submitted ev) (each rc_answered out) (each rc_skipped out) (rc_queue c')"
  proof (cases "rc_pendingReplies c")
    case None
    then show ?thesis using step
      by (cases ev) (auto simp: rc_step_def rc_queue_def fifo_moves_def)
  next
    case (Some p)
    show ?thesis
    proof (cases "rc_buffer c")
      case Nil
      then show ?thesis using step Some
        by (cases ev; cases p)
          (auto simp: rc_step_def rc_queue_def rc_leave_def requeue_append fifo_moves_def)
    next
      case (Cons msg buffer)
      then obtain cancelled written where ev: "ev = RcFlush cancelled written"
        using step Some by (auto simp: rc_step_def split: rc_event.splits)
      have queue: "rc_queue c = p @ msg # buffer" using Some Cons by (simp add: rc_queue_def)
      show ?thesis
      proof (cases "im_ctx msg \<in> cancelled")
        case True
        then show ?thesis using step Some Cons ev fifo_skip [of p msg buffer]
          by (auto simp: rc_step_def rc_queue_def)
      next
        case False
        then have "rc_queue c' = rc_queue c" "each rc_answered out = []" "each rc_skipped out = []"
          using step Some Cons ev
          by (auto simp: rc_step_def rc_queue_def rc_leave_def requeue_append split: if_splits)
        then show ?thesis using ev by (simp add: fifo_moves_def)
      qed
    qed
  qed
qed

lemma rc_skipped_cancelled:
  assumes "rc_step c ev = Some (c', out)" "m \<in> set (each rc_skipped out)"
  shows "\<exists>cancelled written. ev = RcFlush cancelled written \<and> im_ctx m \<in> cancelled"
proof (cases "rc_pendingReplies c")
  case None
  then show ?thesis using assms by (cases ev) (auto simp: rc_step_def)
next
  case (Some p)
  show ?thesis
  proof (cases "rc_buffer c")
    case Nil
    then show ?thesis using assms Some by (cases ev; cases p) (auto simp: rc_step_def)
  next
    case (Cons msg buffer)
    then obtain cancelled written where "ev = RcFlush cancelled written"
      using assms(1) Some by (auto simp: rc_step_def split: rc_event.splits)
    then show ?thesis using assms Some Cons by (auto simp: rc_step_def split: if_splits)
  qed
qed

lemma rc_run_skipped:
  "run_steps rc_step c evs = Some (c', out) \<Longrightarrow> m \<in> set (each rc_skipped out) \<Longrightarrow>
     \<exists>cancelled written. RcFlush cancelled written \<in> set evs \<and> im_ctx m \<in> cancelled"
proof (induction evs arbitrary: c out)
  case (Cons ev evs)
  from Cons.prems(1) obtain c1 out1 out2 where first: "rc_step c ev = Some (c1, out1)"
      and rest: "run_steps rc_step c1 evs = Some (c', out2)" and out: "out = out1 @ out2"
    by (rule run_steps_ConsE)
  from Cons.prems(2) consider "m \<in> set (each rc_skipped out1)" | "m \<in> set (each rc_skipped out2)"
    by (auto simp: out)
  then show ?case
  proof cases
    case 1
    then show ?thesis using rc_skipped_cancelled [OF first 1] by (metis list.set_intros(1))
  next
    case 2
    then show ?thesis using Cons.IH [OF rest 2] by (meson list.set_intros(2))
  qed
qed simp

subsection \<open>The reliable sender\<close>

text \<open>
  \<open>Send\<close> offers a message on the channel of the peer's connection, starting the connection on first
  use, and returns the channel on which the reply will come, here its number. The send ends when the
  connection takes the message, an event \<open>RcReceive\<close>.
\<close>

record ReliableSender =
  rs_connections :: "PeerID \<Rightarrow> reliableConnection option"
  rs_nextResponse :: nat

definition NewReliableSender :: ReliableSender where
  "NewReliableSender = \<lparr>rs_connections = Map.empty, rs_nextResponse = 0\<rparr>"

definition rs_Send ::
  "ReliableSender \<Rightarrow> nat \<Rightarrow> PeerID \<Rightarrow> byte list
     \<Rightarrow> ReliableSender \<times> (PeerID \<times> innerMessage) \<times> nat" where
  "rs_Send sender ctx address data =
     (let responseCh = rs_nextResponse sender;
          sender1 = sender\<lparr>rs_nextResponse := Suc responseCh\<rparr>;
          sender2 = (case rs_connections sender1 address of
             Some _ \<Rightarrow> sender1
           | None \<Rightarrow> sender1\<lparr>rs_connections :=
               (rs_connections sender1)(address \<mapsto> SpawnConnection address)\<rparr>)
      in (sender2,
          (address, \<lparr>im_ctx = ctx, im_data = data, im_response = responseCh\<rparr>), responseCh))"

fun rs_Broadcast ::
  "ReliableSender \<Rightarrow> nat \<Rightarrow> PeerID list \<Rightarrow> byte list
     \<Rightarrow> ReliableSender \<times> (PeerID \<times> innerMessage) list \<times> nat list" where
  "rs_Broadcast sender ctx [] data = (sender, [], [])"
| "rs_Broadcast sender ctx (a # addresses) data =
     (let (sender1, offer, response) = rs_Send sender ctx a data;
          (sender2, offers, responses) = rs_Broadcast sender1 ctx addresses data
      in (sender2, offer # offers, response # responses))"

text \<open>\<open>shuffled\<close> is the outcome of \<open>rand.Shuffle\<close>, a permutation of the addresses.\<close>

definition rs_LuckyBroadcast ::
  "ReliableSender \<Rightarrow> nat \<Rightarrow> PeerID list \<Rightarrow> byte list \<Rightarrow> u64
     \<Rightarrow> ReliableSender \<times> (PeerID \<times> innerMessage) list \<times> nat list" where
  "rs_LuckyBroadcast sender ctx shuffled data nodes =
     rs_Broadcast sender ctx
       (if nodes < of_nat (length shuffled) then take (unat nodes) shuffled else shuffled) data"

lemma rs_Broadcast_spec:
  "rs_Broadcast sender ctx addresses data = (sender', offers, responses) \<Longrightarrow>
     map fst offers = addresses \<and> length responses = length addresses
     \<and> responses = [rs_nextResponse sender..<rs_nextResponse sender']
     \<and> map (im_response \<circ> snd) offers = responses
     \<and> (\<forall>(a, m)\<in>set offers. im_ctx m = ctx \<and> im_data m = data)
     \<and> (\<forall>a\<in>set addresses. rs_connections sender' a \<noteq> None)
     \<and> rs_nextResponse sender \<le> rs_nextResponse sender'
     \<and> (\<forall>a. rs_connections sender a \<noteq> None \<longrightarrow> rs_connections sender' a = rs_connections sender a)"
proof (induction addresses arbitrary: sender sender' offers responses)
  case (Cons a addresses)
  obtain sender1 offer response where one: "rs_Send sender ctx a data = (sender1, offer, response)"
    by (metis prod_cases3)
  obtain sender2 offers2 responses2 where
      rest: "rs_Broadcast sender1 ctx addresses data = (sender2, offers2, responses2)"
    by (metis prod_cases3)
  have result: "sender' = sender2" "offers = offer # offers2" "responses = response # responses2"
    using Cons.prems one rest by auto
  have send: "rs_nextResponse sender1 = Suc (rs_nextResponse sender)" "response = rs_nextResponse sender"
      "fst offer = a" "im_response (snd offer) = response" "im_ctx (snd offer) = ctx"
      "im_data (snd offer) = data" "rs_connections sender1 a \<noteq> None"
    using one by (auto simp: rs_Send_def Let_def split: option.splits)
  have keep: "rs_connections sender1 b = rs_connections sender b"
    if "rs_connections sender b \<noteq> None" for b
    using one that by (auto simp: rs_Send_def Let_def split: option.splits)
  note ih = Cons.IH [OF rest]
  have "responses = [rs_nextResponse sender..<rs_nextResponse sender2]"
    using ih send result(3) by (simp add: upt_conv_Cons)
  then show ?case
    using ih send keep unfolding result by (auto simp: case_prod_unfold)
qed simp

end
