(* ===== verification/SimpleNet.thy ===== *)
theory SimpleNet
  imports Senders
begin

text \<open>
  \<open>network/simplesender.go\<close>, whose messages are sent without acknowledgement, and
  \<open>network/receiver.go\<close>, the loop that reads messages from a stream and dispatches them. A connection
  of the simple sender is the second instance of \<open>fifo_link\<close>: it keeps the order, and drops the
  message whose write fails. After that its goroutine has ended, and messages stay in its channel.
\<close>

subsection \<open>A connection of the simple sender\<close>

datatype sc_error = LocateFailed | ConnectFailed | StreamFailed | WriteBroke

datatype sc_stage = Connecting | Transmitting | Ended

record connection =
  sc_pid :: PeerID
  sc_receiver :: "byte list list"
  sc_errCh :: "sc_error option"
  sc_stage :: sc_stage

definition spawnConnection :: "PeerID \<Rightarrow> connection" where
  "spawnConnection pid =
     \<lparr>sc_pid = pid, sc_receiver = [], sc_errCh = None, sc_stage = Connecting\<rparr>"

datatype sc_event =
    ScSend "byte list"
  | ScConnected
  | ScConnectFailed sc_error
  | ScWrite bool
  | ScTakeError

datatype sc_out = ScWrote "byte list" | ScLost "byte list"

text \<open>\<open>ScSend\<close> and \<open>ScTakeError\<close> are the two cases of the \<open>select\<close> in \<open>Send\<close>, the others are \<open>run\<close>.\<close>

definition sc_step :: "connection \<Rightarrow> sc_event \<Rightarrow> (connection \<times> sc_out list) option" where
  "sc_step c ev =
     (case ev of
        ScSend data \<Rightarrow>
          if length (sc_receiver c) < 1000
          then Some (c\<lparr>sc_receiver := sc_receiver c @ [data]\<rparr>, []) else None
      | ScTakeError \<Rightarrow>
          (case sc_errCh c of None \<Rightarrow> None | Some e \<Rightarrow> Some (c\<lparr>sc_errCh := None\<rparr>, []))
      | ScConnected \<Rightarrow>
          if sc_stage c = Connecting then Some (c\<lparr>sc_stage := Transmitting\<rparr>, []) else None
      | ScConnectFailed e \<Rightarrow>
          if sc_stage c = Connecting \<and> e \<noteq> WriteBroke
          then Some (c\<lparr>sc_stage := Ended, sc_errCh := Some e\<rparr>, []) else None
      | ScWrite written \<Rightarrow>
          (case sc_receiver c of
             [] \<Rightarrow> None
           | data # rest \<Rightarrow>
               if sc_stage c \<noteq> Transmitting then None
               else if written then Some (c\<lparr>sc_receiver := rest\<rparr>, [ScWrote data])
               else Some (c\<lparr>sc_receiver := rest, sc_stage := Ended, sc_errCh := Some WriteBroke\<rparr>,
                          [ScLost data])))"

fun sc_submitted :: "sc_event \<Rightarrow> byte list list" where
  "sc_submitted (ScSend data) = [data]"
| "sc_submitted _ = []"

fun sc_written :: "sc_out \<Rightarrow> byte list list" where
  "sc_written (ScWrote data) = [data]"
| "sc_written _ = []"

fun sc_lost :: "sc_out \<Rightarrow> byte list list" where
  "sc_lost (ScLost data) = [data]"
| "sc_lost _ = []"

interpretation sl: fifo_link sc_step sc_receiver sc_submitted sc_written sc_lost
proof unfold_locales
  fix c ev c' out assume step: "sc_step c ev = Some (c', out)"
  show "fifo_moves (sc_receiver c) (sc_submitted ev) (each sc_written out) (each sc_lost out) (sc_receiver c')"
  proof (cases "\<exists>data rest. sc_receiver c = data # rest \<and> ev = ScWrite False")
    case True
    then show ?thesis
      using step fifo_skip [of "[]"] by (auto simp: sc_step_def split: if_splits)
  next
    case False
    then show ?thesis
      using step
      by (cases ev)
        (auto simp: sc_step_def fifo_moves_def split: if_splits list.splits option.splits)
  qed
qed

lemma sc_ended_silent:
  "run_steps sc_step c evs = Some (c', out) \<Longrightarrow> sc_stage c = Ended \<Longrightarrow>
     out = [] \<and> sc_stage c' = Ended \<and> sc_receiver c' = sc_receiver c @ each sc_submitted evs"
proof (induction evs arbitrary: c out)
  case (Cons ev evs)
  from Cons.prems(1) obtain c1 out1 out2 where first: "sc_step c ev = Some (c1, out1)"
      and rest: "run_steps sc_step c1 evs = Some (c', out2)" and out: "out = out1 @ out2"
    by (rule run_steps_ConsE)
  have "out1 = [] \<and> sc_stage c1 = Ended \<and> sc_receiver c1 = sc_receiver c @ sc_submitted ev"
    using first Cons.prems(2)
    by (cases ev) (auto simp: sc_step_def split: if_splits list.splits option.splits)
  then show ?case using Cons.IH [OF rest] by (simp add: out)
qed simp

subsection \<open>The simple sender\<close>

record SimpleSender =
  ss_connections :: "PeerID \<Rightarrow> connection option"

definition NewSimpleSender :: SimpleSender where
  "NewSimpleSender = \<lparr>ss_connections = Map.empty\<rparr>"

text \<open>
  \<open>Send\<close> chooses among the cases of its \<open>select\<close> that are ready; the result is the error it returns.
  The new connection may fail before its \<open>select\<close>, then it is not recorded.
\<close>

inductive ss_Send ::
  "SimpleSender \<Rightarrow> PeerID \<Rightarrow> byte list \<Rightarrow> SimpleSender \<Rightarrow> sc_error option \<Rightarrow> bool" where
  ss_queued:
    "ss_connections sender pid = Some conn \<Longrightarrow> sc_step conn (ScSend data) = Some (conn', out) \<Longrightarrow>
     ss_Send sender pid data
       (sender\<lparr>ss_connections := (ss_connections sender)(pid \<mapsto> conn')\<rparr>) None"
| ss_new:
    "ss_connections sender pid = None
       \<or> (\<exists>conn conn1. ss_connections sender pid = Some conn \<and> sc_step conn ScTakeError = Some (conn1, []))
     \<Longrightarrow> sc_step (spawnConnection pid) (ScSend data) = Some (conn', out) \<Longrightarrow>
     ss_Send sender pid data
       (sender\<lparr>ss_connections := (ss_connections sender)(pid \<mapsto> conn')\<rparr>) None"
| ss_failed:
    "ss_connections sender pid = None \<Longrightarrow>
     sc_step (spawnConnection pid) (ScConnectFailed e) = Some (conn', out) \<Longrightarrow>
     ss_Send sender pid data sender (Some e)"
| ss_failed_again:
    "ss_connections sender pid = Some conn \<Longrightarrow> sc_step conn ScTakeError = Some (conn1, []) \<Longrightarrow>
     sc_step (spawnConnection pid) (ScConnectFailed e) = Some (conn', out) \<Longrightarrow>
     ss_Send sender pid data
       (sender\<lparr>ss_connections := (ss_connections sender)(pid \<mapsto> conn1)\<rparr>) (Some e)"

text \<open>\<open>Broadcast\<close> ignores what \<open>Send\<close> returns; \<open>LuckyBroadcast\<close> takes a prefix of a permutation.\<close>

inductive ss_Broadcast ::
  "SimpleSender \<Rightarrow> PeerID list \<Rightarrow> byte list \<Rightarrow> SimpleSender \<Rightarrow> bool" where
  ss_all_sent: "ss_Broadcast sender [] data sender"
| ss_one_sent: "ss_Send sender pid data sender1 err \<Longrightarrow> ss_Broadcast sender1 pids data sender2 \<Longrightarrow>
    ss_Broadcast sender (pid # pids) data sender2"

definition lucky_pids :: "PeerID list \<Rightarrow> u64 \<Rightarrow> PeerID list" where
  "lucky_pids shuffled nodes =
     (if nodes < of_nat (length shuffled) then take (unat nodes) shuffled else shuffled)"

inductive_cases ss_SendE: "ss_Send sender pid data sender' err"

text \<open>Without error the message is in the channel of the peer's connection.\<close>

lemma ss_Send_queued:
  assumes "ss_Send sender pid data sender' None"
  shows "\<exists>conn queue. ss_connections sender' pid = Some conn \<and> sc_receiver conn = queue @ [data]"
  using assms
proof (rule ss_SendE)
  fix conn conn' out
  assume "ss_connections sender pid = Some conn" "sc_step conn (ScSend data) = Some (conn', out)"
    "sender' = sender\<lparr>ss_connections := (ss_connections sender)(pid \<mapsto> conn')\<rparr>"
  then show ?thesis by (auto simp: sc_step_def split: if_splits)
next
  fix conn' out
  assume "sc_step (spawnConnection pid) (ScSend data) = Some (conn', out)"
    "sender' = sender\<lparr>ss_connections := (ss_connections sender)(pid \<mapsto> conn')\<rparr>"
  then show ?thesis by (auto simp: sc_step_def spawnConnection_def)
qed simp_all

subsection \<open>The sender and its goroutines together\<close>

text \<open>
  A step is a \<open>Send\<close>, or one event in the goroutine of a recorded connection; the label tells the peer
  and what that goroutine wrote or lost.
\<close>

fun sc_goroutine :: "sc_event \<Rightarrow> bool" where
  "sc_goroutine (ScSend data) = False"
| "sc_goroutine ScTakeError = False"
| "sc_goroutine _ = True"

inductive ss_run ::
  "SimpleSender \<Rightarrow> (PeerID \<times> sc_out list) list \<Rightarrow> SimpleSender \<Rightarrow> bool" for sender0 where
  ss_idle: "ss_run sender0 [] sender0"
| ss_sends: "ss_run sender0 tr sender \<Longrightarrow> ss_Send sender pid data sender' err \<Longrightarrow>
    ss_run sender0 (tr @ [(pid, [])]) sender'"
| ss_goroutine: "ss_run sender0 tr sender \<Longrightarrow> ss_connections sender pid = Some conn \<Longrightarrow>
    sc_goroutine ev \<Longrightarrow> sc_step conn ev = Some (conn', out) \<Longrightarrow>
    ss_run sender0 (tr @ [(pid, out)])
      (sender\<lparr>ss_connections := (ss_connections sender)(pid \<mapsto> conn')\<rparr>)"

text \<open>An error is reported only by a goroutine that has ended.\<close>

definition ss_ok :: "SimpleSender \<Rightarrow> bool" where
  "ss_ok sender \<longleftrightarrow> (\<forall>pid conn. ss_connections sender pid = Some conn \<longrightarrow>
     sc_errCh conn \<noteq> None \<longrightarrow> sc_stage conn = Ended)"

lemma sc_step_ok:
  "sc_step conn ev = Some (conn', out) \<Longrightarrow> sc_errCh conn \<noteq> None \<longrightarrow> sc_stage conn = Ended \<Longrightarrow>
     sc_errCh conn' \<noteq> None \<longrightarrow> sc_stage conn' = Ended"
  by (cases ev) (auto simp: sc_step_def split: if_splits option.splits list.splits)

lemma spawnConnection_fields [simp]:
  "sc_errCh (spawnConnection pid) = None" "sc_receiver (spawnConnection pid) = []"
  "sc_stage (spawnConnection pid) = Connecting"
  by (simp_all add: spawnConnection_def)

lemma ss_Send_ok: "ss_Send sender pid data sender' err \<Longrightarrow> ss_ok sender \<Longrightarrow> ss_ok sender'"
  by (erule ss_SendE) (auto simp: ss_ok_def dest: sc_step_ok)

lemma ss_run_ok: "ss_run sender0 tr sender \<Longrightarrow> ss_ok sender0 \<Longrightarrow> ss_ok sender"
proof (induction rule: ss_run.induct)
  case (ss_goroutine tr sender pid conn ev conn' out)
  then show ?case using sc_step_ok [of conn ev conn' out] by (auto simp: ss_ok_def)
qed (auto dest: ss_Send_ok)

text \<open>A connection is dead when its goroutine has ended and its error has been taken.\<close>

definition sc_dead :: "connection \<Rightarrow> bool" where
  "sc_dead conn \<longleftrightarrow> sc_stage conn = Ended \<and> sc_errCh conn = None"

lemma ss_Send_dead:
  assumes "ss_connections sender pid = Some conn" "sc_dead conn"
  shows "ss_Send sender pid data sender' err \<longleftrightarrow> length (sc_receiver conn) < 1000 \<and> err = None
    \<and> sender' = sender\<lparr>ss_connections := (ss_connections sender)
        (pid \<mapsto> conn\<lparr>sc_receiver := sc_receiver conn @ [data]\<rparr>)\<rparr>"
  using assms
  by (auto simp: sc_dead_def sc_step_def ss_Send.simps [of sender pid data] split: if_splits)

lemma dead_goroutine_idle: "sc_dead conn \<Longrightarrow> sc_goroutine ev \<Longrightarrow> sc_step conn ev = None"
  by (cases ev) (auto simp: sc_dead_def sc_step_def split: list.splits)

lemma ss_Send_other: "ss_Send sender pid data sender' err \<Longrightarrow> q \<noteq> pid \<Longrightarrow>
    ss_connections sender' q = ss_connections sender q"
  by (erule ss_SendE) auto

lemma ss_run_dead:
  "ss_run sender0 tr sender \<Longrightarrow> ss_connections sender0 pid = Some conn0 \<Longrightarrow> sc_dead conn0 \<Longrightarrow>
     \<exists>conn. ss_connections sender pid = Some conn \<and> sc_dead conn
       \<and> (\<forall>out. (pid, out) \<in> set tr \<longrightarrow> out = [])"
proof (induction rule: ss_run.induct)
  case (ss_sends tr sender q data sender' err)
  then obtain conn where conn: "ss_connections sender pid = Some conn" "sc_dead conn"
      "\<forall>out. (pid, out) \<in> set tr \<longrightarrow> out = []" by blast
  show ?case
  proof (cases "q = pid")
    case True
    then show ?thesis using ss_sends.hyps(2) conn by (auto simp: ss_Send_dead [OF conn(1,2)] sc_dead_def)
  next
    case False
    then show ?thesis using ss_Send_other [OF ss_sends.hyps(2)] conn by auto
  qed
next
  case (ss_goroutine tr sender q c ev c' out)
  then show ?case using dead_goroutine_idle by (cases "q = pid") fastforce+
qed auto

text \<open>A \<open>Send\<close> that fails for a recorded connection leaves that connection in the map, dead.\<close>

lemma failed_Send_dead:
  assumes "ss_ok sender" "ss_connections sender pid = Some conn" "ss_Send sender pid data sender' (Some e)"
  shows "\<exists>conn'. ss_connections sender' pid = Some conn' \<and> sc_dead conn'"
  using assms(3)
proof (rule ss_SendE)
  fix conn' conn1 e' out
  assume old: "ss_connections sender pid = Some conn'" "sc_step conn' ScTakeError = Some (conn1, [])"
    "sender' = sender\<lparr>ss_connections := (ss_connections sender)(pid \<mapsto> conn1)\<rparr>"
  then have "sc_dead conn1"
    using assms(1) by (auto simp: sc_dead_def sc_step_def ss_ok_def split: option.splits)
  then show ?thesis using old(3) by simp
qed (use assms(2) in simp_all)

subsection \<open>The receiver\<close>

text \<open>
  \<open>spawnRunner\<close> reads messages until a read or \<open>Dispatch\<close> fails. What \<open>Dispatch\<close> does is listed by its
  first result; a panic in it ends the process. The last component tells how the loop ended, None
  when the messages so far are all dispatched.
\<close>

datatype read_error = ReadEOF | ReadFailed

datatype stream_end = ClosedByPeer | StreamReset | ProcessCrash crash

fun spawnRunner ::
  "(byte list \<Rightarrow> 'o list \<times> ('e, unit) result) \<Rightarrow> (read_error + byte list) list
     \<Rightarrow> 'o list \<times> stream_end option" where
  "spawnRunner Dispatch [] = ([], None)"
| "spawnRunner Dispatch (Inl ReadEOF # reads) = ([], Some ClosedByPeer)"
| "spawnRunner Dispatch (Inl ReadFailed # reads) = ([], Some StreamReset)"
| "spawnRunner Dispatch (Inr msg # reads) =
     (case Dispatch msg of
        (out, Err e) \<Rightarrow> (out, Some StreamReset)
      | (out, Panic p) \<Rightarrow> (out, Some (ProcessCrash p))
      | (out, Ok _) \<Rightarrow> (let (out', end') = spawnRunner Dispatch reads in (out @ out', end')))"

lemma spawnRunner_prefix:
  "(\<And>m. m \<in> set ms \<Longrightarrow> snd (Dispatch m) = Ok ()) \<Longrightarrow>
     spawnRunner Dispatch (map Inr ms @ reads)
       = (each (fst \<circ> Dispatch) ms @ fst (spawnRunner Dispatch reads), snd (spawnRunner Dispatch reads))"
proof (induction ms)
  case (Cons m ms)
  have "Dispatch m = (fst (Dispatch m), Ok ())" using Cons.prems [of m] by (metis list.set_intros(1) prod.collapse)
  then show ?case using Cons by (simp add: case_prod_unfold Let_def)
qed simp

lemma spawnRunner_no_crash:
  assumes "\<And>m p. snd (Dispatch m) \<noteq> Panic p"
  shows "snd (spawnRunner Dispatch reads) \<noteq> Some (ProcessCrash p)"
proof (induction reads)
  case (Cons r reads)
  show ?case
  proof (cases r)
    case (Inl e)
    then show ?thesis by (cases e) simp_all
  next
    case (Inr msg)
    have "snd (Dispatch msg) \<noteq> Panic q" for q by (rule assms)
    then show ?thesis using Inr Cons.IH
      by (cases "Dispatch msg"; cases "snd (Dispatch msg)") (auto simp: Let_def split: prod.splits)
  qed
qed simp

end
