(* ===== verification/ConsensusNode.thy ===== *)
theory ConsensusNode
  imports Core Acks SimpleNet
begin

text \<open>
  The parts of consensus around the core: the handler of received messages of
  \<open>consensus/consensus.go\<close>, the helper of \<open>consensus/helper.go\<close>, which answers requests for blocks,
  and the proposer of \<open>consensus/proposer.go\<close>. The proposer's state is \<open>Proposer\<close>; it is idle, or it waits
  for acknowledgements of the block it has made, and \<open>pr_step\<close> is one event, None where the event
  cannot happen: inside \<open>makeBlock\<close> neither digests nor messages are taken. The pause of three seconds
  before an empty block is not modelled.
\<close>

subsection \<open>Dispatch\<close>

record helperMessage =
  hm_missing :: Digest
  hm_origin :: PublicKey

datatype cd_out =
    CdPrint string
  | CdAck "byte list"
  | CdHelper helperMessage
  | CdConsensus consensusMessage

definition consensus_Dispatch ::
  "('sk, 'p1, 'p2, 'agg, 'z) proto_lib_scheme \<Rightarrow> byte list \<Rightarrow> cd_out list \<times> (error, unit) result" where
  "consensus_Dispatch E data =
     (case DeserializeConsensusMessage E data of
        Err err \<Rightarrow> ([], Panic ExplicitPanic)
      | Panic p \<Rightarrow> ([], Panic p)
      | Ok msg \<Rightarrow>
          (case msg of
             testMessage txt \<Rightarrow> ([CdPrint txt], Ok ())
           | syncRequestMessage missing origin \<Rightarrow>
               ([CdHelper \<lparr>hm_missing = missing, hm_origin = origin\<rparr>], Ok ())
           | proposeMessage b \<Rightarrow> ([CdAck (bytes_of_string ''Ack''), CdConsensus msg], Ok ())
           | _ \<Rightarrow> ([CdConsensus msg], Ok ())))"

subsection \<open>The helper\<close>

text \<open>What is sent for one request, if anything.\<close>

definition helper_serve ::
  "('sk, 'p1, 'p2, 'agg, 'db, 'z) env_scheme \<Rightarrow> Committee \<Rightarrow> 'db store \<Rightarrow> helperMessage
     \<Rightarrow> (error, (PeerID \<times> byte list) option) result" where
  "helper_serve E committee s req =
     (let (address, ok) = Committee_Address committee (hm_origin req)
      in if \<not> ok then Ok None
         else case Store_Read E s (digest_bytes (hm_missing req)) of
                Inl err \<Rightarrow> Ok None
              | Inr bs \<Rightarrow>
                  (case Block_Deserialize E bs of
                     Err err \<Rightarrow> Ok None
                   | Panic p \<Rightarrow> Panic p
                   | Ok block \<Rightarrow>
                       (case SerializeConsensusMessage E (proposeMessage block) of
                          Ok message \<Rightarrow> Ok (Some (address, message))
                        | _ \<Rightarrow> Ok None)))"

subsection \<open>The proposer\<close>

record Proposer =
  pr_name :: PublicKey
  pr_committee :: Committee
  pr_signatureService :: SignatureService
  pr_buffer :: "(Digest, unit) DAList.alist"
  pr_waiting :: "PublicKey acks option"

definition spawnProposer :: "PublicKey \<Rightarrow> Committee \<Rightarrow> SignatureService \<Rightarrow> Proposer" where
  "spawnProposer name committee signatureService =
     \<lparr>pr_name = name, pr_committee = committee, pr_signatureService = signatureService,
      pr_buffer = DAList.empty, pr_waiting = None\<rparr>"

datatype pr_event = PrDigest Digest | PrMessage proposerMessage | PrAck ack_event

datatype pr_out = PrBroadcast "PeerID list" "byte list" | PrLoopback Block | PrCancel

definition makeBlock ::
  "('sk, 'p1, 'p2, 'agg, 'db, 'z) env_scheme \<Rightarrow> Proposer \<Rightarrow> Round \<Rightarrow> QC \<Rightarrow> TC option
     \<Rightarrow> (error, Proposer \<times> pr_out list) result" where
  "makeBlock E p round qc tc =
     (let payload = map fst (DAList.impl_of (pr_buffer p));
          block = NewBlock E qc tc (pr_name p) round payload (pr_signatureService p);
          (names, addresses) = BroadcastAddresses (pr_committee p) (pr_name p)
      in case SerializeConsensusMessage E (proposeMessage block) of
           Err err \<Rightarrow> Panic ExplicitPanic
         | Panic q \<Rightarrow> Panic q
         | Ok message \<Rightarrow>
             Ok (p\<lparr>pr_buffer := DAList.empty, pr_waiting := Some (start_acks names)\<rparr>,
                 [PrBroadcast addresses message, PrLoopback block]))"

text \<open>One round of the loop over \<open>stakeCh\<close>; when it ends the deferred \<open>cancel\<close> runs.\<close>

definition pr_count :: "Proposer \<Rightarrow> PublicKey acks \<Rightarrow> Proposer \<times> pr_out list" where
  "pr_count p ws =
     (if ak_total ws \<ge> QuorumThreshold (pr_committee p)
      then (p\<lparr>pr_waiting := None\<rparr>, [PrCancel]) else (p\<lparr>pr_waiting := Some ws\<rparr>, []))"

definition pr_step ::
  "('sk, 'p1, 'p2, 'agg, 'db, 'z) env_scheme \<Rightarrow> Proposer \<Rightarrow> pr_event
     \<Rightarrow> (error, Proposer \<times> pr_out list) result option" where
  "pr_step E p ev =
     (case pr_waiting p of
        None \<Rightarrow>
          (case ev of
             PrDigest digest \<Rightarrow>
               Some (Ok (p\<lparr>pr_buffer := DAList.update digest () (pr_buffer p)\<rparr>, []))
           | PrMessage (proposerMakeMessage round qc tc) \<Rightarrow> Some (makeBlock E p round qc tc)
           | PrMessage (proposerCleanupMessage digests) \<Rightarrow>
               Some (Ok (p\<lparr>pr_buffer := foldl (\<lambda>m x. DAList.delete x m) (pr_buffer p) digests\<rparr>, []))
           | PrAck a \<Rightarrow> None)
      | Some ws \<Rightarrow>
          (case ev of
             PrAck a \<Rightarrow>
               (case ack_step (Committee_Stake (pr_committee p))
                       (Committee_Stake (pr_committee p) (pr_name p)) ws a of
                  None \<Rightarrow> None
                | Some ws' \<Rightarrow> Some (Ok (pr_count p ws')))
           | _ \<Rightarrow> None))"

primrec pr_run ::
  "('sk, 'p1, 'p2, 'agg, 'db, 'z) env_scheme \<Rightarrow> Proposer \<Rightarrow> pr_event list
     \<Rightarrow> (error, Proposer \<times> pr_out list) result option" where
  "pr_run E p [] = Some (Ok (p, []))"
| "pr_run E p (ev # evs) =
     (case pr_step E p ev of
        None \<Rightarrow> None
      | Some (Err e) \<Rightarrow> Some (Err e)
      | Some (Panic q) \<Rightarrow> Some (Panic q)
      | Some (Ok (p1, out1)) \<Rightarrow>
          map_option (\<lambda>r. bind_result r (\<lambda>(p2, out2). Ok (p2, out1 @ out2))) (pr_run E p1 evs))"

subsection \<open>Messages of other nodes\<close>

lemma consensus_Dispatch_message:
  assumes "proto_ok E" "SerializeConsensusMessage E m = Ok data"
  shows "snd (consensus_Dispatch E data) = Ok ()"
    and "CdConsensus m \<in> set (fst (consensus_Dispatch E data)) \<longleftrightarrow>
      (\<nexists>d k. m = syncRequestMessage d k) \<and> (\<nexists>t. m = testMessage t)"
    and "CdAck (bytes_of_string ''Ack'') \<in> set (fst (consensus_Dispatch E data)) \<longleftrightarrow>
      (\<exists>b. m = proposeMessage b)"
  using Deserialize_Serialize_message [OF assms]
  by (simp_all add: consensus_Dispatch_def split: consensusMessage.splits)

lemma consensus_Dispatch_garbage:
  "(\<nexists>m. DeserializeConsensusMessage E data = Ok m) \<longleftrightarrow> (\<exists>p. snd (consensus_Dispatch E data) = Panic p)"
  by (auto simp: consensus_Dispatch_def split: result.splits consensusMessage.splits)

subsection \<open>Requests for blocks\<close>

lemma helper_serves_block:
  assumes "proto_ok E" "Committee_Address committee (hm_origin req) = (address, True)"
    and "Store_Read E s (digest_bytes (hm_missing req)) = Inr bs" "Block_Serialize E block = Ok bs"
    and "SerializeConsensusMessage E (proposeMessage block) = Ok message"
  shows "helper_serve E committee s req = Ok (Some (address, message))"
  using assms(2,3,5) Block_Deserialize_Serialize [OF assms(1,4)] by (simp add: helper_serve_def)

text \<open>
  The helper does not know whether what it reads is a block. If the bytes unmarshal without a
  certificate, the conversion reads through nil.
\<close>

lemma helper_reads_no_block:
  assumes "Committee_Address committee (hm_origin req) = (address, True)"
    and "Store_Read E s (digest_bytes (hm_missing req)) = Inr bs"
    and "pl_UnmarshalBlock E bs = Some pblock" "pbb_QuorumCert pblock = None" "pbb_Payload pblock = []"
  shows "helper_serve E committee s req = Panic NilDeref"
  using assms by (simp add: helper_serve_def Block_Deserialize_def blockFromProto_def qcFromProto_def)

subsection \<open>Proposals\<close>

lemma broadcast_names:
  "distinct (fst (BroadcastAddresses c k))" "k \<notin> set (fst (BroadcastAddresses c k))"
  by (auto simp: BroadcastAddresses_def broadcast_loop_eq distinct_map_fst_filter)

lemma makeBlock_Ok:
  assumes "makeBlock E p round qc tc = Ok (p', out)"
  shows "\<exists>block message. block = NewBlock E qc tc (pr_name p) round
        (map fst (DAList.impl_of (pr_buffer p))) (pr_signatureService p)
      \<and> SerializeConsensusMessage E (proposeMessage block) = Ok message
      \<and> out = [PrBroadcast (snd (BroadcastAddresses (pr_committee p) (pr_name p))) message,
          PrLoopback block]
      \<and> p' = p\<lparr>pr_buffer := DAList.empty,
          pr_waiting := Some (start_acks (fst (BroadcastAddresses (pr_committee p) (pr_name p))))\<rparr>"
  using assms by (auto simp: makeBlock_def Let_def split: prod.splits result.splits)

text \<open>While a proposal waits, only acknowledgements happen; it ends when they reach the threshold.\<close>

definition pr_after :: "Proposer \<Rightarrow> ack_event list \<Rightarrow> PublicKey acks option" where
  "pr_after p as = ack_run (Committee_Stake (pr_committee p))
     (Committee_Stake (pr_committee p) (pr_name p))
     (start_acks (fst (BroadcastAddresses (pr_committee p) (pr_name p)))) as"

lemma pr_run_acks:
  assumes "pr_waiting p = Some ws" "pr_after p as = Some ws"
    and "pr_run E p (map PrAck bs) = Some (Ok (p', out))"
    and "\<not> QuorumThreshold (pr_committee p) \<le> ak_total ws"
  shows "\<exists>ws'. pr_after p (as @ bs) = Some ws'
    \<and> (pr_waiting p' = None \<longleftrightarrow> QuorumThreshold (pr_committee p) \<le> ak_total ws')
    \<and> (PrCancel \<in> set out \<longleftrightarrow> pr_waiting p' = None)
    \<and> pr_buffer p' = pr_buffer p"
  using assms
proof (induction bs arbitrary: p ws as out)
  case (Cons b bs)
  obtain ws1 where ws1: "ack_step (Committee_Stake (pr_committee p))
      (Committee_Stake (pr_committee p) (pr_name p)) ws b = Some ws1"
    using Cons.prems(1,3) by (auto simp: pr_step_def split: option.splits)
  obtain p1 out1 where count: "pr_count p ws1 = (p1, out1)" by fastforce
  have step: "pr_step E p (PrAck b) = Some (Ok (p1, out1))"
    using Cons.prems(1) ws1 count by (simp add: pr_step_def)
  then obtain out2 where rest: "pr_run E p1 (map PrAck bs) = Some (Ok (p', out2))" "out = out1 @ out2"
    using Cons.prems(3) by (auto simp: go_simps)
  have after: "pr_after p (as @ [b]) = Some ws1"
    using Cons.prems(2) ws1 by (simp add: pr_after_def ack_run_snoc)
  show ?case
  proof (cases "QuorumThreshold (pr_committee p) \<le> ak_total ws1")
    case True
    then have p1: "pr_waiting p1 = None" "out1 = [PrCancel]" "pr_buffer p1 = pr_buffer p"
      using count by (auto simp: pr_count_def)
    have "bs = []" using rest(1) p1(1) by (cases bs) (simp_all add: pr_step_def)
    then show ?thesis using rest p1 after True by auto
  next
    case False
    then have p1: "p1 = p\<lparr>pr_waiting := Some ws1\<rparr>" "out1 = []"
      using count by (auto simp: pr_count_def)
    have "\<exists>ws'. pr_after p1 ((as @ [b]) @ bs) = Some ws'
        \<and> (pr_waiting p' = None \<longleftrightarrow> QuorumThreshold (pr_committee p1) \<le> ak_total ws')
        \<and> (PrCancel \<in> set out2 \<longleftrightarrow> pr_waiting p' = None) \<and> pr_buffer p' = pr_buffer p1"
      by (rule Cons.IH [where ws = ws1])
        (use rest(1) after False in \<open>simp_all add: p1(1) pr_after_def\<close>)
    then show ?thesis using p1 rest(2) by (simp add: pr_after_def)
  qed
qed auto

lemma pr_make_round:
  assumes "stake_fits (pr_committee p)"
    and "pr_run E p (PrMessage (proposerMakeMessage round qc tc) # map PrAck as) = Some (Ok (p', out))"
  shows "pr_waiting p' = None \<longleftrightarrow> unat (QuorumThreshold (pr_committee p))
      \<le> (\<Sum>k\<in>set (acked (pr_name p) (fst (BroadcastAddresses (pr_committee p) (pr_name p))) as).
            unat (Committee_Stake (pr_committee p) k))"
    and "pr_buffer p' = DAList.empty"
proof -
  have idle: "pr_waiting p = None"
    using assms(2) by (cases "pr_waiting p") (auto simp: pr_step_def)
  obtain p1 out1 out2 where make: "makeBlock E p round qc tc = Ok (p1, out1)"
      and rest: "pr_run E p1 (map PrAck as) = Some (Ok (p', out2))"
    using assms(2) idle by (auto simp: pr_step_def go_simps split: result.splits)
  let ?names = "fst (BroadcastAddresses (pr_committee p) (pr_name p))"
  have p1: "p1 = p\<lparr>pr_buffer := DAList.empty, pr_waiting := Some (start_acks ?names)\<rparr>"
    using makeBlock_Ok [OF make] by auto
  have "\<exists>ws'. pr_after p1 ([] @ as) = Some ws'
      \<and> (pr_waiting p' = None \<longleftrightarrow> QuorumThreshold (pr_committee p1) \<le> ak_total ws')
      \<and> (PrCancel \<in> set out2 \<longleftrightarrow> pr_waiting p' = None) \<and> pr_buffer p' = pr_buffer p1"
    by (rule pr_run_acks [OF _ _ rest, where ws = "start_acks ?names"])
      (simp_all add: p1 pr_after_def start_acks_def QuorumThreshold_nonzero)
  then obtain ws where ws: "pr_after p as = Some ws" "pr_buffer p' = DAList.empty"
      "pr_waiting p' = None \<longleftrightarrow> QuorumThreshold (pr_committee p) \<le> ak_total ws"
    by (auto simp: p1 pr_after_def)
  show "pr_waiting p' = None \<longleftrightarrow> unat (QuorumThreshold (pr_committee p))
      \<le> (\<Sum>k\<in>set (acked (pr_name p) ?names as). unat (Committee_Stake (pr_committee p) k))"
    using cq.ack_run_reaches [OF assms(1) broadcast_names ws(1) [unfolded pr_after_def]] ws(3)
    by simp
  show "pr_buffer p' = DAList.empty" by (rule ws(2))
qed

end
