(* ===== verification/Batch.thy ===== *)
theory Batch
  imports MempoolWire
begin

text \<open>
  \<open>mempool/batchmaker.go\<close>: the format of a batch, and the batch maker, which collects transactions
  and seals a batch when its byte count reaches \<open>batchSize\<close> or the timer fires. The maker's state is
  \<open>batchMaker\<close>; \<open>bm_step\<close> is one turn of the \<open>select\<close> loop of \<open>run\<close>, on a transaction or on the
  timer. What it sends is listed: the broadcast to the other nodes, and the message to the quorum
  waiter, whose handlers pair the names with the positions of the reply channels of that broadcast.
  The length of a slice is a Go \<open>int\<close>, below \<open>2^63\<close>.
\<close>

subsection \<open>The format of a batch\<close>

type_synonym Transaction = "byte list"
type_synonym Batch = "Transaction list"
type_synonym sealedBatch = "byte list"

fun SerializeBatch :: "Batch \<Rightarrow> sealedBatch" where
  "SerializeBatch [] = []"
| "SerializeBatch (tx # batch) = be64 (of_nat (length tx)) @ tx @ SerializeBatch batch"

function deserialize_loop :: "Batch \<Rightarrow> byte list \<Rightarrow> error + Batch" where
  "deserialize_loop batch r =
     (if length r = 0 then Inr batch
      else if length r < 8 then Inl UnexpectedEOF
      else
        let len = be_value 0 (take 8 r); r1 = drop 8 r
        in if unat len > length r1 then Inl InvalidTransactionLength
           else deserialize_loop (batch @ [take (unat len) r1]) (drop (unat len) r1))"
  by pat_completeness auto
termination by (relation "measure (\<lambda>(_, r). length r)") auto

declare deserialize_loop.simps [simp del]

definition DeserializeBatch :: "byte list \<Rightarrow> error + Batch" where
  "DeserializeBatch data = deserialize_loop [] data"

subsection \<open>Reading back a batch\<close>

abbreviation slices_fit :: "Batch \<Rightarrow> bool" where
  "slices_fit batch \<equiv> (\<forall>tx\<in>set batch. length tx < 2 ^ 63)"

lemma deserialize_loop_step:
  assumes "length tx < 2 ^ 63"
  shows "deserialize_loop batch (be64 (of_nat (length tx)) @ tx @ rest)
    = deserialize_loop (batch @ [tx]) rest"
proof -
  have "unat (of_nat (length tx) :: u64) = length tx"
    using assms by (simp add: unat_of_nat)
  then show ?thesis
    by (subst deserialize_loop.simps) (simp add: Let_def)
qed

lemma deserialize_loop_SerializeBatch:
  "slices_fit batch \<Longrightarrow> deserialize_loop acc (SerializeBatch batch @ rest)
     = deserialize_loop (acc @ batch) rest"
  by (induction batch arbitrary: acc) (simp_all add: deserialize_loop_step)

lemma deserialize_loop_sound:
  "deserialize_loop acc r = Inr batch \<Longrightarrow> length r < 2 ^ 63 \<Longrightarrow>
     \<exists>txs. batch = acc @ txs \<and> slices_fit txs \<and> r = SerializeBatch txs"
proof (induction acc r rule: deserialize_loop.induct)
  case (1 acc r)
  show ?case
  proof (cases "length r = 0")
    case True
    then show ?thesis using "1.prems" by (auto simp: deserialize_loop.simps intro!: exI [of _ "[]"])
  next
    case False
    define len where "len = be_value 0 (take 8 r)"
    define r1 where "r1 = drop 8 r"
    have ok: "\<not> length r < 8" "unat len \<le> length r1"
      "deserialize_loop (acc @ [take (unat len) r1]) (drop (unat len) r1) = Inr batch"
      using "1.prems"(1) False
      by (auto simp: deserialize_loop.simps [of acc r] len_def r1_def Let_def split: if_splits)
    have short: "\<not> length r1 < unat len" "length (drop (unat len) r1) < 2 ^ 63"
      using ok(2) "1.prems"(2) by (auto simp: r1_def)
    have "\<exists>txs. batch = (acc @ [take (unat len) r1]) @ txs \<and> slices_fit txs
        \<and> drop (unat len) r1 = SerializeBatch txs"
      by (rule "1.IH" [OF False ok(1) len_def r1_def short(1) ok(3) short(2)])
    then obtain txs where txs: "batch = (acc @ [take (unat len) r1]) @ txs" "slices_fit txs"
        "drop (unat len) r1 = SerializeBatch txs"
      by blast
    have len: "length (take (unat len) r1) = unat len" using ok(2) by simp
    have head: "take 8 r = be64 len"
      using be64_be_value [of "take 8 r"] ok(1) by (simp add: len_def)
    have "r = be64 len @ take (unat len) r1 @ drop (unat len) r1"
      unfolding append_take_drop_id r1_def head [symmetric] by simp
    then have "r = SerializeBatch (take (unat len) r1 # txs)"
      using txs(3) len by simp
    moreover have "slices_fit (take (unat len) r1 # txs)"
      using txs(2) ok "1.prems"(2) by (simp add: r1_def)
    ultimately show ?thesis using txs(1) by (intro exI [of _ "take (unat len) r1 # txs"]) simp
  qed
qed

lemma DeserializeBatch_iff:
  assumes "length data < 2 ^ 63"
  shows "DeserializeBatch data = Inr batch \<longleftrightarrow> slices_fit batch \<and> data = SerializeBatch batch"
proof
  assume "DeserializeBatch data = Inr batch"
  then show "slices_fit batch \<and> data = SerializeBatch batch"
    using deserialize_loop_sound [of "[]" data batch] assms by (simp add: DeserializeBatch_def)
next
  assume "slices_fit batch \<and> data = SerializeBatch batch"
  then show "DeserializeBatch data = Inr batch"
    using deserialize_loop_SerializeBatch [of batch "[]" "[]"]
    by (simp add: DeserializeBatch_def deserialize_loop.simps [of batch "[]"])
qed

lemma DeserializeBatch_SerializeBatch:
  "slices_fit batch \<Longrightarrow> DeserializeBatch (SerializeBatch batch) = Inr batch"
  using deserialize_loop_SerializeBatch [of batch "[]" "[]"]
  by (simp add: DeserializeBatch_def deserialize_loop.simps [of batch "[]"])

lemma DeserializeBatch_errors:
  "DeserializeBatch data = Inl e \<Longrightarrow> e = UnexpectedEOF \<or> e = InvalidTransactionLength"
proof -
  have "deserialize_loop acc r = Inl e \<Longrightarrow> e = UnexpectedEOF \<or> e = InvalidTransactionLength" for acc r
  proof (induction acc r rule: deserialize_loop.induct)
    case (1 acc r)
    show ?case
      using "1.prems" "1.IH" [OF _ _ refl refl]
      unfolding deserialize_loop.simps [of acc r] by (auto simp: Let_def split: if_splits)
  qed
  then show "DeserializeBatch data = Inl e \<Longrightarrow> ?thesis" by (simp add: DeserializeBatch_def)
qed

text \<open>A batch cut short: whatever follows whole transactions must itself be read as a batch.\<close>

lemma DeserializeBatch_append:
  "slices_fit batch \<Longrightarrow> DeserializeBatch (SerializeBatch batch @ rest)
     = map_sum id ((@) batch) (DeserializeBatch rest)"
proof -
  have "deserialize_loop acc r = map_sum id ((@) acc) (deserialize_loop [] r)" for acc r
  proof (induction "length r" arbitrary: acc r rule: less_induct)
    case less
    show ?case
    proof (cases "length r < 8")
      case True
      then show ?thesis by (simp add: deserialize_loop.simps [of _ r])
    next
      case False
      define len where "len = be_value 0 (take 8 r)"
      define r1 where "r1 = drop 8 r"
      have unfolded: "deserialize_loop b r = (if unat len > length r1 then Inl InvalidTransactionLength
          else deserialize_loop (b @ [take (unat len) r1]) (drop (unat len) r1))" for b
        using False by (subst deserialize_loop.simps) (auto simp: len_def r1_def Let_def)
      have "length (drop (unat len) r1) < length r" using False by (simp add: r1_def)
      note eq = less.hyps [OF this]
      show ?thesis
        unfolding unfolded by (subst (1 2) eq)
            (cases "deserialize_loop [] (drop (unat len) r1)"; simp)
    qed
  qed
  from this [of batch rest] show "slices_fit batch \<Longrightarrow> ?thesis"
    using deserialize_loop_SerializeBatch [of batch "[]" rest] by (simp add: DeserializeBatch_def)
qed

subsection \<open>The batch maker\<close>

text \<open>\<open>handler\<close> and \<open>quorumWaiterMessage\<close> are declared in \<open>mempool/quorumwaiter.go\<close>.\<close>

record handler =
  hd_name :: PublicKey
  hd_h :: nat

record quorumWaiterMessage =
  qwm_Batch :: sealedBatch
  qwm_Handlers :: "handler list"

record batchMaker =
  bm_batchSize :: u64
  bm_names :: "PublicKey list"
  bm_addresses :: "PeerID list"
  bm_currentBatch :: Batch
  bm_currentBatchSize :: u64

datatype bm_event = BmTransaction Transaction | BmTimer

datatype bm_out = BmBroadcast "PeerID list" "byte list" | BmMessage quorumWaiterMessage

definition spawnBatchMaker :: "u64 \<Rightarrow> PublicKey list \<Rightarrow> PeerID list \<Rightarrow> batchMaker" where
  "spawnBatchMaker batchSize names addresses =
     \<lparr>bm_batchSize = batchSize, bm_names = names, bm_addresses = addresses,
      bm_currentBatch = [], bm_currentBatchSize = 0\<rparr>"

text \<open>
  \<open>Broadcast\<close> returns one reply channel per address; \<open>channels[i]\<close> beyond them is out of range.
\<close>

definition seal ::
  "('sk, 'p1, 'p2, 'agg, 'db, 'z) mp_env_scheme \<Rightarrow> batchMaker
     \<Rightarrow> (error, batchMaker \<times> bm_out list) result" where
  "seal E bm =
     (let sealed = SerializeBatch (bm_currentBatch bm);
          bm1 = bm\<lparr>bm_currentBatch := []\<rparr>
      in case serializeMempoolMessage E (batchMessage sealed) of
           Err _ \<Rightarrow> Panic LogFatal
         | Panic p \<Rightarrow> Panic p
         | Ok serialized \<Rightarrow>
             if length (bm_names bm1) > length (bm_addresses bm1) then Panic IndexOutOfRange
             else
               let handlers = map (\<lambda>(i, name). \<lparr>hd_name = name, hd_h = i\<rparr>)
                                (enumerate 0 (bm_names bm1))
               in Ok (bm1, [BmBroadcast (bm_addresses bm1) serialized,
                            BmMessage \<lparr>qwm_Batch = sealed, qwm_Handlers = handlers\<rparr>]))"

definition bm_step ::
  "('sk, 'p1, 'p2, 'agg, 'db, 'z) mp_env_scheme \<Rightarrow> batchMaker \<Rightarrow> bm_event
     \<Rightarrow> (error, batchMaker \<times> bm_out list) result" where
  "bm_step E bm ev =
     (case ev of
        BmTransaction tx \<Rightarrow>
          (let bm1 = bm\<lparr>bm_currentBatchSize := bm_currentBatchSize bm + of_nat (length tx),
                        bm_currentBatch := bm_currentBatch bm @ [tx]\<rparr>
           in if bm_currentBatchSize bm1 \<ge> bm_batchSize bm1 then seal E bm1 else Ok (bm1, []))
      | BmTimer \<Rightarrow> if length (bm_currentBatch bm) \<noteq> 0 then seal E bm else Ok (bm, []))"

primrec bm_run ::
  "('sk, 'p1, 'p2, 'agg, 'db, 'z) mp_env_scheme \<Rightarrow> batchMaker \<Rightarrow> bm_event list
     \<Rightarrow> (error, batchMaker \<times> bm_out list) result" where
  "bm_run E bm [] = Ok (bm, [])"
| "bm_run E bm (ev # evs) =
     bind_result (bm_step E bm ev) (\<lambda>(bm1, out1).
     bind_result (bm_run E bm1 evs) (\<lambda>(bm2, out2). Ok (bm2, out1 @ out2)))"

subsection \<open>What the batch maker sends\<close>

fun event_txs :: "bm_event \<Rightarrow> Transaction list" where
  "event_txs (BmTransaction tx) = [tx]"
| "event_txs BmTimer = []"

fun sent_batch :: "bm_out \<Rightarrow> sealedBatch list" where
  "sent_batch (BmMessage m) = [qwm_Batch m]"
| "sent_batch (BmBroadcast as bs) = []"

abbreviation received :: "bm_event list \<Rightarrow> Transaction list" where
  "received evs \<equiv> concat (map event_txs evs)"

abbreviation sealed_batches :: "bm_out list \<Rightarrow> sealedBatch list" where
  "sealed_batches out \<equiv> concat (map sent_batch out)"

lemma seal_Ok:
  assumes "seal E bm = Ok (bm', out)"
  shows "bm' = bm\<lparr>bm_currentBatch := []\<rparr>"
    and "sealed_batches out = [SerializeBatch (bm_currentBatch bm)]"
  using assms
  by (auto simp: seal_def Let_def split: result.splits if_splits)

lemma bm_step_batches:
  assumes "bm_step E bm ev = Ok (bm', out)"
  shows "\<exists>bs. sealed_batches out = map SerializeBatch bs \<and> [] \<notin> set bs
     \<and> bm_currentBatch bm @ event_txs ev = concat bs @ bm_currentBatch bm'"
proof -
  have sealing: "\<exists>bs. sealed_batches out = map SerializeBatch bs \<and> [] \<notin> set bs
      \<and> bm_currentBatch b = concat bs @ bm_currentBatch bm'"
    if "seal E b = Ok (bm', out)" "bm_currentBatch b \<noteq> []" for b
    using seal_Ok [OF that(1)] that(2) by (intro exI [of _ "[bm_currentBatch b]"]) simp
  show ?thesis
  proof (cases ev)
    case (BmTransaction tx)
    then show ?thesis
      using assms sealing by (fastforce simp: bm_step_def Let_def split: if_splits)
  next
    case BmTimer
    then show ?thesis
      using assms sealing [of bm] by (auto simp: bm_step_def split: if_splits)
  qed
qed

lemma bm_run_batches:
  "bm_run E bm evs = Ok (bm', out) \<Longrightarrow>
     \<exists>bs. sealed_batches out = map SerializeBatch bs \<and> [] \<notin> set bs
       \<and> bm_currentBatch bm @ received evs = concat bs @ bm_currentBatch bm'"
proof (induction evs arbitrary: bm out)
  case Nil
  then show ?case by (intro exI [of _ "[]"]) simp
next
  case (Cons ev evs)
  from Cons.prems obtain bm1 out1 out2 where split: "bm_step E bm ev = Ok (bm1, out1)"
      "bm_run E bm1 evs = Ok (bm', out2)" "out = out1 @ out2"
    by (auto simp: go_simps)
  obtain bs1 where bs1: "sealed_batches out1 = map SerializeBatch bs1" "[] \<notin> set bs1"
      "bm_currentBatch bm @ event_txs ev = concat bs1 @ bm_currentBatch bm1"
    using bm_step_batches [OF split(1)] by blast
  obtain bs2 where bs2: "sealed_batches out2 = map SerializeBatch bs2" "[] \<notin> set bs2"
      "bm_currentBatch bm1 @ received evs = concat bs2 @ bm_currentBatch bm'"
    using Cons.IH [OF split(2)] by blast
  have "bm_currentBatch bm @ received (ev # evs) = concat (bs1 @ bs2) @ bm_currentBatch bm'"
    using bs1(3) bs2(3) by (metis append.assoc concat.simps(2) concat_append list.simps(9))
  then show ?case using bs1(1,2) bs2(1,2) split(3) by (intro exI [of _ "bs1 @ bs2"]) simp
qed

text \<open>\<open>seal\<close> does not reset \<open>currentBatchSize\<close>: it counts the bytes of all transactions ever received.\<close>

lemma bm_step_size:
  "bm_step E bm ev = Ok (bm', out) \<Longrightarrow>
     bm_batchSize bm' = bm_batchSize bm
     \<and> bm_currentBatchSize bm' = bm_currentBatchSize bm + of_nat (length (concat (event_txs ev)))"
  by (cases ev) (auto simp: bm_step_def Let_def dest!: seal_Ok(1) split: if_splits)

lemma bm_step_small:
  "bm_step E bm ev = Ok (bm', out) \<Longrightarrow>
     bm_currentBatch bm' = [] \<or> \<not> bm_batchSize bm' \<le> bm_currentBatchSize bm'"
  by (cases ev) (auto simp: bm_step_def Let_def dest!: seal_Ok(1) split: if_splits)

lemma bm_run_small:
  "bm_run E bm evs = Ok (bm', out) \<Longrightarrow> bm_currentBatch bm = [] \<Longrightarrow>
     bm_currentBatch bm' = [] \<or> \<not> bm_batchSize bm' \<le> bm_currentBatchSize bm'"
proof -
  have "bm_run E bm evs = Ok (bm', out) \<Longrightarrow>
      bm_currentBatch bm = [] \<or> \<not> bm_batchSize bm \<le> bm_currentBatchSize bm \<Longrightarrow>
      bm_currentBatch bm' = [] \<or> \<not> bm_batchSize bm' \<le> bm_currentBatchSize bm'"
  proof (induction evs arbitrary: bm out)
    case (Cons ev evs)
    from Cons.prems(1) obtain bm1 out1 out2 where "bm_step E bm ev = Ok (bm1, out1)"
        "bm_run E bm1 evs = Ok (bm', out2)"
      by (auto simp: go_simps)
    then show ?case using Cons.IH bm_step_small by blast
  qed simp
  then show "bm_run E bm evs = Ok (bm', out) \<Longrightarrow> bm_currentBatch bm = [] \<Longrightarrow> ?thesis" by blast
qed

lemma bm_run_size:
  "bm_run E bm evs = Ok (bm', out) \<Longrightarrow>
     bm_batchSize bm' = bm_batchSize bm
     \<and> bm_currentBatchSize bm' = bm_currentBatchSize bm + of_nat (length (concat (received evs)))"
proof (induction evs arbitrary: bm out)
  case (Cons ev evs)
  from Cons.prems obtain bm1 out1 out2 where "bm_step E bm ev = Ok (bm1, out1)"
      "bm_run E bm1 evs = Ok (bm', out2)"
    by (auto simp: go_simps)
  then show ?case using Cons.IH bm_step_size by (fastforce simp: algebra_simps)
qed simp

end
