(* ===== verification/QuorumWaiter.thy ===== *)
theory QuorumWaiter
  imports Batch Acks
begin

text \<open>
  \<open>mempool/quorumwaiter.go\<close>: the quorum waiter takes the sealed batches of the batch maker one at a
  time, adds up the stake of the nodes that acknowledge the batch and its own, and hands the batch on
  when the sum reaches the quorum threshold. Afterwards a goroutine drains late replies until the
  deadline, cancels the broadcast and puts a token into the channel \<open>pending\<close>.

  The state is \<open>quorumWaiter\<close>: the batch that is waited for with its acknowledgements (the record
  \<open>acks\<close> of theory Acks), \<open>pendingCounter\<close>, the draining goroutines, the tokens, and what was sent. \<open>qw_step\<close>
  is one event; it is None where the event cannot happen in the state: while a batch is waited for,
  \<open>run\<close> is inside the loop over \<open>waitForQuorum\<close> and takes neither messages nor tokens. The stake of a
  reply is a Go \<open>uint32\<close>, so the sum wraps.
\<close>

definition disseminationQueueMax :: int where
  "disseminationQueueMax = 10000"

record qw_wait =
  qwc_msg :: quorumWaiterMessage
  qwc_acks :: "PublicKey acks"

record quorumWaiter =
  qw_committee :: mp_Committee
  qw_stake :: Stake
  qw_current :: "qw_wait option"
  qw_pendingCounter :: int
  qw_draining :: "quorumWaiterMessage list"
  qw_tokens :: nat
  qw_txBatch :: "sealedBatch list"
  qw_cancelled :: "quorumWaiterMessage list"

definition spawnQuorumWaiter :: "mp_Committee \<Rightarrow> Stake \<Rightarrow> quorumWaiter" where
  "spawnQuorumWaiter committee stake =
     \<lparr>qw_committee = committee, qw_stake = stake, qw_current = None, qw_pendingCounter = 0,
      qw_draining = [], qw_tokens = 0, qw_txBatch = [], qw_cancelled = []\<rparr>"

datatype qw_event =
    QwMessage quorumWaiterMessage
  | QwAck ack_event
  | QwDeadline nat
  | QwPending

definition qw_receive :: "quorumWaiter \<Rightarrow> quorumWaiterMessage \<Rightarrow> quorumWaiter" where
  "qw_receive qw qwMsg =
     qw\<lparr>qw_current := Some \<lparr>qwc_msg = qwMsg,
       qwc_acks = start_acks (map hd_name (qwm_Handlers qwMsg))\<rparr>\<rparr>"

text \<open>
  One round of the loop over \<open>waitForQuorum\<close>, when the stakes that were delivered so far are those of
  \<open>ws\<close>, and what follows its \<open>break\<close>.
\<close>

definition qw_count :: "quorumWaiter \<Rightarrow> quorumWaiterMessage \<Rightarrow> PublicKey acks \<Rightarrow> quorumWaiter" where
  "qw_count qw qwMsg ws =
     (let totalStake = ak_total ws
      in if totalStake \<ge> mp_QuorumThreshold (qw_committee qw) then
           let qw1 = qw\<lparr>qw_txBatch := qw_txBatch qw @ [qwm_Batch qwMsg], qw_current := None\<rparr>
           in if qw_pendingCounter qw1 \<le> disseminationQueueMax
              then qw1\<lparr>qw_pendingCounter := qw_pendingCounter qw1 + 1,
                       qw_draining := qw_draining qw1 @ [qwMsg]\<rparr>
              else qw1
         else qw\<lparr>qw_current := Some \<lparr>qwc_msg = qwMsg, qwc_acks = ws\<rparr>\<rparr>)"

definition qw_step :: "quorumWaiter \<Rightarrow> qw_event \<Rightarrow> quorumWaiter option" where
  "qw_step qw ev =
     (case ev of
        QwMessage qwMsg \<Rightarrow> (case qw_current qw of None \<Rightarrow> Some (qw_receive qw qwMsg) | Some _ \<Rightarrow> None)
      | QwAck a \<Rightarrow>
          (case qw_current qw of
             None \<Rightarrow> None
           | Some w \<Rightarrow>
               (case ack_step (mp_Stake (qw_committee qw)) (qw_stake qw) (qwc_acks w) a of
                  None \<Rightarrow> None
                | Some ws \<Rightarrow> Some (qw_count qw (qwc_msg w) ws)))
      | QwDeadline i \<Rightarrow>
          if i < length (qw_draining qw)
          then Some (qw\<lparr>qw_cancelled := qw_cancelled qw @ [qw_draining qw ! i],
                        qw_draining := take i (qw_draining qw) @ drop (Suc i) (qw_draining qw),
                        qw_tokens := qw_tokens qw + 1\<rparr>)
          else None
      | QwPending \<Rightarrow>
          if qw_current qw = None \<and> qw_tokens qw > 0
          then Some (qw\<lparr>qw_tokens := qw_tokens qw - 1,
                        qw_pendingCounter := (if qw_pendingCounter qw > 0 then qw_pendingCounter qw - 1
                                              else qw_pendingCounter qw)\<rparr>)
          else None)"

primrec qw_run :: "quorumWaiter \<Rightarrow> qw_event list \<Rightarrow> quorumWaiter option" where
  "qw_run qw [] = Some qw"
| "qw_run qw (ev # evs) = (case qw_step qw ev of None \<Rightarrow> None | Some qw1 \<Rightarrow> qw_run qw1 evs)"

subsection \<open>The acknowledgements of one batch\<close>

text \<open>The acknowledgements among the events of a wait.\<close>

fun acks_in :: "qw_event list \<Rightarrow> ack_event list" where
  "acks_in [] = []"
| "acks_in (QwAck a # evs) = a # acks_in evs"
| "acks_in (_ # evs) = acks_in evs"

lemma acks_in_append: "acks_in (xs @ ys) = acks_in xs @ acks_in ys"
  by (induction xs rule: acks_in.induct) auto

text \<open>
  Waiting for the message \<open>m\<close>, after the acknowledgements \<open>as\<close>: the stake is below the threshold. Or
  the threshold was reached, and the batch was handed on.
\<close>

definition acks_after :: "quorumWaiter \<Rightarrow> quorumWaiterMessage \<Rightarrow> ack_event list \<Rightarrow> PublicKey acks option" where
  "acks_after qw m as =
     ack_run (mp_Stake (qw_committee qw)) (qw_stake qw) (start_acks (map hd_name (qwm_Handlers m))) as"

definition waiting_state ::
  "quorumWaiter \<Rightarrow> quorumWaiterMessage \<Rightarrow> ack_event list \<Rightarrow> quorumWaiter \<Rightarrow> bool" where
  "waiting_state qw m as qw' \<longleftrightarrow>
     (\<exists>ws. acks_after qw m as = Some ws \<and> qw_current qw' = Some \<lparr>qwc_msg = m, qwc_acks = ws\<rparr>
        \<and> \<not> mp_QuorumThreshold (qw_committee qw) \<le> ak_total ws)
     \<and> qw_committee qw' = qw_committee qw \<and> qw_stake qw' = qw_stake qw
     \<and> qw_txBatch qw' = qw_txBatch qw"

definition handed_on ::
  "quorumWaiter \<Rightarrow> quorumWaiterMessage \<Rightarrow> ack_event list \<Rightarrow> quorumWaiter \<Rightarrow> bool" where
  "handed_on qw m as qw' \<longleftrightarrow>
     (\<exists>ws. acks_after qw m as = Some ws \<and> mp_QuorumThreshold (qw_committee qw) \<le> ak_total ws)
     \<and> qw_current qw' = None \<and> qw_txBatch qw' = qw_txBatch qw @ [qwm_Batch m]"

lemma qw_step_handed_on:
  assumes "handed_on qw m as qw1" "qw_step qw1 ev = Some qw2" "\<forall>m'. ev \<noteq> QwMessage m'"
  shows "handed_on qw m (as @ acks_in [ev]) qw2"
  using assms by (cases ev) (auto simp: handed_on_def qw_step_def split: if_splits)

lemma qw_step_waiting:
  assumes "waiting_state qw m as qw1" "qw_step qw1 ev = Some qw2" "\<forall>m'. ev \<noteq> QwMessage m'"
  shows "waiting_state qw m (as @ acks_in [ev]) qw2 \<or> handed_on qw m (as @ acks_in [ev]) qw2"
proof (cases ev)
  case (QwAck a)
  from assms(1) obtain ws where ws: "acks_after qw m as = Some ws"
      "qw_current qw1 = Some \<lparr>qwc_msg = m, qwc_acks = ws\<rparr>"
    and keeps: "qw_committee qw1 = qw_committee qw" "qw_stake qw1 = qw_stake qw"
      "qw_txBatch qw1 = qw_txBatch qw"
    by (auto simp: waiting_state_def)
  obtain ws' where ws': "ack_step (mp_Stake (qw_committee qw)) (qw_stake qw) ws a = Some ws'"
      and qw2: "qw2 = qw_count qw1 m ws'"
    using assms(2) QwAck ws(2) keeps by (auto simp: qw_step_def split: option.splits)
  have "acks_after qw m (as @ [a]) = Some ws'"
    using ws(1) ws' by (simp add: acks_after_def ack_run_snoc)
  then show ?thesis
    using QwAck keeps unfolding qw2
    by (auto simp: waiting_state_def handed_on_def qw_count_def Let_def)
qed (use assms in \<open>auto simp: qw_step_def waiting_state_def split: if_splits\<close>)

lemma qw_run_round:
  assumes "\<forall>m'. QwMessage m' \<notin> set evs"
    and "waiting_state qw m as qw1 \<or> handed_on qw m as qw1" "qw_run qw1 evs = Some qw2"
  shows "waiting_state qw m (as @ acks_in evs) qw2 \<or> handed_on qw m (as @ acks_in evs) qw2"
  using assms
proof (induction evs arbitrary: qw1 as)
  case (Cons ev evs)
  obtain qw3 where step: "qw_step qw1 ev = Some qw3" and run: "qw_run qw3 evs = Some qw2"
    using Cons.prems(3) by (auto split: option.splits)
  have nomsg: "\<forall>m'. ev \<noteq> QwMessage m'" "\<forall>m'. QwMessage m' \<notin> set evs" using Cons.prems(1) by auto
  have split: "acks_in (ev # evs) = acks_in [ev] @ acks_in evs"
    using acks_in_append [of "[ev]" evs] by simp
  have "waiting_state qw m (as @ acks_in [ev]) qw3 \<or> handed_on qw m (as @ acks_in [ev]) qw3"
    using Cons.prems(2) qw_step_waiting [OF _ step nomsg(1)] qw_step_handed_on [OF _ step nomsg(1)]
    by blast
  from Cons.IH [OF nomsg(2) this run] show ?case unfolding split append.assoc .
qed simp

lemma qw_receive_waiting: "waiting_state qw m [] (qw_receive qw m)"
proof -
  have "QuorumThreshold (as_committee (qw_committee qw)) \<noteq> 0" by (rule QuorumThreshold_nonzero)
  then show ?thesis
    by (simp add: waiting_state_def acks_after_def qw_receive_def start_acks_def as_committee_simps)
qed

text \<open>One whole round, from the moment the batch arrives.\<close>

lemma qw_batch_round:
  assumes "mp_stake_fits (qw_committee qw)" "qw_stake qw = mp_Stake (qw_committee qw) me"
    and "distinct (map hd_name (qwm_Handlers m))" "me \<notin> set (map hd_name (qwm_Handlers m))"
    and "\<forall>m'. QwMessage m' \<notin> set evs" "qw_run qw (QwMessage m # evs) = Some qw'"
  shows "qw_txBatch qw' = (if unat (mp_QuorumThreshold (qw_committee qw))
            \<le> (\<Sum>k\<in>set (acked me (map hd_name (qwm_Handlers m)) (acks_in evs)).
                  unat (mp_Stake (qw_committee qw) k))
          then qw_txBatch qw @ [qwm_Batch m] else qw_txBatch qw)"
proof -
  have start: "qw_current qw = None" "qw_run (qw_receive qw m) evs = Some qw'"
    using assms(6) by (auto simp: qw_step_def split: option.splits)
  have ends: "waiting_state qw m (acks_in evs) qw' \<or> handed_on qw m (acks_in evs) qw'"
    using qw_run_round [OF assms(5) disjI1 [OF qw_receive_waiting] start(2)] by simp
  then obtain ws where "acks_after qw m (acks_in evs) = Some ws"
    by (auto simp: waiting_state_def handed_on_def)
  then have "mp_QuorumThreshold (qw_committee qw) \<le> ak_total ws \<longleftrightarrow>
      unat (mp_QuorumThreshold (qw_committee qw))
        \<le> (\<Sum>k\<in>set (acked me (map hd_name (qwm_Handlers m)) (acks_in evs)).
              unat (mp_Stake (qw_committee qw) k))"
    using mq.ack_run_reaches [OF assms(1,3,4)] assms(2) by (simp add: acks_after_def)
  with ends \<open>acks_after qw m (acks_in evs) = Some ws\<close> show ?thesis
    by (auto simp: waiting_state_def handed_on_def)
qed

subsection \<open>The bound on the draining goroutines\<close>

text \<open>The counter is the number of goroutines that drain plus the tokens that were not taken yet.\<close>

definition qw_bound :: "quorumWaiter \<Rightarrow> bool" where
  "qw_bound qw \<longleftrightarrow>
     qw_pendingCounter qw = int (length (qw_draining qw) + qw_tokens qw)
     \<and> qw_pendingCounter qw \<le> disseminationQueueMax + 1"

lemma qw_step_bound:
  assumes "qw_bound qw" "qw_step qw ev = Some qw'"
  shows "qw_bound qw'"
proof -
  have count: "qw_bound (qw_count qw m ws)" for m ws
    using assms(1) by (simp add: qw_bound_def qw_count_def Let_def)
  show ?thesis
    using assms count
    by (cases ev) (auto simp: qw_bound_def qw_step_def qw_receive_def split: option.splits if_splits)
qed

lemma qw_run_bound: "qw_run qw evs = Some qw' \<Longrightarrow> qw_bound qw \<Longrightarrow> qw_bound qw'"
  by (induction evs arbitrary: qw) (auto split: option.splits dest: qw_step_bound)

lemma spawn_bound: "qw_bound (spawnQuorumWaiter c s)"
  by (simp add: qw_bound_def spawnQuorumWaiter_def disseminationQueueMax_def)

end
