(* ===== verification/MempoolSync.thy ===== *)
theory MempoolSync
  imports MempoolWire MempoolDriver
begin

text \<open>
  \<open>mempool/synchronizer.go\<close>: the mempool's synchronizer asks other nodes for the batches that
  consensus misses, waits for them to appear in the store, asks again when a request is old, and
  forgets requests that are too old. The state is \<open>ms_synchronizer\<close>; \<open>ms_Synchronize\<close>, \<open>ms_Cleanup\<close>,
  \<open>ms_result\<close> and \<open>ms_timer\<close> are the cases of its \<open>select\<close> loop. The goroutine that waits for a digest
  is the pair of its cancel channel and the digest in \<open>ms_waiters\<close>, as long as it is in its \<open>select\<close>.

  A cancel channel is unbuffered and its goroutine is the only receiver, so a send on it ends only
  if the goroutine is still in its \<open>select\<close>; otherwise the loop of \<open>run\<close> is blocked for ever, which is
  the value None. Channels are numbered by \<open>ms_next\<close>. Time is a Go \<open>int64\<close>. The channel \<open>waiting\<close>, with room
  for 1000 digests, is unbounded here: a goroutine that waits for room is one that has left its \<open>select\<close>.
\<close>

record batchInfo =
  bi_round :: Round
  bi_c :: nat
  bi_timestamp :: "64 word"

record ms_synchronizer =
  ms_name :: PublicKey
  ms_committee :: mp_Committee
  ms_gcDepth :: Round
  ms_syncRetryDelay :: u64
  ms_syncRetryNodes :: u64
  ms_round :: Round
  ms_pending :: "(Digest, batchInfo) DAList.alist"
  ms_waiters :: "(nat \<times> Digest) list"
  ms_results :: "Digest list"
  ms_armed :: bool
  ms_next :: nat

definition mp_spawnSynchronizer ::
  "PublicKey \<Rightarrow> mp_Committee \<Rightarrow> Round \<Rightarrow> u64 \<Rightarrow> u64 \<Rightarrow> ms_synchronizer" where
  "mp_spawnSynchronizer name committee gcDepth syncRetryDelay syncRetryNodes =
     \<lparr>ms_name = name, ms_committee = committee, ms_gcDepth = gcDepth,
      ms_syncRetryDelay = syncRetryDelay, ms_syncRetryNodes = syncRetryNodes, ms_round = 0,
      ms_pending = DAList.empty, ms_waiters = [], ms_results = [], ms_armed = True, ms_next = 0\<rparr>"

datatype ms_out = MsSend PeerID "byte list" | MsLucky "PeerID list" "byte list" u64

subsection \<open>A request of consensus\<close>

fun ms_missing ::
  "64 word \<Rightarrow> ms_synchronizer \<Rightarrow> Digest list \<Rightarrow> ms_synchronizer \<times> Digest list" where
  "ms_missing now s [] = (s, [])"
| "ms_missing now s (d # ds) =
     (if DAList.lookup (ms_pending s) d \<noteq> None then ms_missing now s ds
      else
        let cancelHandler = ms_next s;
            s1 = s\<lparr>ms_waiters := ms_waiters s @ [(cancelHandler, d)],
                   ms_pending := DAList.update d
                     \<lparr>bi_round = ms_round s, bi_c = cancelHandler, bi_timestamp = now\<rparr> (ms_pending s),
                   ms_next := Suc cancelHandler\<rparr>;
            (s2, missing) = ms_missing now s1 ds
        in (s2, d # missing))"

definition ms_Synchronize ::
  "('sk, 'p1, 'p2, 'agg, 'db, 'z) mp_env_scheme \<Rightarrow> 64 word \<Rightarrow> ms_synchronizer
     \<Rightarrow> Digest list \<Rightarrow> PublicKey \<Rightarrow> ms_synchronizer \<times> ms_out list" where
  "ms_Synchronize E now s Missing Target =
     (let (s1, missing) = ms_missing now s Missing;
          (address, ok) = mp_MempoolAddress (ms_committee s1) Target
      in if \<not> ok then (s1, [])
         else case serializeMempoolMessage E (requestMessage missing (ms_name s1)) of
                Ok serialized \<Rightarrow> (s1, [MsSend address serialized])
              | _ \<Rightarrow> (s1, []))"

subsection \<open>Cleanup, results and retries\<close>

text \<open>
  The loop over \<open>s.pending\<close> in the iteration order: sending the token makes the goroutine of the
  entry return.
\<close>

fun ms_cancel_old ::
  "Round \<Rightarrow> (Digest \<times> batchInfo) list \<Rightarrow> ms_synchronizer \<Rightarrow> ms_synchronizer option" where
  "ms_cancel_old gcRound [] s = Some s"
| "ms_cancel_old gcRound ((d, info) # entries) s =
     (if bi_round info < gcRound then
        if (bi_c info, d) \<in> set (ms_waiters s) then
          ms_cancel_old gcRound entries
            (s\<lparr>ms_waiters := remove1 (bi_c info, d) (ms_waiters s),
               ms_pending := DAList.delete d (ms_pending s)\<rparr>)
        else None
      else ms_cancel_old gcRound entries s)"

definition ms_Cleanup :: "ms_synchronizer \<Rightarrow> Round \<Rightarrow> ms_synchronizer option" where
  "ms_Cleanup s Round' =
     (let s1 = s\<lparr>ms_round := Round'\<rparr>
      in if ms_round s1 < ms_gcDepth s1 then Some s1
         else ms_cancel_old (ms_round s1 - ms_gcDepth s1) (DAList.impl_of (ms_pending s1)) s1)"

definition ms_result :: "ms_synchronizer \<Rightarrow> Digest \<Rightarrow> ms_synchronizer" where
  "ms_result s result = s\<lparr>ms_pending := DAList.delete result (ms_pending s)\<rparr>"

definition retry_due :: "ms_synchronizer \<Rightarrow> 64 word \<Rightarrow> Digest list" where
  "retry_due s now =
     map fst (filter (\<lambda>(d, info). sint (bi_timestamp info + ms_syncRetryDelay s) < sint now)
       (DAList.impl_of (ms_pending s)))"

text \<open>When the retry cannot be serialized, \<open>continue\<close> leaves the timer expired.\<close>

definition ms_timer ::
  "('sk, 'p1, 'p2, 'agg, 'db, 'z) mp_env_scheme \<Rightarrow> 64 word \<Rightarrow> ms_synchronizer
     \<Rightarrow> ms_synchronizer \<times> ms_out list" where
  "ms_timer E now s =
     (let retry = retry_due s now
      in if length retry \<noteq> 0 then
           let (_, addresses) = mp_BroadcastAddresses (ms_committee s) (ms_name s)
           in case serializeMempoolMessage E (requestMessage retry (ms_name s)) of
                Ok serialized \<Rightarrow>
                  (s\<lparr>ms_armed := True\<rparr>, [MsLucky addresses serialized (ms_syncRetryNodes s)])
              | _ \<Rightarrow> (s\<lparr>ms_armed := False\<rparr>, [])
         else (s\<lparr>ms_armed := True\<rparr>, []))"

subsection \<open>The loop and the waiting goroutines\<close>

inductive ms_step ::
  "('sk, 'p1, 'p2, 'agg, 'db, 'z) mp_env_scheme \<Rightarrow> bool \<Rightarrow> byte list set
     \<Rightarrow> ms_synchronizer \<Rightarrow> ms_out list \<Rightarrow> ms_synchronizer \<Rightarrow> bool"
  for E errs stored where
  ms_sync_msg: "ms_Synchronize E now s Missing Target = (s', out) \<Longrightarrow> ms_step E errs stored s out s'"
| ms_cleanup_msg: "ms_Cleanup s r = Some s' \<Longrightarrow> ms_step E errs stored s [] s'"
| ms_take_result:
    "ms_results s = d # ds \<Longrightarrow> ms_step E errs stored s [] (ms_result (s\<lparr>ms_results := ds\<rparr>) d)"
| ms_tick: "ms_armed s \<Longrightarrow> ms_timer E now s = (s', out) \<Longrightarrow> ms_step E errs stored s out s'"
| ms_read:
    "(c, d) \<in> set (ms_waiters s) \<Longrightarrow> digest_bytes d \<in> stored \<Longrightarrow>
     ms_step E errs stored s []
       (s\<lparr>ms_waiters := remove1 (c, d) (ms_waiters s), ms_results := ms_results s @ [d]\<rparr>)"
| ms_read_error:
    "errs \<Longrightarrow> (c, d) \<in> set (ms_waiters s) \<Longrightarrow>
     ms_step E errs stored s [] (s\<lparr>ms_waiters := remove1 (c, d) (ms_waiters s)\<rparr>)"

text \<open>
  A run, in which batches may arrive in the store between steps; \<open>errs\<close> tells whether the store may
  answer a \<open>NotifyRead\<close> with an error.
\<close>

inductive ms_reach ::
  "('sk, 'p1, 'p2, 'agg, 'db, 'z) mp_env_scheme \<Rightarrow> bool \<Rightarrow> ms_synchronizer \<Rightarrow> ms_synchronizer \<Rightarrow> bool"
  for E errs s0 where
  ms_start: "ms_reach E errs s0 s0"
| ms_next_step: "ms_reach E errs s0 s \<Longrightarrow> ms_step E errs stored s out s' \<Longrightarrow> ms_reach E errs s0 s'"

text \<open>The same runs, with the digests whose \<open>NotifyRead\<close> returned an error.\<close>

inductive ms_history ::
  "('sk, 'p1, 'p2, 'agg, 'db, 'z) mp_env_scheme \<Rightarrow> ms_synchronizer \<Rightarrow> Digest set \<Rightarrow> ms_synchronizer \<Rightarrow> bool"
  for E s0 where
  ms_fresh: "ms_history E s0 {} s0"
| ms_kept: "ms_history E s0 F s \<Longrightarrow> ms_step E False stored s out s' \<Longrightarrow> ms_history E s0 F s'"
| ms_failed:
    "ms_history E s0 F s \<Longrightarrow> (c, d) \<in> set (ms_waiters s) \<Longrightarrow>
     ms_history E s0 (insert d F) (s\<lparr>ms_waiters := remove1 (c, d) (ms_waiters s)\<rparr>)"

lemma ms_step_errors:
  "ms_step E errs stored s out s' \<Longrightarrow> ms_step E False stored s out s'
     \<or> (\<exists>c d. (c, d) \<in> set (ms_waiters s) \<and> s' = s\<lparr>ms_waiters := remove1 (c, d) (ms_waiters s)\<rparr>)"
  by (cases rule: ms_step.cases) (blast intro: ms_step.intros)+

lemma ms_step_mono: "ms_step E False stored s out s' \<Longrightarrow> ms_step E errs stored s out s'"
  by (cases rule: ms_step.cases) (blast intro: ms_step.intros)+

lemma ms_reach_iff_history: "ms_reach E True s0 s \<longleftrightarrow> (\<exists>F. ms_history E s0 F s)"
proof
  show "\<exists>F. ms_history E s0 F s" if "ms_reach E True s0 s"
    using that
  proof (induction rule: ms_reach.induct)
    case (ms_next_step s stored out s')
    then show ?case using ms_step_errors by (metis ms_kept ms_failed)
  qed (blast intro: ms_fresh)
  show "ms_reach E True s0 s" if "\<exists>F. ms_history E s0 F s"
  proof -
    from that have "\<exists>F. ms_history E s0 F s" .
    then obtain F where "ms_history E s0 F s" ..
    then show ?thesis
    proof (induction rule: ms_history.induct)
      case (ms_failed F s c d)
      have "ms_step E True {} s [] (s\<lparr>ms_waiters := remove1 (c, d) (ms_waiters s)\<rparr>)"
        using ms_failed.hyps(2) by (rule ms_read_error [OF TrueI])
      then show ?case by (rule ms_next_step [OF ms_failed.IH])
    qed (blast intro: ms_start ms_next_step ms_step_mono)+
  qed
qed

subsection \<open>Requests\<close>

text \<open>The digests that are asked for: those of the list that are not pending, each once.\<close>

fun first_unseen :: "Digest set \<Rightarrow> Digest list \<Rightarrow> Digest list" where
  "first_unseen seen [] = []"
| "first_unseen seen (d # ds) =
     (if d \<in> seen then first_unseen seen ds else d # first_unseen (insert d seen) ds)"

definition ms_keys :: "ms_synchronizer \<Rightarrow> Digest set" where
  "ms_keys s = {d. DAList.lookup (ms_pending s) d \<noteq> None}"

lemma ms_missing_spec:
  "ms_missing now s ds = (s', missing) \<Longrightarrow>
     missing = first_unseen (ms_keys s) ds \<and> ms_keys s' = ms_keys s \<union> set ds
     \<and> ms_name s' = ms_name s \<and> ms_committee s' = ms_committee s"
proof (induction ds arbitrary: s s' missing)
  case (Cons d ds)
  show ?case
  proof (cases "d \<in> ms_keys s")
    case True
    then have "ms_missing now s ds = (s', missing)" using Cons.prems by (simp add: ms_keys_def)
    from Cons.IH [OF this] True show ?thesis by auto
  next
    case False
    define s1 where "s1 = s\<lparr>ms_waiters := ms_waiters s @ [(ms_next s, d)],
        ms_pending := DAList.update d
          \<lparr>bi_round = ms_round s, bi_c = ms_next s, bi_timestamp = now\<rparr> (ms_pending s),
        ms_next := Suc (ms_next s)\<rparr>"
    have keys: "ms_keys s1 = insert d (ms_keys s)"
      by (auto simp: ms_keys_def s1_def DAList.lookup_update)
    obtain missing' where "ms_missing now s1 ds = (s', missing')" "missing = d # missing'"
      using Cons.prems False by (auto simp: ms_keys_def s1_def Let_def split: prod.splits)
    from Cons.IH [OF this(1)] this(2) False show ?thesis
      by (auto simp: keys) (simp_all add: s1_def)
  qed
qed simp

lemma first_unseen_set: "set (first_unseen seen ds) = set ds - seen"
  by (induction seen ds rule: first_unseen.induct) auto

lemma first_unseen_distinct: "distinct (first_unseen seen ds)"
  by (induction seen ds rule: first_unseen.induct) (auto simp: first_unseen_set)


lemma ms_Synchronize_known:
  assumes "ms_Synchronize E now s Missing Target = (s', out)"
    and "mp_MempoolAddress (ms_committee s) Target = (address, True)"
    and "serializeMempoolMessage E (requestMessage (first_unseen (ms_keys s) Missing) (ms_name s)) = Ok data"
  shows "out = [MsSend address data]" and "ms_keys s' = ms_keys s \<union> set Missing"
proof -
  obtain s1 missing where step: "ms_missing now s Missing = (s1, missing)" by fastforce
  note spec = ms_missing_spec [OF step]
  show "out = [MsSend address data]" "ms_keys s' = ms_keys s \<union> set Missing"
    using assms step spec by (simp_all add: ms_Synchronize_def)
qed

subsection \<open>What is pending and who waits for it\<close>

text \<open>
  Every goroutine in its \<open>select\<close> waits for a pending digest and holds the cancel channel of its
  entry. Each pending digest has its goroutine, its result in the queue, or is in \<open>F\<close>, the digests
  whose read failed, and only one of these.
\<close>

definition ms_inv :: "Digest set \<Rightarrow> ms_synchronizer \<Rightarrow> bool" where
  "ms_inv F s \<longleftrightarrow>
     distinct (map snd (ms_waiters s)) \<and> distinct (ms_results s)
     \<and> (\<forall>c d. (c, d) \<in> set (ms_waiters s)
          \<longrightarrow> (\<exists>info. DAList.lookup (ms_pending s) d = Some info \<and> bi_c info = c))
     \<and> set (ms_results s) \<inter> snd ` set (ms_waiters s) = {}
     \<and> F \<inter> (snd ` set (ms_waiters s) \<union> set (ms_results s)) = {}
     \<and> ms_keys s = snd ` set (ms_waiters s) \<union> set (ms_results s) \<union> F"

lemma ms_invI:
  assumes "distinct (map snd (ms_waiters s))" "distinct (ms_results s)"
    and "\<And>c d. (c, d) \<in> set (ms_waiters s) \<Longrightarrow>
       \<exists>info. DAList.lookup (ms_pending s) d = Some info \<and> bi_c info = c"
    and "set (ms_results s) \<inter> snd ` set (ms_waiters s) = {}"
    and "F \<inter> (snd ` set (ms_waiters s) \<union> set (ms_results s)) = {}"
    and "ms_keys s = snd ` set (ms_waiters s) \<union> set (ms_results s) \<union> F"
  shows "ms_inv F s"
  using assms unfolding ms_inv_def by blast

lemma waiter_is_pending:
  assumes "ms_inv F s" "(c, d) \<in> set (ms_waiters s)"
  shows "d \<in> ms_keys s"
proof -
  have "d \<in> snd ` set (ms_waiters s)" using assms(2) by (rule image_eqI [rotated]) simp
  then show ?thesis using assms(1) unfolding ms_inv_def by blast
qed

lemma ms_missing_inv: "ms_missing now s ds = (s', missing) \<Longrightarrow> ms_inv F s \<Longrightarrow> ms_inv F s'"
proof (induction ds arbitrary: s s' missing)
  case (Cons d ds)
  show ?case
  proof (cases "d \<in> ms_keys s")
    case True
    then have "ms_missing now s ds = (s', missing)" using Cons.prems by (simp add: ms_keys_def)
    then show ?thesis using Cons by blast
  next
    case False
    define s1 where "s1 = s\<lparr>ms_waiters := ms_waiters s @ [(ms_next s, d)],
        ms_pending := DAList.update d
          \<lparr>bi_round = ms_round s, bi_c = ms_next s, bi_timestamp = now\<rparr> (ms_pending s),
        ms_next := Suc (ms_next s)\<rparr>"
    have nowait: "d \<notin> snd ` set (ms_waiters s)"
      using False waiter_is_pending [OF Cons.prems(2)] by fastforce
    have nores: "d \<notin> set (ms_results s)"
      using False Cons.prems(2) unfolding ms_inv_def by blast
    have nofail: "d \<notin> F"
      using False Cons.prems(2) unfolding ms_inv_def by blast
    have keys: "ms_keys s1 = insert d (ms_keys s)"
      by (auto simp: ms_keys_def s1_def DAList.lookup_update)
    have "ms_inv F s1"
    proof (rule ms_invI)
      show "\<exists>info. DAList.lookup (ms_pending s1) d' = Some info \<and> bi_c info = c"
        if "(c, d') \<in> set (ms_waiters s1)" for c d'
      proof (cases "d' = d")
        case True
        then show ?thesis using that nowait by (force simp: s1_def)
      next
        case False
        then have "DAList.lookup (ms_pending s1) d' = DAList.lookup (ms_pending s) d'"
          by (simp add: s1_def)
        then show ?thesis using that False Cons.prems(2) by (simp add: s1_def ms_inv_def)
      qed
    next
      have same: "ms_waiters s1 = ms_waiters s @ [(ms_next s, d)]" "ms_results s1 = ms_results s"
        by (simp_all add: s1_def)
      have parts: "distinct (map snd (ms_waiters s))" "distinct (ms_results s)"
          "set (ms_results s) \<inter> snd ` set (ms_waiters s) = {}"
          "F \<inter> (snd ` set (ms_waiters s) \<union> set (ms_results s)) = {}"
          "ms_keys s = snd ` set (ms_waiters s) \<union> set (ms_results s) \<union> F"
        using Cons.prems(2) by (simp_all add: ms_inv_def)
      show "distinct (map snd (ms_waiters s1))" using parts(1) nowait by (simp add: same)
      show "distinct (ms_results s1)" using parts(2) by (simp add: same)
      show "set (ms_results s1) \<inter> snd ` set (ms_waiters s1) = {}" using parts(3) nores by (simp add: same)
      show "F \<inter> (snd ` set (ms_waiters s1) \<union> set (ms_results s1)) = {}"
        using parts(4) nofail by (simp add: same)
      show "ms_keys s1 = snd ` set (ms_waiters s1) \<union> set (ms_results s1) \<union> F"
        unfolding keys parts(5) by (simp add: same)
    qed
    moreover obtain missing' where "ms_missing now s1 ds = (s', missing')"
      using Cons.prems False by (auto simp: ms_keys_def s1_def Let_def split: prod.splits)
    ultimately show ?thesis using Cons.IH by blast
  qed
qed simp

lemma remove1_snd:
  assumes "distinct (map snd xs)" "(c, d) \<in> set xs"
  shows "set (remove1 (c, d) xs) = set xs - {(c, d)}"
    and "snd ` set (remove1 (c, d) xs) = snd ` set xs - {d}"
    and "distinct (map snd (remove1 (c, d) xs))"
proof -
  have inj: "distinct xs" "inj_on snd (set xs)" using assms(1) by (simp_all add: distinct_map)
  show rest: "set (remove1 (c, d) xs) = set xs - {(c, d)}"
    using inj(1) by (rule set_remove1_eq)
  have "snd ` (set xs - {(c, d)}) = snd ` set xs - snd ` {(c, d)}"
    using inj(2) assms(2) by (intro inj_on_image_set_diff [where C = "set xs"]) auto
  then show "snd ` set (remove1 (c, d) xs) = snd ` set xs - {d}" by (simp add: rest)
  show "distinct (map snd (remove1 (c, d) xs))"
    using inj by (simp add: distinct_map distinct_remove1 rest inj_on_diff)
qed

text \<open>An entry and its goroutine leave together.\<close>

lemma ms_drop_inv:
  assumes "ms_inv F s" "(c, d) \<in> set (ms_waiters s)"
  shows "ms_inv F (s\<lparr>ms_waiters := remove1 (c, d) (ms_waiters s),
    ms_pending := DAList.delete d (ms_pending s)\<rparr>)" (is "ms_inv F ?s")
proof -
  have "distinct (map snd (ms_waiters s))" using assms(1) by (simp add: ms_inv_def)
  note rest = remove1_snd [OF this assms(2)]
  have keys: "ms_keys ?s = ms_keys s - {d}" by (auto simp: ms_keys_def)
  show ?thesis
  proof (rule ms_invI)
    show "\<exists>info. DAList.lookup (ms_pending ?s) d' = Some info \<and> bi_c info = c'"
      if "(c', d') \<in> set (ms_waiters ?s)" for c' d'
    proof -
      have mem: "(c', d') \<in> set (remove1 (c, d) (ms_waiters s))" using that by simp
      then have "d' \<in> snd ` set (remove1 (c, d) (ms_waiters s))" by (rule image_eqI [rotated]) simp
      then have "(c', d') \<in> set (ms_waiters s)" "d' \<noteq> d"
        using mem set_remove1_subset [of "(c, d)" "ms_waiters s"] unfolding rest(2) by blast+
      then show ?thesis using assms(1) by (simp add: ms_inv_def)
    qed
    have d: "d \<in> snd ` set (ms_waiters s)" using assms(2) by (rule image_eqI [rotated]) simp
    have parts: "set (ms_results s) \<inter> snd ` set (ms_waiters s) = {}"
        "F \<inter> (snd ` set (ms_waiters s) \<union> set (ms_results s)) = {}"
        "ms_keys s = snd ` set (ms_waiters s) \<union> set (ms_results s) \<union> F"
      using assms(1) by (simp_all add: ms_inv_def)
    show "set (ms_results ?s) \<inter> snd ` set (ms_waiters ?s) = {}"
      using parts(1) by (simp add: rest(2)) blast
    show "F \<inter> (snd ` set (ms_waiters ?s) \<union> set (ms_results ?s)) = {}"
      using parts(2) by (simp add: rest(2)) blast
    show "ms_keys ?s = snd ` set (ms_waiters ?s) \<union> set (ms_results ?s) \<union> F"
      using parts d unfolding keys by (simp add: rest(2)) blast
  qed (use rest(3) assms(1) in \<open>simp_all add: ms_inv_def\<close>)
qed

lemma ms_cancel_old_inv:
  "ms_cancel_old r entries s = Some s' \<Longrightarrow> ms_inv F s \<Longrightarrow> ms_inv F s'"
  by (induction r entries s rule: ms_cancel_old.induct) (auto split: if_splits dest: ms_drop_inv)

lemma ms_inv_irrelevant [simp]:
  "ms_inv F (s\<lparr>ms_round := r\<rparr>) = ms_inv F s" "ms_inv F (s\<lparr>ms_armed := a\<rparr>) = ms_inv F s"
  by (simp_all add: ms_inv_def ms_keys_def)

lemma ms_leave_inv:
  assumes "ms_inv F s" "(c, d) \<in> set (ms_waiters s)" "(rs, F') = ([d], F) \<or> (rs, F') = ([], insert d F)"
  shows "ms_inv F' (s\<lparr>ms_waiters := remove1 (c, d) (ms_waiters s), ms_results := ms_results s @ rs\<rparr>)"
    (is "ms_inv F' ?s")
proof -
  have parts: "distinct (map snd (ms_waiters s))" "set (ms_results s) \<inter> snd ` set (ms_waiters s) = {}"
      "F \<inter> (snd ` set (ms_waiters s) \<union> set (ms_results s)) = {}"
      "ms_keys s = snd ` set (ms_waiters s) \<union> set (ms_results s) \<union> F"
    using assms(1) by (simp_all add: ms_inv_def)
  note rest = remove1_snd [OF parts(1) assms(2)]
  have d: "d \<in> snd ` set (ms_waiters s)" using assms(2) by (rule image_eqI [rotated]) simp
  have keys: "ms_keys ?s = ms_keys s" by (simp add: ms_keys_def)
  have same: "ms_waiters ?s = remove1 (c, d) (ms_waiters s)" "ms_results ?s = ms_results s @ rs"
      "ms_pending ?s = ms_pending s" by simp_all
  show ?thesis
  proof (rule ms_invI)
    show "\<exists>info. DAList.lookup (ms_pending ?s) d' = Some info \<and> bi_c info = c'"
      if "(c', d') \<in> set (ms_waiters ?s)" for c' d'
      using that assms(1) set_remove1_subset [of "(c, d)" "ms_waiters s"] by (auto simp: ms_inv_def)
    show "distinct (ms_results ?s)"
    proof -
      have "d \<notin> set (ms_results s)" using d parts(2) by blast
      then show ?thesis using assms(1,3) by (auto simp: ms_inv_def)
    qed
    show "set (ms_results ?s) \<inter> snd ` set (ms_waiters ?s) = {}"
      using assms(3) d parts(2) unfolding same rest(2) by auto
    show "F' \<inter> (snd ` set (ms_waiters ?s) \<union> set (ms_results ?s)) = {}"
    proof -
      have "d \<notin> F" using d parts(3) by blast
      then show ?thesis using assms(3) d parts(2,3) unfolding same rest(2) by auto
    qed
    show "ms_keys ?s = snd ` set (ms_waiters ?s) \<union> set (ms_results ?s) \<union> F'"
    proof -
      have "snd ` set (ms_waiters s) = insert d (snd ` set (ms_waiters s) - {d})" using d by blast
      then show ?thesis using assms(3) unfolding keys same rest(2) parts(4) by auto
    qed
  qed (use rest(3) in simp)
qed

lemma ms_step_inv: "ms_step E False stored s out s' \<Longrightarrow> ms_inv F s \<Longrightarrow> ms_inv F s'"
proof (induction rule: ms_step.induct)
  case (ms_sync_msg now s Missing Target s' out)
  then show ?case
    by (auto simp: ms_Synchronize_def dest: ms_missing_inv split: prod.splits result.splits if_splits)
next
  case (ms_cleanup_msg s r s')
  then show ?case by (auto simp: ms_Cleanup_def Let_def dest: ms_cancel_old_inv split: if_splits)
next
  case (ms_take_result s d ds)
  let ?s = "ms_result (s\<lparr>ms_results := ds\<rparr>) d"
  have keys: "ms_keys ?s = ms_keys s - {d}" by (auto simp: ms_keys_def ms_result_def)
  have nowait: "d \<notin> snd ` set (ms_waiters s)" using ms_take_result by (auto simp: ms_inv_def)
  have same: "ms_waiters ?s = ms_waiters s" "ms_results ?s = ds" by (simp_all add: ms_result_def)
  show ?case
  proof (rule ms_invI)
    show "\<exists>info. DAList.lookup (ms_pending ?s) d' = Some info \<and> bi_c info = c"
      if "(c, d') \<in> set (ms_waiters ?s)" for c d'
    proof -
      have "d' \<noteq> d" using that nowait by (force simp: same)
      then show ?thesis using that ms_take_result by (simp add: ms_inv_def ms_result_def)
    qed
  qed (use ms_take_result keys nowait in \<open>auto simp: ms_inv_def same\<close>)
next
  case (ms_tick s now s' out)
  then show ?case by (auto simp: ms_timer_def Let_def split: if_splits prod.splits result.splits)
next
  case (ms_read c d s)
  then show ?case using ms_leave_inv [of F s c d "[d]" F] by simp
qed simp

lemma ms_start_inv: "ms_inv {} (mp_spawnSynchronizer name c gc delay nodes)"
  by (simp add: ms_inv_def mp_spawnSynchronizer_def ms_keys_def)

lemma ms_history_inv: "ms_history E s0 F s \<Longrightarrow> ms_inv {} s0 \<Longrightarrow> ms_inv F s"
proof (induction rule: ms_history.induct)
  case (ms_failed F s c d)
  then show ?case using ms_leave_inv [of F s c d "[]" "insert d F"] by simp
qed (auto dest: ms_step_inv)

subsection \<open>When a cleanup ends\<close>

lemma ms_cancel_old_blocks_iff:
  "distinct (map fst entries) \<Longrightarrow> ms_cancel_old r entries s = None \<longleftrightarrow>
     (\<exists>(d, info)\<in>set entries. bi_round info < r \<and> (bi_c info, d) \<notin> set (ms_waiters s))"
proof (induction r entries s rule: ms_cancel_old.induct)
  case (2 r d info entries s)
  have other: "d' \<noteq> d" if "(d', info') \<in> set entries" for d' info'
    using that "2.prems" by force
  have "(\<exists>(d', info')\<in>set entries. bi_round info' < r
        \<and> (bi_c info', d') \<notin> set (remove1 (bi_c info, d) (ms_waiters s)))
     \<longleftrightarrow> (\<exists>(d', info')\<in>set entries. bi_round info' < r \<and> (bi_c info', d') \<notin> set (ms_waiters s))"
    using other by (intro bex_cong) auto
  then show ?case using 2 by auto
qed simp

lemma ms_cancel_old_pending:
  "ms_cancel_old r entries s = Some s' \<Longrightarrow> distinct (map fst entries) \<Longrightarrow>
     DAList.lookup (ms_pending s') d =
       (case map_of entries d of
          Some info \<Rightarrow> if bi_round info < r then None else DAList.lookup (ms_pending s) d
        | None \<Rightarrow> DAList.lookup (ms_pending s) d)"
proof (induction r entries s rule: ms_cancel_old.induct)
  case (2 r d' info entries s)
  have "map_of entries d' = None" using "2.prems"(2) by (simp add: map_of_eq_None_iff)
  then show ?case using 2 by (auto split: if_splits option.splits)
qed simp

lemma ms_Cleanup_blocks_iff:
  "ms_Cleanup s r = None \<longleftrightarrow>
     ms_gcDepth s \<le> r \<and> (\<exists>d info. DAList.lookup (ms_pending s) d = Some info
        \<and> bi_round info < r - ms_gcDepth s \<and> (bi_c info, d) \<notin> set (ms_waiters s))"
proof (cases "r < ms_gcDepth s")
  case False
  then show ?thesis
    by (auto simp: ms_Cleanup_def Let_def ms_cancel_old_blocks_iff lookup_Some_iff not_less)
qed (simp add: ms_Cleanup_def not_less [symmetric])

lemma ms_Cleanup_pending:
  assumes "ms_Cleanup s r = Some s'"
  shows "DAList.lookup (ms_pending s') d =
       (if ms_gcDepth s \<le> r then
          Option.bind (DAList.lookup (ms_pending s) d)
            (\<lambda>info. if bi_round info < r - ms_gcDepth s then None else Some info)
        else DAList.lookup (ms_pending s) d)"
proof (cases "r < ms_gcDepth s")
  case True
  then show ?thesis using assms by (auto simp: ms_Cleanup_def not_less [symmetric])
next
  case False
  then have "ms_cancel_old (r - ms_gcDepth s) (DAList.impl_of (ms_pending s)) (s\<lparr>ms_round := r\<rparr>) = Some s'"
    using assms by (simp add: ms_Cleanup_def)
  from ms_cancel_old_pending [OF this, of d] False show ?thesis
    by (auto simp: lookup_impl_of [symmetric] not_less split: option.splits)
qed

end
