(* ===== verification/MempoolNode.thy ===== *)
theory MempoolNode
  imports QuorumWaiter MempoolSync
begin

text \<open>
  The rest of the mempool and its wiring: \<open>mempool/processor.go\<close>, which stores a batch under its
  digest and reports the digest to consensus, \<open>mempool/helper.go\<close>, which answers requests for
  batches, and \<open>mempool/mempool.go\<close>, which starts the parts and dispatches what the network
  receives. \<open>mn_step\<close> composes the way of a transaction as \<open>handleClientsTransactions\<close> connects it:
  batch maker, channel, quorum waiter, channel, processor, with the store and the second processor
  for the batches of other nodes. The consensus core writes its blocks to the same store, under
  their digests; these writes are not part of \<open>mn_step\<close>. FullNode runs \<open>mn_step\<close> on the store that the
  core has, with its writes in between.
\<close>

subsection \<open>Processor and helper\<close>

definition process_batch ::
  "('sk, 'p1, 'p2, 'agg, 'db, 'z) mp_env_scheme \<Rightarrow> 'db store \<Rightarrow> sealedBatch \<Rightarrow> 'db store \<times> Digest" where
  "process_batch E s batch =
     (let digest = NewDigest E batch
      in (Store_Write E s (digest_bytes digest) batch, digest))"

record helperRequest =
  hr_digests :: "Digest list"
  hr_requester :: PublicKey

fun mp_helper_sends ::
  "('sk, 'p1, 'p2, 'agg, 'db, 'z) mp_env_scheme \<Rightarrow> 'db store \<Rightarrow> PeerID \<Rightarrow> Digest list
     \<Rightarrow> (PeerID \<times> byte list) list" where
  "mp_helper_sends E s address [] = []"
| "mp_helper_sends E s address (digest # digests) =
     (case Store_Read E s (digest_bytes digest) of
        Inl err \<Rightarrow> mp_helper_sends E s address digests
      | Inr batch \<Rightarrow>
          (case serializeMempoolMessage E (batchMessage batch) of
             Ok data \<Rightarrow> (address, data) # mp_helper_sends E s address digests
           | _ \<Rightarrow> mp_helper_sends E s address digests))"

definition mp_helper_serve ::
  "('sk, 'p1, 'p2, 'agg, 'db, 'z) mp_env_scheme \<Rightarrow> mp_Committee \<Rightarrow> 'db store \<Rightarrow> helperRequest
     \<Rightarrow> (PeerID \<times> byte list) list" where
  "mp_helper_serve E committee s req =
     (let (address, ok) = mp_MempoolAddress committee (hr_requester req)
      in if \<not> ok then [] else mp_helper_sends E s address (hr_digests req))"

subsection \<open>Dispatch\<close>

text \<open>
  What a handler does with a received message: the acknowledgement on the stream, the sends on its
  channels, and the error it returns. The acknowledgement is written before the message is decoded.
\<close>

datatype mp_dispatch =
    MdAck "byte list"
  | MdProcessor sealedBatch
  | MdHelper helperRequest

definition tx_Dispatch :: "byte list \<Rightarrow> bm_event" where
  "tx_Dispatch msg = BmTransaction msg"

definition mp_Dispatch ::
  "('sk, 'p1, 'p2, 'agg, 'db, 'z) mp_env_scheme \<Rightarrow> byte list
     \<Rightarrow> mp_dispatch list \<times> (error, unit) result" where
  "mp_Dispatch E msg =
     (let ack = MdAck (bytes_of_string ''Ack'')
      in case DeserializeMempoolMessage E msg of
           Err err \<Rightarrow> ([ack], Err err)
         | Panic p \<Rightarrow> ([ack], Panic p)
         | Ok (batchMessage batch) \<Rightarrow> ([ack, MdProcessor batch], Ok ())
         | Ok (requestMessage missing origin) \<Rightarrow>
             ([ack, MdHelper \<lparr>hr_digests = missing, hr_requester = origin\<rparr>], Ok ()))"

subsection \<open>Wiring\<close>

record 'db mempool_node =
  mn_synchronizer :: ms_synchronizer
  mn_batchMaker :: batchMaker
  mn_quorumWaiterCh :: "quorumWaiterMessage list"
  mn_quorumWaiter :: quorumWaiter
  mn_store :: "'db store"
  mn_txConsensus :: "Digest list"

text \<open>The channel from the quorum waiter to the processor is \<open>qw_txBatch\<close> of the quorum waiter.\<close>

definition SpawnMempool ::
  "PublicKey \<Rightarrow> mp_Committee \<Rightarrow> mp_Parameters \<Rightarrow> 'db store \<Rightarrow> (error, 'db mempool_node) result" where
  "SpawnMempool name committee parameters s =
     (let (names, addresses) = mp_BroadcastAddresses committee name;
          (addr, ok) = mp_MempoolAddress committee name
      in if \<not> ok then Panic LogFatal
         else Ok
           \<lparr>mn_synchronizer = mp_spawnSynchronizer name committee (mp_GcDepth parameters)
              (mp_SyncRetryDelay parameters) (mp_SyncRetryNodes parameters),
            mn_batchMaker = spawnBatchMaker (mp_BatchSize parameters) names addresses,
            mn_quorumWaiterCh = [],
            mn_quorumWaiter = spawnQuorumWaiter committee (mp_Stake committee name),
            mn_store = s, mn_txConsensus = []\<rparr>)"

fun waiter_messages :: "bm_out list \<Rightarrow> quorumWaiterMessage list" where
  "waiter_messages [] = []"
| "waiter_messages (BmMessage m # out) = m # waiter_messages out"
| "waiter_messages (BmBroadcast as bs # out) = waiter_messages out"

text \<open>
  A step of the node, labelled with the transactions it takes from clients and the batches that it
  stores: its own, or one that another node sent.
\<close>

datatype stored_batch = OwnBatch (batch_of: sealedBatch) | PeerBatch (batch_of: sealedBatch)

inductive mn_step ::
  "('sk, 'p1, 'p2, 'agg, 'db, 'z) mp_env_scheme \<Rightarrow> 'db mempool_node \<Rightarrow> Transaction list
     \<Rightarrow> stored_batch list \<Rightarrow> 'db mempool_node \<Rightarrow> bool"
  for E where
  mn_batch_maker:
    "bm_step E (mn_batchMaker n) ev = Ok (bm', out) \<Longrightarrow>
     mn_step E n (event_txs ev) []
       (n\<lparr>mn_batchMaker := bm',
          mn_quorumWaiterCh := mn_quorumWaiterCh n @ waiter_messages out\<rparr>)"
| mn_take_message:
    "mn_quorumWaiterCh n = m # ms \<Longrightarrow> qw_step (mn_quorumWaiter n) (QwMessage m) = Some qw' \<Longrightarrow>
     mn_step E n [] [] (n\<lparr>mn_quorumWaiterCh := ms, mn_quorumWaiter := qw'\<rparr>)"
| mn_quorum_waiter:
    "\<forall>m. ev \<noteq> QwMessage m \<Longrightarrow> qw_step (mn_quorumWaiter n) ev = Some qw' \<Longrightarrow>
     mn_step E n [] [] (n\<lparr>mn_quorumWaiter := qw'\<rparr>)"
| mn_processor:
    "qw_txBatch (mn_quorumWaiter n) = batch # batches \<Longrightarrow>
     process_batch E (mn_store n) batch = (s', digest) \<Longrightarrow>
     mn_step E n [] [OwnBatch batch]
       (n\<lparr>mn_quorumWaiter := (mn_quorumWaiter n)\<lparr>qw_txBatch := batches\<rparr>,
          mn_store := s', mn_txConsensus := mn_txConsensus n @ [digest]\<rparr>)"
| mn_peer_batch:
    "MdProcessor batch \<in> set (fst (mp_Dispatch E msg)) \<Longrightarrow>
     process_batch E (mn_store n) batch = (s', digest) \<Longrightarrow>
     mn_step E n [] [PeerBatch batch] (n\<lparr>mn_store := s', mn_txConsensus := mn_txConsensus n @ [digest]\<rparr>)"

inductive mn_reach ::
  "('sk, 'p1, 'p2, 'agg, 'db, 'z) mp_env_scheme \<Rightarrow> 'db mempool_node \<Rightarrow> Transaction list
     \<Rightarrow> stored_batch list \<Rightarrow> 'db mempool_node \<Rightarrow> bool"
  for E n0 where
  mn_start: "mn_reach E n0 [] [] n0"
| mn_more: "mn_reach E n0 txs stored n \<Longrightarrow> mn_step E n txs' stored' n' \<Longrightarrow>
    mn_reach E n0 (txs @ txs') (stored @ stored') n'"

subsection \<open>From a client to consensus\<close>

definition own_batches :: "stored_batch list \<Rightarrow> sealedBatch list" where
  "own_batches bs = map batch_of (filter (\<lambda>b. case b of OwnBatch _ \<Rightarrow> True | PeerBatch _ \<Rightarrow> False) bs)"

lemma own_batches_simps [simp]:
  "own_batches [] = []" "own_batches (xs @ ys) = own_batches xs @ own_batches ys"
  "own_batches (OwnBatch b # xs) = b # own_batches xs" "own_batches (PeerBatch b # xs) = own_batches xs"
  by (simp_all add: own_batches_def)

text \<open>The batches inside the quorum waiter: those in its output channel, and the one it waits for.\<close>

definition qw_contents :: "quorumWaiter \<Rightarrow> sealedBatch list" where
  "qw_contents qw = qw_txBatch qw
     @ (case qw_current qw of None \<Rightarrow> [] | Some w \<Rightarrow> [qwm_Batch (qwc_msg w)])"

lemma qw_message_contents:
  "qw_step qw (QwMessage m) = Some qw' \<Longrightarrow> qw_contents qw' = qw_contents qw @ [qwm_Batch m]"
  by (auto simp: qw_step_def qw_contents_def qw_receive_def split: option.splits)

lemma qw_count_contents:
  "qw_current qw = Some w \<Longrightarrow> qw_contents (qw_count qw (qwc_msg w) ws) = qw_contents qw"
  by (simp add: qw_count_def qw_contents_def Let_def)

lemma qw_other_contents:
  "qw_step qw ev = Some qw' \<Longrightarrow> \<forall>m. ev \<noteq> QwMessage m \<Longrightarrow> qw_contents qw' = qw_contents qw"
  by (cases ev)
    (auto simp: qw_step_def qw_count_contents split: option.splits if_splits,
     auto simp: qw_contents_def)

lemma waiter_messages_batches: "map qwm_Batch (waiter_messages out) = sealed_batches out"
  by (induction out rule: waiter_messages.induct) auto

text \<open>Every batch on the way, oldest first, and the transactions it holds.\<close>

definition on_the_way :: "'db mempool_node \<Rightarrow> sealedBatch list" where
  "on_the_way n = qw_contents (mn_quorumWaiter n) @ map qwm_Batch (mn_quorumWaiterCh n)"

definition mn_inv :: "Transaction list \<Rightarrow> stored_batch list \<Rightarrow> 'db mempool_node \<Rightarrow> bool" where
  "mn_inv txs stored n \<longleftrightarrow>
     (\<exists>bs. own_batches stored @ on_the_way n = map SerializeBatch bs \<and> [] \<notin> set bs
        \<and> txs = concat bs @ bm_currentBatch (mn_batchMaker n))"

lemma mn_step_inv:
  assumes "mn_step E n txs' stored' n'" "mn_inv txs stored n"
  shows "mn_inv (txs @ txs') (stored @ stored') n'"
  using assms
proof (induction rule: mn_step.induct)
  case (mn_batch_maker n ev bm' out)
  obtain bs where bs: "own_batches stored @ on_the_way n = map SerializeBatch bs" "[] \<notin> set bs"
      "txs = concat bs @ bm_currentBatch (mn_batchMaker n)"
    using mn_batch_maker.prems by (auto simp: mn_inv_def)
  obtain cs where cs: "sealed_batches out = map SerializeBatch cs" "[] \<notin> set cs"
      "bm_currentBatch (mn_batchMaker n) @ event_txs ev = concat cs @ bm_currentBatch bm'"
    using bm_step_batches [OF mn_batch_maker.hyps] by blast
  show ?case
    unfolding mn_inv_def
    by (rule exI [of _ "bs @ cs"])
      (use bs cs in \<open>simp add: on_the_way_def waiter_messages_batches\<close>)
next
  case (mn_take_message n m ms qw')
  then show ?case by (simp add: mn_inv_def on_the_way_def qw_message_contents)
next
  case (mn_quorum_waiter ev n qw')
  then show ?case by (simp add: mn_inv_def on_the_way_def qw_other_contents)
next
  case (mn_processor n batch batches s' digest)
  then show ?case by (simp add: mn_inv_def on_the_way_def qw_contents_def)
next
  case (mn_peer_batch batch msg n s' digest)
  then show ?case by (simp add: mn_inv_def on_the_way_def)
qed

lemma mn_spawn_inv:
  "SpawnMempool name committee parameters s = Ok n0 \<Longrightarrow> mn_inv [] [] n0"
  by (auto simp: SpawnMempool_def mn_inv_def on_the_way_def qw_contents_def spawnQuorumWaiter_def
      spawnBatchMaker_def Let_def split: prod.splits if_splits)

lemma mn_reach_inv: "mn_reach E n0 txs stored n \<Longrightarrow> mn_inv [] [] n0 \<Longrightarrow> mn_inv txs stored n"
  by (induction rule: mn_reach.induct) (auto dest: mn_step_inv)

subsection \<open>What is stored and reported\<close>

definition batch_entry ::
  "('sk, 'p1, 'p2, 'agg, 'db, 'z) mp_env_scheme \<Rightarrow> sealedBatch \<Rightarrow> byte list \<times> sealedBatch" where
  "batch_entry E b = (digest_bytes (NewDigest E b), b)"

lemma mn_reach_stored:
  "mn_reach E n0 txs stored n \<Longrightarrow>
     mn_txConsensus n = mn_txConsensus n0 @ map (NewDigest E \<circ> batch_of) stored
     \<and> mn_store n = foldl (\<lambda>s (k, v). Store_Write E s k v) (mn_store n0)
          (map (batch_entry E \<circ> batch_of) stored)"
proof (induction rule: mn_reach.induct)
  case (mn_more txs stored n txs' stored' n')
  from mn_more.hyps(2) mn_more.IH show ?case
    by cases (auto simp: process_batch_def Let_def batch_entry_def)
qed simp

lemma stored_batch_readable:
  assumes "store_ok E s" "inj_on (NewDigest E) (batch_of ` set stored)" "b \<in> set stored"
  shows "Store_Read E (foldl (\<lambda>s (k, v). Store_Write E s k v) s (map (batch_entry E \<circ> batch_of) stored))
    (digest_bytes (NewDigest E (batch_of b))) = Inr (batch_of b)"
proof -
  let ?kvs = "map (batch_entry E \<circ> batch_of) stored"
  have same: "b' = batch_of b"
    if "(digest_bytes (NewDigest E (batch_of b)), b') \<in> set ?kvs" for b'
  proof -
    obtain x where x: "x \<in> set stored" "NewDigest E (batch_of b) = NewDigest E (batch_of x)"
        "b' = batch_of x"
      using \<open>_ \<in> set ?kvs\<close> by (auto simp: batch_entry_def digest_codec.enc_inject)
    show ?thesis using inj_onD [OF assms(2) x(2)] x(1,3) assms(3) by simp
  qed
  have "(digest_bytes (NewDigest E (batch_of b)), batch_of b) \<in> set (rev ?kvs)"
    using assms(3) by (force simp: batch_entry_def)
  then obtain b' where "map_of (rev ?kvs) (digest_bytes (NewDigest E (batch_of b))) = Some b'"
    by (metis map_of_eq_None_iff option.exhaust image_eqI fst_conv)
  moreover from this have "b' = batch_of b" using same map_of_SomeD by fastforce
  ultimately show ?thesis using st.get_puts [OF assms(1), of ?kvs] by simp
qed

subsection \<open>Requests for batches\<close>

lemma mp_Dispatch_batch:
  assumes "mempool_proto_ok E" "serializeMempoolMessage E (batchMessage batch) = Ok data"
  shows "mp_Dispatch E data = ([MdAck (bytes_of_string ''Ack''), MdProcessor batch], Ok ())"
  using Deserialize_Serialize_mempool [OF assms] by (simp add: mp_Dispatch_def)

lemma process_batch_readable:
  "store_ok E s \<Longrightarrow> process_batch E s batch = (s', d) \<Longrightarrow>
     d = NewDigest E batch \<and> store_ok E s' \<and> Store_Read E s' (digest_bytes d) = Inr batch"
  by (auto simp: process_batch_def Let_def st.get_put st.put_usable)

lemma mp_helper_sends_set:
  "set (mp_helper_sends E s address digests) =
     {(address, data) |data d batch. d \<in> set digests \<and> Store_Read E s (digest_bytes d) = Inr batch
        \<and> serializeMempoolMessage E (batchMessage batch) = Ok data}"
  by (induction digests) (auto split: sum.splits result.splits)

end
