(* ===== verification/Base64.thy ===== *)
theory Base64
  imports Crypto
begin

text \<open>
  The text forms of keys: \<open>encodeBase64\<close> and \<open>decodeBase64\<close> of \<open>crypto/bls.go\<close> and the \<open>MarshalText\<close>
  and \<open>UnmarshalText\<close> methods of \<open>crypto/json.go\<close>, with the part of Go's \<open>encoding/base64\<close> that they
  use: the padded standard alphabet. Encoding is \<open>Strict\<close>, decoding is not, so it skips line breaks
  and does not look at the unused bits before the padding.
\<close>

unbundle bit_operations_syntax

subsection \<open>The standard encoding\<close>

definition b64_alphabet :: string where
  "b64_alphabet = ''ABCDEFGHIJKLMNOPQRSTUVWXYZabcdefghijklmnopqrstuvwxyz0123456789+/''"

definition b64_char :: "byte \<Rightarrow> char" where
  "b64_char v = b64_alphabet ! unat v"

definition b64_value :: "char \<Rightarrow> byte option" where
  "b64_value ch = map_of (zip b64_alphabet (map of_nat [0..<64])) ch"

text \<open>The six-bit values of a group of one, two or three bytes.\<close>

definition sextets :: "byte list \<Rightarrow> byte list" where
  "sextets bs = (case bs of
     [a] \<Rightarrow> [drop_bit 2 a, push_bit 4 (a AND 3)]
   | [a, b] \<Rightarrow> [drop_bit 2 a, push_bit 4 (a AND 3) OR drop_bit 4 b, push_bit 2 (b AND 15)]
   | [a, b, c] \<Rightarrow> [drop_bit 2 a, push_bit 4 (a AND 3) OR drop_bit 4 b,
       push_bit 2 (b AND 15) OR drop_bit 6 c, c AND 63]
   | _ \<Rightarrow> [])"

fun EncodeToString :: "byte list \<Rightarrow> string" where
  "EncodeToString [] = []"
| "EncodeToString [a] = map b64_char (sextets [a]) @ ''==''"
| "EncodeToString [a, b] = map b64_char (sextets [a, b]) @ ''=''"
| "EncodeToString (a # b # c # rest) = map b64_char (sextets [a, b, c]) @ EncodeToString rest"

text \<open>The bytes of a quantum of two, three or four values.\<close>

definition quantum :: "byte list \<Rightarrow> byte list" where
  "quantum vs = (case vs of
     [v0, v1] \<Rightarrow> [push_bit 2 v0 OR drop_bit 4 v1]
   | [v0, v1, v2] \<Rightarrow> [push_bit 2 v0 OR drop_bit 4 v1, push_bit 4 v1 OR drop_bit 2 v2]
   | [v0, v1, v2, v3] \<Rightarrow>
       [push_bit 2 v0 OR drop_bit 4 v1, push_bit 4 v1 OR drop_bit 2 v2, push_bit 6 v2 OR v3]
   | _ \<Rightarrow> [])"

fun decode_quanta :: "string \<Rightarrow> (error, byte list) result" where
  "decode_quanta [] = Ok []"
| "decode_quanta (c0 # c1 # c2 # c3 # rest) =
     (case those (map b64_value [c0, c1, c2, c3]) of
        Some vs \<Rightarrow> bind_result (decode_quanta rest) (\<lambda>bs. Ok (quantum vs @ bs))
      | None \<Rightarrow>
          if rest = [] \<and> c3 = CHR ''=''
          then (case those (map b64_value (if c2 = CHR ''='' then [c0, c1] else [c0, c1, c2])) of
                  Some vs \<Rightarrow> Ok (quantum vs)
                | None \<Rightarrow> Err CorruptBase64)
          else Err CorruptBase64)"
| "decode_quanta _ = Err CorruptBase64"

definition DecodeString :: "string \<Rightarrow> (error, byte list) result" where
  "DecodeString s = decode_quanta (filter (\<lambda>ch. ch \<noteq> CHR 0x0A \<and> ch \<noteq> CHR 0x0D) s)"

subsection \<open>Keys\<close>

definition pk_encodeBase64 :: "PublicKey \<Rightarrow> string" where
  "pk_encodeBase64 pk = EncodeToString (pk_bytes pk)"

definition pk_decodeBase64 :: "PublicKey \<Rightarrow> string \<Rightarrow> (error, PublicKey) result" where
  "pk_decodeBase64 pk s =
     bind_result (DecodeString s) (\<lambda>b.
       if length b \<noteq> 48 then Err WrongLength else Ok (pk_copy pk b))"

definition sk_encodeBase64 :: "SecretKey \<Rightarrow> string" where
  "sk_encodeBase64 sk = EncodeToString (sk_bytes sk)"

definition sk_decodeBase64 :: "SecretKey \<Rightarrow> string \<Rightarrow> (error, SecretKey) result" where
  "sk_decodeBase64 sk s =
     bind_result (DecodeString s) (\<lambda>b.
       if length b \<noteq> 32 then Err WrongLength else Ok (sk_copy sk b))"

definition string_of_bytes :: "byte list \<Rightarrow> string" where
  "string_of_bytes bs = map (\<lambda>b. char_of (unat b)) bs"

definition pk_MarshalText :: "PublicKey \<Rightarrow> byte list" where
  "pk_MarshalText pk = bytes_of_string (pk_encodeBase64 pk)"

definition pk_UnmarshalText :: "PublicKey \<Rightarrow> byte list \<Rightarrow> (error, PublicKey) result" where
  "pk_UnmarshalText pk data = pk_decodeBase64 pk (string_of_bytes data)"

definition sk_MarshalText :: "SecretKey \<Rightarrow> byte list" where
  "sk_MarshalText sk = bytes_of_string (sk_encodeBase64 sk)"

definition sk_UnmarshalText :: "SecretKey \<Rightarrow> byte list \<Rightarrow> (error, SecretKey) result" where
  "sk_UnmarshalText sk data = sk_decodeBase64 sk (string_of_bytes data)"

subsection \<open>Decoding inverts encoding\<close>

lemma b64_table: "\<forall>i\<in>set [0..<64]. b64_value (b64_alphabet ! i) = Some (of_nat i)
    \<and> b64_alphabet ! i \<noteq> CHR ''='' \<and> b64_alphabet ! i \<noteq> CHR 0x0A \<and> b64_alphabet ! i \<noteq> CHR 0x0D"
  by code_simp

lemma b64_char:
  assumes "unat v < 64"
  shows "b64_value (b64_char v) = Some v" "b64_char v \<noteq> CHR ''=''"
    "b64_char v \<noteq> CHR 0x0A" "b64_char v \<noteq> CHR 0x0D"
  using assms b64_table by (auto simp: b64_char_def)

lemma masks: "a AND 3 = take_bit 2 a" "a AND 15 = take_bit 4 a" "a AND 63 = take_bit 6 a"
  for a :: byte
  by (simp_all add: take_bit_eq_mask mask_eq_exp_minus_1)

lemma below_64: "take_bit 6 w = w \<Longrightarrow> unat w < 64"
  for w :: byte
proof -
  assume w: "take_bit 6 w = w"
  have "unat (take_bit 6 w) = take_bit 6 (unat w)" by (rule unsigned_take_bit_eq)
  then show ?thesis using take_bit_nat_less_exp [of 6 "unat w"] w by simp
qed

text \<open>Bytes are compared bit by bit.\<close>

lemma byte_eq_iff: "a = b \<longleftrightarrow> (\<forall>n\<in>set [0..<8]. bit a n = bit b n)"
  for a b :: byte
  by (auto intro: bit_word_eqI)

lemma bit_byte_high: "8 \<le> n \<Longrightarrow> \<not> bit a n"
  for a :: byte
  using bit_imp_le_length [of a n] by auto

lemmas byte_simps = byte_eq_iff bit_simps upt_rec

lemma sextets_small:
  "\<forall>v\<in>set (sextets [a]). unat v < 64" "\<forall>v\<in>set (sextets [a, b]). unat v < 64"
  "\<forall>v\<in>set (sextets [a, b, c]). unat v < 64"
proof -
  have "\<forall>v\<in>set (sextets [a]). take_bit 6 v = v" "\<forall>v\<in>set (sextets [a, b]). take_bit 6 v = v"
    "\<forall>v\<in>set (sextets [a, b, c]). take_bit 6 v = v"
    unfolding sextets_def masks
    by (simp_all add: byte_simps) (simp_all add: numeral_eq_Suc bit_byte_high)
  then show "\<forall>v\<in>set (sextets [a]). unat v < 64" "\<forall>v\<in>set (sextets [a, b]). unat v < 64"
    "\<forall>v\<in>set (sextets [a, b, c]). unat v < 64"
    by (blast intro: below_64)+
qed

lemma quantum_sextets:
  "quantum (sextets [a]) = [a]" "quantum (sextets [a, b]) = [a, b]"
  "quantum (sextets [a, b, c]) = [a, b, c]"
  unfolding masks quantum_def sextets_def
  by (simp_all add: byte_simps) (simp_all add: numeral_eq_Suc)

lemma b64_value_pad [simp]: "b64_value (CHR ''='') = None"
  by code_simp

lemma decode_encode: "decode_quanta (EncodeToString bs) = Ok bs"
proof (induction bs rule: EncodeToString.induct)
  case (2 a)
  obtain v0 v1 where v: "sextets [a] = [v0, v1]" by (simp add: sextets_def)
  then show ?case
    using sextets_small(1) [of a] quantum_sextets(1) [of a] by (simp add: b64_char(1))
next
  case (3 a b)
  obtain v0 v1 v2 where v: "sextets [a, b] = [v0, v1, v2]" by (simp add: sextets_def)
  then show ?case
    using sextets_small(2) [of a b] quantum_sextets(2) [of a b] by (simp add: b64_char(1,2))
next
  case (4 a b c rest)
  obtain v0 v1 v2 v3 where v: "sextets [a, b, c] = [v0, v1, v2, v3]" by (simp add: sextets_def)
  then show ?case
    using 4 sextets_small(3) [of a b c] quantum_sextets(3) [of a b c] by (simp add: b64_char(1))
qed simp

lemma encode_no_breaks:
  "\<forall>ch\<in>set (EncodeToString bs). ch \<noteq> CHR 0x0A \<and> ch \<noteq> CHR 0x0D"
proof (induction bs rule: EncodeToString.induct)
  case (2 a)
  show ?case using sextets_small(1) [of a] by (auto simp: b64_char(3,4))
next
  case (3 a b)
  show ?case using sextets_small(2) [of a b] by (auto simp: b64_char(3,4))
next
  case (4 a b c rest)
  have "\<forall>ch\<in>b64_char ` set (sextets [a, b, c]). ch \<noteq> CHR 0x0A \<and> ch \<noteq> CHR 0x0D"
    using sextets_small(3) [of a b c] by (simp add: b64_char(3,4))
  then show ?case unfolding EncodeToString.simps using 4 by (simp add: ball_Un)
qed simp

lemma DecodeString_EncodeToString: "DecodeString (EncodeToString bs) = Ok bs"
  using encode_no_breaks [of bs]
  by (simp add: DecodeString_def decode_encode filter_True)

lemma string_of_bytes_of_string: "string_of_bytes (bytes_of_string s) = s"
  by (simp add: string_of_bytes_def bytes_of_string_def comp_def char_of_byte)

lemma keys_decode_encode [go_simps]:
  "pk_decodeBase64 pk (pk_encodeBase64 k) = Ok k" "sk_decodeBase64 sk (sk_encodeBase64 j) = Ok j"
  by (simp_all add: pk_decodeBase64_def pk_encodeBase64_def sk_decodeBase64_def sk_encodeBase64_def
      DecodeString_EncodeToString)

end
