(* ===== verification/Printing.thy ===== *)
theory Printing
  imports Base64 Messages
begin

text \<open>
  Text that the program makes: decimal numbers and slices as \<open>fmt\<close> prints them with \<open>%v\<close>, the names
  of the generated files, and the \<open>String\<close> methods of \<open>crypto/digest.go\<close>, \<open>crypto/bls.go\<close> and
  \<open>consensus/messages.go\<close>, which are what the logs and \<open>ProcessBlocks\<close> show.
\<close>

subsection \<open>Numbers and slices\<close>

definition digit_char :: "nat \<Rightarrow> char" where
  "digit_char d = ''0123456789'' ! d"

fun decimal :: "nat \<Rightarrow> string" where
  "decimal n = (if n < 10 then [digit_char n] else decimal (n div 10) @ [digit_char (n mod 10)])"

declare decimal.simps [simp del]

fun sprint_items :: "('a \<Rightarrow> string) \<Rightarrow> 'a list \<Rightarrow> string" where
  "sprint_items f [] = []"
| "sprint_items f [x] = f x"
| "sprint_items f (x # xs) = f x @ '' '' @ sprint_items f xs"

definition sprint_slice :: "('a \<Rightarrow> string) \<Rightarrow> 'a list \<Rightarrow> string" where
  "sprint_slice f xs = ''['' @ sprint_items f xs @ '']''"

abbreviation sprint_word :: "u64 \<Rightarrow> string" where
  "sprint_word w \<equiv> decimal (unat w)"

text \<open>The value that a decimal stands for, so that two numbers never print the same.\<close>

definition char_digit :: "char \<Rightarrow> nat" where
  "char_digit c = of_char c - 48"

definition decimal_value :: "string \<Rightarrow> nat" where
  "decimal_value cs = foldl (\<lambda>n c. 10 * n + char_digit c) 0 cs"

lemma char_digit_digit: "d < 10 \<Longrightarrow> char_digit (digit_char d) = d"
proof -
  assume "d < 10"
  then have "d \<in> set [0, 1, 2, 3, 4, 5, 6, 7, 8, 9]" by auto
  then show ?thesis by (auto simp: char_digit_def digit_char_def)
qed

lemma decimal_value_decimal [simp]: "decimal_value (decimal n) = n"
proof (induction n rule: decimal.induct)
  case (1 n)
  show ?case
  proof (cases "n < 10")
    case True
    then show ?thesis by (simp add: decimal.simps [of n] decimal_value_def char_digit_digit)
  next
    case False
    then have "decimal n = decimal (n div 10) @ [digit_char (n mod 10)]" by (simp add: decimal.simps [of n])
    moreover have "decimal_value (decimal (n div 10)) = n div 10" using 1 False by blast
    ultimately show ?thesis by (simp add: decimal_value_def char_digit_digit)
  qed
qed

lemma decimal_inject [simp]: "decimal m = decimal n \<longleftrightarrow> m = n"
  by (metis decimal_value_decimal)

subsection \<open>The String methods\<close>

definition Digest_String :: "Digest \<Rightarrow> string" where
  "Digest_String d = EncodeToString (digest_bytes d)"

definition PublicKey_String :: "PublicKey \<Rightarrow> string" where
  "PublicKey_String pk = pk_encodeBase64 pk"

definition Block_String :: "('sk, 'p1, 'p2, 'agg, 'z) crypto_lib_scheme \<Rightarrow> Block \<Rightarrow> string" where
  "Block_String L b = ''Block<'' @ Digest_String (Block_Digest L b) @ ''>(''
     @ PublicKey_String (blk_Author b) @ '', '' @ sprint_word (blk_Round b) @ '', ''
     @ sprint_slice Digest_String (blk_Payload b) @ '')''"

definition vote_String :: "vote \<Rightarrow> string" where
  "vote_String v = ''Vote(author: '' @ PublicKey_String (v_author v) @ '', round: ''
     @ sprint_word (v_round v) @ '', block: '' @ Digest_String (v_hash v)"

definition QC_String :: "QC \<Rightarrow> string" where
  "QC_String qc = ''QC(block: '' @ Digest_String (qc_Hash qc) @ '', round: ''
     @ sprint_word (qc_Round qc) @ '')''"

definition timeout_String :: "timeout \<Rightarrow> string" where
  "timeout_String t = ''Timeout(author: '' @ PublicKey_String (t_author t) @ '', round: ''
     @ sprint_word (t_round t) @ '', highqcround: '' @ sprint_word (qc_Round (t_highQC t)) @ '')''"

definition TC_String :: "TC \<Rightarrow> string" where
  "TC_String tc = ''TC(round: '' @ sprint_word (tc_Round tc) @ '', highqcrounds: ''
     @ sprint_slice sprint_word (HighQCRounds tc) @ '')''"

text \<open>Digests print differently if they differ, and so do QCs of different rounds for one block.\<close>

lemma Digest_String_inject: "Digest_String d = Digest_String e \<longleftrightarrow> d = e"
  by (metis Digest_String_def DecodeString_EncodeToString result.inject(1) digest_eq_iff)

lemma QC_String_round:
  "QC_String p = QC_String q \<Longrightarrow> qc_Hash p = qc_Hash q \<Longrightarrow> qc_Round p = qc_Round q"
  by (simp add: QC_String_def word_unat_eq_iff)

end
