(* ===== verification/NodeApp.thy ===== *)
theory NodeApp
  imports ConsensusNode MempoolNode Printing
begin

text \<open>
  \<open>node/node.go\<close> and \<open>node/config.go\<close>: how a node is put together, the text form of its peer key, and
  what it prints for committed blocks. The contents of the configuration files are parameters of
  \<open>NewNode\<close>, an error or the value that was read, as is whether the store and the libp2p host could be
  opened. \<open>process_block\<close> is one round of the loop of \<open>ProcessBlocks\<close>.
\<close>

subsection \<open>Configuration\<close>

record node_Committee =
  nc_Consensus :: Committee
  nc_Mempool :: mp_Committee
  nc_BootstrapPeers :: "string list"

record node_Parameters =
  np_Consensus :: Parameters
  np_Mempool :: mp_Parameters

definition node_DefaultParameters :: node_Parameters where
  "node_DefaultParameters = \<lparr>np_Consensus = DefaultParameters, np_Mempool = mp_DefaultParameters\<rparr>"

text \<open>libp2p's \<open>MarshalPrivateKey\<close> and \<open>UnmarshalPrivateKey\<close>.\<close>

record 'pk peer_lib =
  lp_Marshal :: "'pk \<Rightarrow> error + byte list"
  lp_Unmarshal :: "byte list \<Rightarrow> error + 'pk"

definition peer_key_ok :: "'pk peer_lib \<Rightarrow> bool" where
  "peer_key_ok P \<longleftrightarrow> (\<forall>k bs. lp_Marshal P k = Inr bs \<longrightarrow> lp_Unmarshal P bs = Inr k)"

definition peer_MarshalText :: "'pk peer_lib \<Rightarrow> 'pk \<Rightarrow> (error, byte list) result" where
  "peer_MarshalText P k =
     (case lp_Marshal P k of
        Inl err \<Rightarrow> Err err
      | Inr data \<Rightarrow> Ok (bytes_of_string (EncodeToString data)))"

definition peer_UnmarshalText :: "'pk peer_lib \<Rightarrow> byte list \<Rightarrow> (error, 'pk) result" where
  "peer_UnmarshalText P data =
     bind_result (DecodeString (string_of_bytes data)) (\<lambda>decoded.
       case lp_Unmarshal P decoded of Inl err \<Rightarrow> Err err | Inr key \<Rightarrow> Ok key)"

record 'pk Secret =
  se_Name :: PublicKey
  se_Secret :: SecretKey
  se_PeerKey :: 'pk

lemma peer_key_roundtrip:
  "peer_key_ok P \<Longrightarrow> peer_MarshalText P k = Ok text \<Longrightarrow> peer_UnmarshalText P text = Ok k"
  by (auto simp: peer_MarshalText_def peer_UnmarshalText_def peer_key_ok_def
      string_of_bytes_of_string DecodeString_EncodeToString split: sum.splits)

subsection \<open>Starting a node\<close>

record ('agg, 'db) consensus_node =
  cn_core :: "('agg, 'db) core"
  cn_started :: outcome
  cn_proposer :: Proposer

definition SpawnConsensus ::
  "PublicKey \<Rightarrow> Committee \<Rightarrow> SignatureService \<Rightarrow> 'db store \<Rightarrow> ('agg, 'db) consensus_node" where
  "SpawnConsensus name committee signatureService s =
     (let (core, started) = core_start name committee signatureService s
      in \<lparr>cn_core = core, cn_started = started,
          cn_proposer = spawnProposer name committee signatureService\<rparr>)"

record ('agg, 'db) Node =
  nd_consensus :: "('agg, 'db) consensus_node"
  nd_mempool :: "'db mempool_node"
  nd_store :: "'db store"

text \<open>
  \<open>ReadJSON\<close> returns a nil pointer with its error. The error of the parameter file is overwritten by
  that of \<open>NewStore\<close> without being looked at.
\<close>

definition NewNode ::
  "(error + node_Committee) \<Rightarrow> (error + 'pk Secret) \<Rightarrow> (error + node_Parameters) option
     \<Rightarrow> (error + 'db) \<Rightarrow> error option \<Rightarrow> (error, ('agg, 'db) Node) result" where
  "NewNode committeeFile keyFile parameterFile opened hostError =
     (case committeeFile of
        Inl err \<Rightarrow> Err err
      | Inr committee \<Rightarrow>
     (case keyFile of
        Inl err \<Rightarrow> Err err
      | Inr secret \<Rightarrow>
     (let name = se_Name secret;
          parameters = (case parameterFile of
            Some r \<Rightarrow> (case r of Inl err \<Rightarrow> None | Inr p \<Rightarrow> Some p)
          | None \<Rightarrow> Some node_DefaultParameters)
      in case opened of
           Inl err \<Rightarrow> Err err
         | Inr db \<Rightarrow>
     (let s = NewStore db; signatureService = NewSignatureService (se_Secret secret)
      in case hostError of
           Some err \<Rightarrow> Err err
         | None \<Rightarrow>
     (case parameters of
        None \<Rightarrow> Panic NilDeref
      | Some p \<Rightarrow>
          bind_result (SpawnMempool name (nc_Mempool committee) (np_Mempool p) s) (\<lambda>mempool.
            Ok \<lparr>nd_consensus = SpawnConsensus name (nc_Consensus committee) signatureService s,
                nd_mempool = mempool, nd_store = s\<rparr>))))))"

lemma NewNode_parameter_error:
  "NewNode (Inr committee) (Inr secret) (Some (Inl err)) (Inr db) None = Panic NilDeref"
  by (simp add: NewNode_def)

lemma SpawnMempool_member:
  "SpawnMempool name committee parameters s = Ok n \<Longrightarrow> name \<in> mpc_members committee"
  by (cases "DAList.lookup (mpc_Authorities committee) name")
    (auto simp: SpawnMempool_def mp_MempoolAddress_def lookup_None_iff mpc_members_def lookup_Some_iff
      image_iff split: prod.splits intro: bexI [rotated])

lemma NewNode_Ok:
  assumes "NewNode (Inr committee) (Inr secret) (Some (Inr p)) (Inr db) None = Ok node"
  shows "SpawnMempool (se_Name secret) (nc_Mempool committee) (np_Mempool p) (NewStore db)
      = Ok (nd_mempool node)"
  using assms by (auto simp: NewNode_def Let_def go_simps)

subsection \<open>What is printed for a block\<close>

datatype app_line =
    LCommitted Block
  | LContains
  | LBatch Digest
  | LReadFailed
  | LBadBatch
  | LTx Transaction

fun process_payload ::
  "('sk, 'p1, 'p2, 'agg, 'db, 'z) env_scheme \<Rightarrow> 'db store \<Rightarrow> Digest list \<Rightarrow> app_line list" where
  "process_payload E s [] = []"
| "process_payload E s (digest # digests) =
     LBatch digest #
     (case Store_Read E s (digest_bytes digest) of
        Inl err \<Rightarrow> [LReadFailed]
      | Inr batchBytes \<Rightarrow>
          (case DeserializeBatch batchBytes of
             Inl err \<Rightarrow> [LBadBatch]
           | Inr batch \<Rightarrow> map LTx batch))
     @ process_payload E s digests"

definition process_block ::
  "('sk, 'p1, 'p2, 'agg, 'db, 'z) env_scheme \<Rightarrow> 'db store \<Rightarrow> Block \<Rightarrow> app_line list" where
  "process_block E s block = LCommitted block # LContains # process_payload E s (blk_Payload block)"

text \<open>The text of a line; a transaction is printed as the string of its bytes.\<close>

fun line_text :: "('sk, 'p1, 'p2, 'agg, 'z) crypto_lib_scheme \<Rightarrow> app_line \<Rightarrow> string" where
  "line_text L (LCommitted block) = Block_String L block @ '' HAS BEEN COMMITTED!''"
| "line_text L LContains = ''It contains the following batches:''"
| "line_text L (LBatch digest) = ''Batch '' @ Digest_String digest @ '':''"
| "line_text L LReadFailed = ''Failed to read batch from store''"
| "line_text L LBadBatch = ''Failed to deserialize batch''"
| "line_text L (LTx tx) = string_of_bytes tx"

end
