(* ===== verification/MempoolDemo.thy ===== *)
theory MempoolDemo
  imports Demo NodeApp
begin

text \<open>
  The environment of \<open>Demo\<close> in which, as in protobuf, the empty byte string is a block without any
  field, and a mempool of one authority: the witnesses about the mempool and the node run on it.
\<close>

subsection \<open>The environment\<close>

definition empty_pb_block :: pb_Block where
  "empty_pb_block = \<lparr>pbb_QuorumCert = None, pbb_TimeoutCert = None, pbb_Author = [], pbb_Round = 0,
     pbb_Payload = [], pbb_Signature = []\<rparr>"

definition mp_demo_env :: "(SecretKey, PublicKey, Signature, Signature option, demo_db) mp_env" where
  "mp_demo_env = demo_env\<lparr>pl_UnmarshalBlock :=
     (\<lambda>bs. if bs = [] then Some empty_pb_block else pl_UnmarshalBlock demo_env bs)\<rparr>"

lemma mp_demo_mempool_ok: "mempool_proto_ok mp_demo_env"
  using demo_mempool_ok by (simp add: mempool_proto_ok_def mp_demo_env_def)

lemma mp_demo_serialize:
  "serializeMempoolMessage mp_demo_env m = Ok (put_mempool (the (pbmm_Msg (toMempoolPb m))))"
  using demo_serialize_mempool [of m] by (simp add: serializeMempoolMessage_def mp_demo_env_def)

lemma put_block_nonempty: "put_block b \<noteq> []"
  by (simp add: put_block_def flat_def)

lemma mp_demo_proto_ok: "proto_ok mp_demo_env"
  using demo_proto_ok
  by (auto simp: proto_ok_def mp_demo_env_def) (auto simp: demo_env_def put_block_nonempty)

lemma mp_demo_store_ok [simp]: "store_ok mp_demo_env (NewStore Map.empty)"
  using demo_store_ok by (simp add: store_ok_def pebble_ok_def mp_demo_env_def NewStore_def)

subsection \<open>A mempool of one authority\<close>

definition solo_mempool :: mp_Committee where
  "solo_mempool =
     mp_NewCommittee [\<lparr>mpi_Author = demo_name 1, mpi_Stake = 1, mpi_Address = ''a''\<rparr>] 0"

lemma solo_mempool_entries:
  "mpc_entries solo_mempool = [(demo_name 1, \<lparr>mpa_Stake = 1, mpa_Address = ''a''\<rparr>)]"
  by (simp add: solo_mempool_def mp_NewCommittee_def impl_of_update DAList.empty.rep_eq)

lemma solo_mempool_facts [simp]:
  "mpc_members solo_mempool = {demo_name 1}"
  "mp_Stake solo_mempool k = (if k = demo_name 1 then 1 else 0)"
  "mp_QuorumThreshold solo_mempool = 1"
  "mp_BroadcastAddresses solo_mempool (demo_name 1) = ([], [])"
  "mp_MempoolAddress solo_mempool (demo_name 1) = (''a'', True)"
  by (simp_all add: mpc_members_def mp_Stake_def lookup_impl_of mp_QuorumThreshold_def
      mp_BroadcastAddresses_def mp_MempoolAddress_def solo_mempool_entries)

lemma solo_mempool_fits [simp]: "mp_stake_fits solo_mempool"
  by (simp add: mp_stake_fits_def mp_total_stake_def)

definition solo_parameters :: mp_Parameters where
  "solo_parameters = mp_DefaultParameters\<lparr>mp_BatchSize := 2\<rparr>"

text \<open>
  One transaction of three bytes: it is sealed at once, acknowledged by the node itself, stored and
  reported.
\<close>

definition solo_node :: "demo_db mempool_node" where
  "solo_node = \<lparr>mn_synchronizer = mp_spawnSynchronizer (demo_name 1) solo_mempool 50 5000 3,
     mn_batchMaker = spawnBatchMaker 2 [] [], mn_quorumWaiterCh = [],
     mn_quorumWaiter = spawnQuorumWaiter solo_mempool 1, mn_store = NewStore Map.empty,
     mn_txConsensus = []\<rparr>"

lemma solo_node_spawned:
  "SpawnMempool (demo_name 1) solo_mempool solo_parameters (NewStore Map.empty) = Ok solo_node"
  by (simp add: SpawnMempool_def solo_node_def solo_parameters_def mp_DefaultParameters_def)

definition solo_tx :: Transaction where
  "solo_tx = [7, 8, 9]"

lemma solo_pipeline_any:
  fixes E :: "('sk, 'p1, 'p2, 'agg, demo_db, 'z) mp_env_scheme"
  assumes "\<And>m. serializeMempoolMessage E m = Ok (put_mempool (the (pbmm_Msg (toMempoolPb m))))"
  shows "\<exists>n. mn_reach E solo_node [solo_tx] [OwnBatch (SerializeBatch [solo_tx])] n"
proof -
  let ?E = E
  let ?sealed = "SerializeBatch [solo_tx]"
  define m where "m = \<lparr>qwm_Batch = ?sealed, qwm_Handlers = []\<rparr>"
  define data where "data = put_mempool (the (pbmm_Msg (toMempoolPb (batchMessage ?sealed))))"
  define bm where "bm = (mn_batchMaker solo_node)\<lparr>bm_currentBatchSize := 3\<rparr>"
  define n1 where "n1 = solo_node\<lparr>mn_batchMaker := bm, mn_quorumWaiterCh := [m]\<rparr>"
  define n2 where "n2 = n1\<lparr>mn_quorumWaiterCh := [], mn_quorumWaiter := qw_receive (mn_quorumWaiter n1) m\<rparr>"
  have "bm_step ?E (mn_batchMaker solo_node) (BmTransaction solo_tx)
      = Ok (bm, [BmBroadcast [] data, BmMessage m])"
    by (simp add: bm_step_def seal_def solo_node_def spawnBatchMaker_def assms
        Let_def bm_def m_def data_def solo_tx_def)
  from mn_batch_maker [where E = ?E and n = solo_node, OF this]
  have s1: "mn_step ?E solo_node [solo_tx] [] n1"
    by (simp add: n1_def solo_node_def)
  have "qw_step (mn_quorumWaiter n1) (QwMessage m) = Some (qw_receive (mn_quorumWaiter n1) m)"
    by (simp add: qw_step_def n1_def solo_node_def spawnQuorumWaiter_def)
  then have s2: "mn_step ?E n1 [] [] n2"
    unfolding n2_def by (intro mn_take_message) (simp_all add: n1_def)
  obtain qw where qw: "qw_step (mn_quorumWaiter n2) (QwAck AckOwn) = Some qw" "qw_txBatch qw = [?sealed]"
    by (simp add: qw_step_def n2_def n1_def solo_node_def spawnQuorumWaiter_def qw_receive_def
        start_acks_def ack_step_def qw_count_def Let_def m_def disseminationQueueMax_def)
  define n3 where "n3 = n2\<lparr>mn_quorumWaiter := qw\<rparr>"
  have s3: "mn_step ?E n2 [] [] n3"
    unfolding n3_def by (rule mn_quorum_waiter [OF _ qw(1)]) simp
  obtain s d where p: "process_batch ?E (mn_store n3) ?sealed = (s, d)" by fastforce
  have "qw_txBatch (mn_quorumWaiter n3) = ?sealed # []" using qw(2) by (simp add: n3_def)
  from mn_processor [where E = ?E and n = n3, OF this p]
  obtain n4 where s4: "mn_step ?E n3 [] [OwnBatch ?sealed] n4" by blast
  show ?thesis
    using mn_more [OF mn_more [OF mn_more [OF mn_more [OF mn_start s1] s2] s3] s4] by auto
qed

lemma solo_pipeline:
  "\<exists>n. mn_reach mp_demo_env solo_node [solo_tx] [OwnBatch (SerializeBatch [solo_tx])] n"
  by (rule solo_pipeline_any) (rule mp_demo_serialize)

end
