(* ===== verification/MempoolProps.thy ===== *)
theory MempoolProps
  imports MempoolDemo
begin

text \<open>
  What the mempool promises, with its limits: batches, the wait for a quorum, the synchronizer, the
  helper, and the committee it shares with consensus. The witnesses run on the one-authority mempool
  of \<open>MempoolDemo\<close>.
\<close>

subsection \<open>Committee and batches\<close>

text \<open>
  C23: The mempool's copy of the committee code agrees with that of consensus: committees built from
  the same authorities give every name the same stake and address, have the same threshold, and
  broadcast to the same names and addresses.
\<close>

theorem mempool_committee_agrees:
  "mp_Stake (mp_NewCommittee info epoch) k = Committee_Stake (NewCommittee (map as_info info) epoch) k
   \<and> mp_QuorumThreshold (mp_NewCommittee info epoch)
       = QuorumThreshold (NewCommittee (map as_info info) epoch)
   \<and> mp_MempoolAddress (mp_NewCommittee info epoch) k
       = Committee_Address (NewCommittee (map as_info info) epoch) k
   \<and> mp_BroadcastAddresses (mp_NewCommittee info epoch) k
       = BroadcastAddresses (NewCommittee (map as_info info) epoch) k"
  by (simp flip: as_committee_NewCommittee
      add: Stake_as_committee Threshold_as_committee Address_as_committee Broadcast_as_committee)

text \<open>
  C37: The bytes of a batch determine its transactions, and \<open>DeserializeBatch\<close> accepts nothing else:
  it returns a batch exactly when the data is \<open>SerializeBatch\<close> of that batch.
\<close>

theorem batch_bytes_exact:
  assumes "length data < 2 ^ 63"
  shows "DeserializeBatch data = Inr batch
    \<longleftrightarrow> (\<forall>tx\<in>set batch. length tx < 2 ^ 63) \<and> data = SerializeBatch batch"
  by (rule DeserializeBatch_iff [OF assms])

theorem batch_bytes_exact_witness:
  "DeserializeBatch (SerializeBatch [[], [7, 8]]) = Inr [[], [7, 8]]"
  using batch_bytes_exact [of "SerializeBatch [[], [7, 8]]" "[[], [7, 8]]"] by simp

text \<open>
  \<open>seal\<close> never resets \<open>currentBatchSize\<close>. Once the transactions received add up to the batch size,
  every further transaction is sealed at once, alone in its batch, until the byte counter wraps.
\<close>

theorem batch_size_never_reset:
  assumes "bm_run E (spawnBatchMaker limit names addresses) evs = Ok (bm, out)"
    and "unat limit \<le> length (concat (received evs))"
    and "length (concat (received evs)) + length tx < 2 ^ 64"
    and "bm_step E bm (BmTransaction tx) = Ok (bm', out')"
  shows "sealed_batches out' = [SerializeBatch [tx]]"
proof -
  have size: "bm_batchSize bm = limit"
      "bm_currentBatchSize bm = of_nat (length (concat (received evs)))"
    using bm_run_size [OF assms(1)] by (simp_all add: spawnBatchMaker_def)
  have "unat (bm_currentBatchSize bm) = length (concat (received evs))"
    unfolding size(2) using assms(3) by (simp add: unat_of_nat)
  moreover have "unat (bm_currentBatchSize bm + of_nat (length tx))
      = length (concat (received evs)) + length tx"
    unfolding size(2) of_nat_add [symmetric] using assms(3) by (subst unat_of_nat) simp
  ultimately have big: "limit \<le> bm_currentBatchSize bm" "limit \<le> bm_currentBatchSize bm + of_nat (length tx)"
    using assms(2) by (simp_all add: word_le_nat_alt)
  have "bm_currentBatch bm = []"
    using bm_run_small [OF assms(1)] big(1) size(1) by (simp add: spawnBatchMaker_def)
  then show ?thesis
    using assms(4) big(2) size(1) by (auto simp: bm_step_def Let_def dest: seal_Ok(2) split: if_splits)
qed

theorem batch_size_never_reset_witness:
  "\<exists>bm out bm' out'. bm_run mp_demo_env (spawnBatchMaker 2 [] []) [BmTransaction solo_tx] = Ok (bm, out)
     \<and> bm_step mp_demo_env bm (BmTransaction [1]) = Ok (bm', out')
     \<and> sealed_batches out' = [SerializeBatch [[1]]]"
proof -
  obtain bm out where run: "bm_run mp_demo_env (spawnBatchMaker 2 [] []) [BmTransaction solo_tx] = Ok (bm, out)"
    by (simp add: bm_step_def seal_def spawnBatchMaker_def mp_demo_serialize solo_tx_def Let_def)
  then have bm: "bm = (spawnBatchMaker 2 [] [])\<lparr>bm_currentBatchSize := 3\<rparr>"
    by (simp add: bm_step_def seal_def spawnBatchMaker_def mp_demo_serialize solo_tx_def Let_def)
  obtain bm' out' where step: "bm_step mp_demo_env bm (BmTransaction [1]) = Ok (bm', out')"
    by (simp add: bm bm_step_def seal_def spawnBatchMaker_def mp_demo_serialize Let_def)
  have "sealed_batches out' = [SerializeBatch [[1]]]"
    by (rule batch_size_never_reset [OF run _ _ step]) (simp_all add: solo_tx_def)
  then show ?thesis using run step by blast
qed

subsection \<open>The quorum waiter\<close>

text \<open>
  C19: The quorum waiter hands a batch on exactly when nodes that hold a quorum of the stake, the
  node itself among them if it counts, have acknowledged it, in any order, whatever deadlines expire
  in between; each node counts once.
\<close>

theorem batch_waits_for_quorum:
  assumes "mp_stake_fits (qw_committee qw)" "qw_stake qw = mp_Stake (qw_committee qw) me"
    and "distinct (map hd_name (qwm_Handlers m))" "me \<notin> set (map hd_name (qwm_Handlers m))"
    and "\<forall>m'. QwMessage m' \<notin> set evs" "qw_run qw (QwMessage m # evs) = Some qw'"
  shows "qw_txBatch qw' = (if unat (mp_QuorumThreshold (qw_committee qw))
            \<le> (\<Sum>k\<in>set (acked me (map hd_name (qwm_Handlers m)) (acks_in evs)).
                  unat (mp_Stake (qw_committee qw) k))
          then qw_txBatch qw @ [qwm_Batch m] else qw_txBatch qw)"
  by (rule qw_batch_round [OF assms])

theorem batch_waits_for_quorum_witness:
  "\<exists>qw'. qw_run (spawnQuorumWaiter solo_mempool 1)
      [QwMessage \<lparr>qwm_Batch = [5], qwm_Handlers = []\<rparr>, QwAck AckOwn] = Some qw'
    \<and> qw_txBatch qw' = [[5]]"
proof -
  let ?qw = "spawnQuorumWaiter solo_mempool 1" and ?m = "\<lparr>qwm_Batch = [5], qwm_Handlers = []\<rparr>"
  obtain qw' where run: "qw_run ?qw [QwMessage ?m, QwAck AckOwn] = Some qw'"
    by (simp add: qw_step_def spawnQuorumWaiter_def qw_receive_def start_acks_def ack_step_def)
  have "qw_txBatch qw' = (if unat (mp_QuorumThreshold (qw_committee ?qw))
            \<le> (\<Sum>k\<in>set (acked (demo_name 1) (map hd_name (qwm_Handlers ?m)) (acks_in [QwAck AckOwn])).
                  unat (mp_Stake (qw_committee ?qw) k))
          then qw_txBatch ?qw @ [qwm_Batch ?m] else qw_txBatch ?qw)"
    by (rule batch_waits_for_quorum [OF _ _ _ _ _ run]) (simp_all add: spawnQuorumWaiter_def)
  then have "qw_txBatch qw' = [[5]]" by (simp add: spawnQuorumWaiter_def)
  then show ?thesis using run by blast
qed

subsection \<open>The synchronizer\<close>

text \<open>
  C35: When a cleanup never ends. In any run of the synchronizer the loop blocks for ever on a cleanup
  exactly when it should forget a digest whose goroutine has left its \<open>select\<close>, so that no one receives
  the token: because the batch has just arrived and its digest is still in \<open>waiting\<close>, or because
  \<open>NotifyRead\<close> returned an error for it at some time before. \<open>F\<close> are the digests of the second kind;
  they stay pending for ever.
\<close>

theorem late_batch_blocks_cleanup:
  assumes "ms_history E (mp_spawnSynchronizer name committee gc delay nodes) F s"
  shows "(ms_Cleanup s r = None \<longleftrightarrow>
      ms_gcDepth s \<le> r \<and> (\<exists>d\<in>set (ms_results s) \<union> F. \<exists>info. DAList.lookup (ms_pending s) d = Some info
        \<and> bi_round info < r - ms_gcDepth s))
    \<and> (\<forall>d\<in>F. DAList.lookup (ms_pending s) d \<noteq> None)"
proof -
  have inv: "ms_inv F s" by (rule ms_history_inv [OF assms ms_start_inv])
  have "(bi_c info, d) \<notin> set (ms_waiters s) \<longleftrightarrow> d \<in> set (ms_results s) \<union> F"
    if info: "DAList.lookup (ms_pending s) d = Some info" for d info
  proof
    assume no: "(bi_c info, d) \<notin> set (ms_waiters s)"
    have "d \<notin> snd ` set (ms_waiters s)" using inv no info by (fastforce simp: ms_inv_def)
    moreover have "d \<in> ms_keys s" using info by (simp add: ms_keys_def)
    ultimately show "d \<in> set (ms_results s) \<union> F" using inv by (auto simp: ms_inv_def)
  next
    assume "d \<in> set (ms_results s) \<union> F"
    then have "d \<notin> snd ` set (ms_waiters s)" using inv unfolding ms_inv_def by blast
    then show "(bi_c info, d) \<notin> set (ms_waiters s)" by force
  qed
  moreover have "F \<subseteq> ms_keys s" using inv by (simp add: ms_inv_def)
  ultimately show ?thesis unfolding ms_Cleanup_blocks_iff ms_keys_def by blast
qed

theorem late_batch_blocks_cleanup_witness:
  "\<exists>s t. ms_history mp_demo_env (mp_spawnSynchronizer (demo_name 1) solo_mempool 0 5000 3) {} s
     \<and> ms_Cleanup s 1 = None
     \<and> ms_history mp_demo_env (mp_spawnSynchronizer (demo_name 1) solo_mempool 0 5000 3) {digest_zero} t
     \<and> ms_Cleanup t 1 = None"
proof -
  let ?s0 = "mp_spawnSynchronizer (demo_name 1) solo_mempool 0 5000 3"
  let ?info = "\<lparr>bi_round = 0, bi_c = 0, bi_timestamp = 0\<rparr>"
  define s1 where "s1 = ?s0\<lparr>ms_waiters := [(0, digest_zero)],
    ms_pending := DAList.update digest_zero ?info DAList.empty, ms_next := 1\<rparr>"
  define s2 where "s2 = s1\<lparr>ms_waiters := [], ms_results := [digest_zero]\<rparr>"
  define t where "t = s1\<lparr>ms_waiters := []\<rparr>"
  obtain out where "ms_Synchronize mp_demo_env 0 ?s0 [digest_zero] (demo_name 1) = (s1, out)"
    by (simp add: ms_Synchronize_def mp_spawnSynchronizer_def s1_def mp_demo_serialize)
  then have "ms_step mp_demo_env False {digest_bytes digest_zero} ?s0 out s1" by (rule ms_sync_msg)
  with ms_fresh have s1: "ms_history mp_demo_env ?s0 {} s1" by (rule ms_kept)
  have "ms_step mp_demo_env False {digest_bytes digest_zero} s1 [] s2"
    using ms_read [of 0 digest_zero s1 "{digest_bytes digest_zero}" mp_demo_env False]
    by (simp add: s1_def s2_def mp_spawnSynchronizer_def)
  with s1 have s2: "ms_history mp_demo_env ?s0 {} s2" by (rule ms_kept)
  have t: "ms_history mp_demo_env ?s0 {digest_zero} t"
    using ms_failed [OF s1, of 0 digest_zero] by (simp add: s1_def t_def mp_spawnSynchronizer_def)
  have "ms_Cleanup s2 1 = None"
    using late_batch_blocks_cleanup [OF s2, of 1] by (simp add: s2_def s1_def mp_spawnSynchronizer_def)
  moreover have "ms_Cleanup t 1 = None"
    using late_batch_blocks_cleanup [OF t, of 1] by (simp add: t_def s1_def mp_spawnSynchronizer_def)
  ultimately show ?thesis using s2 t by blast
qed

subsection \<open>Recovering a batch\<close>

text \<open>
  C21: A batch that a node has stored can be recovered by any other: asked for its digest, the helper
  sends the batch to the requester, whose handler passes it to the processor, which stores it under
  the digest that was asked for.
\<close>

theorem requested_batch_recovered:
  assumes "mempool_proto_ok E" "store_ok E s" "store_ok E t"
    and "process_batch E s batch = (s', d)" "mp_MempoolAddress committee requester = (address, True)"
    and "serializeMempoolMessage E (batchMessage batch) = Ok data"
  shows "mp_helper_serve E committee s' \<lparr>hr_digests = [d], hr_requester = requester\<rparr> = [(address, data)]
    \<and> fst (mp_Dispatch E data) = [MdAck (bytes_of_string ''Ack''), MdProcessor batch]
    \<and> (\<exists>t'. process_batch E t batch = (t', d) \<and> Store_Read E t' (digest_bytes d) = Inr batch)"
proof -
  have d: "d = NewDigest E batch" "Store_Read E s' (digest_bytes d) = Inr batch"
    using process_batch_readable [OF assms(2,4)] by blast+
  obtain t' where "process_batch E t batch = (t', d)" by (simp add: process_batch_def Let_def d(1))
  then show ?thesis
    using process_batch_readable [OF assms(3)] d(2) assms(5,6) mp_Dispatch_batch [OF assms(1,6)]
    by (auto simp: mp_helper_serve_def)
qed

theorem requested_batch_recovered_witness:
  "\<exists>s' d data. process_batch mp_demo_env (NewStore Map.empty) [4, 2] = (s', d)
    \<and> mp_helper_serve mp_demo_env solo_mempool s' \<lparr>hr_digests = [d], hr_requester = demo_name 1\<rparr>
        = [(''a'', data)]"
proof -
  obtain s' d where p: "process_batch mp_demo_env (NewStore Map.empty) [4, 2] = (s', d)" by fastforce
  have "mp_MempoolAddress solo_mempool (demo_name 1) = (''a'', True)" by simp
  from requested_batch_recovered [OF mp_demo_mempool_ok mp_demo_store_ok mp_demo_store_ok p this
      mp_demo_serialize]
  show ?thesis using p by blast
qed

end
