(* ===== verification/NodeProps.thy ===== *)
theory NodeProps
  imports MempoolProps DemoRun
begin

text \<open>
  What the parts of a node promise together: the availability of what the mempool reports, proposals
  on their way to another node, the order of the reliable sender, and what malformed messages and
  batches do to a node.
\<close>

subsection \<open>What the mempool reports\<close>

text \<open>
  What the mempool has reported is available. A block whose payload consists of digests that the
  mempool of this node has reported passes the mempool driver's check at this node: nothing is
  missing, and no request is sent.
\<close>

theorem reported_payload_available:
  assumes "mn_reach E n0 txs stored n" "mn_txConsensus n0 = []" "store_ok E (mn_store n0)"
    and "set (blk_Payload b) \<subseteq> set (mn_txConsensus n)"
  shows "driver_verify E (mn_store n) b = (True, [], [])"
proof -
  let ?kvs = "map (batch_entry E \<circ> batch_of) stored"
  note stored = mn_reach_stored [OF assms(1)]
  have "\<exists>v. Store_Read E (mn_store n) (digest_bytes d) = Inr v" if "d \<in> set (blk_Payload b)" for d
  proof -
    have "d \<in> set (mn_txConsensus n)" using that assms(4) by blast
    then obtain x where "x \<in> set stored" "d = NewDigest E (batch_of x)"
      using assms(2) stored by auto
    then have "(digest_bytes d, batch_of x) \<in> set ?kvs" by (force simp: batch_entry_def)
    then have "digest_bytes d \<in> fst ` set (rev ?kvs)" by (metis fst_conv image_eqI set_rev)
    then have "map_of (rev ?kvs) (digest_bytes d) \<noteq> None" by (simp add: map_of_eq_None_iff del: set_map)
    then show ?thesis using st.get_puts [OF assms(3), of ?kvs] stored by auto
  qed
  then have "missing_payload E (mn_store n) b = []" by (simp add: missing_payload_empty_iff)
  then show ?thesis by (simp add: driver_verify_def)
qed

theorem reported_payload_available_witness:
  "\<exists>n b. mn_reach mp_demo_env solo_node [solo_tx] [OwnBatch (SerializeBatch [solo_tx])] n
     \<and> blk_Payload b = [NewDigest mp_demo_env (SerializeBatch [solo_tx])]
     \<and> driver_verify mp_demo_env (mn_store n) b = (True, [], [])"
proof -
  let ?d = "NewDigest mp_demo_env (SerializeBatch [solo_tx])"
  obtain n where n: "mn_reach mp_demo_env solo_node [solo_tx] [OwnBatch (SerializeBatch [solo_tx])] n"
    using solo_pipeline by blast
  have start: "mn_txConsensus solo_node = []" "mn_store solo_node = NewStore Map.empty"
    by (simp_all add: solo_node_def)
  have "mn_txConsensus n = [?d]" using mn_reach_stored [OF n] start(1) by simp
  then have "driver_verify mp_demo_env (mn_store n) (GenesisBlock\<lparr>blk_Payload := [?d]\<rparr>) = (True, [], [])"
    by (intro reported_payload_available [OF n start(1)]) (simp_all add: start(2))
  then show ?thesis using n by (intro exI [of _ n] exI [of _ "GenesisBlock\<lparr>blk_Payload := [?d]\<rparr>"]) simp
qed

subsection \<open>Proposals\<close>

text \<open>
  C14: What a proposer makes of valid certificates is a valid proposal: it carries all buffered
  digests, once each, it verifies under the committee, and the handler of a node that receives the
  broadcast acknowledges it and passes the very block to its core.
\<close>

theorem own_proposal_accepted:
  assumes "proto_ok E" "bls_sign_ok E (ss_key (pr_signatureService p)) (pr_name p)"
    and "Committee_Stake (pr_committee p) (pr_name p) \<noteq> 0"
    and "IsGenesisQC qc \<or> QC_Verify E (pr_committee p) qc = None"
    and "\<forall>tc'. tc = Some tc' \<longrightarrow> TC_Verify E (pr_committee p) tc' = None"
    and "makeBlock E p round qc tc = Ok (p', out)"
  shows "\<exists>addresses message block. out = [PrBroadcast addresses message, PrLoopback block]
    \<and> blk_Round block = round \<and> distinct (blk_Payload block)
    \<and> set (blk_Payload block) = {d. DAList.lookup (pr_buffer p) d \<noteq> None}
    \<and> Block_Verify E (pr_committee p) block = None
    \<and> consensus_Dispatch E message
        = ([CdAck (bytes_of_string ''Ack''), CdConsensus (proposeMessage block)], Ok ())"
proof -
  let ?payload = "map fst (DAList.impl_of (pr_buffer p))"
  define block where "block = NewBlock E qc tc (pr_name p) round ?payload (pr_signatureService p)"
  obtain message where message: "SerializeConsensusMessage E (proposeMessage block) = Ok message"
      and out: "out = [PrBroadcast (snd (BroadcastAddresses (pr_committee p) (pr_name p))) message,
        PrLoopback block]"
    using makeBlock_Ok [OF assms(6)] by (auto simp: block_def)
  have "Block_Verify E (pr_committee p) block = None"
    unfolding block_def by (rule NewBlock_verifies [OF assms(2-5)])
  moreover have "consensus_Dispatch E message
      = ([CdAck (bytes_of_string ''Ack''), CdConsensus (proposeMessage block)], Ok ())"
    using Deserialize_Serialize_message [OF assms(1) message] by (simp add: consensus_Dispatch_def)
  moreover have "set ?payload = {d. DAList.lookup (pr_buffer p) d \<noteq> None}"
    by (auto simp: lookup_None_iff)
  ultimately show ?thesis
    unfolding out by (auto simp: block_def)
qed

theorem own_proposal_accepted_witness:
  "\<exists>p' out message block. makeBlock demo_env (spawnProposer (demo_name 1) solo_committee solo_ss) 1 GenesisQC None
       = Ok (p', out)
     \<and> Block_Verify demo_env solo_committee block = None
     \<and> consensus_Dispatch demo_env message
         = ([CdAck (bytes_of_string ''Ack''), CdConsensus (proposeMessage block)], Ok ())"
proof -
  let ?p = "spawnProposer (demo_name 1) solo_committee solo_ss"
  have p: "pr_name ?p = demo_name 1" "pr_committee ?p = solo_committee" "pr_signatureService ?p = solo_ss"
    by (simp_all add: spawnProposer_def)
  have sign: "bls_sign_ok demo_env (ss_key solo_ss) (demo_name 1)"
    using demo_sign_ok [of "demo_sk 1"]
    by (simp add: bls_sign_ok_def solo_ss_def NewSignatureService_def demo_name_def)
  obtain message where "SerializeConsensusMessage demo_env (proposeMessage (NewBlock demo_env GenesisQC None
      (pr_name ?p) 1 (map fst (DAList.impl_of (pr_buffer ?p))) (pr_signatureService ?p))) = Ok message"
    using demo_Serialize_message by blast
  then obtain p' out where make: "makeBlock demo_env ?p 1 GenesisQC None = Ok (p', out)"
    by (simp add: makeBlock_def Let_def case_prod_unfold)
  have "\<exists>addresses message block. out = [PrBroadcast addresses message, PrLoopback block]
      \<and> blk_Round block = 1 \<and> distinct (blk_Payload block)
      \<and> set (blk_Payload block) = {d. DAList.lookup (pr_buffer ?p) d \<noteq> None}
      \<and> Block_Verify demo_env (pr_committee ?p) block = None
      \<and> consensus_Dispatch demo_env message
          = ([CdAck (bytes_of_string ''Ack''), CdConsensus (proposeMessage block)], Ok ())"
    by (rule own_proposal_accepted [OF demo_proto_ok _ _ _ _ make])
      (simp_all add: p sign solo_stake IsGenesisQC_iff)
  then show ?thesis using make p(2) by metis
qed

subsection \<open>The reliable sender\<close>

text \<open>
  C20: A connection of the reliable sender refines a first-in first-out queue, through any sequence of
  failed and broken connections: what was answered, followed by what is still held, is a subsequence
  of what was submitted, in order, and everything submitted is answered, held, or was dropped because
  its context was cancelled.
\<close>

theorem reliable_sender_fifo:
  assumes "run_steps rc_step (SpawnConnection address) evs = Some (c, out)"
  shows "subseq (each rc_answered out @ rc_queue c) (each rc_submitted evs)
    \<and> mset (each rc_submitted evs)
        = mset (each rc_answered out) + mset (rc_queue c) + mset (each rc_skipped out)
    \<and> (\<forall>m\<in>set (each rc_skipped out). \<exists>cancelled written.
          RcFlush cancelled written \<in> set evs \<and> im_ctx m \<in> cancelled)"
proof -
  have "rc_queue (SpawnConnection address) = []" by (simp add: rc_queue_def SpawnConnection_def)
  then show ?thesis using rl.run_order [OF assms] rc_run_skipped [OF assms] by simp
qed

theorem reliable_sender_fifo_witness:
  "\<exists>c out m. run_steps rc_step (SpawnConnection ''a'')
       [RcReceive m, RcConnected, RcFlush {} True, RcReadBroke, RcConnected, RcFlush {} True, RcData [1]]
       = Some (c, out)
     \<and> mset [m] = mset (each rc_answered out) + mset (rc_queue c) + mset (each rc_skipped out)"
proof -
  let ?m = "\<lparr>im_ctx = 0, im_data = [2], im_response = 0\<rparr>"
  let ?evs = "[RcReceive ?m, RcConnected, RcFlush {} True, RcReadBroke, RcConnected, RcFlush {} True,
    RcData [1]]"
  obtain c out where run: "run_steps rc_step (SpawnConnection ''a'') ?evs = Some (c, out)"
    by (simp add: rc_step_def SpawnConnection_def rc_leave_def requeue_append)
  show ?thesis using reliable_sender_fifo [OF run] run by (intro exI [of _ c] exI [of _ out] exI [of _ ?m]) simp
qed

text \<open>
  C31: The simple sender, which carries votes, timeouts and requests, can lose a peer for good. Once a
  \<open>Send\<close> to a peer with a recorded connection has returned an error, the map keeps the old connection,
  whose goroutine has ended and whose error has been taken. From then on, whatever happens, nothing
  is written to that peer; \<open>Send\<close> returns no error while the channel has room, and when 1000 messages
  are in it \<open>Send\<close> never returns, so the caller's loop stops.
\<close>

theorem failed_send_cuts_peer_off:
  assumes "ss_run NewSimpleSender tr0 sender0" "ss_connections sender0 pid = Some conn0"
    and "ss_Send sender0 pid data0 sender1 (Some e)" "ss_run sender1 tr sender"
  shows "(\<forall>out. (pid, out) \<in> set tr \<longrightarrow> out = [])
    \<and> (\<exists>conn. ss_connections sender pid = Some conn
      \<and> (\<forall>data sender' err. ss_Send sender pid data sender' err \<longleftrightarrow>
           length (sc_receiver conn) < 1000 \<and> err = None
           \<and> sender' = sender\<lparr>ss_connections := (ss_connections sender)
               (pid \<mapsto> conn\<lparr>sc_receiver := sc_receiver conn @ [data]\<rparr>)\<rparr>))"
proof -
  have "ss_ok sender0" by (rule ss_run_ok [OF assms(1)]) (simp add: ss_ok_def NewSimpleSender_def)
  then obtain conn1 where "ss_connections sender1 pid = Some conn1" "sc_dead conn1"
    using failed_Send_dead [OF _ assms(2,3)] by blast
  from ss_run_dead [OF assms(4) this] show ?thesis using ss_Send_dead by metis
qed

text \<open>The first connection fails after the message was queued; so does the second, before.\<close>

theorem failed_send_cuts_peer_off_witness:
  "\<exists>tr0 sender0 sender1 conn. ss_run NewSimpleSender tr0 sender0
     \<and> ss_Send sender0 ''a'' [2] sender1 (Some ConnectFailed)
     \<and> ss_connections sender1 ''a'' = Some conn \<and> sc_receiver conn = [[1]]
     \<and> (\<exists>sender2. ss_Send sender1 ''a'' [3] sender2 None)"
proof -
  let ?c1 = "(spawnConnection ''a'')\<lparr>sc_receiver := [[1]]\<rparr>"
  let ?c2 = "?c1\<lparr>sc_stage := Ended, sc_errCh := Some ConnectFailed\<rparr>"
  let ?s = "\<lambda>c. NewSimpleSender\<lparr>ss_connections := [''a'' \<mapsto> c]\<rparr>"
  have send: "ss_Send NewSimpleSender ''a'' [1] (?s ?c1) None"
    using ss_new [of NewSimpleSender "''a''" "[1]" ?c1 "[]"]
    by (simp add: NewSimpleSender_def sc_step_def)
  have "ss_run NewSimpleSender ([] @ [(''a'', [])]) (?s ?c1)"
    by (rule ss_sends [OF ss_idle send])
  moreover have "ss_connections (?s ?c1) ''a'' = Some ?c1" by simp
  moreover have "sc_step ?c1 (ScConnectFailed ConnectFailed) = Some (?c2, [])"
    by (simp add: sc_step_def)
  ultimately have run: "ss_run NewSimpleSender [(''a'', []), (''a'', [])] (?s ?c2)"
    using ss_goroutine [of NewSimpleSender "[(''a'', [])]" "?s ?c1" "''a''" ?c1 "ScConnectFailed ConnectFailed" ?c2 "[]"]
    by simp
  let ?c3 = "?c2\<lparr>sc_errCh := None\<rparr>"
  have fail: "ss_Send (?s ?c2) ''a'' [2] (?s ?c3) (Some ConnectFailed)"
    using ss_failed_again [of "?s ?c2" "''a''" ?c2 ?c3 ConnectFailed _ "[]" "[2]"]
    by (simp add: sc_step_def)
  have "ss_connections (?s ?c2) ''a'' = Some ?c2" by simp
  from failed_send_cuts_peer_off [OF run this fail ss_idle]
  have "\<exists>sender2. ss_Send (?s ?c3) ''a'' [3] sender2 None" by auto
  then show ?thesis using run fail by (intro exI [of _ ?c3] exI [of _ "?s ?c3"] exI) auto
qed

subsection \<open>Malformed messages and batches\<close>

text \<open>
  A message that does not decode ends the process of a consensus node, whatever follows it on the
  stream: \<open>Dispatch\<close> panics on the error. The mempool's handler acknowledges the same message, returns
  the error, and only the stream is reset.
\<close>

theorem malformed_message_crashes_consensus:
  assumes "DeserializeConsensusMessage E data = Err e" "DeserializeMempoolMessage E data = Err e'"
  shows "spawnRunner (consensus_Dispatch E) (Inr data # reads) = ([], Some (ProcessCrash ExplicitPanic))
    \<and> spawnRunner (mp_Dispatch E) (Inr data # reads)
        = ([MdAck (bytes_of_string ''Ack'')], Some StreamReset)"
  using assms by (simp add: consensus_Dispatch_def mp_Dispatch_def Let_def)

theorem malformed_message_crashes_consensus_witness:
  "spawnRunner (consensus_Dispatch mp_demo_env) [Inr []] = ([], Some (ProcessCrash ExplicitPanic))"
proof -
  have "DeserializeConsensusMessage mp_demo_env [] = Err ErroneousMessageType"
      "DeserializeMempoolMessage mp_demo_env [] = Err ErroneousMessageType"
    by (simp_all add: DeserializeConsensusMessage_def DeserializeMempoolMessage_def mp_demo_env_def)
      (simp_all add: demo_env_def)
  from malformed_message_crashes_consensus [OF this] show ?thesis by blast
qed

text \<open>
  C32: Consensus and mempool share the store, and the consensus helper takes what it finds under a
  requested digest for a block. If a batch was stored whose bytes unmarshal as a block without a
  certificate, a request for its digest in the name of any authority crashes the node. In protobuf the
  empty byte string is such a message, and \<open>Dispatch\<close> of the mempool accepts an empty batch from anyone.
\<close>

theorem stored_batch_crashes_helper:
  assumes "store_ok E s" "process_batch E s batch = (s', d)"
    and "pl_UnmarshalBlock E batch = Some pblock" "pbb_QuorumCert pblock = None" "pbb_Payload pblock = []"
    and "Committee_Address committee origin = (address, True)"
  shows "helper_serve E committee s' \<lparr>hm_missing = d, hm_origin = origin\<rparr> = Panic NilDeref"
proof -
  have "Store_Read E s' (digest_bytes d) = Inr batch"
    using process_batch_readable [OF assms(1,2)] by blast
  then show ?thesis using assms(3-6) by (intro helper_reads_no_block [where bs = batch]) simp_all
qed

theorem stored_batch_crashes_helper_witness:
  "\<exists>s' d data. mp_Dispatch mp_demo_env data = ([MdAck (bytes_of_string ''Ack''), MdProcessor []], Ok ())
     \<and> process_batch mp_demo_env (NewStore Map.empty) [] = (s', d)
     \<and> helper_serve mp_demo_env solo_committee s' \<lparr>hm_missing = d, hm_origin = demo_name 1\<rparr> = Panic NilDeref"
proof -
  obtain s' d where p: "process_batch mp_demo_env (NewStore Map.empty) [] = (s', d)" by fastforce
  have pb: "pl_UnmarshalBlock mp_demo_env [] = Some empty_pb_block" by (simp add: mp_demo_env_def)
  have "helper_serve mp_demo_env solo_committee s' \<lparr>hm_missing = d, hm_origin = demo_name 1\<rparr> = Panic NilDeref"
    by (rule stored_batch_crashes_helper [OF mp_demo_store_ok p pb _ _ solo_address])
      (simp_all add: empty_pb_block_def)
  then show ?thesis using p mp_Dispatch_batch [OF mp_demo_mempool_ok mp_demo_serialize] by blast
qed

end
