(* ===== verification/FullNode.thy ===== *)
theory FullNode
  imports NodeApp
begin

text \<open>
  One node, complete: the goroutines that \<open>SpawnConsensus\<close> and \<open>SpawnMempool\<close> start, the channels
  between them, the store they share, and the loop of \<open>ProcessBlocks\<close>. \<open>full_node\<close> holds the state of
  every goroutine and the contents of every channel, oldest entry first; a rule of \<open>fn_move\<close> is one
  turn of one goroutine's \<open>select\<close> loop, built from the definitions of the component theories. What the
  core sends is in \<open>c_out\<close>; \<open>route\<close> puts the new part of it on the channels of the receivers.

  The store is \<open>c_store\<close> of the core; the mempool works on it through \<open>mn_store\<close>, and a goroutine that
  waits in \<open>NotifyRead\<close> continues once the key can be read. Channels have no capacity here, so no send
  blocks. A panic or \<open>log.Fatal\<close> of any goroutine ends the process, which takes no step after it.
\<close>

subsection \<open>The state\<close>

record ('agg, 'db) full_node =
  fn_core :: "('agg, 'db) core"
  fn_outcome :: outcome
  fn_consensusCh :: "consensusMessage list"
  fn_helperCh :: "helperMessage list"
  fn_loopbackCh :: "Block list"
  fn_proposerCh :: "proposerMessage list"
  fn_commitCh :: "Block list"
  fn_innerCh :: "Block list"
  fn_sync :: sync_state
  fn_blockWaiters :: "(Digest \<times> Block) list"
  fn_payloadCh :: "PayloadWaiterMessage list"
  fn_payload :: pw_state
  fn_proposer :: Proposer
  fn_mempoolCh :: "mempool_message list"
  fn_mempool :: "'db mempool_node"
  fn_printed :: "app_line list"

abbreviation fn_store :: "('agg, 'db) full_node \<Rightarrow> 'db store" where
  "fn_store y \<equiv> c_store (fn_core y)"

fun inner_of :: "core_effect \<Rightarrow> Block option" where
  "inner_of (EInner b) = Some b" | "inner_of _ = None"

fun payload_of :: "core_effect \<Rightarrow> PayloadWaiterMessage option" where
  "payload_of (EPayloadWaiter m) = Some m" | "payload_of _ = None"

fun proposer_of :: "core_effect \<Rightarrow> proposerMessage option" where
  "proposer_of (EProposer m) = Some m" | "proposer_of _ = None"

fun commit_of :: "core_effect \<Rightarrow> Block option" where
  "commit_of (ECommit b) = Some b" | "commit_of _ = None"

fun mempool_of :: "core_effect \<Rightarrow> mempool_message option" where
  "mempool_of (EMempool m) = Some m" | "mempool_of _ = None"

definition route :: "core_effect list \<Rightarrow> ('agg, 'db) full_node \<Rightarrow> ('agg, 'db) full_node" where
  "route es y = y
     \<lparr>fn_innerCh := fn_innerCh y @ List.map_filter inner_of es,
      fn_payloadCh := fn_payloadCh y @ List.map_filter payload_of es,
      fn_proposerCh := fn_proposerCh y @ List.map_filter proposer_of es,
      fn_commitCh := fn_commitCh y @ List.map_filter commit_of es,
      fn_mempoolCh := fn_mempoolCh y @ List.map_filter mempool_of es\<rparr>"

text \<open>A node as \<open>NewNode\<close> leaves it: every channel empty but for what the start of the core has sent.\<close>

definition boot :: "('agg, 'db) Node \<Rightarrow> ('agg, 'db) full_node" where
  "boot n =
     (let c = cn_core (nd_consensus n)
      in route (c_out c)
        \<lparr>fn_core = c, fn_outcome = cn_started (nd_consensus n), fn_consensusCh = [],
         fn_helperCh = [], fn_loopbackCh = [], fn_proposerCh = [], fn_commitCh = [], fn_innerCh = [],
         fn_sync = sync_init, fn_blockWaiters = [], fn_payloadCh = [], fn_payload = pw_init,
         fn_proposer = cn_proposer (nd_consensus n), fn_mempoolCh = [],
         fn_mempool = nd_mempool n, fn_printed = []\<rparr>)"

definition crashed :: "('agg, 'db) full_node \<Rightarrow> bool" where
  "crashed y \<longleftrightarrow> (\<exists>p. fn_outcome y = Crash p)"

definition core_runs :: "('agg, 'db) full_node \<Rightarrow> bool" where
  "core_runs y \<longleftrightarrow> (\<exists>r. fn_outcome y = Ret r)"

abbreviation crash_with :: "crash \<Rightarrow> ('agg, 'db) full_node \<Rightarrow> ('agg, 'db) full_node" where
  "crash_with p y \<equiv> y\<lparr>fn_outcome := Crash p\<rparr>"

definition readable :: "('sk, 'p1, 'p2, 'agg, 'db, 'z) env_scheme \<Rightarrow> 'db store \<Rightarrow> Digest \<Rightarrow> bool" where
  "readable E s d \<longleftrightarrow> (case Store_Read E s (digest_bytes d) of Inr v \<Rightarrow> True | Inl err \<Rightarrow> False)"

definition read_fails :: "('sk, 'p1, 'p2, 'agg, 'db, 'z) env_scheme \<Rightarrow> 'db store \<Rightarrow> Digest \<Rightarrow> bool" where
  "read_fails E s d \<longleftrightarrow> Store_Read E s (digest_bytes d) = Inl StoreFailure"

text \<open>The core's \<open>select\<close>: a message, a block that came back, or the round timer.\<close>

fun take_event :: "('agg, 'db) full_node \<Rightarrow> core_event \<Rightarrow> ('agg, 'db) full_node option" where
  "take_event y (RxMessage m) =
     (case fn_consensusCh y of
        x # xs \<Rightarrow> if x = m then Some (y\<lparr>fn_consensusCh := xs\<rparr>) else None
      | [] \<Rightarrow> None)"
| "take_event y (RxLoopback b) =
     (case fn_loopbackCh y of
        x # xs \<Rightarrow> if x = b then Some (y\<lparr>fn_loopbackCh := xs\<rparr>) else None
      | [] \<Rightarrow> None)"
| "take_event y TimerFired = Some y"

fun consensus_of :: "cd_out \<Rightarrow> consensusMessage option" where
  "consensus_of (CdConsensus m) = Some m" | "consensus_of _ = None"

fun helper_of :: "cd_out \<Rightarrow> helperMessage option" where
  "helper_of (CdHelper m) = Some m" | "helper_of _ = None"

definition receive :: "cd_out list \<Rightarrow> ('agg, 'db) full_node \<Rightarrow> ('agg, 'db) full_node" where
  "receive out y = y
     \<lparr>fn_consensusCh := fn_consensusCh y @ List.map_filter consensus_of out,
      fn_helperCh := fn_helperCh y @ List.map_filter helper_of out\<rparr>"

fun made_block :: "pr_out \<Rightarrow> Block option" where
  "made_block (PrLoopback b) = Some b" | "made_block _ = None"

subsection \<open>Steps\<close>

text \<open>
  What a step does that others can see: the core has handled an event and had effects, the mempool
  has stored batches, the proposer has made blocks, or nothing.
\<close>

datatype node_label =
    Handled core_event "core_effect list"
  | Stored "sealedBatch list"
  | Proposed "Block list"
  | Silent

inductive fn_move ::
  "('sk, 'p1, 'p2, 'agg, 'db, 'z) mp_env_scheme \<Rightarrow> u64
     \<Rightarrow> ('agg, 'db) full_node \<Rightarrow> node_label \<Rightarrow> ('agg, 'db) full_node \<Rightarrow> bool"
  for E delay where
  fn_receive:
    "consensus_Dispatch E data = (out, Ok ()) \<Longrightarrow> fn_move E delay y Silent (receive out y)"
| fn_receive_panic:
    "consensus_Dispatch E data = (out, Panic p) \<Longrightarrow> fn_move E delay y Silent (crash_with p y)"
| fn_core_step:
    "core_runs y \<Longrightarrow> take_event y ev = Some y1 \<Longrightarrow> core_step E (fn_core y) ev = (c', out) \<Longrightarrow>
     c_out c' = c_out (fn_core y) @ es \<Longrightarrow>
     fn_move E delay y (Handled ev es) (route es (y1\<lparr>fn_core := c', fn_outcome := out\<rparr>))"
| fn_helper:
    "fn_helperCh y = req # reqs \<Longrightarrow>
     helper_serve E (c_committee (fn_core y)) (fn_store y) req = Ok sent \<Longrightarrow>
     fn_move E delay y Silent (y\<lparr>fn_helperCh := reqs\<rparr>)"
| fn_helper_panic:
    "fn_helperCh y = req # reqs \<Longrightarrow>
     helper_serve E (c_committee (fn_core y)) (fn_store y) req = Panic p \<Longrightarrow>
     fn_move E delay y Silent (crash_with p y)"
| fn_inner:
    "fn_innerCh y = b # bs \<Longrightarrow>
     sync_inner E (c_name (fn_core y)) (c_committee (fn_core y)) (fn_sync y) b now = Ok (s', effs) \<Longrightarrow>
     fn_move E delay y Silent
       (y\<lparr>fn_innerCh := bs, fn_sync := s',
          fn_blockWaiters := fn_blockWaiters y @ spawned_waiters effs\<rparr>)"
| fn_inner_panic:
    "fn_innerCh y = b # bs \<Longrightarrow>
     sync_inner E (c_name (fn_core y)) (c_committee (fn_core y)) (fn_sync y) b now = Panic p \<Longrightarrow>
     fn_move E delay y Silent (crash_with p y)"
| fn_waiting:
    "(p, b) \<in> set (fn_blockWaiters y) \<Longrightarrow> readable E (fn_store y) p \<Longrightarrow>
     sync_waiting E (fn_sync y) b = (s', effs) \<Longrightarrow>
     fn_move E delay y Silent
       (y\<lparr>fn_sync := s', fn_blockWaiters := remove1 (p, b) (fn_blockWaiters y),
          fn_loopbackCh := fn_loopbackCh y @ [b]\<rparr>)"
| fn_waiter_error:
    "(p, b) \<in> set (fn_blockWaiters y) \<Longrightarrow> read_fails E (fn_store y) p \<Longrightarrow>
     fn_move E delay y Silent (y\<lparr>fn_blockWaiters := remove1 (p, b) (fn_blockWaiters y)\<rparr>)"
| fn_sync_timer:
    "sync_timer E (c_name (fn_core y)) (c_committee (fn_core y)) delay (fn_sync y) clock = Ok (s', effs) \<Longrightarrow>
     fn_move E delay y Silent (y\<lparr>fn_sync := s'\<rparr>)"
| fn_sync_timer_panic:
    "sync_timer E (c_name (fn_core y)) (c_committee (fn_core y)) delay (fn_sync y) clock = Panic p \<Longrightarrow>
     fn_move E delay y Silent (crash_with p y)"
| fn_payload_msg:
    "fn_payloadCh y = m # ms \<Longrightarrow> pw_message E (fn_payload y) m cancelCh = Ok s' \<Longrightarrow>
     fn_move E delay y Silent (y\<lparr>fn_payloadCh := ms, fn_payload := s'\<rparr>)"
| fn_payload_panic:
    "fn_payloadCh y = m # ms \<Longrightarrow> pw_message E (fn_payload y) m cancelCh = Panic p \<Longrightarrow>
     fn_move E delay y Silent (crash_with p y)"
| fn_payload_result:
    "pw_results (fn_payload y) = r # rs \<Longrightarrow>
     fn_move E delay y Silent
       (y\<lparr>fn_payload := pw_result E ((fn_payload y)\<lparr>pw_results := rs\<rparr>) r,
          fn_loopbackCh := fn_loopbackCh y @ (case r of Inl err \<Rightarrow> [] | Inr b \<Rightarrow> [b])\<rparr>)"
| fn_payload_read:
    "(h, missing, b) \<in> set (pw_waiters (fn_payload y)) \<Longrightarrow> d \<in> set missing \<Longrightarrow>
     (err = None \<and> readable E (fn_store y) d) \<or> (err = Some StoreFailure \<and> read_fails E (fn_store y) d) \<Longrightarrow>
     fn_move E delay y Silent
       (y\<lparr>fn_payload := (fn_payload y)
            \<lparr>pw_waiters := remove1 (h, missing, b) (pw_waiters (fn_payload y)),
             pw_results := pw_results (fn_payload y)
               @ (case waiter_receive missing b err of Some r \<Rightarrow> [r] | None \<Rightarrow> [])\<rparr>\<rparr>)"
| fn_payload_cancel:
    "(h, missing, b) \<in> set (pw_waiters (fn_payload y)) \<Longrightarrow> h \<in> pw_cancelled (fn_payload y) \<Longrightarrow>
     fn_move E delay y Silent
       (y\<lparr>fn_payload := (fn_payload y)
            \<lparr>pw_waiters := remove1 (h, missing, b) (pw_waiters (fn_payload y)),
             pw_cancelled := pw_cancelled (fn_payload y) - {h}\<rparr>\<rparr>)"
| fn_digest:
    "mn_txConsensus (fn_mempool y) = d # ds \<Longrightarrow>
     pr_step E (fn_proposer y) (PrDigest d) = Some (Ok (p', out)) \<Longrightarrow>
     fn_move E delay y Silent
       (y\<lparr>fn_proposer := p', fn_mempool := (fn_mempool y)\<lparr>mn_txConsensus := ds\<rparr>\<rparr>)"
| fn_proposer_msg:
    "fn_proposerCh y = m # ms \<Longrightarrow>
     pr_step E (fn_proposer y) (PrMessage m) = Some (Ok (p', out)) \<Longrightarrow>
     fn_move E delay y (Proposed (List.map_filter made_block out))
       (y\<lparr>fn_proposer := p', fn_proposerCh := ms,
          fn_loopbackCh := fn_loopbackCh y @ List.map_filter made_block out\<rparr>)"
| fn_proposer_panic:
    "fn_proposerCh y = m # ms \<Longrightarrow> pr_step E (fn_proposer y) (PrMessage m) = Some (Panic q) \<Longrightarrow>
     fn_move E delay y Silent (crash_with q y)"
| fn_proposer_ack:
    "pr_step E (fn_proposer y) (PrAck a) = Some (Ok (p', out)) \<Longrightarrow>
     fn_move E delay y Silent (y\<lparr>fn_proposer := p'\<rparr>)"
| fn_mempool_step:
    "mn_step E ((fn_mempool y)\<lparr>mn_store := fn_store y\<rparr>) txs stored m' \<Longrightarrow>
     fn_move E delay y (Stored (map batch_of stored))
       (y\<lparr>fn_mempool := m', fn_core := (fn_core y)\<lparr>c_store := mn_store m'\<rparr>\<rparr>)"
| fn_batch_panic:
    "bm_step E (mn_batchMaker (fn_mempool y)) ev = Panic p \<Longrightarrow>
     fn_move E delay y Silent (crash_with p y)"
| fn_mempool_sync:
    "fn_mempoolCh y = SynchronizeMessage missing target # ms \<Longrightarrow>
     ms_Synchronize E now (mn_synchronizer (fn_mempool y)) missing target = (s', sent) \<Longrightarrow>
     fn_move E delay y Silent
       (y\<lparr>fn_mempoolCh := ms, fn_mempool := (fn_mempool y)\<lparr>mn_synchronizer := s'\<rparr>\<rparr>)"
| fn_mempool_cleanup:
    "fn_mempoolCh y = CleanupMessage r # ms \<Longrightarrow>
     ms_Cleanup (mn_synchronizer (fn_mempool y)) r = Some s' \<Longrightarrow>
     fn_move E delay y Silent
       (y\<lparr>fn_mempoolCh := ms, fn_mempool := (fn_mempool y)\<lparr>mn_synchronizer := s'\<rparr>\<rparr>)"
| fn_mempool_result:
    "mn_synchronizer (fn_mempool y) = s \<Longrightarrow> ms_results s = d # ds \<Longrightarrow>
     fn_move E delay y Silent
       (y\<lparr>fn_mempool := (fn_mempool y)\<lparr>mn_synchronizer := ms_result (s\<lparr>ms_results := ds\<rparr>) d\<rparr>\<rparr>)"
| fn_mempool_timer:
    "mn_synchronizer (fn_mempool y) = s \<Longrightarrow> ms_armed s \<Longrightarrow> ms_timer E now s = (s', sent) \<Longrightarrow>
     fn_move E delay y Silent (y\<lparr>fn_mempool := (fn_mempool y)\<lparr>mn_synchronizer := s'\<rparr>\<rparr>)"
| fn_mempool_read:
    "mn_synchronizer (fn_mempool y) = s \<Longrightarrow> (c, d) \<in> set (ms_waiters s) \<Longrightarrow>
     (readable E (fn_store y) d \<and> got = [d]) \<or> (read_fails E (fn_store y) d \<and> got = []) \<Longrightarrow>
     fn_move E delay y Silent
       (y\<lparr>fn_mempool := (fn_mempool y)\<lparr>mn_synchronizer :=
            s\<lparr>ms_waiters := remove1 (c, d) (ms_waiters s), ms_results := ms_results s @ got\<rparr>\<rparr>\<rparr>)"
| fn_print:
    "fn_commitCh y = b # bs \<Longrightarrow>
     fn_move E delay y Silent
       (y\<lparr>fn_commitCh := bs, fn_printed := fn_printed y @ process_block E (fn_store y) b\<rparr>)"

definition fn_step ::
  "('sk, 'p1, 'p2, 'agg, 'db, 'z) mp_env_scheme \<Rightarrow> u64
     \<Rightarrow> ('agg, 'db) full_node \<Rightarrow> node_label \<Rightarrow> ('agg, 'db) full_node \<Rightarrow> bool" where
  "fn_step E delay y l z \<longleftrightarrow> \<not> crashed y \<and> fn_move E delay y l z"

inductive fn_run ::
  "('sk, 'p1, 'p2, 'agg, 'db, 'z) mp_env_scheme \<Rightarrow> u64
     \<Rightarrow> ('agg, 'db) full_node \<Rightarrow> node_label list \<Rightarrow> ('agg, 'db) full_node \<Rightarrow> bool"
  for E delay y0 where
  fn_begin: "fn_run E delay y0 [] y0"
| fn_next: "fn_run E delay y0 ls y \<Longrightarrow> fn_step E delay y l z \<Longrightarrow> fn_run E delay y0 (ls @ [l]) z"

end
