(* ===== verification/CoreAvail.thy ===== *)
theory CoreAvail
  imports FullNode
begin

text \<open>
  The core and the availability of payloads. A payload is available if every digest of it can be read
  from the node's store. The handlers of the core keep the following: blocks they hand to the
  synchronizer, vote for or commit have their payload available, a block handed to the payload waiter
  lacks at most what the message lists, and every stored block has its payload available.
\<close>

subsection \<open>Availability\<close>

definition avail :: "('sk, 'p1, 'p2, 'agg, 'db, 'z) env_scheme \<Rightarrow> 'db store \<Rightarrow> Block \<Rightarrow> bool" where
  "avail E s b \<longleftrightarrow> (\<forall>d\<in>set (blk_Payload b). readable E s d)"

definition lacks_only ::
  "('sk, 'p1, 'p2, 'agg, 'db, 'z) env_scheme \<Rightarrow> 'db store \<Rightarrow> Digest list \<Rightarrow> Block \<Rightarrow> bool" where
  "lacks_only E s missing b \<longleftrightarrow> (\<forall>d\<in>set (blk_Payload b). d \<in> set missing \<or> readable E s d)"

definition keeps :: "('sk, 'p1, 'p2, 'agg, 'db, 'z) env_scheme \<Rightarrow> 'db store \<Rightarrow> 'db store \<Rightarrow> bool" where
  "keeps E s s' \<longleftrightarrow> (\<forall>d. readable E s d \<longrightarrow> readable E s' d)"

definition stored_avail :: "('sk, 'p1, 'p2, 'agg, 'db, 'z) env_scheme \<Rightarrow> 'db store \<Rightarrow> bool" where
  "stored_avail E s \<longleftrightarrow> store_ok E s \<and>
     (\<forall>k bytes p. Store_Read E s k = Inr bytes \<longrightarrow> Block_Deserialize E bytes = Ok p \<longrightarrow> avail E s p)"

lemma readable_iff: "readable E s d \<longleftrightarrow> (\<exists>v. Store_Read E s (digest_bytes d) = Inr v)"
  by (auto simp: readable_def split: sum.splits)

lemma keeps_refl [simp]: "keeps E s s"
  by (simp add: keeps_def)

lemma keeps_trans: "keeps E s t \<Longrightarrow> keeps E t u \<Longrightarrow> keeps E s u"
  by (simp add: keeps_def)

lemma avail_keeps: "avail E s b \<Longrightarrow> keeps E s s' \<Longrightarrow> avail E s' b"
  by (simp add: avail_def keeps_def)

lemma lacks_only_keeps: "lacks_only E s ms b \<Longrightarrow> keeps E s s' \<Longrightarrow> lacks_only E s' ms b"
  by (auto simp: lacks_only_def keeps_def)

lemma keeps_write: "store_ok E s \<Longrightarrow> keeps E s (Store_Write E s k v)"
  by (auto simp: keeps_def readable_iff st.get_put_if)

lemma readable_write: "store_ok E s \<Longrightarrow> readable E (Store_Write E s (digest_bytes d) v) d"
  by (simp add: readable_iff st.get_put)

lemma missing_payload_avail: "missing_payload E s b = [] \<longleftrightarrow> avail E s b"
  by (simp add: missing_payload_empty_iff avail_def readable_iff)

lemma missing_payload_lacks: "lacks_only E s (missing_payload E s b) b"
  by (auto simp: lacks_only_def missing_payload_def readable_def split: sum.splits)

lemma avail_Genesis [simp]: "avail E s GenesisBlock"
  by (simp add: avail_def GenesisBlock_def)

text \<open>A write keeps stored blocks available if what it writes is no block, or one that is available.\<close>

lemma stored_avail_write:
  assumes "stored_avail E s" "\<And>p. Block_Deserialize E v = Ok p \<Longrightarrow> avail E s p"
  shows "stored_avail E (Store_Write E s k v)"
proof -
  have ok: "store_ok E s" using assms(1) by (simp add: stored_avail_def)
  have "avail E s p"
    if "Store_Read E (Store_Write E s k v) k' = Inr bytes" "Block_Deserialize E bytes = Ok p" for k' bytes p
    using that assms ok by (auto simp: st.get_put_if stored_avail_def split: if_splits)
  then show ?thesis
    unfolding stored_avail_def
    using st.put_usable [OF ok] avail_keeps [OF _ keeps_write [OF ok]] by blast
qed

lemma getParentBlock_avail:
  assumes "stored_avail E s" "getParentBlock E s b = (r, sent)"
  shows "r = Ok p \<Longrightarrow> avail E s p" and "set sent \<subseteq> {b}"
  using assms
  by (auto simp: getParentBlock_def stored_avail_def split: if_splits sum.splits)

lemma getParentBlock_sends: "getParentBlock E s x = (q, sent) \<Longrightarrow> set sent \<subseteq> {x}"
  by (auto simp: getParentBlock_def split: if_splits sum.splits)

text \<open>A property of blocks that passes from a block to its parent holds of all that the loop visits.\<close>

lemma commit_loop_visits:
  assumes "commit_loop E s lc b acc = Some (r, sent)"
    and "\<And>x p o'. P x \<Longrightarrow> getParentBlock E s x = (Ok p, o') \<Longrightarrow> P p"
    and "P b" "\<forall>x\<in>set acc. P x"
  shows "(\<forall>x\<in>set sent. P x) \<and> (\<forall>as. r = Inr as \<longrightarrow> (\<forall>x\<in>set as. P x))"
proof -
  have "P b \<longrightarrow> (\<forall>x\<in>set acc. P x)
      \<longrightarrow> (\<forall>x p o'. P x \<longrightarrow> getParentBlock E s x = (Ok p, o') \<longrightarrow> P p)
      \<longrightarrow> (\<forall>x\<in>set (snd y). P x) \<and> (\<forall>as. fst y = Inr as \<longrightarrow> (\<forall>x\<in>set as. P x))"
    if "commit_loop E s lc b acc = Some y" for y
  proof (rule commit_loop.raw_induct [OF _ that], intro impI)
    fix loop E s lc b acc y
    assume IH: "\<And>E s lc b acc y. loop E s lc b acc = Some y \<Longrightarrow> P b \<longrightarrow> (\<forall>x\<in>set acc. P x)
        \<longrightarrow> (\<forall>x p o'. P x \<longrightarrow> getParentBlock E s x = (Ok p, o') \<longrightarrow> P p)
        \<longrightarrow> (\<forall>x\<in>set (snd y). P x) \<and> (\<forall>as. fst y = Inr as \<longrightarrow> (\<forall>x\<in>set as. P x))"
      and run: "(if lc + 1 < blk_Round b
        then case getParentBlock E s b of
               (Ok ancestor, sent) \<Rightarrow> loop E s lc ancestor (acc @ [ancestor])
             | (Err err, sent) \<Rightarrow> Some (Inl ExplicitPanic, sent)
             | (Panic p, sent) \<Rightarrow> Some (Inl p, sent)
        else Some (Inr acc, [])) = Some y"
      and b: "P b" and acc: "\<forall>x\<in>set acc. P x"
      and par: "\<forall>x p o'. P x \<longrightarrow> getParentBlock E s x = (Ok p, o') \<longrightarrow> P p"
    show "(\<forall>x\<in>set (snd y). P x) \<and> (\<forall>as. fst y = Inr as \<longrightarrow> (\<forall>x\<in>set as. P x))"
    proof (cases "lc + 1 < blk_Round b")
      case True
      obtain q o' where q: "getParentBlock E s b = (q, o')" by fastforce
      show ?thesis
      proof (cases q)
        case (Ok a)
        have go: "loop E s lc a (acc @ [a]) = Some y" using run True q Ok by simp
        have "P a" using b par q Ok by blast
        moreover from this have "\<forall>x\<in>set (acc @ [a]). P x" using acc by simp
        ultimately show ?thesis
          using IH [OF go] par by (intro IH [OF go, THEN mp, THEN mp, THEN mp])
      next
        case (Err e)
        then have "y = (Inl ExplicitPanic, o')" using run True q by simp
        then show ?thesis using b getParentBlock_sends [OF q] by auto
      next
        case (Panic e)
        then have "y = (Inl e, o')" using run True q by simp
        then show ?thesis using b getParentBlock_sends [OF q] by auto
      qed
    next
      case False
      then have "y = (Inr acc, [])" using run by simp
      then show ?thesis using acc by simp
    qed
  qed
  note key = this [OF assms(1), THEN mp, OF assms(3), THEN mp, OF assms(4), THEN mp]
  have "\<forall>x p o'. P x \<longrightarrow> getParentBlock E s x = (Ok p, o') \<longrightarrow> P p" using assms(2) by blast
  from key [OF this] show ?thesis by simp
qed

subsection \<open>Handlers\<close>

fun effect_avail ::
  "('sk, 'p1, 'p2, 'agg, 'db, 'z) env_scheme \<Rightarrow> 'db store \<Rightarrow> core_effect \<Rightarrow> bool" where
  "effect_avail E s (EInner b) \<longleftrightarrow> avail E s b"
| "effect_avail E s (ECommit b) \<longleftrightarrow> avail E s b"
| "effect_avail E s (EPayloadWaiter m) \<longleftrightarrow>
     (\<forall>b. pwm_block m = Some b \<longrightarrow> lacks_only E s (pwm_missing m) b)"
| "effect_avail E s (ESign (SVote b v)) \<longleftrightarrow> avail E s b"
| "effect_avail E s _ \<longleftrightarrow> True"

definition avail_step ::
  "('sk, 'p1, 'p2, 'agg, 'db, 'z) env_scheme \<Rightarrow> ('agg, 'db) core \<Rightarrow> ('agg, 'db) core \<Rightarrow> bool" where
  "avail_step E c c' \<longleftrightarrow> stored_avail E (c_store c') \<and> keeps E (c_store c) (c_store c')
     \<and> (\<exists>es. c_out c' = c_out c @ es \<and> (\<forall>e\<in>set es. effect_avail E (c_store c') e))"

lemma effect_avail_keeps: "effect_avail E s e \<Longrightarrow> keeps E s s' \<Longrightarrow> effect_avail E s' e"
  by (cases "(E, s, e)" rule: effect_avail.cases) (auto intro: avail_keeps lacks_only_keeps)

lemma avail_step_refl: "stored_avail E (c_store c) \<Longrightarrow> avail_step E c c"
  by (simp add: avail_step_def)

lemma avail_step_trans:
  assumes "avail_step E c c1" "avail_step E c1 c2"
  shows "avail_step E c c2"
proof -
  obtain es1 es2 where es: "c_out c1 = c_out c @ es1" "\<forall>e\<in>set es1. effect_avail E (c_store c1) e"
      "c_out c2 = c_out c1 @ es2" "\<forall>e\<in>set es2. effect_avail E (c_store c2) e"
    using assms by (auto simp: avail_step_def)
  have k: "keeps E (c_store c) (c_store c1)" "keeps E (c_store c1) (c_store c2)"
    using assms by (simp_all add: avail_step_def)
  have "c_out c2 = c_out c @ es1 @ es2" using es by simp
  moreover have "\<forall>e\<in>set (es1 @ es2). effect_avail E (c_store c2) e"
    using es k by (auto intro: effect_avail_keeps)
  ultimately show ?thesis
    using assms(2) keeps_trans [OF k] unfolding avail_step_def by blast
qed

lemma avail_step_emits:
  "stored_avail E (c_store c) \<Longrightarrow> c_store c' = c_store c \<Longrightarrow> c_out c' = c_out c @ es \<Longrightarrow>
     \<forall>e\<in>set es. effect_avail E (c_store c) e \<Longrightarrow> avail_step E c c'"
  by (auto simp: avail_step_def)

lemma avail_step_stored: "avail_step E c c' \<Longrightarrow> stored_avail E (c_store c')"
  by (simp add: avail_step_def)

lemma processQC_out: "\<exists>es. c_out (processQC c qc) = c_out c @ es \<and> set es \<subseteq> {ETimerReset}"
  by (auto simp: processQC_def core_frames advanceRound_out)

lemma processQC_store: "c_store (processQC c qc) = c_store c"
  by (simp add: processQC_def core_frames)

lemma generateProposal_out:
  "c_out (generateProposal c tc) = c_out c @ [EProposer (proposerMakeMessage (c_round c) (c_highQC c) tc)]"
  "c_store (generateProposal c tc) = c_store c"
  by (simp_all add: generateProposal_def)

text \<open>Handlers that neither store, commit, suspend nor vote.\<close>

definition quiet :: "core_effect \<Rightarrow> bool" where
  "quiet e \<longleftrightarrow> (\<forall>b v. e \<noteq> EInner b \<and> e \<noteq> ECommit b \<and> e \<noteq> ESign (SVote b v))
     \<and> (\<forall>m. e \<noteq> EPayloadWaiter m)"

definition quiet_step :: "('agg, 'db) core \<Rightarrow> ('agg, 'db) core \<Rightarrow> bool" where
  "quiet_step c c' \<longleftrightarrow> c_store c' = c_store c \<and> (\<exists>es. c_out c' = c_out c @ es \<and> (\<forall>e\<in>set es. quiet e))"

lemma quiet_simps [simp]:
  "quiet ETimerReset" "quiet (EProposer m)" "quiet (ESend a bs)" "quiet (EBroadcast as bs)"
  "quiet (ESign (STimeout t))" "quiet (EMempool mm)"
  by (simp_all add: quiet_def)

lemma quiet_avail: "quiet e \<Longrightarrow> effect_avail E s e"
  by (cases "(E, s, e)" rule: effect_avail.cases) (auto simp: quiet_def)

lemma quiet_step_avail: "quiet_step c c' \<Longrightarrow> stored_avail E (c_store c) \<Longrightarrow> avail_step E c c'"
  unfolding quiet_step_def by (metis avail_step_emits quiet_avail)

lemma quiet_refl [simp]: "quiet_step c c"
  by (simp add: quiet_step_def)

lemma quiet_trans: "quiet_step a b \<Longrightarrow> quiet_step b c \<Longrightarrow> quiet_step a c"
  by (auto simp: quiet_step_def)

lemma quiet_emit: "\<forall>e\<in>set es. quiet e \<Longrightarrow> quiet_step c (emit es c)"
  by (auto simp: quiet_step_def)

lemma quiet_aggregator: "quiet_step c (c\<lparr>c_aggregator := a\<rparr>)"
  by (simp add: quiet_step_def)

lemma quiet_processQC: "quiet_step c (processQC c qc)"
  using processQC_out [of c qc] by (force simp: quiet_step_def processQC_store)

lemma quiet_advance: "quiet_step c (advanceRound c r)"
  by (simp add: quiet_step_def core_frames advanceRound_out)

lemma quiet_propose: "quiet_step c (generateProposal c tc)"
  by (simp add: quiet_step_def generateProposal_out)

lemma quiet_maybe_propose: "quiet_step c (if P then generateProposal c tc else c)"
  by (simp add: quiet_propose)

lemmas quiet_intros = quiet_emit quiet_aggregator quiet_processQC quiet_advance quiet_propose
  quiet_maybe_propose

lemma handleVote_quiet:
  assumes "handleVote E c v = (c', out)"
  shows "quiet_step c c'"
proof -
  obtain a r where a: "AddVote E (c_aggregator c) v = (a, r)" by fastforce
  let ?c1 = "\<lambda>qc. processQC (c\<lparr>c_aggregator := a\<rparr>) qc"
  have step: "quiet_step c (?c1 qc)" for qc
    by (rule quiet_trans [OF quiet_aggregator quiet_processQC])
  show ?thesis
    using assms a quiet_trans [OF step quiet_maybe_propose]
    by (auto simp: handleVote_def Let_def step quiet_aggregator quiet_trans [OF step quiet_propose]
        split: if_splits option.splits sum.splits)
qed

lemma handleTimeout_quiet:
  assumes "handleTimeout E c t = (c', out)"
  shows "quiet_step c c'"
proof -
  define c1 where "c1 = processQC c (t_highQC t)"
  obtain a r where a: "AddTimeout E (c_aggregator c1) t = (a, r)" by fastforce
  have 1: "quiet_step c (c1\<lparr>c_aggregator := a\<rparr>)"
    unfolding c1_def by (rule quiet_trans [OF quiet_processQC quiet_aggregator])
  have 2: "quiet_step c (advanceRound (c1\<lparr>c_aggregator := a\<rparr>) n)" for n
    by (rule quiet_trans [OF 1 quiet_advance])
  have 3: "quiet_step c (emit [EBroadcast as bs] (advanceRound (c1\<lparr>c_aggregator := a\<rparr>) n))" for n as bs
    by (rule quiet_trans [OF 2 quiet_emit]) simp
  show ?thesis
    using assms a 1 2 3 quiet_trans [OF 3 quiet_propose]
    by (auto simp: handleTimeout_def Let_def c1_def [symmetric]
        split: if_splits option.splits sum.splits prod.splits result.splits)
qed

lemma localTimeoutRound_quiet:
  assumes "localTimeoutRound E c = (c', out)"
  shows "quiet_step c c'"
proof -
  define t where "t = NewTimeout E (c_highQC (increaseLastVotedRound c (c_round c)))
      (c_round (increaseLastVotedRound c (c_round c))) (c_name (increaseLastVotedRound c (c_round c)))
      (c_signatureService (increaseLastVotedRound c (c_round c)))"
  define c2 where "c2 = emit [ESign (STimeout t), ETimerReset] (increaseLastVotedRound c (c_round c))"
  have 2: "quiet_step c c2"
    by (auto simp: quiet_step_def c2_def increaseLastVotedRound_def)
  have 3: "quiet_step c (emit [EBroadcast as bs] c2)" for as bs
    by (rule quiet_trans [OF 2 quiet_emit]) simp
  show ?thesis
    using assms 2 quiet_trans [OF 3 handleTimeout_quiet]
    by (auto simp: localTimeoutRound_def Let_def t_def [symmetric] c2_def [symmetric]
        split: prod.splits result.splits)
qed

lemma handleTC_quiet:
  assumes "handleTC E c tc = (c', out)"
  shows "quiet_step c c'"
  using assms quiet_trans [OF quiet_advance quiet_propose]
  by (auto simp: handleTC_def Let_def quiet_advance split: if_splits option.splits sum.splits)

subsection \<open>Blocks\<close>

lemma vote_for_block_avail:
  assumes "vote_for_block E c b = (c', out)" "stored_avail E (c_store c)" "avail E (c_store c) b"
  shows "avail_step E c c'"
proof -
  obtain c1 r where mv: "make_vote E c b = (c1, r)" by fastforce
  have 1: "avail_step E c c1"
  proof (cases r)
    case (Inl p)
    then show ?thesis using mv make_vote_no_vote(2) [of E c b c1] assms(2) avail_step_refl by auto
  next
    case (Inr o')
    show ?thesis
    proof (cases o')
      case None
      then show ?thesis using mv Inr make_vote_no_vote(1) [of E c b c1] assms(2) avail_step_refl by auto
    next
      case (Some v)
      then have "c1 = emit [ESign (SVote b v)] (c\<lparr>c_lastVotedRound := blk_Round b\<rparr>)"
        using mv Inr by (simp add: make_vote_Some_iff)
      then show ?thesis using assms(2,3) by (intro avail_step_emits [where es = "[ESign (SVote b v)]"]) auto
    qed
  qed
  have 2: "avail_step E c c2" if "quiet_step c1 c2" for c2
    by (rule avail_step_trans [OF 1 quiet_step_avail [OF that avail_step_stored [OF 1]]])
  have 3: "avail_step E c (emit [ESend a bs] c1)" for a bs by (rule 2, rule quiet_emit) simp
  show ?thesis
    using assms(1) mv 1 3 2 [OF handleVote_quiet]
    by (auto simp: vote_for_block_def Let_def
        split: sum.splits option.splits if_splits prod.splits result.splits outcome.splits)
qed

lemma storeBlock_avail:
  assumes "stored_avail E (c_store c)" "proto_ok E" "avail E (c_store c) b"
  shows "avail_step E c (storeBlock E c b)"
proof (cases "\<exists>bytes. Block_Serialize E b = Ok bytes")
  case False
  then have "storeBlock E c b = c" by (auto simp: storeBlock_def split: result.splits)
  then show ?thesis using assms(1) by (simp add: avail_step_refl)
next
  case True
  then obtain bytes where v: "Block_Serialize E b = Ok bytes" by blast
  have des: "Block_Deserialize E bytes = Ok b" by (rule Block_Deserialize_Serialize [OF assms(2) v])
  have "stored_avail E (Store_Write E (c_store c) (digest_bytes (Block_Digest E b)) bytes)"
    by (rule stored_avail_write [OF assms(1)]) (use des assms(3) in auto)
  moreover have "store_ok E (c_store c)" using assms(1) by (simp add: stored_avail_def)
  ultimately show ?thesis using v by (simp add: avail_step_def storeBlock_def keeps_write)
qed

lemma commit_avail:
  assumes "commit E c b = (c', out)" "stored_avail E (c_store c)" "avail E (c_store c) b"
  shows "avail_step E c c'"
proof (cases "commit_loop E (c_store c) (c_lastCommittedRound c) b []")
  case None
  then show ?thesis using assms(1,2) by (auto simp: commit_def avail_step_refl split: if_splits)
next
  case (Some y)
  obtain r sent where y: "y = (r, sent)" by fastforce
  have "(\<forall>x\<in>set sent. avail E (c_store c) x) \<and> (\<forall>as. r = Inr as \<longrightarrow> (\<forall>x\<in>set as. avail E (c_store c) x))"
    by (rule commit_loop_visits [OF Some [unfolded y]])
      (use assms(2,3) getParentBlock_avail(1) in \<open>auto dest: getParentBlock_avail(1)\<close>)
  then have vis: "\<forall>x\<in>set sent. avail E (c_store c) x"
      "\<And>as. r = Inr as \<Longrightarrow> \<forall>x\<in>set as. avail E (c_store c) x" by blast+
  have "avail_step E c c'" if "c' = c" using that assms(2) by (simp add: avail_step_refl)
  moreover have "avail_step E c c'" if "c' = emit (map EInner sent) c"
    using that vis(1) assms(2) by (intro avail_step_emits [where es = "map EInner sent"]) auto
  moreover have "avail_step E c c'"
    if "r = Inr as" "c' = emit (map ECommit (as @ [b])) (c\<lparr>c_lastCommittedRound := blk_Round b\<rparr>)" for as
    using that vis(2) [OF that(1)] assms(2,3)
    by (intro avail_step_emits [where es = "map ECommit (as @ [b])"]) auto
  ultimately show ?thesis
    using assms(1) Some y by (auto simp: commit_def Let_def split: if_splits sum.splits)
qed

lemma processBlock_avail:
  assumes "processBlock E c b = (c', out)" "stored_avail E (c_store c)" "avail E (c_store c) b" "proto_ok E"
  shows "avail_step E c c'"
proof -
  obtain r1 o1 where p1: "getParentBlock E (c_store c) b = (r1, o1)" by fastforce
  obtain r sent where anc: "getAncestors E (c_store c) b = (r, sent)" by fastforce
  have sent: "\<forall>x\<in>set sent. avail E (c_store c) x"
    using anc p1 assms(2,3) getParentBlock_avail [OF assms(2)]
    unfolding getAncestors_def by (auto split: result.splits prod.splits) blast+
  have 1: "avail_step E c (emit (map EInner sent) c)"
    using sent assms(2) by (intro avail_step_emits [where es = "map EInner sent"]) auto
  show ?thesis
  proof (cases r)
    case (Ok bb)
    obtain b0 b1 where bb: "bb = (b0, b1)" by fastforce
    define c0 where "c0 = emit (map EInner sent) c"
    define c2 where "c2 = cleanupProposer (storeBlock E c0 b) b0 b1 b"
    have par: "sent = []" "getParentBlock E (c_store c) b = (Ok b1, [])"
        "getParentBlock E (c_store c) b1 = (Ok b0, [])"
      using anc Ok bb by (simp_all add: getAncestors_Ok_iff)
    have b0: "avail E (c_store c) b0" using getParentBlock_avail(1) [OF assms(2) par(3)] by simp
    have "avail_step E c0 (storeBlock E c0 b)"
      using assms(2,3) by (intro storeBlock_avail assms(4)) (simp_all add: c0_def)
    from avail_step_trans [OF this quiet_step_avail [OF quiet_emit avail_step_stored [OF this]]]
    have "avail_step E c0 c2" unfolding c2_def cleanupProposer_def by simp
    then have 2: "avail_step E c c2" using avail_step_trans [OF 1] by (simp add: c0_def)
    have kept: "avail E (c_store c2) x" if "avail E (c_store c) x" for x
      using 2 that by (auto simp: avail_step_def intro: avail_keeps)
    note v2 = vote_for_block_avail [OF _ avail_step_stored [OF 2] kept [OF assms(3)]]
    show ?thesis
    proof (cases "blk_Round b0 + 1 = blk_Round b1")
      case False
      then have "vote_for_block E c2 b = (c', out)"
        using assms(1) anc Ok bb
        by (simp add: processBlock_def Let_def c2_def c0_def case_prod_unfold)
      then show ?thesis using avail_step_trans [OF 2 v2] by simp
    next
      case True
      define es where "es = map EMempool (fst (driver_cleanup (blk_Round b0)))
          @ map EPayloadWaiter (snd (driver_cleanup (blk_Round b0)))"
      obtain c4 o4 where com: "commit E (emit es c2) b0 = (c4, o4)" by fastforce
      have 3: "avail_step E c2 (emit es c2)"
        by (rule avail_step_emits [OF avail_step_stored [OF 2]])
          (auto simp: es_def driver_cleanup_def)
      have 4: "avail_step E (emit es c2) c4"
        using commit_avail [OF com] avail_step_stored [OF 2] kept [OF b0] by simp
      have 5: "avail_step E c c4"
        by (rule avail_step_trans [OF 2 avail_step_trans [OF 3 4]])
      have kept4: "avail E (c_store c4) b"
        using 5 assms(3) by (auto simp: avail_step_def intro: avail_keeps)
      have "(c' = c4) \<or> vote_for_block E c4 b = (c', out)"
        using assms(1) anc Ok bb True com
        by (auto simp: processBlock_def Let_def c2_def c0_def es_def case_prod_unfold
            split: outcome.splits option.splits)
      then show ?thesis
        using 5 avail_step_trans [OF 5 vote_for_block_avail [OF _ avail_step_stored [OF 5] kept4]] by blast
    qed
  qed (use assms(1) anc 1 in \<open>auto simp: processBlock_def\<close>)
qed

lemma handleProposal_avail:
  assumes "handleProposal E c b = (c', out)" "stored_avail E (c_store c)" "proto_ok E"
  shows "avail_step E c c'"
proof -
  define c1 where "c1 = processQC c (blk_Qc b)"
  define c2 where "c2 = (case blk_Tc b of Some tc \<Rightarrow> advanceRound c1 (tc_Round tc) | None \<Rightarrow> c1)"
  obtain ready mm pm where dv: "driver_verify E (c_store c2) b = (ready, mm, pm)" by (cases "driver_verify E (c_store c2) b")
  define c3 where "c3 = emit (map EMempool mm @ map EPayloadWaiter pm) c2"
  have q: "quiet_step c c2"
    using quiet_trans [OF quiet_processQC quiet_advance]
    by (auto simp: c2_def c1_def quiet_processQC split: option.splits)
  note 2 = quiet_step_avail [OF q assms(2)]
  have "\<forall>m\<in>set pm. effect_avail E (c_store c2) (EPayloadWaiter m)"
    using dv missing_payload_lacks by (auto simp: driver_verify_def Let_def split: if_splits)
  then have "avail_step E c2 c3"
    by (intro avail_step_emits [OF avail_step_stored [OF 2],
          where es = "map EMempool mm @ map EPayloadWaiter pm"]) (auto simp: c3_def)
  from avail_step_trans [OF 2 this] have 3: "avail_step E c c3" .
  have ready: "avail E (c_store c3) b" if ready
    using dv that driver_verify_True_iff [of E "c_store c2" b]
    by (simp add: c3_def missing_payload_avail)
  have "c' = c \<or> c' = c3 \<or> (ready \<and> processBlock E c3 b = (c', out))"
  proof (cases "getLeader (c_committee c) (blk_Round b) = Inr (blk_Author b)
      \<and> Block_Verify E (c_committee c) b = None")
    case True
    then show ?thesis
      using assms(1) dv
      unfolding handleProposal_def Let_def c1_def [symmetric] c2_def [symmetric]
      by (auto simp: c3_def split: if_splits)
  qed (use assms(1) in \<open>auto simp: handleProposal_def split: sum.splits if_splits option.splits\<close>)
  then show ?thesis
    using avail_step_refl [OF assms(2)] 3
      avail_step_trans [OF 3 processBlock_avail [OF _ avail_step_stored [OF 3] ready assms(3)]] by blast
qed

lemma core_step_avail:
  assumes "core_step E c ev = (c', out)" "stored_avail E (c_store c)" "proto_ok E"
    and "\<And>b. ev = RxLoopback b \<Longrightarrow> avail E (c_store c) b"
  shows "avail_step E c c'"
proof (cases "(E, c, ev)" rule: core_step.cases)
  case (1 E' c'' b)
  then show ?thesis using assms handleProposal_avail [of E c b] by simp
next
  case (2 E' c'' v)
  then show ?thesis using assms quiet_step_avail [OF handleVote_quiet] by simp
next
  case (3 E' c'' t)
  then show ?thesis using assms quiet_step_avail [OF handleTimeout_quiet] by simp
next
  case (4 E' c'' tc)
  then show ?thesis using assms quiet_step_avail [OF handleTC_quiet] by simp
next
  case (6 E' c'' b)
  then show ?thesis using assms processBlock_avail [of E c b] by simp
next
  case (7 E' c'')
  then show ?thesis using assms quiet_step_avail [OF localTimeoutRound_quiet] by simp
qed (use assms in \<open>auto intro: avail_step_refl\<close>)

end
