(* ===== verification/NodeAvail.thy ===== *)
theory NodeAvail
  imports CoreAvail
begin

text \<open>
  Payloads in the whole node: every block on the way between the goroutines of a node has its payload
  in the node's store, or is held by the payload waiter, which lacks only the digests it waits for. So
  a node votes for and commits only blocks whose batches it has, and what it has committed it can
  print. The one thing asked of the environment is that no batch is the serialization of a block:
  batches and blocks share the store.
\<close>

subsection \<open>The invariant\<close>

definition al_keys :: "('a, 'b) DAList.alist \<Rightarrow> 'a set" where
  "al_keys al = fst ` set (DAList.impl_of al)"

lemma al_keys_simps [simp]:
  "al_keys DAList.empty = {}" "al_keys (DAList.update k v al) = insert k (al_keys al)"
  by (simp_all add: al_keys_def DAList.empty.rep_eq DAList.update.rep_eq dom_update)

lemma al_keys_deletes: "al_keys (foldl (\<lambda>m x. DAList.delete x m) al xs) \<subseteq> al_keys al"
proof (induction xs arbitrary: al)
  case (Cons x xs)
  have "al_keys (DAList.delete x al) \<subseteq> al_keys al"
    by (auto simp: al_keys_def DAList.delete.rep_eq AList.delete_eq)
  then show ?case using Cons.IH [of "DAList.delete x al"] by auto
qed simp

definition buffered :: "Proposer \<Rightarrow> Digest set" where
  "buffered p = al_keys (pr_buffer p)"

definition places_avail ::
  "('sk, 'p1, 'p2, 'agg, 'db, 'z) env_scheme \<Rightarrow> 'db store \<Rightarrow> ('agg, 'db) full_node \<Rightarrow> bool" where
  "places_avail E s y \<longleftrightarrow>
     (\<forall>e\<in>set (c_out (fn_core y)). effect_avail E s e)
     \<and> (\<forall>b\<in>set (fn_loopbackCh y) \<union> set (fn_commitCh y) \<union> set (fn_innerCh y)
            \<union> snd ` set (fn_blockWaiters y). avail E s b)
     \<and> (\<forall>m\<in>set (fn_payloadCh y). effect_avail E s (EPayloadWaiter m))
     \<and> (\<forall>x\<in>set (pw_waiters (fn_payload y)). lacks_only E s (fst (snd x)) (snd (snd x)))
     \<and> (\<forall>b. Inr b \<in> set (pw_results (fn_payload y)) \<longrightarrow> avail E s b)
     \<and> (\<forall>d\<in>set (mn_txConsensus (fn_mempool y)) \<union> buffered (fn_proposer y). readable E s d)"

definition node_avail ::
  "('sk, 'p1, 'p2, 'agg, 'db, 'z) env_scheme \<Rightarrow> ('agg, 'db) full_node \<Rightarrow> bool" where
  "node_avail E y \<longleftrightarrow> stored_avail E (fn_store y) \<and> places_avail E (fn_store y) y
     \<and> LReadFailed \<notin> set (fn_printed y)"

lemma node_availD:
  assumes "node_avail E y"
  shows "(p, b) \<in> set (fn_blockWaiters y) \<Longrightarrow> avail E (fn_store y) b"
    and "(h, ms, b) \<in> set (pw_waiters (fn_payload y)) \<Longrightarrow> lacks_only E (fn_store y) ms b"
proof -
  show "avail E (fn_store y) b" if "(p, b) \<in> set (fn_blockWaiters y)"
    using assms imageI [OF that, of snd] unfolding node_avail_def places_avail_def by simp
  show "lacks_only E (fn_store y) ms b" if "(h, ms, b) \<in> set (pw_waiters (fn_payload y))"
  proof -
    have "\<forall>x\<in>set (pw_waiters (fn_payload y)). lacks_only E (fn_store y) (fst (snd x)) (snd (snd x))"
      using assms unfolding node_avail_def places_avail_def by blast
    from bspec [OF this that] show ?thesis by simp
  qed
qed

text \<open>The batches that a step stores are not serialized blocks.\<close>

fun stores_no_block :: "('sk, 'p1, 'p2, 'agg, 'db, 'z) env_scheme \<Rightarrow> node_label \<Rightarrow> bool" where
  "stores_no_block E (Stored batches) \<longleftrightarrow> (\<forall>b\<in>set batches. \<forall>p. Block_Deserialize E b \<noteq> Ok p)"
| "stores_no_block E _ \<longleftrightarrow> True"

lemma places_avail_keeps: "places_avail E s y \<Longrightarrow> keeps E s s' \<Longrightarrow> places_avail E s' y"
  unfolding places_avail_def
  by (meson avail_keeps lacks_only_keeps effect_avail_keeps keeps_def)

lemma set_map_filter: "set (List.map_filter f xs) = {v. \<exists>x\<in>set xs. f x = Some v}"
  by (auto simp: List.map_filter_def) force

lemma channel_of_iff [simp]:
  "inner_of e = Some b \<longleftrightarrow> e = EInner b" "payload_of e = Some m \<longleftrightarrow> e = EPayloadWaiter m"
  "proposer_of e = Some q \<longleftrightarrow> e = EProposer q" "commit_of e = Some b \<longleftrightarrow> e = ECommit b"
  "mempool_of e = Some mm \<longleftrightarrow> e = EMempool mm"
  by (cases e; simp)+

lemma made_block_iff [simp]: "made_block e = Some b \<longleftrightarrow> e = PrLoopback b"
  by (cases e; simp)

lemma route_fields [simp]:
  "fn_core (route es y) = fn_core y" "fn_outcome (route es y) = fn_outcome y"
  "fn_consensusCh (route es y) = fn_consensusCh y" "fn_helperCh (route es y) = fn_helperCh y"
  "fn_loopbackCh (route es y) = fn_loopbackCh y" "fn_sync (route es y) = fn_sync y"
  "fn_blockWaiters (route es y) = fn_blockWaiters y" "fn_payload (route es y) = fn_payload y"
  "fn_proposer (route es y) = fn_proposer y" "fn_mempool (route es y) = fn_mempool y"
  "fn_printed (route es y) = fn_printed y"
  "fn_innerCh (route es y) = fn_innerCh y @ List.map_filter inner_of es"
  "fn_payloadCh (route es y) = fn_payloadCh y @ List.map_filter payload_of es"
  "fn_proposerCh (route es y) = fn_proposerCh y @ List.map_filter proposer_of es"
  "fn_commitCh (route es y) = fn_commitCh y @ List.map_filter commit_of es"
  "fn_mempoolCh (route es y) = fn_mempoolCh y @ List.map_filter mempool_of es"
  by (simp_all add: route_def)

lemma take_event_Some:
  assumes "take_event y ev = Some y1"
  shows "y1 = y\<lparr>fn_consensusCh := fn_consensusCh y1, fn_loopbackCh := fn_loopbackCh y1\<rparr>"
    and "set (fn_loopbackCh y1) \<subseteq> set (fn_loopbackCh y)"
    and "ev = RxLoopback b \<Longrightarrow> b \<in> set (fn_loopbackCh y)"
  using assms by (cases ev; auto split: list.splits if_splits)+

lemma take_event_fields:
  assumes "take_event y ev = Some y1"
  shows "fn_core y1 = fn_core y" "fn_outcome y1 = fn_outcome y" "fn_proposerCh y1 = fn_proposerCh y"
    "fn_commitCh y1 = fn_commitCh y" "fn_innerCh y1 = fn_innerCh y" "fn_sync y1 = fn_sync y"
    "fn_blockWaiters y1 = fn_blockWaiters y" "fn_payloadCh y1 = fn_payloadCh y"
    "fn_payload y1 = fn_payload y" "fn_proposer y1 = fn_proposer y" "fn_mempoolCh y1 = fn_mempoolCh y"
    "fn_mempool y1 = fn_mempool y" "fn_printed y1 = fn_printed y" "fn_helperCh y1 = fn_helperCh y"
  by (subst take_event_Some(1) [OF assms], simp)+

subsection \<open>The steps\<close>

lemma process_payload_avail:
  "(\<forall>d\<in>set ds. readable E s d) \<Longrightarrow> LReadFailed \<notin> set (process_payload E s ds)"
  by (induction ds) (auto simp: readable_def split: sum.splits)

lemma process_block_avail: "avail E s b \<Longrightarrow> LReadFailed \<notin> set (process_block E s b)"
  using process_payload_avail [of "blk_Payload b" E s] by (simp add: process_block_def avail_def)

lemma core_step_places:
  assumes "places_avail E (c_store c) y" "fn_core y = c" "take_event y ev = Some y1"
    and "core_step E c ev = (c', out)" "c_out c' = c_out c @ es"
    and "stored_avail E (c_store c)" "proto_ok E"
  shows "stored_avail E (c_store c')"
    and "places_avail E (c_store c') (route es (y1\<lparr>fn_core := c', fn_outcome := out\<rparr>))"
proof -
  have "avail E (c_store c) b" if "ev = RxLoopback b" for b
    using take_event_Some(3) [OF assms(3) that] assms(1) by (simp add: places_avail_def)
  then have step: "avail_step E c c'" by (rule core_step_avail [OF assms(4,6,7)])
  show "stored_avail E (c_store c')" using step by (rule avail_step_stored)
  have new: "\<forall>e\<in>set es. effect_avail E (c_store c') e"
    using step assms(5) by (auto simp: avail_step_def)
  have old: "places_avail E (c_store c') y"
    using places_avail_keeps [OF assms(1)] step by (simp add: avail_step_def)
  note f = take_event_fields [OF assms(3)]
  show "places_avail E (c_store c') (route es (y1\<lparr>fn_core := c', fn_outcome := out\<rparr>))"
    using old new take_event_Some(2) [OF assms(3)] assms(2)
    unfolding places_avail_def route_fields
    by (auto simp: f set_map_filter assms(5))
qed

lemma pr_step_buffered:
  assumes "pr_step E p ev = Some (Ok (p', out))"
  shows "buffered p' \<subseteq> buffered p \<union> (case ev of PrDigest d \<Rightarrow> {d} | _ \<Rightarrow> {})"
    and "PrLoopback b \<in> set out \<Longrightarrow> set (blk_Payload b) = buffered p"
proof -
  have "buffered p' \<subseteq> buffered p \<union> (case ev of PrDigest d \<Rightarrow> {d} | _ \<Rightarrow> {})
      \<and> (PrLoopback b \<in> set out \<longrightarrow> set (blk_Payload b) = buffered p)"
  proof (cases "\<exists>r qc tc. ev = PrMessage (proposerMakeMessage r qc tc)")
    case True
    then obtain r qc tc where "makeBlock E p r qc tc = Ok (p', out)"
      using assms by (auto simp: pr_step_def split: option.splits)
    from makeBlock_Ok [OF this] show ?thesis
      by (auto simp: buffered_def) (force simp: NewBlock_def al_keys_def)+
  next
    case False
    then show ?thesis
      using assms
      by (cases ev) (auto simp: pr_step_def buffered_def pr_count_def
          dest: al_keys_deletes [THEN subsetD]
          split: option.splits proposerMessage.splits if_splits)
  qed
  then show "buffered p' \<subseteq> buffered p \<union> (case ev of PrDigest d \<Rightarrow> {d} | _ \<Rightarrow> {})"
    "PrLoopback b \<in> set out \<Longrightarrow> set (blk_Payload b) = buffered p" by blast+
qed

lemma mn_step_store:
  assumes "mn_step E n txs stored n'"
  shows "(mn_store n' = mn_store n \<and> mn_txConsensus n' = mn_txConsensus n \<and> stored = [])
    \<or> (\<exists>b. map batch_of stored = [b]
         \<and> mn_store n' = Store_Write E (mn_store n) (digest_bytes (NewDigest E b)) b
         \<and> mn_txConsensus n' = mn_txConsensus n @ [NewDigest E b])"
  using assms by cases (auto simp: process_batch_def Let_def)

lemma pw_message_lacks:
  assumes "pw_message L w m h = Ok w'" "x \<in> set (pw_waiters w')"
  shows "x \<in> set (pw_waiters w) \<or> (pwm_block m = Some (snd (snd x)) \<and> pwm_missing m = fst (snd x))"
  using assms
  by (auto simp: pw_message_def pw_wait_def pw_cleanup_def Let_def
      split: pwCommand.splits option.splits)

lemma spawned_waiters_inner:
  assumes "sync_inner E name c s b now = Ok (s', effs)" "x \<in> set (spawned_waiters effs)"
  shows "snd x = b"
  using sync_inner_cases [OF assms(1)] assms(2) by auto

lemma fn_move_avail:
  assumes "fn_move E delay y l z" "node_avail E y" "stores_no_block E l" "proto_ok E"
  shows "node_avail E z"
  using assms(1)
proof (cases rule: fn_move.cases)
  case (fn_receive data out)
  then show ?thesis
    using assms(2) by (simp add: node_avail_def places_avail_def receive_def)
next
  case (fn_core_step ev y1 c' out es)
  have 1: "stored_avail E (fn_store y)" "places_avail E (fn_store y) y" "LReadFailed \<notin> set (fn_printed y)"
    using assms(2) by (simp_all add: node_avail_def)
  note new = core_step_places [OF 1(2) refl fn_core_step(4-6) 1(1) assms(4)]
  show ?thesis
    using new 1(3) take_event_fields(13) [OF fn_core_step(4)] fn_core_step(2)
    by (simp add: node_avail_def)
next
  case (fn_inner b bs now s' effs)
  then show ?thesis
    using assms(2) spawned_waiters_inner [OF fn_inner(4)]
    by (auto simp: node_avail_def places_avail_def)
next
  case (fn_waiting p b s' effs)
  have "avail E (fn_store y) b"
    using assms(2) fn_waiting(3) by (rule node_availD)
  then show ?thesis
    using assms(2) fn_waiting(2) set_remove1_subset [of "(p, b)" "fn_blockWaiters y"]
    by (auto simp: node_avail_def places_avail_def)
next
  case (fn_waiter_error p b)
  then show ?thesis
    using assms(2) set_remove1_subset [of "(p, b)" "fn_blockWaiters y"]
    by (auto simp: node_avail_def places_avail_def)
next
  case (fn_payload_msg m ms h s')
  have w: "\<forall>x\<in>set (pw_waiters s'). lacks_only E (fn_store y) (fst (snd x)) (snd (snd x))"
  proof
    fix x assume x: "x \<in> set (pw_waiters s')"
    have "effect_avail E (fn_store y) (EPayloadWaiter m)"
      using assms(2) fn_payload_msg(3) by (simp add: node_avail_def places_avail_def)
    then show "lacks_only E (fn_store y) (fst (snd x)) (snd (snd x))"
      using pw_message_lacks [OF fn_payload_msg(4) x] assms(2)
      by (auto simp: node_avail_def places_avail_def)
  qed
  then show ?thesis
    using assms(2) fn_payload_msg(2,3) pw_message_keeps [OF fn_payload_msg(4)]
    by (simp add: node_avail_def places_avail_def)
next
  case (fn_payload_result r rs)
  then show ?thesis
    using assms(2) by (cases r) (auto simp: node_avail_def places_avail_def pw_result_def)
next
  case (fn_payload_read h missing b d err)
  have av: "avail E (fn_store y) b'" if "waiter_receive missing b err = Some (Inr b')" for b'
  proof -
    from that have *: "err = None" "b' = b" "\<exists>d. missing = [d]" by (auto simp: waiter_receive_delivers)
    have "lacks_only E (fn_store y) missing b"
      using assms(2) fn_payload_read(3) by (rule node_availD)
    then show ?thesis
      using * fn_payload_read(4,5) by (auto simp: lacks_only_def avail_def)
  qed
  then show ?thesis
    using assms(2) fn_payload_read(2) set_remove1_subset [of "(h, missing, b)" "pw_waiters (fn_payload y)"]
    by (auto simp: node_avail_def places_avail_def split: option.splits)
next
  case (fn_payload_cancel h missing b)
  then show ?thesis
    using assms(2) set_remove1_subset [of "(h, missing, b)" "pw_waiters (fn_payload y)"]
    by (auto simp: node_avail_def places_avail_def)
next
  case (fn_digest d ds p' out)
  then show ?thesis
    using assms(2) pr_step_buffered(1) [OF fn_digest(4)]
    by (auto simp: node_avail_def places_avail_def)
next
  case (fn_proposer_msg m ms p' out)
  have "avail E (fn_store y) b" if "PrLoopback b \<in> set out" for b
    using pr_step_buffered(2) [OF fn_proposer_msg(4) that] assms(2)
    by (simp add: avail_def node_avail_def places_avail_def)
  then show ?thesis
    using assms(2) fn_proposer_msg(2) pr_step_buffered(1) [OF fn_proposer_msg(4)]
    by (auto simp: node_avail_def places_avail_def set_map_filter)
next
  case (fn_proposer_ack a p' out)
  then show ?thesis
    using assms(2) pr_step_buffered(1) [OF fn_proposer_ack(3)]
    by (auto simp: node_avail_def places_avail_def)
next
  case (fn_mempool_step txs stored m')
  let ?n = "(fn_mempool y)\<lparr>mn_store := fn_store y\<rparr>"
  have 1: "stored_avail E (fn_store y)" "places_avail E (fn_store y) y" "LReadFailed \<notin> set (fn_printed y)"
    using assms(2) by (simp_all add: node_avail_def)
  have ok: "store_ok E (fn_store y)" using 1(1) by (simp add: stored_avail_def)
  have "mn_store m' = fn_store y \<and> mn_txConsensus m' = mn_txConsensus (fn_mempool y)
    \<or> (\<exists>b. map batch_of stored = [b]
         \<and> mn_store m' = Store_Write E (fn_store y) (digest_bytes (NewDigest E b)) b
         \<and> mn_txConsensus m' = mn_txConsensus (fn_mempool y) @ [NewDigest E b])"
    using mn_step_store [OF fn_mempool_step(3)] by auto
  then show ?thesis
  proof (elim disjE exE conjE)
    assume "mn_store m' = fn_store y" "mn_txConsensus m' = mn_txConsensus (fn_mempool y)"
    then show ?thesis
      using 1 fn_mempool_step(2) by (auto simp: node_avail_def places_avail_def)
  next
    fix b
    assume b: "map batch_of stored = [b]"
      "mn_store m' = Store_Write E (fn_store y) (digest_bytes (NewDigest E b)) b"
      "mn_txConsensus m' = mn_txConsensus (fn_mempool y) @ [NewDigest E b]"
    have "stored_avail E (mn_store m')"
      unfolding b(2) by (rule stored_avail_write [OF 1(1)]) (use assms(3) fn_mempool_step(1) b(1) in auto)
    moreover have "places_avail E (mn_store m') y"
      using places_avail_keeps [OF 1(2) keeps_write [OF ok]] by (simp add: b(2))
    moreover have "readable E (mn_store m') (NewDigest E b)"
      unfolding b(2) by (rule readable_write [OF ok])
    ultimately show ?thesis
      using 1(3) fn_mempool_step(2) b(3) by (auto simp: node_avail_def places_avail_def)
  qed
next
  case (fn_print b bs)
  have "avail E (fn_store y) b"
    using assms(2) fn_print(3) by (simp add: node_avail_def places_avail_def)
  then show ?thesis
    using assms(2) fn_print(2,3) process_block_avail [of E "fn_store y" b]
    by (auto simp: node_avail_def places_avail_def)
qed (use assms(2) in \<open>simp_all add: node_avail_def places_avail_def\<close>)

lemma fn_run_avail:
  assumes "fn_run E delay y0 ls y" "node_avail E y0" "proto_ok E" "\<forall>l\<in>set ls. stores_no_block E l"
  shows "node_avail E y"
  using assms
proof (induction rule: fn_run.induct)
  case (fn_next ls y l z)
  then show ?case using fn_move_avail [of E delay y l z] by (simp add: fn_step_def)
qed

subsection \<open>A node that has just started\<close>

definition empty_of_blocks :: "('sk, 'p1, 'p2, 'agg, 'db, 'z) env_scheme \<Rightarrow> 'db store \<Rightarrow> bool" where
  "empty_of_blocks E s \<longleftrightarrow> store_ok E s \<and>
     (\<forall>k bytes p. Store_Read E s k = Inr bytes \<longrightarrow> Block_Deserialize E bytes \<noteq> Ok p)"

lemma core_start_quiet:
  assumes "core_start name cm ss s = (c, out)"
  shows "c_store c = s" "c_name c = name" "c_committee c = cm" "c_signatureService c = ss"
    "\<forall>e\<in>set (c_out c). quiet e"
  using assms
  by (auto simp: core_start_def NewCore_def generateProposal_def Let_def split: sum.splits if_splits)

lemma NewNode_parts:
  assumes "NewNode (Inr committee) (Inr secret) parameters (Inr db) None = Ok n"
  shows "core_start (se_Name secret) (nc_Consensus committee) (NewSignatureService (se_Secret secret))
      (NewStore db) = (cn_core (nd_consensus n), cn_started (nd_consensus n))"
    and "cn_proposer (nd_consensus n) = spawnProposer (se_Name secret) (nc_Consensus committee)
      (NewSignatureService (se_Secret secret))"
    and "mn_txConsensus (nd_mempool n) = []"
  using assms
  by (auto simp: NewNode_def SpawnConsensus_def Let_def SpawnMempool_def go_simps
      split: option.splits prod.splits sum.splits if_splits)

lemma boot_avail:
  assumes "NewNode (Inr committee) (Inr secret) parameters (Inr db) None = Ok n"
    and "empty_of_blocks E (NewStore db)"
  shows "node_avail E (boot n)"
proof -
  note parts = NewNode_parts [OF assms(1)]
  note st = core_start_quiet [OF parts(1)]
  have "stored_avail E (NewStore db)" using assms(2) by (auto simp: stored_avail_def empty_of_blocks_def)
  moreover have "\<forall>e\<in>set (c_out (cn_core (nd_consensus n))). effect_avail E s e" for s
    using st(5) quiet_avail by blast
  moreover have "EInner b \<notin> set (c_out (cn_core (nd_consensus n)))"
      "ECommit b \<notin> set (c_out (cn_core (nd_consensus n)))"
      "EPayloadWaiter m \<notin> set (c_out (cn_core (nd_consensus n)))" for b m
    using st(5) by (auto simp: quiet_def)
  ultimately show ?thesis
    using st(1)
    by (simp add: node_avail_def boot_def Let_def places_avail_def pw_init_def parts(2,3)
        buffered_def spawnProposer_def set_map_filter)
qed

end
