(* ===== verification/FullNet.thy ===== *)
theory FullNet
  imports NodeAvail Safety
begin

text \<open>
  The honest nodes, each a \<open>full_node\<close>, and the refinement of the network of cores by them. In
  \<open>Network\<close> a block may come back on a core's loopback channel only if the synchronizer, the payload
  waiter or the proposer could have put it there; here these goroutines are run, and the assumption
  is proved. What remains assumed of a step, \<open>label_genuine\<close>, is unforgeability for the messages that
  arrive, that no batch is a serialized block, and that the blocks of honest proposers are among the
  blocks \<open>B\<close> that the run is about.
\<close>

subsection \<open>The network of full nodes\<close>

record ('agg, 'db) full_net =
  fw_node :: "PublicKey \<Rightarrow> ('agg, 'db) full_node"
  fw_hist :: "(PublicKey \<times> signed) list"

fun label_genuine ::
  "('sk, 'p1, 'p2, 'agg, 'db, 'z) env_scheme \<Rightarrow> (PublicKey \<Rightarrow> bool) \<Rightarrow> Block set \<Rightarrow> (PublicKey \<times> Digest) set
     \<Rightarrow> ('agg, 'db) core \<Rightarrow> node_label \<Rightarrow> bool" where
  "label_genuine E hon B S c (Handled (RxMessage m) es) \<longleftrightarrow> event_genuine E hon B S c (RxMessage m)"
| "label_genuine E hon B S c (Handled ev es) \<longleftrightarrow> True"
| "label_genuine E hon B S c (Stored batches) \<longleftrightarrow> stores_no_block E (Stored batches)"
| "label_genuine E hon B S c (Proposed blocks) \<longleftrightarrow> set blocks \<subseteq> B"
| "label_genuine E hon B S c Silent \<longleftrightarrow> True"

fun label_signed :: "node_label \<Rightarrow> signed list" where
  "label_signed (Handled ev es) = signed_of es"
| "label_signed _ = []"

inductive full_step ::
  "('sk, 'p1, 'p2, 'agg, 'db, 'z) mp_env_scheme \<Rightarrow> u64 \<Rightarrow> (PublicKey \<Rightarrow> bool) \<Rightarrow> Block set
     \<Rightarrow> ('agg, 'db) full_net \<Rightarrow> ('agg, 'db) full_net \<Rightarrow> bool"
  for E delay hon B where
  full_act:
    "hon k \<Longrightarrow> fn_step E delay (fw_node y k) l n' \<Longrightarrow>
     label_genuine E hon B (hist_pairs E (fw_hist y)) (fn_core (fw_node y k)) l \<Longrightarrow>
     full_step E delay hon B y
       \<lparr>fw_node = (fw_node y)(k := n'), fw_hist = fw_hist y @ map (Pair k) (label_signed l)\<rparr>"

definition full_start ::
  "Committee \<Rightarrow> (PublicKey \<Rightarrow> SignatureService) \<Rightarrow> (PublicKey \<Rightarrow> 'db store)
     \<Rightarrow> (PublicKey \<Rightarrow> 'db mempool_node) \<Rightarrow> ('agg, 'db) full_net" where
  "full_start cm ss stores mempools =
     \<lparr>fw_node = (\<lambda>k. boot \<lparr>nd_consensus = SpawnConsensus k cm (ss k) (stores k),
        nd_mempool = mempools k, nd_store = stores k\<rparr>), fw_hist = []\<rparr>"

inductive full_reach ::
  "('sk, 'p1, 'p2, 'agg, 'db, 'z) mp_env_scheme \<Rightarrow> u64 \<Rightarrow> Committee \<Rightarrow> mp_Committee \<Rightarrow> mp_Parameters
     \<Rightarrow> (PublicKey \<Rightarrow> bool) \<Rightarrow> Block set \<Rightarrow> (PublicKey \<Rightarrow> SignatureService)
     \<Rightarrow> ('agg, 'db) full_net \<Rightarrow> bool"
  for E delay cm mcm mps hon B ss where
  full_init:
    "(\<And>k. hon k \<Longrightarrow> fresh_store E (stores k)) \<Longrightarrow>
     (\<And>k. hon k \<Longrightarrow> SpawnMempool k mcm mps (stores k) = Ok (mempools k)) \<Longrightarrow>
     full_reach E delay cm mcm mps hon B ss (full_start cm ss stores mempools)"
| full_next:
    "full_reach E delay cm mcm mps hon B ss y \<Longrightarrow> full_step E delay hon B y z \<Longrightarrow>
     full_reach E delay cm mcm mps hon B ss z"

text \<open>Such a start is what \<open>NewNode\<close> makes from the files of each node.\<close>

lemma NewNode_starts:
  assumes "NewNode (Inr committee) (Inr secret) parameters (Inr db) None = Ok n"
  shows "\<exists>mempool mps. SpawnMempool (se_Name secret) (nc_Mempool committee) mps (NewStore db) = Ok mempool
    \<and> n = \<lparr>nd_consensus = SpawnConsensus (se_Name secret) (nc_Consensus committee)
             (NewSignatureService (se_Secret secret)) (NewStore db),
           nd_mempool = mempool, nd_store = NewStore db\<rparr>"
  using assms
  by (auto simp: NewNode_def Let_def go_simps split: option.splits sum.splits result.splits)

subsection \<open>Where the blocks on the channels come from\<close>

definition held_back :: "('agg, 'db) core \<Rightarrow> Block \<Rightarrow> bool" where
  "held_back c b \<longleftrightarrow> EInner b \<in> set (c_out c)
     \<or> (\<exists>m. EPayloadWaiter m \<in> set (c_out c) \<and> pwm_block m = Some b)"

definition made_from ::
  "('sk, 'p1, 'p2, 'agg, 'db, 'z) env_scheme \<Rightarrow> ('agg, 'db) core \<Rightarrow> Block \<Rightarrow> bool" where
  "made_from E c b \<longleftrightarrow> (\<exists>r qc tc payload. EProposer (proposerMakeMessage r qc tc) \<in> set (c_out c)
     \<and> b = NewBlock E qc tc (c_name c) r payload (c_signatureService c))"

lemma loopback_from_iff: "loopback_from E c b \<longleftrightarrow> held_back c b \<or> made_from E c b"
  by (auto simp: loopback_from_def held_back_def made_from_def)

definition traced ::
  "('sk, 'p1, 'p2, 'agg, 'db, 'z) env_scheme \<Rightarrow> Block set \<Rightarrow> ('agg, 'db) core
     \<Rightarrow> ('agg, 'db) full_node \<Rightarrow> bool" where
  "traced E B c y \<longleftrightarrow>
     pr_name (fn_proposer y) = c_name c \<and> pr_signatureService (fn_proposer y) = c_signatureService c
     \<and> (\<forall>b\<in>set (fn_innerCh y) \<union> snd ` set (fn_blockWaiters y). held_back c b)
     \<and> (\<forall>m\<in>set (fn_payloadCh y). EPayloadWaiter m \<in> set (c_out c))
     \<and> (\<forall>x\<in>set (pw_waiters (fn_payload y)). held_back c (snd (snd x)))
     \<and> (\<forall>b. Inr b \<in> set (pw_results (fn_payload y)) \<longrightarrow> held_back c b)
     \<and> (\<forall>m\<in>set (fn_proposerCh y). EProposer m \<in> set (c_out c))
     \<and> (\<forall>b\<in>set (fn_loopbackCh y). held_back c b \<or> (made_from E c b \<and> b \<in> B))
     \<and> (\<forall>b\<in>set (fn_commitCh y). ECommit b \<in> set (c_out c))
     \<and> (\<forall>b. LCommitted b \<in> set (fn_printed y) \<longrightarrow> ECommit b \<in> set (c_out c))"

definition grows :: "('agg, 'db) core \<Rightarrow> ('agg, 'db) core \<Rightarrow> bool" where
  "grows c c' \<longleftrightarrow> c_name c' = c_name c \<and> c_signatureService c' = c_signatureService c
     \<and> set (c_out c) \<subseteq> set (c_out c')"

lemma traced_grows:
  assumes "traced E B c y" "grows c c'"
  shows "traced E B c' y"
proof -
  have held: "held_back c b \<Longrightarrow> held_back c' b" for b
    using assms(2) by (auto simp: held_back_def grows_def)
  have made: "made_from E c b \<Longrightarrow> made_from E c' b" for b
    using assms(2) unfolding made_from_def grows_def by (metis subsetD)
  have out: "e \<in> set (c_out c) \<Longrightarrow> e \<in> set (c_out c')" for e
    using assms(2) by (auto simp: grows_def)
  have same: "c_name c' = c_name c" "c_signatureService c' = c_signatureService c"
    using assms(2) by (simp_all add: grows_def)
  show ?thesis
    using assms(1) unfolding traced_def same by (fast intro: held made out)
qed

lemma grows_refl [simp]: "grows c c"
  by (simp add: grows_def)

text \<open>What a step of a node does to its core.\<close>

lemma fn_move_core:
  assumes "fn_move E delay y l z"
  shows "(\<exists>ev es. l = Handled ev es \<and> core_runs y \<and> core_step E (fn_core y) ev = (fn_core z, fn_outcome z)
            \<and> c_out (fn_core z) = c_out (fn_core y) @ es
            \<and> (\<forall>b. ev = RxLoopback b \<longrightarrow> b \<in> set (fn_loopbackCh y)))
    \<or> (\<exists>bs. l = Stored bs \<and> fn_outcome z = fn_outcome y
          \<and> (fn_core z = fn_core y
             \<or> (\<exists>b. bs = [b] \<and> fn_core z = (fn_core y)\<lparr>c_store := Store_Write E (fn_store y)
                  (digest_bytes (NewDigest E b)) b\<rparr>)))
    \<or> (((\<exists>bs. l = Proposed bs) \<or> l = Silent) \<and> fn_core z = fn_core y
          \<and> (fn_outcome z = fn_outcome y \<or> crashed z))"
  using assms
proof (cases rule: fn_move.cases)
  case (fn_core_step ev y1 c' out es)
  then show ?thesis using take_event_Some(3) [OF fn_core_step(4)] by auto
next
  case (fn_mempool_step txs stored m')
  let ?n = "(fn_mempool y)\<lparr>mn_store := fn_store y\<rparr>"
  have "(mn_store m' = fn_store y)
    \<or> (\<exists>b. map batch_of stored = [b]
         \<and> mn_store m' = Store_Write E (fn_store y) (digest_bytes (NewDigest E b)) b)"
    using mn_step_store [OF fn_mempool_step(3)] by auto
  then show ?thesis using fn_mempool_step(1,2) by auto
qed (auto simp: receive_def crashed_def)

lemma pr_step_made:
  assumes "pr_step E p ev = Some (Ok (p', out))"
  shows "pr_name p' = pr_name p" "pr_signatureService p' = pr_signatureService p"
    and "PrLoopback b \<in> set out \<Longrightarrow> \<exists>r qc tc payload. ev = PrMessage (proposerMakeMessage r qc tc)
      \<and> b = NewBlock E qc tc (pr_name p) r payload (pr_signatureService p)"
proof -
  have "pr_name p' = pr_name p \<and> pr_signatureService p' = pr_signatureService p
      \<and> (PrLoopback b \<in> set out \<longrightarrow> (\<exists>r qc tc payload. ev = PrMessage (proposerMakeMessage r qc tc)
          \<and> b = NewBlock E qc tc (pr_name p) r payload (pr_signatureService p)))"
  proof (cases "\<exists>r qc tc. ev = PrMessage (proposerMakeMessage r qc tc)")
    case True
    then obtain r qc tc where ev: "ev = PrMessage (proposerMakeMessage r qc tc)" by blast
    then have "makeBlock E p r qc tc = Ok (p', out)"
      using assms by (auto simp: pr_step_def split: option.splits)
    from makeBlock_Ok [OF this] show ?thesis using ev by auto
  next
    case False
    then show ?thesis
      using assms
      by (cases ev) (auto simp: pr_step_def pr_count_def split: option.splits proposerMessage.splits if_splits)
  qed
  then show "pr_name p' = pr_name p" "pr_signatureService p' = pr_signatureService p"
    "PrLoopback b \<in> set out \<Longrightarrow> \<exists>r qc tc payload. ev = PrMessage (proposerMakeMessage r qc tc)
      \<and> b = NewBlock E qc tc (pr_name p) r payload (pr_signatureService p)" by blast+
qed

lemma printed_commits: "LCommitted b \<in> set (process_block E s x) \<longleftrightarrow> b = x"
proof -
  have "LCommitted b \<notin> set (process_payload E s ds)" for ds
    by (induction ds) (auto split: sum.splits)
  then show ?thesis by (auto simp: process_block_def)
qed

lemma tracedD:
  assumes "traced E B c y"
  shows "(p, b) \<in> set (fn_blockWaiters y) \<Longrightarrow> held_back c b"
    and "(h, ms, b) \<in> set (pw_waiters (fn_payload y)) \<Longrightarrow> held_back c b"
proof -
  show "held_back c b" if "(p, b) \<in> set (fn_blockWaiters y)"
    using assms imageI [OF that, of snd] unfolding traced_def by simp
  show "held_back c b" if "(h, ms, b) \<in> set (pw_waiters (fn_payload y))"
  proof -
    have "\<forall>x\<in>set (pw_waiters (fn_payload y)). held_back c (snd (snd x))"
      using assms unfolding traced_def by blast
    from bspec [OF this that] show ?thesis by simp
  qed
qed

lemma remove1_subset: "set (remove1 x xs) \<subseteq> set xs"
  by (rule set_remove1_subset)

lemma fn_move_traced:
  assumes "fn_move E delay y l z" "traced E B (fn_core y) y" "grows (fn_core y) (fn_core z)"
    and "\<And>bs. l = Proposed bs \<Longrightarrow> set bs \<subseteq> B"
  shows "traced E B (fn_core z) z"
proof -
  note old = traced_grows [OF assms(2,3)]
  show ?thesis
    using assms(1)
  proof (cases rule: fn_move.cases)
    case (fn_core_step ev y1 c' out es)
    have c': "fn_core z = c'" using fn_core_step(2) by simp
    have new: "e \<in> set es \<Longrightarrow> e \<in> set (c_out c')" for e using fn_core_step(6) by simp
    show ?thesis
      using old [unfolded c'] take_event_Some(2) [OF fn_core_step(4)]
      unfolding c' unfolding fn_core_step(2) traced_def route_fields
      by (auto simp: take_event_fields [OF fn_core_step(4)] set_map_filter held_back_def intro: new)
  next
    case (fn_inner b bs now s' effs)
    then show ?thesis
      using old spawned_waiters_inner [OF fn_inner(4)] by (auto simp: traced_def)
  next
    case (fn_waiting p b s' effs)
    have "held_back (fn_core y) b" using assms(2) fn_waiting(3) by (rule tracedD)
    then show ?thesis
      using old fn_waiting(2) remove1_subset [of "(p, b)" "fn_blockWaiters y"]
      by (auto simp: traced_def)
  next
    case (fn_waiter_error p b)
    then show ?thesis
      using old remove1_subset [of "(p, b)" "fn_blockWaiters y"] by (auto simp: traced_def)
  next
    case (fn_payload_msg m ms h s')
    have "\<forall>x\<in>set (pw_waiters s'). held_back (fn_core y) (snd (snd x))"
    proof
      fix x assume x: "x \<in> set (pw_waiters s')"
      have "EPayloadWaiter m \<in> set (c_out (fn_core y))"
        using assms(2) fn_payload_msg(3) by (simp add: traced_def)
      then show "held_back (fn_core y) (snd (snd x))"
        using pw_message_lacks [OF fn_payload_msg(4) x] assms(2)
        by (auto simp: traced_def held_back_def)
    qed
    then show ?thesis
      using old fn_payload_msg(2,3) pw_message_keeps [OF fn_payload_msg(4)] by (simp add: traced_def)
  next
    case (fn_payload_result r rs)
    then show ?thesis using old by (cases r) (auto simp: traced_def pw_result_def)
  next
    case (fn_payload_read h missing b d err)
    have "held_back (fn_core y) b'" if "waiter_receive missing b err = Some (Inr b')" for b'
      using that tracedD(2) [OF assms(2) fn_payload_read(3)] by (auto simp: waiter_receive_delivers)
    then show ?thesis
      using old fn_payload_read(2) remove1_subset [of "(h, missing, b)" "pw_waiters (fn_payload y)"]
      by (auto simp: traced_def split: option.splits)
  next
    case (fn_payload_cancel h missing b)
    then show ?thesis
      using old remove1_subset [of "(h, missing, b)" "pw_waiters (fn_payload y)"]
      by (auto simp: traced_def)
  next
    case (fn_digest d ds p' out)
    then show ?thesis using old pr_step_made(1,2) [OF fn_digest(4)] by (simp add: traced_def)
  next
    case (fn_proposer_msg m ms p' out)
    have "made_from E (fn_core y) b \<and> b \<in> B" if "PrLoopback b \<in> set out" for b
    proof
      have "b \<in> set (List.map_filter made_block out)" using that by (auto simp: set_map_filter)
      then show "b \<in> B" using assms(4) [OF fn_proposer_msg(1)] by blast
      have "EProposer m \<in> set (c_out (fn_core y))"
        using assms(2) fn_proposer_msg(3) by (simp add: traced_def)
      then show "made_from E (fn_core y) b"
        using pr_step_made(3) [OF fn_proposer_msg(4) that] assms(2)
        unfolding made_from_def traced_def by auto
    qed
    then show ?thesis
      using old fn_proposer_msg(2,3) pr_step_made(1,2) [OF fn_proposer_msg(4)]
      by (auto simp: traced_def set_map_filter)
  next
    case (fn_proposer_ack a p' out)
    then show ?thesis using old pr_step_made(1,2) [OF fn_proposer_ack(3)] by (simp add: traced_def)
  next
    case (fn_print b bs)
    then show ?thesis using old by (auto simp: traced_def printed_commits)
  qed (use old in \<open>simp_all add: traced_def receive_def\<close>)
qed

subsection \<open>The network of cores simulates the network of nodes\<close>

definition simulates ::
  "('sk, 'p1, 'p2, 'agg, 'db, 'z) env_scheme \<Rightarrow> Committee \<Rightarrow> (PublicKey \<Rightarrow> bool) \<Rightarrow> Block set
     \<Rightarrow> (PublicKey \<Rightarrow> SignatureService) \<Rightarrow> ('agg, 'db) full_net \<Rightarrow> ('agg, 'db) net \<Rightarrow> bool" where
  "simulates E cm hon B ss y x \<longleftrightarrow> net_reach E cm hon B ss x
     \<and> (\<forall>k. n_core x k = fn_core (fw_node y k)) \<and> n_hist x = fw_hist y
     \<and> (\<forall>k. hon k \<longrightarrow> core_runs (fw_node y k) \<longrightarrow> k \<in> n_live x)
     \<and> (\<forall>k. hon k \<longrightarrow> traced E B (fn_core (fw_node y k)) (fw_node y k))"

text \<open>A block that was held back is one of the run.\<close>

lemma held_back_in_run:
  assumes "core_ok E hon B S c" "held_back c b" "GenesisBlock \<in> B"
  shows "b \<in> B"
proof -
  have "\<exists>e\<in>set (c_out c). effect_ok E hon B S c e \<and>
      (e = EInner b \<or> (\<exists>m. e = EPayloadWaiter m \<and> pwm_block m = Some b))"
    using assms(1,2) unfolding core_ok_def held_back_def by blast
  then have "block_held E hon B S c b" by auto
  then show ?thesis using assms(3) by (auto simp: block_held_def block_known_def)
qed

lemma loopback_genuine:
  assumes "core_ok E hon B S c" "traced E B c y" "b \<in> set (fn_loopbackCh y)" "GenesisBlock \<in> B"
  shows "event_genuine E hon B S' c (RxLoopback b)"
proof -
  have "held_back c b \<or> (made_from E c b \<and> b \<in> B)"
    using assms(2,3) by (simp add: traced_def)
  then show ?thesis
    using held_back_in_run [OF assms(1) _ assms(4)] by (auto simp: loopback_from_iff)
qed

lemma foreign_batch:
  "stores_no_block E (Stored [b]) \<Longrightarrow> foreign_command E (writeCommand k b)"
  by (simp add: foreign_command_def)

lemma core_step_grows:
  assumes "core_ok E hon B S c" "env_ok E (c_committee c)" "event_genuine E hon B (sigs E S c) c ev"
    and "core_step E c ev = (c', out)"
  shows "grows c c'"
proof -
  have "steps_to E hon B S c c' out" by (rule core_step_steps [OF assms])
  then obtain c1 bs where "core_moves E hon B S c c1" "c' = emit (map EInner bs) c1"
    by (auto simp: steps_to_def)
  then have "extends c c'" using core_moves_extends [of E hon B S c c1] by (auto simp: extends_def)
  then show ?thesis by (auto simp: extends_def grows_def)
qed

lemma simulates_handled:
  assumes "simulates E cm hon B ss y x" "env_ok E cm" "GenesisBlock \<in> B" "hon k"
    and "core_runs (fw_node y k)" "fn_move E delay (fw_node y k) (Handled ev es) n'"
    and "label_genuine E hon B (hist_pairs E (fw_hist y)) (fn_core (fw_node y k)) (Handled ev es)"
    and "z = \<lparr>fw_node = (fw_node y)(k := n'), fw_hist = fw_hist y @ map (Pair k) (signed_of es)\<rparr>"
  shows "\<exists>x'. simulates E cm hon B ss z x'"
proof -
  let ?n = "fw_node y k" and ?S = "hist_pairs E (fw_hist y)"
  let ?c = "fn_core ?n"
  have sim: "net_reach E cm hon B ss x" "n_core x k = ?c" "n_hist x = fw_hist y" "k \<in> n_live x"
      "traced E B ?c ?n"
    using assms(1,4,5) by (auto simp: simulates_def)
  have "net_inv E cm hon B ss x" using sim(1) assms(2) by (rule net_reach_inv)
  then have node: "node_inv E cm hon B ss x k" using assms(4) by (simp add: net_inv_def)
  then have ok: "core_ok E hon B ?S ?c" "c_committee ?c = cm" "c_name ?c = k"
      "signed_of (c_out ?c) = map snd (filter (\<lambda>p. fst p = k) (fw_hist y))"
    using sim(2-4) by (simp_all add: node_inv_def)
  have own: "sigs E ?S ?c = ?S" using own_pairs_hist [OF ok(4,3)] by blast
  have st: "core_step E ?c ev = (fn_core n', fn_outcome n')" "c_out (fn_core n') = c_out ?c @ es"
      "\<And>b. ev = RxLoopback b \<Longrightarrow> b \<in> set (fn_loopbackCh ?n)"
    using fn_move_core [OF assms(6)] by auto
  have gen: "event_genuine E hon B ?S ?c ev"
  proof (cases ev)
    case (RxLoopback b)
    then show ?thesis using loopback_genuine [OF ok(1) sim(5) st(3) assms(3)] by simp
  qed (use assms(7) in simp_all)
  define x' where "x' = \<lparr>n_core = (n_core x)(k := fn_core n'),
      n_live = (case fn_outcome n' of Ret _ \<Rightarrow> n_live x | _ \<Rightarrow> n_live x - {k}),
      n_hist = n_hist x @ map (Pair k) (signed_of es)\<rparr>"
  have "net_step E hon B x x'"
    unfolding x'_def
    by (rule net_step.act [where y = x and k = k and ev = ev and out = "fn_outcome n'"])
      (use assms(4) gen st sim(2-4) in simp_all)
  then have reach: "net_reach E cm hon B ss x'" by (rule net_reach.net_next [OF sim(1)])
  have grow: "grows ?c (fn_core n')"
    using core_step_grows [OF ok(1) _ _ st(1)] gen own assms(2) ok(2) by simp
  have tr: "traced E B (fn_core n') n'"
    using fn_move_traced [OF assms(6) sim(5) grow] by simp
  have "simulates E cm hon B ss z x'"
    using assms(1,8) reach tr sim(4)
    by (auto simp: simulates_def x'_def core_runs_def split: outcome.splits)
  then show ?thesis by blast
qed

lemma simulates_quiet:
  assumes "simulates E cm hon B ss y x" "hon k" "fn_move E delay (fw_node y k) l n'"
    and "fn_core n' = fn_core (fw_node y k)" "fn_outcome n' = fn_outcome (fw_node y k) \<or> crashed n'"
    and "\<And>bs. l = Proposed bs \<Longrightarrow> set bs \<subseteq> B"
    and "z = \<lparr>fw_node = (fw_node y)(k := n'), fw_hist = fw_hist y\<rparr>"
  shows "simulates E cm hon B ss z x"
proof -
  have "traced E B (fn_core n') n'"
    by (rule fn_move_traced [OF assms(3)]) (use assms(1,2,4,6) in \<open>auto simp: simulates_def\<close>)
  then show ?thesis
    using assms(1,2,4,5,7) by (auto simp: simulates_def core_runs_def crashed_def)
qed

lemma simulates_stored:
  assumes "simulates E cm hon B ss y x" "hon k" "fn_move E delay (fw_node y k) (Stored [b]) n'"
    and "fn_core n' = (fn_core (fw_node y k))\<lparr>c_store := Store_Write E (fn_store (fw_node y k)) key b\<rparr>"
    and "key = digest_bytes (NewDigest E b)" "fn_outcome n' = fn_outcome (fw_node y k)"
    and "stores_no_block E (Stored [b])"
    and "z = \<lparr>fw_node = (fw_node y)(k := n'), fw_hist = fw_hist y\<rparr>"
  shows "\<exists>x'. simulates E cm hon B ss z x'"
proof -
  let ?c = "fn_core (fw_node y k)"
  have sim: "net_reach E cm hon B ss x" "n_core x k = ?c" "n_hist x = fw_hist y"
    using assms(1) by (auto simp: simulates_def)
  obtain resp where w: "store_step E (c_store (n_core x k)) (writeCommand key b)
      = (Store_Write E (c_store ?c) key b, resp)"
    using sim(2) by (metis Store_Write_def prod.collapse)
  define x' where "x' = x\<lparr>n_core := (n_core x)(k := (n_core x k)\<lparr>c_store := Store_Write E (c_store ?c) key b\<rparr>)\<rparr>"
  have "net_step E hon B x x'"
    unfolding x'_def
    by (rule net_step.other [where y = x and k = k and cmd = "writeCommand key b"])
      (rule assms(2) foreign_batch [OF assms(7)] w)+
  then have reach: "net_reach E cm hon B ss x'" by (rule net_reach.net_next [OF sim(1)])
  have "traced E B (fn_core n') n'"
    by (rule fn_move_traced [OF assms(3)]) (use assms(1,2,4) in \<open>auto simp: simulates_def grows_def\<close>)
  then have "simulates E cm hon B ss z x'"
    using assms(1,4,6,8) reach
    by (auto simp: simulates_def x'_def core_runs_def)
  then show ?thesis by blast
qed

lemma simulates_step:
  assumes "full_step E delay hon B y z" "simulates E cm hon B ss y x" "env_ok E cm" "GenesisBlock \<in> B"
  shows "\<exists>x'. simulates E cm hon B ss z x'"
  using assms(1)
proof (cases rule: full_step.cases)
  case (full_act k l n')
  have mv: "fn_move E delay (fw_node y k) l n'" using full_act(3) by (simp add: fn_step_def)
  from fn_move_core [OF mv] consider
      (handled) ev es where "l = Handled ev es" "core_runs (fw_node y k)"
    | (stored) b where "l = Stored [b]" "fn_outcome n' = fn_outcome (fw_node y k)"
        "fn_core n' = (fn_core (fw_node y k))\<lparr>c_store := Store_Write E (fn_store (fw_node y k))
           (digest_bytes (NewDigest E b)) b\<rparr>"
    | (still) "fn_core n' = fn_core (fw_node y k)" "label_signed l = []"
        "fn_outcome n' = fn_outcome (fw_node y k) \<or> crashed n'"
    by fastforce
  then show ?thesis
  proof cases
    case handled
    then show ?thesis
      using simulates_handled [OF assms(2-4) full_act(2) _ _ _, of delay ev es n' z] mv full_act(1,4) by simp
  next
    case stored
    then show ?thesis
      using simulates_stored [OF assms(2) full_act(2) mv [unfolded stored(1)] stored(3) refl stored(2)]
        full_act(1,4) by simp
  next
    case still
    have "\<And>bs. l = Proposed bs \<Longrightarrow> set bs \<subseteq> B" using full_act(4) by auto
    from simulates_quiet [OF assms(2) full_act(2) mv still(1,3) this, of z] show ?thesis
      using full_act(1) still(2) by auto
  qed
qed

lemma simulates_start:
  fixes E :: "('sk, 'p1, 'p2, 'agg, 'db, 'z) env_scheme"
    and stores :: "PublicKey \<Rightarrow> 'db store" and mempools :: "PublicKey \<Rightarrow> 'db mempool_node"
  assumes "\<And>k. hon k \<Longrightarrow> fresh_store E (stores k)"
  shows "simulates E cm hon B ss (full_start cm ss stores mempools) (net_start cm ss stores)"
proof -
  let ?node = "\<lambda>k. boot \<lparr>nd_consensus = SpawnConsensus k cm (ss k) (stores k),
      nd_mempool = mempools k, nd_store = stores k\<rparr> :: ('agg, 'db) full_node"
  have node: "fn_core (?node k) = c \<and> fn_outcome (?node k) = out \<and> traced E B c (?node k)
      \<and> (core_runs (?node k) \<longrightarrow> out = Ret None)"
    if st: "core_start k cm (ss k) (stores k) = (c :: ('agg, 'db) core, out)" for k c out
  proof -
    have "(\<exists>r. out = Ret r) \<longrightarrow> out = Ret None"
      using st by (auto simp: core_start_def Let_def split: sum.splits)
    then show ?thesis
      using core_start_quiet [OF st]
      by (auto simp: traced_def boot_def Let_def SpawnConsensus_def st spawnProposer_def pw_init_def
          set_map_filter quiet_def core_runs_def)
  qed
  let ?st = "\<lambda>k. core_start k cm (ss k) (stores k) :: ('agg, 'db) core \<times> outcome"
  have core: "fn_core (?node k) = fst (?st k)" and run: "core_runs (?node k) \<longrightarrow> snd (?st k) = Ret None"
      and tr: "traced E B (fst (?st k)) (?node k)" for k
    using node [of k "fst (?st k)" "snd (?st k)"] by simp_all
  have "net_reach E cm hon B ss (net_start cm ss stores :: ('agg, 'db) net)"
    using assms by (rule net_reach.net_init)
  then show ?thesis
    using run tr unfolding simulates_def full_start_def net_start_def by (simp add: core)
qed

lemma full_reach_simulated:
  "full_reach E delay cm mcm mps hon B ss y \<Longrightarrow> env_ok E cm \<Longrightarrow> GenesisBlock \<in> B \<Longrightarrow>
     \<exists>x. simulates E cm hon B ss y x"
proof (induction rule: full_reach.induct)
  case (full_init stores mempools)
  then show ?case using simulates_start [of hon E stores] by blast
next
  case (full_next y z)
  then show ?case using simulates_step [of E delay hon B y z] by blast
qed

end
