(* ===== verification/Clients.thy ===== *)
theory Clients
  imports NodeAvail
begin

text \<open>
  From the clients of a node to what it prints. \<open>fn_history\<close> is a run of the complete node that also
  records the transactions its batch maker has received and the batches its processors have stored.
  The invariant \<open>client_inv\<close> says that these batches are consecutive pieces of the transactions, that
  the store still has each under its digest, and that what \<open>ProcessBlocks\<close> has printed are the blocks
  that the core has committed, in the order in which it has handed them on, with the contents of
  their batches.
\<close>

subsection \<open>Runs with the transactions and the batches\<close>

inductive fn_history ::
  "('sk, 'p1, 'p2, 'agg, 'db, 'z) mp_env_scheme \<Rightarrow> u64 \<Rightarrow> ('agg, 'db) full_node
     \<Rightarrow> node_label list \<Rightarrow> Transaction list \<Rightarrow> stored_batch list \<Rightarrow> ('agg, 'db) full_node \<Rightarrow> bool"
  for E delay y0 where
  fh_begin: "fn_history E delay y0 [] [] [] y0"
| fh_mempool:
    "fn_history E delay y0 ls txs stored y \<Longrightarrow> \<not> crashed y \<Longrightarrow>
     mn_step E ((fn_mempool y)\<lparr>mn_store := fn_store y\<rparr>) txs' stored' m' \<Longrightarrow>
     fn_history E delay y0 (ls @ [Stored (map batch_of stored')]) (txs @ txs') (stored @ stored')
       (y\<lparr>fn_mempool := m', fn_core := (fn_core y)\<lparr>c_store := mn_store m'\<rparr>\<rparr>)"
| fh_other:
    "fn_history E delay y0 ls txs stored y \<Longrightarrow> fn_step E delay y l z \<Longrightarrow> (\<And>bs. l \<noteq> Stored bs) \<Longrightarrow>
     fn_history E delay y0 (ls @ [l]) txs stored z"

lemma fn_history_run: "fn_history E delay y0 ls txs stored y \<Longrightarrow> fn_run E delay y0 ls y"
proof (induction rule: fn_history.induct)
  case (fh_mempool ls txs stored y txs' stored' m')
  have "fn_step E delay y (Stored (map batch_of stored'))
      (y\<lparr>fn_mempool := m', fn_core := (fn_core y)\<lparr>c_store := mn_store m'\<rparr>\<rparr>)"
    using fn_mempool_step [OF fh_mempool.hyps(3)] fh_mempool.hyps(2) unfolding fn_step_def by blast
  with fh_mempool.IH show ?case by (rule fn_next)
qed (auto intro: fn_run.intros)

lemma fn_run_history: "fn_run E delay y0 ls y \<Longrightarrow> \<exists>txs stored. fn_history E delay y0 ls txs stored y"
proof (induction rule: fn_run.induct)
  case (fn_next ls y l z)
  then obtain txs stored where hist: "fn_history E delay y0 ls txs stored y" by blast
  show ?case
  proof (cases "\<exists>bs. l = Stored bs")
    case True
    then obtain bs where l: "l = Stored bs" by blast
    have move: "\<not> crashed y" "fn_move E delay y (Stored bs) z" using fn_next.hyps(2) l by (simp_all add: fn_step_def)
    from move(2) show ?thesis
    proof (cases rule: fn_move.cases)
      case (fn_mempool_step txs' stored' m')
      then show ?thesis using fh_mempool [OF hist move(1) fn_mempool_step(3)] l by auto
    qed
  next
    case False
    then show ?thesis using fh_other [OF hist fn_next.hyps(2)] by blast
  qed
qed (blast intro: fh_begin)

lemma fn_history_more:
  "fn_run E delay y ls' z \<Longrightarrow> fn_history E delay y0 ls txs stored y \<Longrightarrow> \<forall>l\<in>set ls'. \<forall>bs. l \<noteq> Stored bs \<Longrightarrow>
     fn_history E delay y0 (ls @ ls') txs stored z"
proof (induction rule: fn_run.induct)
  case (fn_next ls' y' l z)
  then have "fn_history E delay y0 ((ls @ ls') @ [l]) txs stored z" by (intro fh_other) auto
  then show ?case by simp
qed simp

text \<open>The blocks that the core has handled; only these it stores.\<close>

fun event_block :: "core_event \<Rightarrow> Block option" where
  "event_block (RxMessage (proposeMessage b)) = Some b"
| "event_block (RxLoopback b) = Some b"
| "event_block _ = None"

definition handled_blocks :: "node_label list \<Rightarrow> Block set" where
  "handled_blocks ls = {b. \<exists>ev es. Handled ev es \<in> set ls \<and> event_block ev = Some b}"

lemma handled_blocks_append: "handled_blocks (xs @ ys) = handled_blocks xs \<union> handled_blocks ys"
  unfolding handled_blocks_def by auto

lemma commit_store: "commit E c b = (c', out) \<Longrightarrow> c_store c' = c_store c"
  by (auto simp: commit_def Let_def split: if_splits option.splits sum.splits prod.splits)

lemma make_vote_store: "make_vote E c b = (c', r) \<Longrightarrow> c_store c' = c_store c"
  by (auto simp: make_vote_def increaseLastVotedRound_def Let_def split: if_splits sum.splits)

lemma vote_for_block_store: "vote_for_block E c b = (c', out) \<Longrightarrow> c_store c' = c_store c"
  using make_vote_store handleVote_quiet
  by (fastforce simp: vote_for_block_def quiet_step_def Let_def
      split: sum.splits option.splits if_splits prod.splits result.splits outcome.splits)

definition stores_at_most ::
  "('sk, 'p1, 'p2, 'agg, 'db, 'z) env_scheme \<Rightarrow> Block \<Rightarrow> 'db store \<Rightarrow> 'db store \<Rightarrow> bool" where
  "stores_at_most E b s s' \<longleftrightarrow> s' = s
     \<or> (\<exists>v. s' = Store_Write E s (digest_bytes (Block_Digest E b)) v)"

lemma processBlock_store:
  assumes "processBlock E c b = (c', out)"
  shows "stores_at_most E b (c_store c) (c_store c')"
proof -
  have "c_store c' \<in> {c_store c, c_store (storeBlock E c b)}"
    using assms vote_for_block_store commit_store
    by (fastforce simp: processBlock_def cleanupProposer_def Let_def storeBlock_def
        split: result.splits prod.splits if_splits outcome.splits option.splits)
  then show ?thesis by (auto simp: stores_at_most_def storeBlock_def split: result.splits)
qed

lemma handleProposal_store:
  assumes "handleProposal E c b = (c', out)"
  shows "stores_at_most E b (c_store c) (c_store c')"
proof -
  have "c_store c' = c_store c \<or> (\<exists>c3. c_store c3 = c_store c \<and> processBlock E c3 b = (c', out))"
    using assms
    by (auto simp: handleProposal_def Let_def core_frames processQC_store
        split: sum.splits if_splits option.splits prod.splits)
  then show ?thesis using processBlock_store by (metis stores_at_most_def)
qed

lemma core_step_store:
  assumes "core_step E c ev = (c', out)"
  shows "c_store c' = c_store c \<or> (\<exists>b. event_block ev = Some b \<and> stores_at_most E b (c_store c) (c_store c'))"
  using assms handleProposal_store processBlock_store handleVote_quiet handleTimeout_quiet
    handleTC_quiet localTimeoutRound_quiet
  by (cases "(E, c, ev)" rule: core_step.cases) (fastforce simp: quiet_step_def)+

subsection \<open>What is printed for a batch\<close>

definition batch_lines :: "sealedBatch \<Rightarrow> app_line list" where
  "batch_lines x = (case DeserializeBatch x of Inl err \<Rightarrow> [LBadBatch] | Inr txs \<Rightarrow> map LTx txs)"

text \<open>
  \<open>shows_block\<close> tells that some lines are those of a committed block: its header and then, for each
  digest of the payload in order, the digest and what is read under it; if the digest is that of a
  batch of \<open>X\<close>, this is the batch.
\<close>

definition shows_batch ::
  "('sk, 'p1, 'p2, 'agg, 'z) crypto_lib_scheme \<Rightarrow> sealedBatch set \<Rightarrow> Digest \<Rightarrow> app_line list \<Rightarrow> bool" where
  "shows_batch L X d lines \<longleftrightarrow>
     (\<exists>rest. lines = LBatch d # rest \<and> (\<forall>x\<in>X. d = NewDigest L x \<longrightarrow> rest = batch_lines x))"

definition shows_block ::
  "('sk, 'p1, 'p2, 'agg, 'z) crypto_lib_scheme \<Rightarrow> sealedBatch set \<Rightarrow> Block \<Rightarrow> app_line list \<Rightarrow> bool" where
  "shows_block L X b lines \<longleftrightarrow>
     (\<exists>parts. lines = LCommitted b # LContains # concat parts
        \<and> list_all2 (shows_batch L X) (blk_Payload b) parts)"

definition batches_intact ::
  "('sk, 'p1, 'p2, 'agg, 'db, 'z) env_scheme \<Rightarrow> sealedBatch set \<Rightarrow> 'db store \<Rightarrow> bool" where
  "batches_intact E X s \<longleftrightarrow>
     (\<forall>x\<in>X. \<forall>v. Store_Read E s (digest_bytes (NewDigest E x)) = Inr v \<longrightarrow> v = x)"

lemma process_payload_shows:
  assumes "batches_intact E X s" "\<forall>d\<in>set ds. readable E s d"
  shows "\<exists>parts. process_payload E s ds = concat parts \<and> list_all2 (shows_batch E X) ds parts"
  using assms(2)
proof (induction ds)
  case (Cons d ds)
  obtain parts where parts: "process_payload E s ds = concat parts" "list_all2 (shows_batch E X) ds parts"
    using Cons by auto
  obtain v where v: "Store_Read E s (digest_bytes d) = Inr v" using Cons.prems by (auto simp: readable_iff)
  then have "process_payload E s (d # ds) = concat ((LBatch d # batch_lines v) # parts)"
    by (simp add: batch_lines_def parts(1))
  moreover have "shows_batch E X d (LBatch d # batch_lines v)"
    using assms(1) v by (auto simp: shows_batch_def batches_intact_def)
  ultimately show ?case using parts(2) by (intro exI [of _ "(LBatch d # batch_lines v) # parts"]) simp
qed simp

lemma process_block_shows:
  "batches_intact E X s \<Longrightarrow> avail E s b \<Longrightarrow> shows_block E X b (process_block E s b)"
  using process_payload_shows [of E X s "blk_Payload b"]
  by (auto simp: shows_block_def process_block_def avail_def)

lemma batches_intact_write:
  assumes "batches_intact E X s" "store_ok E s"
    and "\<And>x. x \<in> X \<Longrightarrow> NewDigest E x = d \<Longrightarrow> v = x"
  shows "batches_intact E X (Store_Write E s (digest_bytes d) v)"
  using assms by (auto simp: batches_intact_def st.get_put_if digest_codec.enc_inject split: if_splits)

subsection \<open>The invariant\<close>

definition client_inv ::
  "('sk, 'p1, 'p2, 'agg, 'db, 'z) env_scheme \<Rightarrow> sealedBatch set \<Rightarrow> Transaction list \<Rightarrow> stored_batch list
     \<Rightarrow> ('agg, 'db) full_node \<Rightarrow> bool" where
  "client_inv E X txs stored y \<longleftrightarrow> mn_inv txs stored (fn_mempool y) \<and> batches_intact E X (fn_store y)
     \<and> (\<exists>blocks lines. List.map_filter commit_of (c_out (fn_core y)) = blocks @ fn_commitCh y
          \<and> fn_printed y = concat lines \<and> list_all2 (shows_block E X) blocks lines)"

lemma mn_inv_irrelevant [simp]:
  "mn_inv txs stored (n\<lparr>mn_store := s\<rparr>) = mn_inv txs stored n"
  "mn_inv txs stored (n\<lparr>mn_txConsensus := ds\<rparr>) = mn_inv txs stored n"
  "mn_inv txs stored (n\<lparr>mn_synchronizer := m\<rparr>) = mn_inv txs stored n"
  by (simp_all add: mn_inv_def on_the_way_def)

text \<open>The steps that neither store a batch, nor handle an event, nor print.\<close>

lemma client_inv_frame:
  assumes "client_inv E X txs stored y" "mn_inv txs stored (fn_mempool z) = mn_inv txs stored (fn_mempool y)"
    and "fn_core z = fn_core y" "fn_commitCh z = fn_commitCh y" "fn_printed z = fn_printed y"
  shows "client_inv E X txs stored z"
  using assms by (simp add: client_inv_def)

lemma fn_move_client_inv:
  assumes "fn_move E delay y l z" "client_inv E X txs stored y" "node_avail E y" "\<And>bs. l \<noteq> Stored bs"
    and "\<And>b x. b \<in> handled_blocks [l] \<Longrightarrow> x \<in> X \<Longrightarrow> NewDigest E x \<noteq> Block_Digest E b"
  shows "client_inv E X txs stored z"
  using assms(1)
proof (cases rule: fn_move.cases)
  case (fn_core_step ev y1 c' out es)
  note f = take_event_fields [OF fn_core_step(4)]
  have ok: "store_ok E (fn_store y)" using assms(3) by (simp add: node_avail_def stored_avail_def)
  have old: "batches_intact E X (fn_store y)" using assms(2) by (simp add: client_inv_def)
  have "batches_intact E X (c_store c')"
  proof -
    have "c_store c' = fn_store y \<or> (\<exists>b. event_block ev = Some b \<and> stores_at_most E b (fn_store y) (c_store c'))"
      by (rule core_step_store [OF fn_core_step(5)])
    moreover have "batches_intact E X (Store_Write E (fn_store y) (digest_bytes (Block_Digest E b)) v)"
      if "event_block ev = Some b" for b v
    proof (rule batches_intact_write [OF old ok])
      fix x assume "x \<in> X" "NewDigest E x = Block_Digest E b"
      moreover have "b \<in> handled_blocks [l]"
        using that fn_core_step(1) by (auto simp: handled_blocks_def)
      ultimately show "v = x" using assms(5) by blast
    qed
    ultimately show ?thesis using old by (auto simp: stores_at_most_def)
  qed
  moreover have "mn_inv txs stored (fn_mempool y)" using assms(2) by (simp add: client_inv_def)
  moreover obtain blocks lines where
      "List.map_filter commit_of (c_out (fn_core y)) = blocks @ fn_commitCh y"
      "fn_printed y = concat lines" "list_all2 (shows_block E X) blocks lines"
    using assms(2) by (auto simp: client_inv_def)
  moreover from this have "List.map_filter commit_of (c_out c')
      = blocks @ fn_commitCh y @ List.map_filter commit_of es"
    using fn_core_step(6) by (simp add: List.map_filter_def)
  ultimately show ?thesis
    unfolding client_inv_def fn_core_step(2) by (auto simp: f)
next
  case (fn_mempool_step txs' stored' m')
  then show ?thesis using assms(4) by blast
next
  case (fn_print b bs)
  obtain blocks lines where old: "List.map_filter commit_of (c_out (fn_core y)) = blocks @ b # bs"
      "fn_printed y = concat lines" "list_all2 (shows_block E X) blocks lines"
    using assms(2) fn_print(3) by (auto simp: client_inv_def)
  have "avail E (fn_store y) b"
    using assms(3) fn_print(3) by (simp add: node_avail_def places_avail_def)
  then have "shows_block E X b (process_block E (fn_store y) b)"
    using assms(2) by (intro process_block_shows) (simp_all add: client_inv_def)
  then have "list_all2 (shows_block E X) (blocks @ [b]) (lines @ [process_block E (fn_store y) b])"
    using old(3) by (simp add: list_all2_appendI)
  then show ?thesis
    using assms(2) old(1,2) unfolding client_inv_def fn_print(2)
    by (auto intro!: exI [of _ "blocks @ [b]"] exI [of _ "lines @ [process_block E (fn_store y) b]"])
qed (use assms(2) in \<open>auto elim!: client_inv_frame simp: receive_def\<close>)

lemma mempool_client_inv:
  assumes "mn_step E ((fn_mempool y)\<lparr>mn_store := fn_store y\<rparr>) txs' stored' m'"
    and "client_inv E X txs stored y" "store_ok E (fn_store y)"
    and "batch_of ` set stored' \<subseteq> X" "inj_on (NewDigest E) X"
  shows "client_inv E X (txs @ txs') (stored @ stored')
    (y\<lparr>fn_mempool := m', fn_core := (fn_core y)\<lparr>c_store := mn_store m'\<rparr>\<rparr>)"
proof -
  have old: "batches_intact E X (fn_store y)" using assms(2) by (simp add: client_inv_def)
  have "mn_inv (txs @ txs') (stored @ stored') m'"
    by (rule mn_step_inv [OF assms(1)]) (use assms(2) in \<open>simp add: client_inv_def\<close>)
  moreover have "batches_intact E X (mn_store m')"
    using mn_step_store [OF assms(1)]
  proof (elim disjE exE conjE)
    fix b
    assume b: "map batch_of stored' = [b]" "mn_store m' = Store_Write E
        (mn_store ((fn_mempool y)\<lparr>mn_store := fn_store y\<rparr>)) (digest_bytes (NewDigest E b)) b"
    then have "b \<in> X" using assms(4) by (auto simp: map_eq_Cons_conv)
    then show ?thesis
      using b(2) assms(5) by (auto intro!: batches_intact_write [OF old assms(3)] dest: inj_onD)
  qed (use old in simp)
  ultimately show ?thesis using assms(2) by (simp add: client_inv_def)
qed

lemma fn_history_client_inv:
  assumes "fn_history E delay y0 ls txs stored y" "node_avail E y0" "client_inv E X [] [] y0" "proto_ok E"
    and "\<forall>l\<in>set ls. stores_no_block E l" "batch_of ` set stored \<subseteq> X" "inj_on (NewDigest E) X"
    and "\<And>b x. b \<in> handled_blocks ls \<Longrightarrow> x \<in> X \<Longrightarrow> NewDigest E x \<noteq> Block_Digest E b"
  shows "client_inv E X txs stored y"
  using assms(1,5,6,8)
proof (induction rule: fn_history.induct)
  case (fh_mempool ls txs stored y txs' stored' m')
  have "client_inv E X txs stored y"
    using fh_mempool.prems by (intro fh_mempool.IH) (simp_all add: handled_blocks_append image_Un)
  moreover have "node_avail E y"
    using fn_run_avail [OF fn_history_run [OF fh_mempool.hyps(1)] assms(2,4)] fh_mempool.prems(1) by simp
  then have "store_ok E (fn_store y)" by (simp add: node_avail_def stored_avail_def)
  ultimately show ?case
    using mempool_client_inv [OF fh_mempool.hyps(3) _ _ _ assms(7)] fh_mempool.prems(2) by (simp add: image_Un)
next
  case (fh_other ls txs stored y l z)
  have "client_inv E X txs stored y"
    using fh_other.prems by (intro fh_other.IH) (simp_all add: handled_blocks_append)
  moreover have "node_avail E y"
    using fn_run_avail [OF fn_history_run [OF fh_other.hyps(1)] assms(2,4)] fh_other.prems(1) by simp
  moreover have "NewDigest E x \<noteq> Block_Digest E b" if "b \<in> handled_blocks [l]" "x \<in> X" for b x
    using fh_other.prems(3) that by (simp add: handled_blocks_append)
  ultimately show ?case
    using fn_move_client_inv [of E delay y l z] fh_other.hyps(2,3) unfolding fn_step_def by blast
qed (rule assms(3))

lemma boot_client_inv:
  assumes "NewNode (Inr committee) (Inr secret) parameters (Inr db) None = Ok n"
    and "\<forall>k v. Store_Read E (NewStore db) k \<noteq> Inr v"
  shows "client_inv E X [] [] (boot n)"
proof -
  have mem: "\<exists>ps. SpawnMempool (se_Name secret) (nc_Mempool committee) ps (NewStore db) = Ok (nd_mempool n)"
    using assms(1) by (auto simp: NewNode_def Let_def go_simps split: option.splits sum.splits)
  have st: "c_store (cn_core (nd_consensus n)) = NewStore db"
    using core_start_quiet(1) [OF NewNode_parts(1) [OF assms(1)]] .
  have "mn_inv [] [] (nd_mempool n)" using mem mn_spawn_inv by blast
  moreover have "batches_intact E X (NewStore db)" using assms(2) by (simp add: batches_intact_def)
  ultimately show ?thesis
    by (simp add: client_inv_def boot_def Let_def st)
qed

text \<open>The pieces of the transactions that the own batches of the node are.\<close>

lemma own_pieces:
  assumes "mn_inv txs stored n" "slices_fit txs"
  shows "\<exists>pieces rest. own_batches stored = map SerializeBatch pieces \<and> txs = concat pieces @ rest
    \<and> [] \<notin> set pieces \<and> (\<forall>piece\<in>set pieces. batch_lines (SerializeBatch piece) = map LTx piece)"
proof -
  obtain bs where bs: "own_batches stored @ on_the_way n = map SerializeBatch bs" "[] \<notin> set bs"
      "txs = concat bs @ bm_currentBatch (mn_batchMaker n)"
    using assms(1) by (auto simp: mn_inv_def)
  define cs where "cs = take (length (own_batches stored)) bs"
  have "own_batches stored = map SerializeBatch cs"
    using bs(1) by (metis append_eq_conv_conj cs_def take_map)
  moreover have "\<exists>rest. txs = concat cs @ rest"
    using bs(3) by (metis append.assoc append_take_drop_id concat_append cs_def)
  moreover have "[] \<notin> set cs" using bs(2) by (auto simp: cs_def dest: in_set_takeD)
  moreover have "batch_lines (SerializeBatch piece) = map LTx piece" if "piece \<in> set cs" for piece
  proof -
    have "slices_fit piece" using that assms(2) bs(3) by (auto simp: cs_def dest: in_set_takeD)
    then show ?thesis by (simp add: batch_lines_def DeserializeBatch_SerializeBatch)
  qed
  ultimately show ?thesis by blast
qed

end
