(* ===== verification/FullDemo.thy ===== *)
theory FullDemo
  imports FullNet Clients DemoRun MempoolDemo
begin

text \<open>
  A complete node to evaluate the theorems on: the committee of one authority, started from an empty
  database. A transaction is sealed, stored and reported; the proposer puts the batch into the block of
  round 1; two more blocks follow, the third commits the first, and it is printed.
\<close>

subsection \<open>One round of the node\<close>

definition solo_made :: "QC \<Rightarrow> Round \<Rightarrow> Digest list \<Rightarrow> Block" where
  "solo_made qc r ds = NewBlock demo_env qc None (demo_name 1) r ds solo_ss"

lemma solo_made_fields [simp]:
  "blk_Qc (solo_made qc r ds) = qc" "blk_Tc (solo_made qc r ds) = None"
  "blk_Author (solo_made qc r ds) = demo_name 1" "blk_Round (solo_made qc r ds) = r"
  "blk_Payload (solo_made qc r ds) = ds"
  by (simp_all add: solo_made_def)

lemma solo_block_made: "solo_block qc r = solo_made qc r []"
  by (simp add: solo_block_def solo_made_def)

definition solo_ready ::
  "Round \<Rightarrow> QC \<Rightarrow> Digest list \<Rightarrow> (Signature option, demo_db) full_node \<Rightarrow> bool" where
  "solo_ready r qc ds y \<longleftrightarrow> solo_core r (fn_core y) \<and> fn_outcome y = Ret None
     \<and> fn_loopbackCh y = [] \<and> fn_proposerCh y = [proposerMakeMessage r qc None]
     \<and> pr_name (fn_proposer y) = demo_name 1 \<and> pr_committee (fn_proposer y) = solo_committee
     \<and> pr_signatureService (fn_proposer y) = solo_ss
     \<and> map fst (DAList.impl_of (pr_buffer (fn_proposer y))) = ds \<and> pr_waiting (fn_proposer y) = None"

lemma run_snoc:
  assumes "fn_run E delay y0 ls y" "fn_move E delay y l z" "fn_outcome y = Ret r"
  shows "fn_run E delay y0 (ls @ [l]) z"
  using assms by (intro fn_next [OF assms(1)]) (simp add: fn_step_def crashed_def)

lemma solo_make:
  assumes "pr_waiting p = None" "pr_name p = demo_name 1" "pr_committee p = solo_committee"
    "pr_signatureService p = solo_ss"
  shows "\<exists>message. pr_step demo_env p (PrMessage (proposerMakeMessage r qc None))
    = Some (Ok (p\<lparr>pr_buffer := DAList.empty, pr_waiting := Some (start_acks [])\<rparr>,
        [PrBroadcast [] message, PrLoopback (solo_made qc r (map fst (DAList.impl_of (pr_buffer p))))]))"
proof -
  let ?b = "solo_made qc r (map fst (DAList.impl_of (pr_buffer p)))"
  obtain message where "SerializeConsensusMessage demo_env (proposeMessage ?b) = Ok message"
    using demo_Serialize_message by blast
  then show ?thesis
    using assms by (simp add: pr_step_def makeBlock_def Let_def solo_addresses solo_made_def)
qed

lemma solo_own_ack:
  assumes "pr_waiting p = Some (start_acks [])" "pr_name p = demo_name 1" "pr_committee p = solo_committee"
  shows "pr_step demo_env p (PrAck AckOwn) = Some (Ok (p\<lparr>pr_waiting := None\<rparr>, [PrCancel]))"
  using assms
  by (simp add: pr_step_def start_acks_def ack_step_def pr_count_def solo_stake solo_threshold)

lemma map_filter_none: "(\<And>e. e \<in> set es \<Longrightarrow> f e = None) \<Longrightarrow> List.map_filter f es = []"
  by (induction es) (auto simp: List.map_filter_def)

lemma map_filter_append: "List.map_filter f (xs @ ys) = List.map_filter f xs @ List.map_filter f ys"
  by (simp add: List.map_filter_def)

lemma solo_round:
  assumes "solo_ready r qc ds y" "unat r < 2 ^ 62" "b = solo_made qc r ds" "safetyRule2 b = Inr True"
    and anc: "getAncestors demo_env (fn_store y) b = (Ok (b0, b1), [])"
    and next_round: "blk_Round b0 + 1 = blk_Round b1 \<Longrightarrow>
      \<not> c_lastCommittedRound (fn_core y) + 1 < blk_Round b0"
  shows "\<exists>y' es. (\<forall>y0 ls. fn_run demo_env delay y0 ls y \<longrightarrow> fn_run demo_env delay y0
        (ls @ [Proposed [b], Silent, Handled (RxLoopback b) es, Proposed []]) y')
    \<and> solo_ready (r + 1) (solo_qc b) [] y' \<and> fn_printed y' = fn_printed y
    \<and> signed_of es = [SVote b (solo_vote b)]
    \<and> fn_store y' = Store_Write demo_env (fn_store y) (digest_bytes (Block_Digest demo_env b))
        (put_block (Block_toProto b))
    \<and> fn_commitCh y' = fn_commitCh y
        @ (if blk_Round b0 + 1 = blk_Round b1 \<and> c_lastCommittedRound (fn_core y) < blk_Round b0 then [b0] else [])
    \<and> c_lastCommittedRound (fn_core y') =
        (if blk_Round b0 + 1 = blk_Round b1 \<and> c_lastCommittedRound (fn_core y) < blk_Round b0
         then blk_Round b0 else c_lastCommittedRound (fn_core y))"
proof -
  let ?p = "fn_proposer y" and ?c = "fn_core y" and ?E = "demo_env"
  let ?go = "blk_Round b0 + 1 = blk_Round b1 \<and> c_lastCommittedRound (fn_core y) < blk_Round b0"
  note ready = assms(1) [unfolded solo_ready_def]
  define p1 where "p1 = ?p\<lparr>pr_buffer := DAList.empty, pr_waiting := Some (start_acks [])\<rparr>"
  define p2 where "p2 = p1\<lparr>pr_waiting := None\<rparr>"
  obtain message where make: "pr_step ?E ?p (PrMessage (proposerMakeMessage r qc None))
      = Some (Ok (p1, [PrBroadcast [] message, PrLoopback b]))"
    using solo_make [of ?p r qc] ready assms(3) by (auto simp: p1_def)
  define y1 where "y1 = y\<lparr>fn_proposer := p1, fn_proposerCh := [], fn_loopbackCh := [b]\<rparr>"
  have m1: "fn_move ?E delay y (Proposed [b]) y1"
    using fn_proposer_msg [where E = ?E and y = y, OF _ make] ready by (simp add: y1_def map_filter_simps)
  define y2 where "y2 = y1\<lparr>fn_proposer := p2\<rparr>"
  have "pr_step ?E (fn_proposer y1) (PrAck AckOwn) = Some (Ok (p2, [PrCancel]))"
    unfolding p2_def using ready by (subst solo_own_ack) (simp_all add: y1_def p1_def)
  from fn_proposer_ack [where E = ?E and y = y1, OF this]
  have m2: "fn_move ?E delay y1 Silent y2" by (simp add: y2_def)
  have core: "solo_core r ?c" "blk_Round b = r" using ready assms(3) by simp_all
  obtain c' es where c': "core_step ?E ?c (RxLoopback b) = (c', Ret None)" "solo_core (r + 1) c'"
      "c_out c' = c_out ?c @ es"
      "c_store c' = Store_Write ?E (fn_store y) (digest_bytes (Block_Digest ?E b)) (put_block (Block_toProto b))"
      "signed_of es = [SVote b (solo_vote b)]"
      "\<exists>cl. es = EProposer (proposerCleanupMessage (blk_Payload b0 @ blk_Payload b1 @ blk_Payload b)) # cl
          @ (if ?go then [ECommit b0] else [])
          @ [ESign (SVote b (solo_vote b)), ETimerReset,
              EProposer (proposerMakeMessage (r + 1) (solo_qc b) None)]
          \<and> (\<forall>e\<in>set cl. (\<exists>m. e = EMempool m) \<or> (\<exists>m. e = EPayloadWaiter m))"
      "?go \<longrightarrow> ECommit b0 \<in> set es \<and> c_lastCommittedRound c' = blk_Round b0"
      "\<not> ?go \<longrightarrow> c_lastCommittedRound c' = c_lastCommittedRound ?c"
    using solo_process [OF core(1) assms(2) core(2) assms(4) anc next_round] by blast
  have last: "c_lastCommittedRound c' = (if ?go then blk_Round b0 else c_lastCommittedRound ?c)"
    using c'(7,8) by simp
  obtain cl where cl: "es = EProposer (proposerCleanupMessage (blk_Payload b0 @ blk_Payload b1 @ blk_Payload b)) # cl
          @ (if ?go then [ECommit b0] else [])
          @ [ESign (SVote b (solo_vote b)), ETimerReset,
              EProposer (proposerMakeMessage (r + 1) (solo_qc b) None)]"
      "\<forall>e\<in>set cl. (\<exists>m. e = EMempool m) \<or> (\<exists>m. e = EPayloadWaiter m)"
    using c'(6) by blast
  have none: "List.map_filter proposer_of cl = []" "List.map_filter commit_of cl = []"
    using cl(2) by (auto intro!: map_filter_none)
  define y3 where "y3 = route es ((y2\<lparr>fn_loopbackCh := []\<rparr>)\<lparr>fn_core := c', fn_outcome := Ret None\<rparr>)"
  have m3: "fn_move ?E delay y2 (Handled (RxLoopback b) es) y3"
    unfolding y3_def
    by (rule fn_core_step) (use ready c'(1,3) in \<open>simp_all add: y2_def y1_def core_runs_def\<close>)
  have ch: "fn_proposerCh y3 = [proposerCleanupMessage (blk_Payload b0 @ blk_Payload b1 @ blk_Payload b),
      proposerMakeMessage (r + 1) (solo_qc b) None]"
    "fn_commitCh y3 = fn_commitCh y @ (if ?go then [b0] else [])"
    using none by (simp_all add: y3_def y2_def y1_def cl(1) map_filter_simps map_filter_append)
  define p3 where "p3 = p2\<lparr>pr_buffer := foldl (\<lambda>m x. DAList.delete x m) (pr_buffer p2)
      (blk_Payload b0 @ blk_Payload b1 @ blk_Payload b)\<rparr>"
  have "pr_step ?E (fn_proposer y3) (PrMessage (proposerCleanupMessage
      (blk_Payload b0 @ blk_Payload b1 @ blk_Payload b))) = Some (Ok (p3, []))"
    by (simp add: pr_step_def y3_def y2_def p3_def p2_def)
  from fn_proposer_msg [where E = ?E and y = y3, OF ch(1) this]
  have m4: "fn_move ?E delay y3 (Proposed []) (y3\<lparr>fn_proposer := p3,
      fn_proposerCh := [proposerMakeMessage (r + 1) (solo_qc b) None], fn_loopbackCh := []\<rparr>)" (is "fn_move _ _ _ _ ?y4")
    by (simp add: map_filter_simps y3_def y2_def y1_def)
  have "al_keys (pr_buffer p3) = {}"
    using al_keys_deletes [of DAList.empty] by (simp add: p3_def p2_def p1_def del: foldl_append)
  then have empty: "map fst (DAList.impl_of (pr_buffer p3)) = []" by (simp add: al_keys_def)
  have "solo_ready (r + 1) (solo_qc b) [] ?y4"
    using ready c'(2) empty by (simp add: solo_ready_def y3_def y2_def y1_def p3_def p2_def p1_def)
  moreover have "fn_run ?E delay y0 (ls @ [Proposed [b], Silent, Handled (RxLoopback b) es, Proposed []]) ?y4"
    if "fn_run ?E delay y0 ls y" for y0 ls
  proof -
    have out: "fn_outcome y = Ret None" "fn_outcome y1 = Ret None" "fn_outcome y2 = Ret None"
        "fn_outcome y3 = Ret None"
      using ready by (simp_all add: y3_def y2_def y1_def)
    from run_snoc [OF run_snoc [OF run_snoc [OF run_snoc [OF that m1 out(1)] m2 out(2)] m3 out(3)] m4 out(4)]
    show ?thesis by simp
  qed
  ultimately show ?thesis
    using c'(4,5) last ch(2)
    by (intro exI [of _ ?y4] exI [of _ es]) (simp add: y3_def y2_def y1_def)
qed

subsection \<open>Three rounds\<close>

lemma solo_genesis_parent: "blk_Qc b = GenesisQC \<Longrightarrow> getParentBlock demo_env st b = (Ok GenesisBlock, [])"
  by (simp add: getParentBlock_cases IsGenesisQC_iff)

lemma genesis_fields [simp]: "blk_Qc GenesisBlock = GenesisQC" "blk_Round GenesisBlock = 0"
  by (simp_all add: GenesisBlock_def)

lemma solo_store_read:
  assumes "store_ok demo_env s"
  shows "Store_Read demo_env (Store_Write demo_env s (digest_bytes d) v) (digest_bytes d') =
    (if d' = d then Inr v else Store_Read demo_env s (digest_bytes d'))"
  using assms by (simp add: st.get_put_if digest_codec.enc_inject)

lemma solo_three_rounds:
  assumes "solo_ready 1 GenesisQC ds y" "c_lastCommittedRound (fn_core y) = 0" "fn_commitCh y = []"
    and "b1 = solo_made GenesisQC 1 ds" "b2 = solo_made (solo_qc b1) 2 []"
    and "b3 = solo_made (solo_qc b2) 3 []"
    and "Block_Digest demo_env b1 \<noteq> Block_Digest demo_env b2"
  shows "\<exists>y' e1 e2 e3. (\<forall>y0 ls. fn_run demo_env delay y0 ls y \<longrightarrow> fn_run demo_env delay y0
      (ls @ [Proposed [b1], Silent, Handled (RxLoopback b1) e1, Proposed [],
             Proposed [b2], Silent, Handled (RxLoopback b2) e2, Proposed [],
             Proposed [b3], Silent, Handled (RxLoopback b3) e3, Proposed []]) y')
    \<and> signed_of e1 = [SVote b1 (solo_vote b1)] \<and> signed_of e2 = [SVote b2 (solo_vote b2)]
    \<and> signed_of e3 = [SVote b3 (solo_vote b3)]
    \<and> fn_commitCh y' = [b1] \<and> fn_printed y' = fn_printed y \<and> fn_outcome y' = Ret None"
proof -
  let ?E = demo_env and ?key = "\<lambda>b. digest_bytes (Block_Digest demo_env b)"
  have b: "blk_Round b1 = 1" "blk_Round b2 = 2" "blk_Round b3 = 3" "blk_Qc b1 = GenesisQC"
      "blk_Qc b2 = solo_qc b1" "blk_Qc b3 = solo_qc b2"
      "blk_Tc b1 = None" "blk_Tc b2 = None" "blk_Tc b3 = None"
    by (simp_all add: assms(4-6))
  have rules: "safetyRule2 b1 = Inr True" "safetyRule2 b2 = Inr True" "safetyRule2 b3 = Inr True"
    by (simp_all add: safetyRule2_True_iff b) (simp add: GenesisQC_def)
  have anc1: "getAncestors ?E (fn_store y) b1 = (Ok (GenesisBlock, GenesisBlock), [])"
    by (simp add: getAncestors_Ok_iff solo_genesis_parent b)
  have ok0: "store_ok ?E (fn_store y)" using assms(1) by (simp add: solo_ready_def solo_core_def)
  obtain y1 e1 where y1: "\<forall>y0 ls. fn_run ?E delay y0 ls y \<longrightarrow> fn_run ?E delay y0
        (ls @ [Proposed [b1], Silent, Handled (RxLoopback b1) e1, Proposed []]) y1"
      "solo_ready (1 + 1) (solo_qc b1) [] y1" "fn_printed y1 = fn_printed y"
      "signed_of e1 = [SVote b1 (solo_vote b1)]"
      "fn_store y1 = Store_Write ?E (fn_store y) (?key b1) (put_block (Block_toProto b1))"
      "fn_commitCh y1 = []" "c_lastCommittedRound (fn_core y1) = 0"
    using solo_round [OF assms(1) _ assms(4) rules(1) anc1, of delay] assms(2,3) by auto
  have ok1: "store_ok ?E (fn_store y1)" using y1(2) by (simp add: solo_ready_def solo_core_def)
  have par2: "getParentBlock ?E (fn_store y1) b2 = (Ok b1, [])"
    by (rule solo_read [OF ok1]) (simp_all add: Parent_def b solo_qc_nongenesis y1(5) solo_store_read ok0)
  have anc2: "getAncestors ?E (fn_store y1) b2 = (Ok (GenesisBlock, b1), [])"
    using par2 by (simp add: getAncestors_Ok_iff solo_genesis_parent b)
  obtain y2 e2 where y2: "\<forall>y0 ls. fn_run ?E delay y0 ls y1 \<longrightarrow> fn_run ?E delay y0
        (ls @ [Proposed [b2], Silent, Handled (RxLoopback b2) e2, Proposed []]) y2"
      "solo_ready (2 + 1) (solo_qc b2) [] y2" "fn_printed y2 = fn_printed y"
      "signed_of e2 = [SVote b2 (solo_vote b2)]"
      "fn_store y2 = Store_Write ?E (fn_store y1) (?key b2) (put_block (Block_toProto b2))"
      "fn_commitCh y2 = []" "c_lastCommittedRound (fn_core y2) = 0"
    using solo_round [OF y1(2) _ _ rules(2) anc2, of delay] y1(3,6,7) assms(5) b by auto
  have ok2: "store_ok ?E (fn_store y2)" using y2(2) by (simp add: solo_ready_def solo_core_def)
  have read: "Store_Read ?E (fn_store y2) (?key b1) = Inr (put_block (Block_toProto b1))"
      "Store_Read ?E (fn_store y2) (?key b2) = Inr (put_block (Block_toProto b2))"
    using assms(7) by (simp_all add: y2(5) y1(5) solo_store_read ok0 ok1 [unfolded y1(5)] st.put_usable)
  have par3: "getParentBlock ?E (fn_store y2) b3 = (Ok b2, [])" "getParentBlock ?E (fn_store y2) b2 = (Ok b1, [])"
    by (rule solo_read [OF ok2]; simp add: Parent_def b solo_qc_nongenesis read)+
  have anc3: "getAncestors ?E (fn_store y2) b3 = (Ok (b1, b2), [])"
    using par3 by (simp add: getAncestors_Ok_iff)
  obtain y3 e3 where y3: "\<forall>y0 ls. fn_run ?E delay y0 ls y2 \<longrightarrow> fn_run ?E delay y0
        (ls @ [Proposed [b3], Silent, Handled (RxLoopback b3) e3, Proposed []]) y3"
      "solo_ready (3 + 1) (solo_qc b3) [] y3" "fn_printed y3 = fn_printed y"
      "signed_of e3 = [SVote b3 (solo_vote b3)]" "fn_commitCh y3 = [b1]"
    using solo_round [OF y2(2) _ _ rules(3) anc3, of delay] y2(3,6,7) assms(6) b by auto
  have run: "fn_run ?E delay y0
      (ls @ [Proposed [b1], Silent, Handled (RxLoopback b1) e1, Proposed [],
             Proposed [b2], Silent, Handled (RxLoopback b2) e2, Proposed [],
             Proposed [b3], Silent, Handled (RxLoopback b3) e3, Proposed []]) y3"
    if "fn_run ?E delay y0 ls y" for y0 ls
  proof -
    have "fn_run ?E delay y0 (((ls @ [Proposed [b1], Silent, Handled (RxLoopback b1) e1, Proposed []])
        @ [Proposed [b2], Silent, Handled (RxLoopback b2) e2, Proposed []])
        @ [Proposed [b3], Silent, Handled (RxLoopback b3) e3, Proposed []]) y3"
      using that y1(1) y2(1) y3(1) by blast
    then show ?thesis by simp
  qed
  show ?thesis
    by (rule exI [of _ y3], rule exI [of _ e1], rule exI [of _ e2], rule exI [of _ e3])
      (use run y1(4) y2(4) y3 in \<open>simp add: solo_ready_def\<close>)
qed

subsection \<open>From the start\<close>

definition solo_boot :: "(Signature option, demo_db) full_node" where
  "solo_boot = boot \<lparr>nd_consensus = SpawnConsensus (demo_name 1) solo_committee solo_ss (NewStore Map.empty),
     nd_mempool = solo_node, nd_store = NewStore Map.empty\<rparr>"

lemma solo_boot_facts:
  "solo_ready 1 GenesisQC [] solo_boot" "c_lastCommittedRound (fn_core solo_boot) = 0"
  "fn_commitCh solo_boot = []" "fn_printed solo_boot = []" "fn_outcome solo_boot = Ret None"
  "fn_core solo_boot = solo_start" "fn_mempool solo_boot = solo_node" "fn_store solo_boot = NewStore Map.empty"
proof -
  note st = solo_started
  show core: "fn_core solo_boot = solo_start" "fn_mempool solo_boot = solo_node"
    by (simp_all add: solo_boot_def boot_def Let_def SpawnConsensus_def st(1))
  show "fn_store solo_boot = NewStore Map.empty" by (simp add: core st(5))
  show "c_lastCommittedRound (fn_core solo_boot) = 0" by (simp add: core st(4))
  show "fn_commitCh solo_boot = []" "fn_printed solo_boot = []" "fn_outcome solo_boot = Ret None"
    by (simp_all add: solo_boot_def boot_def Let_def SpawnConsensus_def st(1,3) map_filter_simps)
  then show "solo_ready 1 GenesisQC [] solo_boot"
    using st(2) core(1)
    by (simp add: solo_ready_def solo_boot_def boot_def Let_def SpawnConsensus_def st(1,3)
        map_filter_simps spawnProposer_def DAList.empty.rep_eq)
qed

text \<open>The steps of the mempool alone.\<close>

lemma mempool_history:
  assumes "mn_reach E n0 txs stored n" "fn_history E delay y0 ls [] [] y" "fn_outcome y = Ret r"
    and "fn_mempool y = n0" "fn_store y = mn_store n0"
  shows "\<exists>ls'. (\<forall>l\<in>set ls'. \<exists>bs. l = Stored bs \<and> set bs \<subseteq> batch_of ` set stored)
    \<and> fn_history E delay y0 (ls @ ls') txs stored
        (y\<lparr>fn_mempool := n, fn_core := (fn_core y)\<lparr>c_store := mn_store n\<rparr>\<rparr>)"
  using assms
proof (induction rule: mn_reach.induct)
  case mn_start
  have "(fn_core y)\<lparr>c_store := mn_store n0\<rparr> = fn_core y"
    unfolding mn_start.prems(4) [symmetric] by simp
  then have "y\<lparr>fn_mempool := n0, fn_core := (fn_core y)\<lparr>c_store := mn_store n0\<rparr>\<rparr> = y"
    unfolding mn_start.prems(3) [symmetric] by simp
  then show ?case using mn_start.prems(1) by (intro exI [of _ "[]"]) simp
next
  case (mn_more txs stored n txs' stored' n')
  let ?y = "y\<lparr>fn_mempool := n, fn_core := (fn_core y)\<lparr>c_store := mn_store n\<rparr>\<rparr>"
  obtain ls' where ls': "\<forall>l\<in>set ls'. \<exists>bs. l = Stored bs \<and> set bs \<subseteq> batch_of ` set stored"
      "fn_history E delay y0 (ls @ ls') txs stored ?y"
    using mn_more.IH [OF mn_more.prems] by blast
  have "mn_step E ((fn_mempool ?y)\<lparr>mn_store := fn_store ?y\<rparr>) txs' stored' n'"
    using mn_more.hyps(2) by simp
  from fh_mempool [OF ls'(2) _ this] mn_more.prems(2)
  have "fn_history E delay y0 (ls @ ls' @ [Stored (map batch_of stored')]) (txs @ txs') (stored @ stored')
      (y\<lparr>fn_mempool := n', fn_core := (fn_core y)\<lparr>c_store := mn_store n'\<rparr>\<rparr>)"
    by (simp add: crashed_def)
  then show ?case
    using ls'(1)
    by (intro exI [of _ "ls' @ [Stored (map batch_of stored')]"]) (fastforce simp: image_Un)
qed

lemma run_prints:
  assumes "fn_run E delay y0 ls y" "fn_outcome y = Ret r" "fn_commitCh y = [b]"
  shows "fn_run E delay y0 (ls @ [Silent])
    (y\<lparr>fn_commitCh := [], fn_printed := fn_printed y @ process_block E (fn_store y) b\<rparr>)"
  by (rule run_snoc [OF assms(1) fn_print assms(2)]) (rule assms(3))

subsection \<open>A run without batches\<close>

lemma solo_made_blks: "blk1 = solo_made GenesisQC 1 []" "blk2 = solo_made (solo_qc blk1) 2 []"
  "blk3 = solo_made (solo_qc blk2) 3 []"
  by (simp_all add: blk1_def blk2_def blk3_def solo_block_made)

definition solo_label :: "Block set \<Rightarrow> node_label \<Rightarrow> bool" where
  "solo_label B l \<longleftrightarrow> (\<forall>m es. l \<noteq> Handled (RxMessage m) es) \<and> stores_no_block demo_env l
     \<and> (\<forall>bs. l = Proposed bs \<longrightarrow> set bs \<subseteq> B)"

lemma solo_empty_run:
  "\<exists>y ls. fn_run demo_env 5000 solo_boot ls y \<and> (\<forall>l\<in>set ls. solo_label {GenesisBlock, blk1, blk2, blk3} l)
     \<and> concat (map label_signed ls) = [SVote blk1 (solo_vote blk1), SVote blk2 (solo_vote blk2),
          SVote blk3 (solo_vote blk3)]
     \<and> LCommitted blk1 \<in> set (fn_printed y)"
proof -
  note s = solo_boot_facts
  obtain y e1 e2 e3 where y: "\<forall>y0 ls. fn_run demo_env 5000 y0 ls solo_boot \<longrightarrow> fn_run demo_env 5000 y0
      (ls @ [Proposed [blk1], Silent, Handled (RxLoopback blk1) e1, Proposed [],
             Proposed [blk2], Silent, Handled (RxLoopback blk2) e2, Proposed [],
             Proposed [blk3], Silent, Handled (RxLoopback blk3) e3, Proposed []]) y"
      "signed_of e1 = [SVote blk1 (solo_vote blk1)]" "signed_of e2 = [SVote blk2 (solo_vote blk2)]"
      "signed_of e3 = [SVote blk3 (solo_vote blk3)]" "fn_commitCh y = [blk1]"
      "fn_outcome y = Ret None"
    using solo_three_rounds [OF s(1-3) solo_made_blks blk_digests(1), of 5000] by blast
  let ?ls = "[Proposed [blk1], Silent, Handled (RxLoopback blk1) e1, Proposed [],
             Proposed [blk2], Silent, Handled (RxLoopback blk2) e2, Proposed [],
             Proposed [blk3], Silent, Handled (RxLoopback blk3) e3, Proposed [], Silent]"
  have "fn_run demo_env 5000 solo_boot [] solo_boot" by (rule fn_begin)
  with y(1) have "fn_run demo_env 5000 solo_boot ([] @ [Proposed [blk1], Silent,
      Handled (RxLoopback blk1) e1, Proposed [], Proposed [blk2], Silent, Handled (RxLoopback blk2) e2,
      Proposed [], Proposed [blk3], Silent, Handled (RxLoopback blk3) e3, Proposed []]) y" by blast
  from run_prints [OF this y(6,5)]
  have run: "fn_run demo_env 5000 solo_boot ?ls
      (y\<lparr>fn_commitCh := [], fn_printed := fn_printed y @ process_block demo_env (fn_store y) blk1\<rparr>)"
    (is "fn_run _ _ _ _ ?z") by simp
  have "\<forall>l\<in>set ?ls. solo_label {GenesisBlock, blk1, blk2, blk3} l" by (simp add: solo_label_def)
  moreover have "LCommitted blk1 \<in> set (fn_printed ?z)" by (simp add: printed_commits)
  ultimately show ?thesis
    using run y(2-4) by (intro exI [of _ ?z] exI [of _ ?ls]) simp
qed

text \<open>A run of the node is a run of the network with this node.\<close>

lemma solo_full_reach:
  assumes "fn_run demo_env delay solo_boot ls y" "\<forall>l\<in>set ls. solo_label B l"
  shows "\<exists>w. full_reach demo_env delay solo_committee solo_mempool solo_parameters solo_honest B (\<lambda>_. solo_ss) w
    \<and> fw_node w (demo_name 1) = y
    \<and> fw_hist w = map (Pair (demo_name 1)) (concat (map label_signed ls))"
  using assms
proof (induction rule: fn_run.induct)
  case fn_begin
  let ?w = "full_start solo_committee (\<lambda>_. solo_ss) (\<lambda>_. NewStore Map.empty) (\<lambda>_. solo_node)"
  have "fresh_store demo_env (NewStore Map.empty)"
    by (simp add: fresh_store_def demo_Read_empty)
  then have "full_reach demo_env delay solo_committee solo_mempool solo_parameters solo_honest B (\<lambda>_. solo_ss) ?w"
    by (rule full_init) (simp add: solo_honest_def solo_node_spawned)
  then show ?case by (intro exI [of _ ?w]) (simp add: full_start_def solo_boot_def)
next
  case (fn_next ls y l z)
  obtain w where w: "full_reach demo_env delay solo_committee solo_mempool solo_parameters solo_honest B (\<lambda>_. solo_ss) w"
      "fw_node w (demo_name 1) = y" "fw_hist w = map (Pair (demo_name 1)) (concat (map label_signed ls))"
    using fn_next by auto
  let ?z = "\<lparr>fw_node = (fw_node w)(demo_name 1 := z),
      fw_hist = fw_hist w @ map (Pair (demo_name 1)) (label_signed l)\<rparr>"
  have "label_genuine demo_env solo_honest B S c l" for S c
    using fn_next.prems
    by (cases "(demo_env, solo_honest, B, S, c, l)" rule: label_genuine.cases) (auto simp: solo_label_def)
  then have "full_step demo_env delay solo_honest B w ?z"
    using fn_next.hyps(2) w(2) by (intro full_act) (auto simp: solo_honest_def)
  from full_next [OF w(1) this] show ?case
    using w by (intro exI [of _ ?z]) simp
qed

subsection \<open>A run with a batch\<close>

definition solo_batch :: sealedBatch where
  "solo_batch = SerializeBatch [solo_tx]"

definition solo_digest :: Digest where
  "solo_digest = NewDigest demo_env solo_batch"

definition pay1 :: Block where "pay1 = solo_made GenesisQC 1 [solo_digest]"
definition pay2 :: Block where "pay2 = solo_made (solo_qc pay1) 2 []"
definition pay3 :: Block where "pay3 = solo_made (solo_qc pay2) 3 []"

lemma be64_small: "be64 2 = [0, 0, 0, 0, 0, 0, 0, 2]" "be64 3 = [0, 0, 0, 0, 0, 0, 0, 3]"
  by code_simp+

lemma solo_batch_bytes: "solo_batch = [0, 0, 0, 0, 0, 0, 0, 3, 7, 8, 9]"
  by (simp add: solo_batch_def solo_tx_def be64_small)

lemma solo_batch_no_block: "Block_Deserialize demo_env solo_batch \<noteq> Ok p"
  by (simp add: Block_Deserialize_def demo_env_def get_block_def solo_batch_bytes)

lemma pay_digests: "Block_Digest demo_env pay1 \<noteq> Block_Digest demo_env pay2"
proof -
  have "take 8 (digest_bytes (Block_Digest demo_env pay1)) = replicate 8 0"
    by (simp add: Block_Digest_def Block_buf_def pay1_def solo_digest_def demo_NewDigest digest_bytes_copy
        go_copy_def solo_batch_bytes)
  moreover have "take 8 (digest_bytes (Block_Digest demo_env pay2)) = rev (be64 2)"
    by (simp add: Block_Digest_def Block_buf_def pay2_def demo_NewDigest digest_bytes_copy go_copy_def)
  moreover have "rev (be64 2) \<noteq> replicate 8 0" by (simp add: be64_small eval_nat_numeral)
  ultimately show ?thesis by metis
qed

lemma solo_ready_buffer:
  assumes "solo_ready r qc [] y" "mn_txConsensus (fn_mempool y) = [d]"
  shows "\<exists>z. fn_move E delay y Silent z \<and> solo_ready r qc [d] z \<and> fn_core z = fn_core y
    \<and> fn_commitCh z = fn_commitCh y \<and> fn_printed z = fn_printed y"
proof -
  let ?p = "fn_proposer y"
  let ?p' = "?p\<lparr>pr_buffer := DAList.update d () (pr_buffer ?p)\<rparr>"
  have "pr_step E ?p (PrDigest d) = Some (Ok (?p', []))"
    using assms(1) by (simp add: pr_step_def solo_ready_def)
  from fn_digest [where E = E, OF assms(2) this]
  have "fn_move E delay y Silent (y\<lparr>fn_proposer := ?p', fn_mempool := (fn_mempool y)\<lparr>mn_txConsensus := []\<rparr>\<rparr>)" .
  moreover have "map fst (DAList.impl_of (DAList.update d () (pr_buffer ?p))) = [d]"
    using assms(1) by (simp add: solo_ready_def DAList.update.rep_eq)
  ultimately show ?thesis
    using assms(1)
    by (intro exI [of _ "y\<lparr>fn_proposer := ?p', fn_mempool := (fn_mempool y)\<lparr>mn_txConsensus := []\<rparr>\<rparr>"])
      (simp add: solo_ready_def)
qed

lemma fn_move_out: "fn_move E delay y l z \<Longrightarrow> set (c_out (fn_core y)) \<subseteq> set (c_out (fn_core z))"
  by (drule fn_move_core) auto

lemma run_effects:
  "fn_run E delay y0 ls y \<Longrightarrow> Handled ev es \<in> set ls \<Longrightarrow> set es \<subseteq> set (c_out (fn_core y))"
proof (induction rule: fn_run.induct)
  case (fn_next ls y l z)
  have mv: "fn_move E delay y l z" using fn_next.hyps(2) by (simp add: fn_step_def)
  then show ?case using fn_next fn_move_core [OF mv] fn_move_out [OF mv] by auto
qed simp

text \<open>No block of the run has the digest of the batch.\<close>

lemma pay_no_batch: "b \<in> {pay1, pay2, pay3} \<Longrightarrow> solo_digest \<noteq> Block_Digest demo_env b"
proof -
  have digest: "take 1 (digest_bytes solo_digest) = [9]"
    by (simp add: solo_digest_def demo_NewDigest digest_bytes_copy go_copy_def solo_batch_bytes)
  have "take 1 (digest_bytes (Block_Digest demo_env pay1)) = [0]"
    by (simp add: Block_Digest_def Block_buf_def pay1_def solo_digest_def demo_NewDigest digest_bytes_copy
        go_copy_def solo_batch_bytes eval_nat_numeral)
  moreover have "take 1 (digest_bytes (Block_Digest demo_env pay2)) = [2]"
    by (simp add: Block_Digest_def Block_buf_def pay2_def demo_NewDigest digest_bytes_copy go_copy_def be64_small)
  moreover have "take 1 (digest_bytes (Block_Digest demo_env pay3)) = [3]"
    by (simp add: Block_Digest_def Block_buf_def pay3_def demo_NewDigest digest_bytes_copy go_copy_def be64_small)
  ultimately show "b \<in> {pay1, pay2, pay3} \<Longrightarrow> solo_digest \<noteq> Block_Digest demo_env b"
    using digest by auto
qed

lemma solo_client_run:
  "\<exists>y ls. fn_history demo_env 5000 solo_boot ls [solo_tx] [OwnBatch solo_batch] y
     \<and> (\<forall>l\<in>set ls. stores_no_block demo_env l) \<and> handled_blocks ls = {pay1, pay2, pay3}
     \<and> LCommitted pay1 \<in> set (fn_printed y) \<and> LBatch solo_digest \<in> set (fn_printed y)
     \<and> ESign (SVote pay1 (solo_vote pay1)) \<in> set (c_out (fn_core y))
     \<and> (\<exists>lines. fn_printed y = [LCommitted pay1, LContains, LBatch solo_digest] @ lines)"
proof -
  note s = solo_boot_facts
  let ?E = demo_env
  obtain n where n: "mn_reach ?E solo_node [solo_tx] [OwnBatch solo_batch] n"
    using solo_pipeline_any [of ?E] demo_serialize_mempool by (auto simp: solo_batch_def)
  have store: "fn_store solo_boot = mn_store solo_node" using s(8) by (simp add: solo_node_def)
  define y1 where "y1 = solo_boot\<lparr>fn_mempool := n, fn_core := (fn_core solo_boot)\<lparr>c_store := mn_store n\<rparr>\<rparr>"
  obtain l1 where l1: "\<forall>l\<in>set l1. \<exists>bs. l = Stored bs \<and> set bs \<subseteq> {solo_batch}"
      "fn_history ?E 5000 solo_boot l1 [solo_tx] [OwnBatch solo_batch] y1"
    using mempool_history [OF n fh_begin [of ?E 5000] s(5) s(7) store] by (auto simp: y1_def)
  have n': "mn_txConsensus n = [solo_digest]"
      "mn_store n = Store_Write ?E (NewStore Map.empty) (digest_bytes solo_digest) solo_batch"
    using mn_reach_stored [OF n] by (simp_all add: solo_node_def solo_digest_def batch_entry_def)
  have "store_ok ?E (mn_store n)" by (simp add: n'(2) st.put_usable)
  then have ready1: "solo_ready 1 GenesisQC [] y1"
    using s(1) by (simp add: solo_ready_def y1_def solo_core_def)
  have "mn_txConsensus (fn_mempool y1) = [solo_digest]" by (simp add: y1_def n'(1))
  from solo_ready_buffer [OF ready1 this] obtain y2 where y2: "fn_move ?E 5000 y1 Silent y2"
      "solo_ready 1 GenesisQC [solo_digest] y2" "fn_core y2 = fn_core y1" "fn_commitCh y2 = []"
      "fn_printed y2 = []"
    using s(3,4) by (auto simp: y1_def)
  have run2: "fn_run ?E 5000 y1 [Silent] y2"
    using run_snoc [OF fn_begin y2(1)] ready1 by (simp add: solo_ready_def)
  have lc: "c_lastCommittedRound (fn_core y2) = 0" using s(2) by (simp add: y2(3) y1_def)
  obtain y e1 e2 e3 where y: "\<forall>y0 ls. fn_run ?E 5000 y0 ls y2 \<longrightarrow> fn_run ?E 5000 y0
      (ls @ [Proposed [pay1], Silent, Handled (RxLoopback pay1) e1, Proposed [],
             Proposed [pay2], Silent, Handled (RxLoopback pay2) e2, Proposed [],
             Proposed [pay3], Silent, Handled (RxLoopback pay3) e3, Proposed []]) y"
      "signed_of e1 = [SVote pay1 (solo_vote pay1)]" "fn_commitCh y = [pay1]" "fn_printed y = fn_printed y2"
      "fn_outcome y = Ret None"
    using solo_three_rounds [OF y2(2) lc y2(4) pay1_def pay2_def pay3_def pay_digests, of 5000] by blast
  let ?ls = "[Silent, Proposed [pay1], Silent, Handled (RxLoopback pay1) e1, Proposed [],
             Proposed [pay2], Silent, Handled (RxLoopback pay2) e2, Proposed [],
             Proposed [pay3], Silent, Handled (RxLoopback pay3) e3, Proposed []]"
  let ?z = "y\<lparr>fn_commitCh := [], fn_printed := fn_printed y @ process_block ?E (fn_store y) pay1\<rparr>"
  have run3: "fn_run ?E 5000 y1 ?ls y" using y(1) run2 by fastforce
  from run_prints [OF this y(5,3)] have run4: "fn_run ?E 5000 y1 (?ls @ [Silent]) ?z" .
  from fn_history_more [OF this l1(2)]
  have hist: "fn_history ?E 5000 solo_boot (l1 @ ?ls @ [Silent]) [solo_tx] [OwnBatch solo_batch] ?z" by simp
  have clean: "\<forall>l\<in>set (l1 @ ?ls @ [Silent]). stores_no_block ?E l"
    using l1(1) solo_batch_no_block by fastforce
  have "Handled ev es \<notin> set l1" for ev es using l1(1) by fastforce
  then have handled: "handled_blocks (l1 @ ?ls @ [Silent]) = {pay1, pay2, pay3}"
    unfolding handled_blocks_def by auto
  have "ESign (SVote pay1 (solo_vote pay1)) \<in> set (c_out (fn_core y))"
    using run_effects [OF run3, of "RxLoopback pay1" e1] y(2) in_signed_of [of _ e1] by auto
  then show ?thesis
    using hist clean handled y(4) y2(5)
    by (intro exI [of _ ?z] exI [of _ "l1 @ ?ls @ [Silent]"] conjI) (simp_all add: process_block_def pay1_def)
qed

end
