(* ===== verification/FullProps.thy ===== *)
theory FullProps
  imports FullDemo CommitProps
begin

text \<open>
  The properties of the composition: the network of complete nodes refines the network of cores, what
  the nodes print as committed lies on one chain and can be printed in full, what is printed for the
  transactions of clients, and what happens when a batch takes the place of a block in the shared store.
\<close>

subsection \<open>Refinement\<close>

text \<open>
  C4: The honest nodes with all their goroutines and channels refine the network of cores: in every
  reachable state there is a reachable network of cores with the same cores, the same history of
  signatures and every node that still runs. In particular what the synchronizer, the payload waiter
  and the proposer put on the loopback channel is what the core handed to them, and the mempool's
  writes to the shared store do no harm as long as no batch is a serialized block.
\<close>

theorem full_nodes_refine_cores:
  assumes "full_reach E delay cm mcm mps hon B ss y" "env_ok E cm" "GenesisBlock \<in> B"
  shows "\<exists>x. net_reach E cm hon B ss x \<and> (\<forall>k. n_core x k = fn_core (fw_node y k))
    \<and> n_hist x = fw_hist y \<and> (\<forall>k. hon k \<longrightarrow> core_runs (fw_node y k) \<longrightarrow> k \<in> n_live x)"
  using full_reach_simulated [OF assms] unfolding simulates_def by blast

theorem full_nodes_refine_cores_witness:
  "\<exists>(y :: (Signature option, demo_db) full_net) x. LCommitted blk1 \<in> set (fn_printed (fw_node y (demo_name 1))) \<and>
     net_reach demo_env solo_committee solo_honest {GenesisBlock, blk1, blk2, blk3} (\<lambda>_. solo_ss) x
     \<and> n_core x (demo_name 1) = fn_core (fw_node y (demo_name 1)) \<and> n_hist x = solo_votes_hist"
proof -
  obtain n ls where n: "fn_run demo_env 5000 solo_boot ls n"
      "\<forall>l\<in>set ls. solo_label {GenesisBlock, blk1, blk2, blk3} l"
      "concat (map label_signed ls) = [SVote blk1 (solo_vote blk1), SVote blk2 (solo_vote blk2),
          SVote blk3 (solo_vote blk3)]"
      "LCommitted blk1 \<in> set (fn_printed n)"
    using solo_empty_run by blast
  obtain w where w: "full_reach demo_env 5000 solo_committee solo_mempool solo_parameters solo_honest
        {GenesisBlock, blk1, blk2, blk3} (\<lambda>_. solo_ss) w"
      "fw_node w (demo_name 1) = n" "fw_hist w = solo_votes_hist"
    using solo_full_reach [OF n(1,2)] unfolding n(3) solo_votes_hist_def by blast
  obtain x where "net_reach demo_env solo_committee solo_honest {GenesisBlock, blk1, blk2, blk3} (\<lambda>_. solo_ss) x"
      "n_core x (demo_name 1) = fn_core (fw_node w (demo_name 1))" "n_hist x = fw_hist w"
    using full_nodes_refine_cores [OF w(1) solo_env_ok] by blast
  then show ?thesis using w(2,3) n(4) by (intro exI [of _ w] exI [of _ x]) simp
qed

text \<open>
  C5: Agreement, as the applications see it: two blocks that honest nodes print as committed lie on
  one chain. The conditions are those of commit agreement for the cores: the faulty authorities hold at
  most a third of the stake, hashed byte strings do not collide, and no two blocks of the run have the
  same digest (C3 shows that this one is needed). \<open>label_genuine\<close>, in the steps of the network, adds
  that no batch that a node stores is a serialized block.
\<close>

theorem printed_blocks_on_one_chain:
  assumes "full_reach E delay cm mcm mps hon B ss y" "env_ok E cm" "GenesisBlock \<in> B"
    and "3 * faulty_stake cm hon \<le> total_stake cm"
    and "inj_on (NewDigest E) (run_bufs (fw_hist y) \<union> (\<Union>b\<in>B. block_bufs b))"
    and "inj_on (Block_Digest E) B"
    and "hon j" "LCommitted x \<in> set (fn_printed (fw_node y j))"
    and "hon k" "LCommitted z \<in> set (fn_printed (fw_node y k))"
  shows "lineage E (block_known E cm hon B (hist_pairs E (fw_hist y))) x z
    \<or> lineage E (block_known E cm hon B (hist_pairs E (fw_hist y))) z x"
proof -
  obtain net where net: "simulates E cm hon B ss y net"
    using full_reach_simulated [OF assms(1-3)] by blast
  then have n: "net_reach E cm hon B ss net" "n_hist net = fw_hist y"
      "\<And>k. n_core net k = fn_core (fw_node y k)"
      "\<And>k. hon k \<Longrightarrow> traced E B (fn_core (fw_node y k)) (fw_node y k)"
    unfolding simulates_def by blast+
  have com: "ECommit b \<in> set (c_out (n_core net i))"
    if "hon i" "LCommitted b \<in> set (fn_printed (fw_node y i))" for i b
    using n(3,4) [of i] that unfolding traced_def by simp
  have gen: "insert GenesisBlock B = B" using assms(3) by blast
  have run: "safe_run (E, cm, hon, B, ss, net)"
    using n(1,2) assms(2,4,5) by (auto elim: inj_on_subset)
  show ?thesis
    using committed_comparable [OF run _ _ assms(7,9) com [OF assms(7,8)] com [OF assms(9,10)]] assms(5,6)
    by (simp add: n(2) gen)
qed

theorem printed_blocks_on_one_chain_witness:
  "\<exists>y :: (Signature option, demo_db) full_net. LCommitted blk1 \<in> set (fn_printed (fw_node y (demo_name 1))) \<and>
     lineage demo_env (block_known demo_env solo_committee solo_honest {GenesisBlock, blk1, blk2, blk3}
          (hist_pairs demo_env (fw_hist y))) blk1 blk1"
proof -
  let ?B = "{GenesisBlock, blk1, blk2, blk3}"
  obtain n ls where n: "fn_run demo_env 5000 solo_boot ls n"
      "\<forall>l\<in>set ls. solo_label ?B l"
      "concat (map label_signed ls) = [SVote blk1 (solo_vote blk1), SVote blk2 (solo_vote blk2),
          SVote blk3 (solo_vote blk3)]"
      "LCommitted blk1 \<in> set (fn_printed n)"
    using solo_empty_run by blast
  obtain w where w: "full_reach demo_env 5000 solo_committee solo_mempool solo_parameters solo_honest
        ?B (\<lambda>_. solo_ss) w"
      "fw_node w (demo_name 1) = n" "fw_hist w = solo_votes_hist"
    using solo_full_reach [OF n(1,2)] unfolding n(3) solo_votes_hist_def by blast
  have bufs: "run_bufs solo_votes_hist \<union> (\<Union>b\<in>?B. block_bufs b)
      = qc_buf ` {GenesisQC, solo_qc blk1, solo_qc blk2, solo_qc blk3}"
    using solo_bufs(1) by (auto simp: block_bufs_def GenesisBlock_def qc_buf_def)
  have inj: "inj_on (NewDigest demo_env) (run_bufs (fw_hist w) \<union> (\<Union>b\<in>?B. block_bufs b))"
    unfolding w(3) bufs by (rule solo_inj)
  have com: "LCommitted blk1 \<in> set (fn_printed (fw_node w (demo_name 1)))" using n(4) w(2) by simp
  have hon: "solo_honest (demo_name 1)" by (simp add: solo_honest_def)
  have "lineage demo_env (block_known demo_env solo_committee solo_honest ?B
          (hist_pairs demo_env (fw_hist w))) blk1 blk1"
    using printed_blocks_on_one_chain [OF w(1) solo_env_ok insertI1 solo_no_faults inj solo_blocks_inj
        hon com hon com] by blast
  then show ?thesis using com by blast
qed

subsection \<open>Payloads\<close>

text \<open>
  C11: Data availability. In any run of a node started on a database without blocks, whatever messages
  arrive, the node votes for and commits only blocks all of whose batches it can read, and no line of
  \<open>ProcessBlocks\<close> says that a batch could not be read; provided that no batch is a serialized block.
\<close>

theorem committed_payload_printable:
  assumes "NewNode (Inr committee) (Inr secret) parameters (Inr db) None = Ok n"
    and "empty_of_blocks E (NewStore db)" "proto_ok E"
    and "fn_run E delay (boot n) ls y" "\<forall>l\<in>set ls. stores_no_block E l"
  shows "LReadFailed \<notin> set (fn_printed y)
    \<and> (\<forall>b. ECommit b \<in> set (c_out (fn_core y)) \<longrightarrow> missing_payload E (fn_store y) b = [])
    \<and> (\<forall>b v. ESign (SVote b v) \<in> set (c_out (fn_core y)) \<longrightarrow> missing_payload E (fn_store y) b = [])"
proof -
  have "node_avail E y" by (rule fn_run_avail [OF assms(4) boot_avail [OF assms(1,2)] assms(3,5)])
  then have av: "LReadFailed \<notin> set (fn_printed y)"
      "\<And>e. e \<in> set (c_out (fn_core y)) \<Longrightarrow> effect_avail E (fn_store y) e"
    by (simp_all add: node_avail_def places_avail_def)
  then show ?thesis unfolding missing_payload_avail by fastforce
qed

definition solo_files :: "node_Committee \<times> unit Secret \<times> node_Parameters" where
  "solo_files = (\<lparr>nc_Consensus = solo_committee, nc_Mempool = solo_mempool, nc_BootstrapPeers = []\<rparr>,
     \<lparr>se_Name = demo_name 1, se_Secret = demo_sk 1, se_PeerKey = ()\<rparr>,
     \<lparr>np_Consensus = DefaultParameters, np_Mempool = solo_parameters\<rparr>)"

lemma solo_NewNode:
  "\<exists>n. NewNode (Inr (fst solo_files)) (Inr (fst (snd solo_files))) (Some (Inr (snd (snd solo_files))))
      (Inr Map.empty) None = Ok n \<and> boot n = solo_boot"
  by (simp add: NewNode_def solo_files_def solo_node_spawned go_simps solo_boot_def solo_ss_def Let_def)

theorem committed_payload_printable_witness:
  "\<exists>n ls y. NewNode (Inr (fst solo_files)) (Inr (fst (snd solo_files))) (Some (Inr (snd (snd solo_files))))
       (Inr Map.empty) None = Ok n \<and> fn_run demo_env 5000 (boot n) ls y
     \<and> LBatch solo_digest \<in> set (fn_printed y) \<and> LReadFailed \<notin> set (fn_printed y)
     \<and> missing_payload demo_env (fn_store y) pay1 = []"
proof -
  obtain n where n: "NewNode (Inr (fst solo_files)) (Inr (fst (snd solo_files)))
      (Some (Inr (snd (snd solo_files)))) (Inr Map.empty) None = Ok n" "boot n = solo_boot"
    using solo_NewNode by blast
  obtain y ls where y: "fn_run demo_env 5000 (boot n) ls y" "\<forall>l\<in>set ls. stores_no_block demo_env l"
      "LBatch solo_digest \<in> set (fn_printed y)"
      "ESign (SVote pay1 (solo_vote pay1)) \<in> set (c_out (fn_core y))"
    using solo_client_run fn_history_run n(2) by metis
  have "empty_of_blocks demo_env (NewStore Map.empty)"
    by (simp add: empty_of_blocks_def demo_Read_empty)
  from committed_payload_printable [OF n(1) this demo_proto_ok y(1,2)]
  show ?thesis using n(1) y by blast
qed

subsection \<open>From clients to committed blocks\<close>

text \<open>
  C10: End to end through one complete node, started on an empty database. \<open>fn_history\<close> records the
  transactions that the node's clients have sent, in order, and the batches that it has stored; every
  run has such a record (\<open>fn_run_history\<close>). What \<open>ProcessBlocks\<close> has printed are the first of the
  blocks that the core has committed, in the order of the commits: for each block its header and then
  for each digest of its payload, in the order of the payload, the batch with this digest, if it is one
  that the node has stored. The node's own batches are, in the order in which it stored them, consecutive pieces of what its
  clients sent, and such a batch is printed as exactly the transactions of its piece: none is
  changed, lost, duplicated or moved within a batch. (Which batches a block has, and in which order, is
  up to its proposer.) No batch may be a serialized block or have the digest of a block that the node
  handled, and the batches stored must not collide under the hash.
\<close>

theorem clients_transactions_printed:
  assumes "NewNode (Inr committee) (Inr secret) parameters (Inr db) None = Ok n"
    and "store_ok E (NewStore db)" "\<forall>k v. Store_Read E (NewStore db) k \<noteq> Inr v" "proto_ok E"
    and "fn_history E delay (boot n) ls txs stored y" "\<forall>l\<in>set ls. stores_no_block E l"
    and "inj_on (NewDigest E) (batch_of ` set stored)"
    and "\<forall>b\<in>handled_blocks ls. \<forall>x\<in>set stored. NewDigest E (batch_of x) \<noteq> Block_Digest E b"
    and "\<forall>tx\<in>set txs. length tx < 2 ^ 63"
  shows "(\<exists>blocks lines. List.map_filter commit_of (c_out (fn_core y)) = blocks @ fn_commitCh y
        \<and> fn_printed y = concat lines
        \<and> list_all2 (shows_block E (batch_of ` set stored)) blocks lines)
    \<and> (\<exists>pieces rest. own_batches stored = map SerializeBatch pieces \<and> txs = concat pieces @ rest
        \<and> [] \<notin> set pieces \<and> (\<forall>piece\<in>set pieces. batch_lines (SerializeBatch piece) = map LTx piece))"
proof -
  have empty: "empty_of_blocks E (NewStore db)" using assms(2,3) by (simp add: empty_of_blocks_def)
  have "client_inv E (batch_of ` set stored) txs stored y"
    using assms(8)
    by (intro fn_history_client_inv [OF assms(5) boot_avail [OF assms(1) empty]
          boot_client_inv [OF assms(1,3)] assms(4,6) order_refl assms(7)]) auto
  then show ?thesis using own_pieces [OF _ assms(9)] unfolding client_inv_def by blast
qed

theorem clients_transactions_printed_witness:
  "\<exists>n ls y rest. NewNode (Inr (fst solo_files)) (Inr (fst (snd solo_files))) (Some (Inr (snd (snd solo_files))))
       (Inr Map.empty) None = Ok n
     \<and> fn_history demo_env 5000 (boot n) ls [solo_tx] [OwnBatch solo_batch] y
     \<and> fn_printed y = [LCommitted pay1, LContains, LBatch solo_digest, LTx solo_tx] @ rest"
proof -
  obtain n where n: "NewNode (Inr (fst solo_files)) (Inr (fst (snd solo_files)))
      (Some (Inr (snd (snd solo_files)))) (Inr Map.empty) None = Ok n" "boot n = solo_boot"
    using solo_NewNode by blast
  obtain y ls more where y: "fn_history demo_env 5000 (boot n) ls [solo_tx] [OwnBatch solo_batch] y"
      "\<forall>l\<in>set ls. stores_no_block demo_env l" "handled_blocks ls = {pay1, pay2, pay3}"
      "fn_printed y = [LCommitted pay1, LContains, LBatch solo_digest] @ more"
    using solo_client_run n(2) by metis
  have "\<forall>b\<in>handled_blocks ls. \<forall>x\<in>set [OwnBatch solo_batch]. NewDigest demo_env (batch_of x) \<noteq> Block_Digest demo_env b"
    using pay_no_batch y(3) by (auto simp: solo_digest_def)
  from clients_transactions_printed [OF n(1) _ _ demo_proto_ok y(1,2) _ this]
  obtain blocks lines where printed: "fn_printed y = concat lines"
      "list_all2 (shows_block demo_env {solo_batch}) blocks lines"
    by (auto simp: demo_Read_empty solo_tx_def)
  obtain b bs l rest where parts: "blocks = b # bs" "lines = l # rest" "shows_block demo_env {solo_batch} b l"
    using printed y(4) by (cases blocks; cases lines) auto
  have "b = pay1" using parts printed(1) y(4) by (auto simp: shows_block_def)
  moreover have "DeserializeBatch (SerializeBatch [solo_tx]) = Inr [solo_tx]"
    by (rule DeserializeBatch_SerializeBatch) (simp add: solo_tx_def)
  then have "batch_lines solo_batch = [LTx solo_tx]"
    by (simp only: batch_lines_def solo_batch_def) simp
  ultimately have "l = [LCommitted pay1, LContains, LBatch solo_digest, LTx solo_tx]"
    using parts(3)
    by (auto simp: shows_block_def shows_batch_def pay1_def solo_digest_def list_all2_Cons1)
  then show ?thesis using n(1) y(1) printed(1) parts(2) by auto
qed

subsection \<open>Batches in the place of blocks\<close>

text \<open>
  C12: Batches and blocks share the store, and a block is stored under the digest of \<open>Block_buf\<close>, bytes
  that anyone can compute. Whoever sends these bytes as a batch, to the mempool protocol of a node that
  has stored the block, overwrites it; a node that then handles a child of that block only returns an
  error, and since the key is there, the synchronizer does not ask for the block again.
\<close>

theorem batch_overwrites_block:
  assumes "store_ok E (fn_store y)" "mempool_proto_ok E"
    and "getParentBlock E (fn_store y) b = (Ok p, [])" "Parent b = Block_Digest E p"
    and "\<not> IsGenesisQC (blk_Qc b)"
    and "serializeMempoolMessage E (batchMessage (Block_buf p)) = Ok data"
    and "Block_Deserialize E (Block_buf p) = Err err"
  shows "\<exists>z. fn_move E delay y (Stored [Block_buf p]) z
    \<and> getParentBlock E (fn_store z) b = (Err err, [])
    \<and> core_step E (fn_core z) (RxLoopback b) = (fn_core z, Ret (Some err))"
proof -
  let ?m = "(fn_mempool y)\<lparr>mn_store := fn_store y\<rparr>"
  let ?s = "Store_Write E (fn_store y) (digest_bytes (Block_Digest E p)) (Block_buf p)"
  have "process_batch E (mn_store ?m) (Block_buf p) = (?s, Block_Digest E p)"
    by (simp add: process_batch_def Block_Digest_def Let_def)
  from mn_peer_batch [OF _ this, of data] mp_Dispatch_batch [OF assms(2,6)]
  obtain m' where m': "mn_step E ?m [] [PeerBatch (Block_buf p)] m'" "mn_store m' = ?s" by auto
  let ?z = "y\<lparr>fn_mempool := m', fn_core := (fn_core y)\<lparr>c_store := mn_store m'\<rparr>\<rparr>"
  have mv: "fn_move E delay y (Stored [Block_buf p]) ?z" using fn_mempool_step [OF m'(1)] by simp
  have par: "getParentBlock E ?s b = (Err err, [])"
    using assms(1,4,5,7) by (simp add: getParentBlock_def st.get_put)
  then have "core_step E (fn_core ?z) (RxLoopback b) = (fn_core ?z, Ret (Some err))"
    by (simp add: processBlock_def getAncestors_def m'(2))
  then show ?thesis using mv par by (intro exI [of _ ?z]) (simp add: m'(2))
qed

lemma unflat_zeros: "unflat [] (replicate n 0 @ xs) = map_option (\<lambda>cs. replicate n [] @ cs) (unflat [] xs)"
  by (induction n) (simp_all add: unflat_end option.map_comp comp_def option.map_ident)

lemma blk1_buf_no_block: "Block_Deserialize demo_env (Block_buf blk1) = Err UnmarshalFailed"
proof -
  have "Block_buf blk1 = 1 # 0 # replicate 46 0 @ [0, 0, 0, 0, 0, 0, 0, 1]"
  proof -
    have "be64 1 = [0, 0, 0, 0, 0, 0, 0, 1]" by code_simp
    moreover have "replicate 47 (0 :: byte) = 0 # replicate 46 0" by (simp add: eval_nat_numeral)
    ultimately show ?thesis
      by (simp add: Block_buf_def blk1_def solo_block_def NewBlock_def pk_bytes_demo_name)
  qed
  moreover have "replicate 46 (0 :: byte) @ [0, 0, 0, 0, 0, 0, 0, 1] = replicate 53 0 @ [1]"
    by (simp add: eval_nat_numeral)
  ultimately have "unflat [] (Block_buf blk1) = unflat [0] (replicate 53 0 @ [1])" by simp
  also have "\<dots> = None"
  proof -
    have "replicate 53 (0 :: byte) @ [1] = 0 # replicate 52 0 @ [1]" by (simp add: eval_nat_numeral)
    then show ?thesis using unflat_zeros [of 52 "[1]"] by (simp add: unflat_end)
  qed
  finally show ?thesis by (simp add: Block_Deserialize_def demo_env_def get_block_def)
qed

theorem batch_overwrites_block_witness:
  "\<exists>z. fn_move demo_env 5000 (solo_boot\<lparr>fn_core := solo_stored\<rparr>) (Stored [Block_buf blk1]) z
     \<and> getParentBlock demo_env (fn_store z) blk2 = (Err UnmarshalFailed, [])
     \<and> core_step demo_env (fn_core z) (RxLoopback blk2) = (fn_core z, Ret (Some UnmarshalFailed))"
proof -
  let ?y = "solo_boot\<lparr>fn_core := solo_stored\<rparr>"
  have "getParentBlock demo_env (solo_put blk1 (NewStore Map.empty)) blk2 = (Ok blk1, [])"
    by (rule solo_put_parent(1)) (simp_all add: Parent_def)
  then have "getParentBlock demo_env (solo_put blk2 (solo_put blk1 (NewStore Map.empty))) blk2 = (Ok blk1, [])"
    using blk_digests(1) by (rule_tac solo_put_parent(2)) (simp_all add: Parent_def)
  then have par: "getParentBlock demo_env (fn_store ?y) blk2 = (Ok blk1, [])"
    by (simp add: solo_stored_def)
  have ok: "store_ok demo_env (fn_store ?y)" by (simp add: solo_stored_def)
  show ?thesis
    by (rule batch_overwrites_block [OF ok demo_mempool_ok par _ _ demo_serialize_mempool blk1_buf_no_block])
      (simp_all add: Parent_def)
qed

end
