(* ===== verification/Json.thy ===== *)
theory Json
  imports Printing "HOL-Library.Char_ord" "HOL-Library.List_Lexorder" "HOL-Library.Multiset"
begin

text \<open>
  What \<open>node/config.go\<close> uses of \<open>encoding/json\<close>. A document is a tree; how Go values become trees and
  trees become Go values again is written out here, for the kinds of values the configuration has:
  unsigned integers, strings, values with text methods, slices, maps with text keys and structs with
  tags. The text layer, \<open>MarshalIndent\<close> of a tree and the parser in front of \<open>Unmarshal\<close>, is the record
  \<open>json_text\<close>; \<open>json_text_ok\<close> says that the parser reads back what \<open>MarshalIndent\<close> wrote with a line
  feed after it, for trees of ASCII strings and plain numbers within the parser's depth limit.
\<close>

subsection \<open>Trees\<close>

datatype json =
    JNull
  | JBool bool
  | JNumber string
  | JString string
  | JArray "json list"
  | JObject "(string \<times> json) list"

definition ascii :: "string \<Rightarrow> bool" where
  "ascii s = list_all (\<lambda>c. of_char c < (128 :: nat)) s"

fun json_plain :: "nat \<Rightarrow> json \<Rightarrow> bool" where
  "json_plain d (JNumber l) = (l = decimal (decimal_value l))"
| "json_plain d (JString s) = ascii s"
| "json_plain d (JArray js) = (0 < d \<and> (\<forall>j\<in>set js. json_plain (d - 1) j))"
| "json_plain d (JObject ms) = (0 < d \<and> (\<forall>m\<in>set ms. ascii (fst m) \<and> json_plain (d - 1) (snd m)))"
| "json_plain d _ = True"

record json_text =
  jt_MarshalIndent :: "json \<Rightarrow> byte list"
  jt_Parse :: "byte list \<Rightarrow> error + json"

definition json_text_ok :: "json_text \<Rightarrow> bool" where
  "json_text_ok T \<longleftrightarrow> (\<forall>j. json_plain 10000 j \<longrightarrow> jt_Parse T (jt_MarshalIndent T j @ [10]) = Inr j)"

subsection \<open>Values\<close>

text \<open>A decoder takes the value it decodes into; \<open>null\<close> leaves that as it is, or empties it.\<close>

type_synonym 'a decoder = "'a \<Rightarrow> json \<Rightarrow> (error, 'a) result"

definition enc_uint :: "'w::len word \<Rightarrow> json" where
  "enc_uint w = JNumber (decimal (unat w))"

definition is_digits :: "string \<Rightarrow> bool" where
  "is_digits l = (l \<noteq> [] \<and> list_all (\<lambda>c. c \<in> set ''0123456789'') l)"

fun dec_uint :: "'w::len word decoder" where
  "dec_uint v (JNumber l) =
     (if is_digits l \<and> decimal_value l < 2 ^ LENGTH('w) then Ok (of_nat (decimal_value l))
      else Err UnmarshalFailed)"
| "dec_uint v JNull = Ok v"
| "dec_uint v _ = Err UnmarshalFailed"

fun dec_string :: "string decoder" where
  "dec_string v (JString s) = Ok s"
| "dec_string v JNull = Ok v"
| "dec_string v _ = Err UnmarshalFailed"

definition enc_text :: "byte list \<Rightarrow> json" where
  "enc_text text = JString (string_of_bytes text)"

fun dec_text :: "('a \<Rightarrow> byte list \<Rightarrow> (error, 'a) result) \<Rightarrow> 'a decoder" where
  "dec_text unmarshal v (JString s) = unmarshal v (bytes_of_string s)"
| "dec_text unmarshal v JNull = Ok v"
| "dec_text unmarshal v _ = Err UnmarshalFailed"

fun dec_slice :: "'a \<Rightarrow> 'a decoder \<Rightarrow> 'a list decoder" where
  "dec_slice zero dec v (JArray js) = map_result (dec zero) js"
| "dec_slice zero dec v JNull = Ok []"
| "dec_slice zero dec v _ = Err UnmarshalFailed"

text \<open>A map with text keys: its entries in the order of the key texts.\<close>

definition by_key :: "('k \<Rightarrow> string) \<Rightarrow> ('k \<times> 'v) list \<Rightarrow> ('k \<times> 'v) list" where
  "by_key key kvs = sort_key (\<lambda>kv. key (fst kv)) kvs"

definition enc_map :: "('k \<Rightarrow> string) \<Rightarrow> ('v \<Rightarrow> json) \<Rightarrow> ('k, 'v) DAList.alist \<Rightarrow> json" where
  "enc_map key enc m = JObject (map (\<lambda>(k, v). (key k, enc v)) (by_key key (DAList.impl_of m)))"

fun dec_entries ::
  "(string \<Rightarrow> (error, 'k) result) \<Rightarrow> 'v \<Rightarrow> 'v decoder \<Rightarrow> ('k, 'v) DAList.alist \<Rightarrow> (string \<times> json) list
     \<Rightarrow> (error, ('k, 'v) DAList.alist) result"
where
  "dec_entries key zero dec m [] = Ok m"
| "dec_entries key zero dec m ((s, j) # ms) =
     bind_result (key s) (\<lambda>k. bind_result (dec zero j) (\<lambda>v.
       dec_entries key zero dec (DAList.update k v m) ms))"

fun dec_map ::
  "(string \<Rightarrow> (error, 'k) result) \<Rightarrow> 'v \<Rightarrow> 'v decoder \<Rightarrow> ('k, 'v) DAList.alist decoder"
where
  "dec_map key zero dec m (JObject ms) = dec_entries key zero dec m ms"
| "dec_map key zero dec m JNull = Ok DAList.empty"
| "dec_map key zero dec m _ = Err UnmarshalFailed"

text \<open>
  A struct: a member sets the field of that name, or else the first one whose name it is up to the
  case of ASCII letters; a member that names no field is skipped.
\<close>

definition fold_case :: "string \<Rightarrow> string" where
  "fold_case s =
     map (\<lambda>c. if c \<in> set ''ABCDEFGHIJKLMNOPQRSTUVWXYZ'' then char_of (of_char c + 32 :: nat) else c) s"

definition field_of :: "string \<Rightarrow> (string \<times> 'a decoder) list \<Rightarrow> 'a decoder option" where
  "field_of name fs =
     (case map_of fs name of
        Some dec \<Rightarrow> Some dec
      | None \<Rightarrow> map_of (map (\<lambda>(n, dec). (fold_case n, dec)) fs) (fold_case name))"

fun dec_members ::
  "(string \<times> 'a decoder) list \<Rightarrow> 'a \<Rightarrow> (string \<times> json) list \<Rightarrow> (error, 'a) result" where
  "dec_members fs v [] = Ok v"
| "dec_members fs v ((name, j) # ms) =
     (case field_of name fs of
        None \<Rightarrow> dec_members fs v ms
      | Some dec \<Rightarrow> bind_result (dec v j) (\<lambda>v1. dec_members fs v1 ms))"

fun dec_struct :: "(string \<times> 'a decoder) list \<Rightarrow> 'a decoder" where
  "dec_struct fs v (JObject ms) = dec_members fs v ms"
| "dec_struct fs v JNull = Ok v"
| "dec_struct fs v _ = Err UnmarshalFailed"

definition in_field :: "('a \<Rightarrow> 'b) \<Rightarrow> ('b \<Rightarrow> 'a \<Rightarrow> 'a) \<Rightarrow> 'b decoder \<Rightarrow> 'a decoder" where
  "in_field get put dec v j = bind_result (dec (get v) j) (\<lambda>x. Ok (put x v))"

subsection \<open>Reading back\<close>

named_theorems json_simps \<open>decoders after encoders, and plain trees\<close>

lemma digit_char_in: "d < 10 \<Longrightarrow> digit_char d \<in> set ''0123456789''"
  unfolding digit_char_def by (rule nth_mem) simp

lemma decimal_digits: "is_digits (decimal n)"
proof (induction n rule: decimal.induct)
  case (1 n)
  show ?case
  proof (cases "n < 10")
    case True
    then show ?thesis using digit_char_in [of n] by (simp add: decimal.simps [of n] is_digits_def)
  next
    case False
    then show ?thesis
      using 1 digit_char_in [of "n mod 10"] by (simp add: decimal.simps [of n] is_digits_def)
  qed
qed

lemma dec_uint_enc [json_simps]: "dec_uint v (enc_uint w) = Ok w"
  by (simp add: enc_uint_def decimal_digits)

lemma dec_text_enc [json_simps]: "dec_text un v (enc_text (bytes_of_string s)) = un v (bytes_of_string s)"
  by (simp add: enc_text_def string_of_bytes_of_string)

lemma dec_slice_strings [json_simps]: "dec_slice [] dec_string v (JArray (map JString ss)) = Ok ss"
  by (simp add: map_result_roundtrip)

lemma update_fresh:
  assumes "k \<notin> fst ` set (DAList.impl_of m)"
  shows "DAList.impl_of (DAList.update k v m) = DAList.impl_of m @ [(k, v)]"
proof -
  have "AList.update k v xs = xs @ [(k, v)]" if "k \<notin> fst ` set xs" for xs :: "('a \<times> 'b) list"
    using that by (induction xs) auto
  then show ?thesis using assms by (simp add: DAList.update.rep_eq)
qed

lemma dec_entries_fresh:
  assumes "\<And>k v. (k, v) \<in> set kvs \<Longrightarrow> kd (key k) = Ok k \<and> dec zero (enc v) = Ok v"
    and "distinct (map fst (DAList.impl_of m @ kvs))"
  shows "\<exists>m'. dec_entries kd zero dec m (map (\<lambda>(k, v). (key k, enc v)) kvs) = Ok m'
    \<and> DAList.impl_of m' = DAList.impl_of m @ kvs"
  using assms
proof (induction kvs arbitrary: m)
  case (Cons kv kvs)
  obtain k v where kv: "kv = (k, v)" by fastforce
  have fresh: "DAList.impl_of (DAList.update k v m) = DAList.impl_of m @ [(k, v)]"
    using Cons.prems(2) kv by (intro update_fresh) auto
  obtain m' where "dec_entries kd zero dec (DAList.update k v m) (map (\<lambda>(k, v). (key k, enc v)) kvs) = Ok m'"
      "DAList.impl_of m' = DAList.impl_of (DAList.update k v m) @ kvs"
    using Cons.IH [of "DAList.update k v m"] Cons.prems fresh kv by auto
  then show ?case using Cons.prems(1) [of k v] kv fresh by auto
qed auto

lemma by_key_mset [simp]: "mset (by_key key kvs) = mset kvs"
  by (simp add: by_key_def)

lemma by_key_set [simp]: "set (by_key key kvs) = set kvs"
  by (simp add: by_key_def)

lemma by_key_distinct: "distinct (map fst kvs) \<Longrightarrow> distinct (map fst (by_key key kvs))"
  by (metis by_key_mset mset_eq_imp_distinct_iff mset_map)

text \<open>A map is read back as the same map, its entries in the order of the texts.\<close>

definition sorted_map :: "('k \<Rightarrow> string) \<Rightarrow> ('k, 'v) DAList.alist \<Rightarrow> ('k, 'v) DAList.alist" where
  "sorted_map key m = DAList.Alist (by_key key (DAList.impl_of m))"

lemma impl_sorted_map [simp]: "DAList.impl_of (sorted_map key m) = by_key key (DAList.impl_of m)"
  unfolding sorted_map_def by (rule Alist_inverse) (simp add: by_key_distinct)

lemma lookup_sorted_map [simp]: "DAList.lookup (sorted_map key m) k = DAList.lookup m k"
proof -
  have "map_of (by_key key xs) = map_of xs" if "distinct (map fst xs)" for xs
    using that by (intro map_of_inject_set [THEN iffD2]) (simp_all add: by_key_distinct)
  from this [of "DAList.impl_of m"] show ?thesis by (simp add: DAList.lookup.rep_eq)
qed

lemma dec_map_enc:
  assumes "\<And>k v. (k, v) \<in> set (DAList.impl_of m) \<Longrightarrow> kd (key k) = Ok k \<and> dec zero (enc v) = Ok v"
  shows "dec_map kd zero dec DAList.empty (enc_map key enc m) = Ok (sorted_map key m)"
proof -
  have "\<exists>m'. dec_entries kd zero dec DAList.empty
        (map (\<lambda>(k, v). (key k, enc v)) (by_key key (DAList.impl_of m))) = Ok m'
      \<and> DAList.impl_of m' = DAList.impl_of DAList.empty @ by_key key (DAList.impl_of m)"
    using assms by (intro dec_entries_fresh) (auto simp: DAList.empty.rep_eq by_key_distinct)
  then show ?thesis
    by (auto simp: enc_map_def DAList.empty.rep_eq impl_of_inject [symmetric])
qed

subsection \<open>Plain trees\<close>

lemma ascii_append [simp]: "ascii (s @ t) \<longleftrightarrow> ascii s \<and> ascii t"
  by (auto simp: ascii_def)

lemma json_plain_uint [json_simps]: "json_plain d (enc_uint w)"
  by (simp add: enc_uint_def)

lemma b64_ascii: "unat v < 64 \<Longrightarrow> of_char (b64_char v) < (128 :: nat)"
proof -
  assume v: "unat v < 64"
  have "ascii b64_alphabet" by (simp add: ascii_def b64_alphabet_def)
  moreover have "b64_char v \<in> set b64_alphabet"
    unfolding b64_char_def by (rule nth_mem) (use v in \<open>simp add: b64_alphabet_def\<close>)
  ultimately show ?thesis by (simp add: ascii_def list_all_iff)
qed

lemma EncodeToString_ascii: "ascii (EncodeToString bs)"
proof (induction bs rule: EncodeToString.induct)
  case (2 a)
  show ?case using sextets_small(1) [of a] by (auto simp: ascii_def list_all_iff b64_ascii)
next
  case (3 a b)
  show ?case using sextets_small(2) [of a b] by (auto simp: ascii_def list_all_iff b64_ascii)
next
  case (4 a b c rest)
  then show ?case using sextets_small(3) [of a b c]
    unfolding EncodeToString.simps ascii_append by (auto simp: ascii_def list_all_iff b64_ascii)
qed (simp add: ascii_def)

lemma json_plain_text [json_simps]: "ascii s \<Longrightarrow> json_plain d (enc_text (bytes_of_string s))"
  by (simp add: enc_text_def string_of_bytes_of_string)

lemma json_plain_map:
  assumes "0 < d" "\<And>k v. (k, v) \<in> set (DAList.impl_of m) \<Longrightarrow> ascii (key k) \<and> json_plain (d - 1) (enc v)"
  shows "json_plain d (enc_map key enc m)"
  using assms by (force simp: enc_map_def)

lemma json_plain_mono: "json_plain d j \<Longrightarrow> d \<le> d' \<Longrightarrow> json_plain d' j"
proof (induction d j arbitrary: d' rule: json_plain.induct)
  case (3 d js)
  have "json_plain (d' - 1) j" if "j \<in> set js" for j
    by (rule "3.IH" [OF that]) (use "3.prems" that in auto)
  moreover have "0 < d'" using "3.prems" by simp
  ultimately show ?case by simp
next
  case (4 d ms)
  have "json_plain (d' - 1) (snd m)" if "m \<in> set ms" for m
    by (rule "4.IH" [OF that]) (use "4.prems" that in auto)
  moreover have "0 < d'" "\<forall>m\<in>set ms. ascii (fst m)" using "4.prems" by auto
  ultimately show ?case by simp
qed simp_all

end
