(* ===== verification/P2P.thy ===== *)
theory P2P
  imports SimpleNet
begin

text \<open>
  \<open>network/p2p.go\<close> and \<open>network/pubsub.go\<close>: the libp2p host with its DHT, connecting to a peer, and the
  wrapper around a gossip topic. libp2p, its DHT and its pubsub are the record \<open>libp2p\<close>; a call that
  may fail returns the error or the value. \<open>lp_New\<close> is \<open>libp2p.New\<close>: it also tells for which host it
  called the routing constructor, if it did. A nil identity is \<open>None\<close>.
\<close>

subsection \<open>The libraries\<close>

record ('pk, 'addr, 'info, 'host, 'dht, 'stream) libp2p =
  lp_NewMultiaddr :: "string \<Rightarrow> error + 'addr"
  lp_AddrString :: "'addr \<Rightarrow> string"
  lp_IDString :: "PeerID \<Rightarrow> string"
  lp_AddrInfoFromString :: "string \<Rightarrow> error + 'info"
  lp_New :: "'addr \<Rightarrow> 'pk option \<Rightarrow> ('host \<Rightarrow> error + 'dht) \<Rightarrow> (error + 'host) \<times> 'host option"
  lp_ID :: "'host \<Rightarrow> PeerID"
  lp_Addrs :: "'host \<Rightarrow> 'addr list"
  lp_PeerInfo :: "'host \<Rightarrow> PeerID \<Rightarrow> 'info"
  lp_InfoAddrs :: "'info \<Rightarrow> 'addr list"
  lp_Connect :: "'host \<Rightarrow> 'info \<Rightarrow> error option"
  lp_NewStream :: "'host \<Rightarrow> PeerID \<Rightarrow> string \<Rightarrow> error + 'stream"
  kad_New :: "'host \<Rightarrow> 'info list \<Rightarrow> error + 'dht"
  kad_Bootstrap :: "'dht \<Rightarrow> error option"
  kad_FindPeer :: "'dht \<Rightarrow> PeerID \<Rightarrow> error + 'info"

text \<open>libp2p documents that \<open>New\<close> returns a host only after the routing constructor succeeded for it.\<close>

definition routing_ok :: "('pk, 'addr, 'info, 'host, 'dht, 'stream, 'z) libp2p_scheme \<Rightarrow> bool" where
  "routing_ok H \<longleftrightarrow> (\<forall>addr priv newDHT h r. lp_New H addr priv newDHT = (Inr h, r)
     \<longrightarrow> (\<exists>h' dht. r = Some h' \<and> newDHT h' = Inr dht))"

subsection \<open>RoutedHost\<close>

record ('host, 'dht) RoutedHost =
  rh_node :: 'host
  rh_dht :: 'dht

definition RoutedHost_ID ::
  "('pk, 'addr, 'info, 'host, 'dht, 'stream, 'z) libp2p_scheme \<Rightarrow> ('host, 'dht) RoutedHost \<Rightarrow> PeerID" where
  "RoutedHost_ID H rh = lp_ID H (rh_node rh)"

definition RoutedHost_String ::
  "('pk, 'addr, 'info, 'host, 'dht, 'stream, 'z) libp2p_scheme \<Rightarrow> ('host, 'dht) RoutedHost \<Rightarrow> string" where
  "RoutedHost_String H rh = lp_IDString H (lp_ID H (rh_node rh))"

definition RoutedHost_Addrs ::
  "('pk, 'addr, 'info, 'host, 'dht, 'stream, 'z) libp2p_scheme \<Rightarrow> ('host, 'dht) RoutedHost \<Rightarrow> string list" where
  "RoutedHost_Addrs H rh = map (lp_AddrString H) (lp_Addrs H (rh_node rh))"

definition PrintAddrs ::
  "('pk, 'addr, 'info, 'host, 'dht, 'stream, 'z) libp2p_scheme \<Rightarrow> ('host, 'dht) RoutedHost \<Rightarrow> string list" where
  "PrintAddrs H rh =
     map (\<lambda>addr. lp_AddrString H addr @ ''/p2p/'' @ lp_IDString H (lp_ID H (rh_node rh)))
       (lp_Addrs H (rh_node rh))"

text \<open>The loop over the bootstrap peers returns at the first address that does not parse.\<close>

fun bootstrap_peers ::
  "('pk, 'addr, 'info, 'host, 'dht, 'stream, 'z) libp2p_scheme \<Rightarrow> string list \<Rightarrow> error + 'info list" where
  "bootstrap_peers H [] = Inr []"
| "bootstrap_peers H (p # ps) =
     (case lp_AddrInfoFromString H p of
        Inl err \<Rightarrow> Inl err
      | Inr pinfo \<Rightarrow>
          (case bootstrap_peers H ps of Inl err \<Rightarrow> Inl err | Inr infos \<Rightarrow> Inr (pinfo # infos)))"

text \<open>The variable \<open>dht\<close> is set by the closure \<open>newDHT\<close>; it is nil where that failed or was not called.\<close>

definition NewRoutedHost ::
  "('pk, 'addr, 'info, 'host, 'dht, 'stream, 'z) libp2p_scheme \<Rightarrow> string \<Rightarrow> 'pk option \<Rightarrow> string list
     \<Rightarrow> (error, ('host, 'dht) RoutedHost) result" where
  "NewRoutedHost H addr priv bsPeers =
     (case lp_NewMultiaddr H addr of
        Inl err \<Rightarrow> Err err
      | Inr nodeAddr \<Rightarrow>
     (case bootstrap_peers H bsPeers of
        Inl err \<Rightarrow> Err err
      | Inr bootstrapPeers \<Rightarrow>
     (let newDHT = (\<lambda>h. kad_New H h bootstrapPeers)
      in case lp_New H nodeAddr priv newDHT of
           (Inl err, _) \<Rightarrow> Err err
         | (Inr h, called) \<Rightarrow>
             (case (case called of Some h' \<Rightarrow> newDHT h' | None \<Rightarrow> Inl PeerError) of
                Inl err \<Rightarrow> Panic NilDeref
              | Inr dht \<Rightarrow>
                  (case kad_Bootstrap H dht of
                     Some err \<Rightarrow> Err err
                   | None \<Rightarrow> Ok \<lparr>rh_node = h, rh_dht = dht\<rparr>)))))"

definition dhtConnect ::
  "('pk, 'addr, 'info, 'host, 'dht, 'stream, 'z) libp2p_scheme \<Rightarrow> ('host, 'dht) RoutedHost \<Rightarrow> PeerID
     \<Rightarrow> string \<Rightarrow> error + 'stream" where
  "dhtConnect H rh pid proto =
     (let known = lp_PeerInfo H (rh_node rh) pid
      in case (if length (lp_InfoAddrs H known) = 0 then kad_FindPeer H (rh_dht rh) pid else Inr known) of
           Inl err \<Rightarrow> Inl err
         | Inr peerInfo \<Rightarrow>
             (case lp_Connect H (rh_node rh) peerInfo of
                Some err \<Rightarrow> Inl err
              | None \<Rightarrow>
                  (case lp_NewStream H (rh_node rh) pid proto of
                     Inl err \<Rightarrow> Inl err
                   | Inr stream \<Rightarrow> Inr stream)))"

text \<open>
  The first part of \<open>connection.run\<close> in \<open>simplesender.go\<close> does the same inline, with its own errors: the
  event that the goroutine of a new connection of the simple sender has.
\<close>

definition sc_connect ::
  "('pk, 'addr, 'info, 'host, 'dht, 'stream, 'z) libp2p_scheme \<Rightarrow> ('host, 'dht) RoutedHost \<Rightarrow> PeerID
     \<Rightarrow> string \<Rightarrow> sc_event" where
  "sc_connect H rh pid proto =
     (let known = lp_PeerInfo H (rh_node rh) pid
      in case (if length (lp_InfoAddrs H known) = 0 then kad_FindPeer H (rh_dht rh) pid else Inr known) of
           Inl err \<Rightarrow> ScConnectFailed LocateFailed
         | Inr peerInfo \<Rightarrow>
             (case lp_Connect H (rh_node rh) peerInfo of
                Some err \<Rightarrow> ScConnectFailed ConnectFailed
              | None \<Rightarrow>
                  (case lp_NewStream H (rh_node rh) pid proto of
                     Inl err \<Rightarrow> ScConnectFailed StreamFailed
                   | Inr stream \<Rightarrow> ScConnected)))"

definition rc_connect ::
  "('pk, 'addr, 'info, 'host, 'dht, 'stream, 'z) libp2p_scheme \<Rightarrow> ('host, 'dht) RoutedHost \<Rightarrow> PeerID
     \<Rightarrow> string \<Rightarrow> rc_event" where
  "rc_connect H rh address proto =
     (case dhtConnect H rh address proto of Inl err \<Rightarrow> RcRetryTimer | Inr stream \<Rightarrow> RcConnected)"

text \<open>The two senders connect under the same conditions.\<close>

lemma sc_connect_iff:
  "sc_connect H rh pid proto = ScConnected \<longleftrightarrow> rc_connect H rh pid proto = RcConnected"
  by (auto simp: sc_connect_def rc_connect_def dhtConnect_def Let_def split: sum.splits option.splits)

lemma sc_connect_steps:
  "\<exists>c'. sc_step (spawnConnection pid) (sc_connect H rh pid proto) = Some (c', [])
     \<and> (sc_stage c' = Transmitting \<longleftrightarrow> (\<exists>stream. dhtConnect H rh pid proto = Inr stream))"
  by (auto simp: sc_connect_def dhtConnect_def Let_def sc_step_def spawnConnection_def
      split: sum.splits option.splits)

lemma bootstrap_peers_iff:
  "bootstrap_peers H ps = Inr infos \<longleftrightarrow> list_all2 (\<lambda>p i. lp_AddrInfoFromString H p = Inr i) ps infos"
proof (induction ps arbitrary: infos)
  case (Cons p ps)
  have "bootstrap_peers H (p # ps) = Inr infos \<longleftrightarrow>
      (\<exists>i rest. lp_AddrInfoFromString H p = Inr i \<and> bootstrap_peers H ps = Inr rest \<and> infos = i # rest)"
    by (auto split: sum.splits)
  then show ?case by (simp only: Cons.IH list_all2_Cons1) blast
qed auto

lemma NewRoutedHost_no_panic: "routing_ok H \<Longrightarrow> NewRoutedHost H addr priv ps \<noteq> Panic p"
  unfolding NewRoutedHost_def Let_def routing_ok_def
  by (fastforce split: sum.splits prod.splits option.splits)

subsection \<open>Receivers\<close>

text \<open>\<open>SpawnReceiver\<close> sets the handler of a protocol; each incoming stream then runs \<open>spawnRunner\<close>.\<close>

type_synonym ('o, 'e) stream_handler = "(read_error + byte list) list \<Rightarrow> 'o list \<times> stream_end option"

definition SpawnReceiver ::
  "(byte list \<Rightarrow> 'o list \<times> ('e, unit) result) \<Rightarrow> string \<Rightarrow> (string \<Rightarrow> ('o, 'e) stream_handler option)
     \<Rightarrow> (string \<Rightarrow> ('o, 'e) stream_handler option)" where
  "SpawnReceiver Dispatch proto handlers = handlers(proto \<mapsto> spawnRunner Dispatch)"

subsection \<open>Pubsub\<close>

record ('host, 'ps, 'topic, 'sub) gossip =
  go_NewGossipSub :: "'host \<Rightarrow> error + 'ps"
  go_Join :: "'ps \<Rightarrow> string \<Rightarrow> error + 'topic"
  go_Subscribe :: "'topic \<Rightarrow> error + 'sub"
  go_Publish :: "'topic \<Rightarrow> byte list \<Rightarrow> error option"
  go_Next :: "'sub \<Rightarrow> error + byte list"

record ('ps, 'topic, 'sub) Pubsub =
  ps_PubSub :: 'ps
  ps_topic :: 'topic
  ps_sub :: 'sub

definition NewPubsub ::
  "('host, 'ps, 'topic, 'sub, 'z) gossip_scheme \<Rightarrow> ('host, 'dht) RoutedHost \<Rightarrow> string
     \<Rightarrow> error + ('ps, 'topic, 'sub) Pubsub" where
  "NewPubsub G host proto =
     (case go_NewGossipSub G (rh_node host) of
        Inl err \<Rightarrow> Inl err
      | Inr pubsub \<Rightarrow>
     (case go_Join G pubsub proto of
        Inl err \<Rightarrow> Inl err
      | Inr topic \<Rightarrow>
     (case go_Subscribe G topic of
        Inl err \<Rightarrow> Inl err
      | Inr sub \<Rightarrow> Inr \<lparr>ps_PubSub = pubsub, ps_topic = topic, ps_sub = sub\<rparr>)))"

definition Pubsub_Publish ::
  "('host, 'ps, 'topic, 'sub, 'z) gossip_scheme \<Rightarrow> ('ps, 'topic, 'sub) Pubsub \<Rightarrow> byte list \<Rightarrow> error option" where
  "Pubsub_Publish G ps data = go_Publish G (ps_topic ps) data"

definition Pubsub_Next ::
  "('host, 'ps, 'topic, 'sub, 'z) gossip_scheme \<Rightarrow> ('ps, 'topic, 'sub) Pubsub \<Rightarrow> error + byte list" where
  "Pubsub_Next G ps = (case go_Next G (ps_sub ps) of Inl err \<Rightarrow> Inl err | Inr data \<Rightarrow> Inr data)"

end
