(* ===== verification/ConfigFiles.thy ===== *)
theory ConfigFiles
  imports NodeApp Json P2P
begin

text \<open>
  The configuration files of \<open>node/config.go\<close>: the trees that the struct tags and text methods of the
  configuration types give, \<open>WriteJSON\<close> and \<open>ReadJSON\<close>, and \<open>NewNode\<close> of \<open>node/node.go\<close> on files. A
  nil peer key is \<open>None\<close>. \<open>peer.ID\<close> brings its own JSON methods, which are fields of \<open>peer_ids\<close>.
\<close>

subsection \<open>Committees\<close>

record 'pk peer_ids = "'pk peer_lib" +
  lp_MarshalID :: "PeerID \<Rightarrow> json"
  lp_UnmarshalID :: "json \<Rightarrow> error + PeerID"
  lp_IDFromPrivateKey :: "'pk \<Rightarrow> error + PeerID"

definition peer_id_ok :: "('pk, 'z) peer_ids_scheme \<Rightarrow> PeerID \<Rightarrow> bool" where
  "peer_id_ok P pid \<longleftrightarrow> lp_UnmarshalID P (lp_MarshalID P pid) = Inr pid \<and> json_plain 0 (lp_MarshalID P pid)"

definition dec_PeerID :: "('pk, 'z) peer_ids_scheme \<Rightarrow> PeerID decoder" where
  "dec_PeerID P v j = (case lp_UnmarshalID P j of Inl err \<Rightarrow> Err err | Inr pid \<Rightarrow> Ok pid)"

definition key_of_text :: "string \<Rightarrow> (error, PublicKey) result" where
  "key_of_text s = pk_UnmarshalText pk_zero (bytes_of_string s)"

definition text_of_key :: "PublicKey \<Rightarrow> string" where
  "text_of_key pk = string_of_bytes (pk_MarshalText pk)"

definition Authority_json :: "('pk, 'z) peer_ids_scheme \<Rightarrow> Authority \<Rightarrow> json" where
  "Authority_json P a =
     JObject [(''stake'', enc_uint (au_Stake a)), (''address'', lp_MarshalID P (au_Address a))]"

definition dec_Authority :: "('pk, 'z) peer_ids_scheme \<Rightarrow> Authority decoder" where
  "dec_Authority P = dec_struct
     [(''stake'', in_field au_Stake (\<lambda>x a. a\<lparr>au_Stake := x\<rparr>) dec_uint),
      (''address'', in_field au_Address (\<lambda>x a. a\<lparr>au_Address := x\<rparr>) (dec_PeerID P))]"

definition Committee_json :: "('pk, 'z) peer_ids_scheme \<Rightarrow> Committee \<Rightarrow> json" where
  "Committee_json P c =
     JObject [(''authorities'', enc_map text_of_key (Authority_json P) (cm_Authorities c)),
              (''epoch'', enc_uint (cm_Epoch c))]"

definition dec_Committee :: "('pk, 'z) peer_ids_scheme \<Rightarrow> Committee decoder" where
  "dec_Committee P = dec_struct
     [(''authorities'', in_field cm_Authorities (\<lambda>x c. c\<lparr>cm_Authorities := x\<rparr>)
         (dec_map key_of_text \<lparr>au_Stake = 0, au_Address = []\<rparr> (dec_Authority P))),
      (''epoch'', in_field cm_Epoch (\<lambda>x c. c\<lparr>cm_Epoch := x\<rparr>) dec_uint)]"

definition mp_Authority_json :: "('pk, 'z) peer_ids_scheme \<Rightarrow> mp_Authority \<Rightarrow> json" where
  "mp_Authority_json P a =
     JObject [(''stake'', enc_uint (mpa_Stake a)), (''mpaddress'', lp_MarshalID P (mpa_Address a))]"

definition dec_mp_Authority :: "('pk, 'z) peer_ids_scheme \<Rightarrow> mp_Authority decoder" where
  "dec_mp_Authority P = dec_struct
     [(''stake'', in_field mpa_Stake (\<lambda>x a. a\<lparr>mpa_Stake := x\<rparr>) dec_uint),
      (''mpaddress'', in_field mpa_Address (\<lambda>x a. a\<lparr>mpa_Address := x\<rparr>) (dec_PeerID P))]"

definition mp_Committee_json :: "('pk, 'z) peer_ids_scheme \<Rightarrow> mp_Committee \<Rightarrow> json" where
  "mp_Committee_json P c =
     JObject [(''authorities'', enc_map text_of_key (mp_Authority_json P) (mpc_Authorities c)),
              (''epoch'', enc_uint (mpc_Epoch c))]"

definition dec_mp_Committee :: "('pk, 'z) peer_ids_scheme \<Rightarrow> mp_Committee decoder" where
  "dec_mp_Committee P = dec_struct
     [(''authorities'', in_field mpc_Authorities (\<lambda>x c. c\<lparr>mpc_Authorities := x\<rparr>)
         (dec_map key_of_text \<lparr>mpa_Stake = 0, mpa_Address = []\<rparr> (dec_mp_Authority P))),
      (''epoch'', in_field mpc_Epoch (\<lambda>x c. c\<lparr>mpc_Epoch := x\<rparr>) dec_uint)]"

definition node_Committee_json :: "('pk, 'z) peer_ids_scheme \<Rightarrow> node_Committee \<Rightarrow> json" where
  "node_Committee_json P c =
     JObject [(''consensus'', Committee_json P (nc_Consensus c)),
              (''mempool'', mp_Committee_json P (nc_Mempool c)),
              (''bspeers'', JArray (map JString (nc_BootstrapPeers c)))]"

definition node_Committee_zero :: node_Committee where
  "node_Committee_zero =
     \<lparr>nc_Consensus = \<lparr>cm_Authorities = DAList.empty, cm_Epoch = 0\<rparr>,
      nc_Mempool = \<lparr>mpc_Authorities = DAList.empty, mpc_Epoch = 0\<rparr>, nc_BootstrapPeers = []\<rparr>"

definition dec_node_Committee :: "('pk, 'z) peer_ids_scheme \<Rightarrow> node_Committee decoder" where
  "dec_node_Committee P = dec_struct
     [(''consensus'', in_field nc_Consensus (\<lambda>x c. c\<lparr>nc_Consensus := x\<rparr>) (dec_Committee P)),
      (''mempool'', in_field nc_Mempool (\<lambda>x c. c\<lparr>nc_Mempool := x\<rparr>) (dec_mp_Committee P)),
      (''bspeers'', in_field nc_BootstrapPeers (\<lambda>x c. c\<lparr>nc_BootstrapPeers := x\<rparr>)
         (dec_slice [] dec_string))]"

subsection \<open>Secrets\<close>

text \<open>\<open>MarshalPrivateKey\<close> calls a method of the key, so a nil key panics.\<close>

definition Secret_json :: "('pk, 'z) peer_ids_scheme \<Rightarrow> 'pk option Secret \<Rightarrow> (error, json) result" where
  "Secret_json P s =
     (case se_PeerKey s of
        None \<Rightarrow> Panic NilDeref
      | Some key \<Rightarrow>
          bind_result (peer_MarshalText (peer_lib.truncate P) key) (\<lambda>text.
            Ok (JObject [(''name'', enc_text (pk_MarshalText (se_Name s))),
                         (''secret'', enc_text (sk_MarshalText (se_Secret s))),
                         (''peerkey'', enc_text text)])))"

definition Secret_zero :: "'pk option Secret" where
  "Secret_zero = \<lparr>se_Name = pk_zero, se_Secret = sk_zero, se_PeerKey = None\<rparr>"

definition dec_peer_key :: "('pk, 'z) peer_ids_scheme \<Rightarrow> 'pk option decoder" where
  "dec_peer_key P = dec_text (\<lambda>key text.
     bind_result (peer_UnmarshalText (peer_lib.truncate P) text) (\<lambda>k. Ok (Some k)))"

definition dec_Secret :: "('pk, 'z) peer_ids_scheme \<Rightarrow> 'pk option Secret decoder" where
  "dec_Secret P = dec_struct
     [(''name'', in_field se_Name (\<lambda>x s. s\<lparr>se_Name := x\<rparr>) (dec_text pk_UnmarshalText)),
      (''secret'', in_field se_Secret (\<lambda>x s. s\<lparr>se_Secret := x\<rparr>) (dec_text sk_UnmarshalText)),
      (''peerkey'', in_field se_PeerKey (\<lambda>x s. s\<lparr>se_PeerKey := x\<rparr>) (dec_peer_key P))]"

subsection \<open>Parameters\<close>

definition node_Parameters_json :: "node_Parameters \<Rightarrow> json" where
  "node_Parameters_json p =
     JObject
       [(''consensus'', JObject
           [(''TimeoutDelay'', enc_uint (par_TimeoutDelay (np_Consensus p))),
            (''SyncRetryDelay'', enc_uint (par_SyncRetryDelay (np_Consensus p)))]),
        (''mempool'', JObject
           [(''gcdepth'', enc_uint (mp_GcDepth (np_Mempool p))),
            (''syncretrydelay'', enc_uint (mp_SyncRetryDelay (np_Mempool p))),
            (''syncretrynodes'', enc_uint (mp_SyncRetryNodes (np_Mempool p))),
            (''batchsize'', enc_uint (mp_BatchSize (np_Mempool p))),
            (''maxbatchdelay'', enc_uint (mp_MaxBatchDelay (np_Mempool p)))])]"

definition node_Parameters_zero :: node_Parameters where
  "node_Parameters_zero =
     \<lparr>np_Consensus = \<lparr>par_TimeoutDelay = 0, par_SyncRetryDelay = 0\<rparr>,
      np_Mempool = \<lparr>mp_GcDepth = 0, mp_SyncRetryDelay = 0, mp_SyncRetryNodes = 0, mp_BatchSize = 0,
        mp_MaxBatchDelay = 0\<rparr>\<rparr>"

definition dec_Parameters :: "Parameters decoder" where
  "dec_Parameters = dec_struct
     [(''TimeoutDelay'', in_field par_TimeoutDelay (\<lambda>x p. p\<lparr>par_TimeoutDelay := x\<rparr>) dec_uint),
      (''SyncRetryDelay'', in_field par_SyncRetryDelay (\<lambda>x p. p\<lparr>par_SyncRetryDelay := x\<rparr>) dec_uint)]"

definition dec_mp_Parameters :: "mp_Parameters decoder" where
  "dec_mp_Parameters = dec_struct
     [(''gcdepth'', in_field mp_GcDepth (\<lambda>x p. p\<lparr>mp_GcDepth := x\<rparr>) dec_uint),
      (''syncretrydelay'', in_field mp_SyncRetryDelay (\<lambda>x p. p\<lparr>mp_SyncRetryDelay := x\<rparr>) dec_uint),
      (''syncretrynodes'', in_field mp_SyncRetryNodes (\<lambda>x p. p\<lparr>mp_SyncRetryNodes := x\<rparr>) dec_uint),
      (''batchsize'', in_field mp_BatchSize (\<lambda>x p. p\<lparr>mp_BatchSize := x\<rparr>) dec_uint),
      (''maxbatchdelay'', in_field mp_MaxBatchDelay (\<lambda>x p. p\<lparr>mp_MaxBatchDelay := x\<rparr>) dec_uint)]"

definition dec_node_Parameters :: "node_Parameters decoder" where
  "dec_node_Parameters = dec_struct
     [(''consensus'', in_field np_Consensus (\<lambda>x p. p\<lparr>np_Consensus := x\<rparr>) dec_Parameters),
      (''mempool'', in_field np_Mempool (\<lambda>x p. p\<lparr>np_Mempool := x\<rparr>) dec_mp_Parameters)]"

subsection \<open>Files\<close>

record files =
  fs_content :: "string \<Rightarrow> byte list option"
  fs_writable :: "string \<Rightarrow> bool"

definition os_WriteFile :: "files \<Rightarrow> string \<Rightarrow> byte list \<Rightarrow> files \<times> error option" where
  "os_WriteFile fs path data =
     (if fs_writable fs path then (fs\<lparr>fs_content := (fs_content fs)(path \<mapsto> data)\<rparr>, None)
      else (fs, Some OsError))"

definition os_ReadFile :: "files \<Rightarrow> string \<Rightarrow> error + byte list" where
  "os_ReadFile fs path = (case fs_content fs path of Some data \<Rightarrow> Inr data | None \<Rightarrow> Inl OsError)"

definition WriteJSON ::
  "json_text \<Rightarrow> files \<Rightarrow> string \<Rightarrow> (error, json) result \<Rightarrow> files \<times> (error, unit) result" where
  "WriteJSON T fs path v =
     (case v of
        Err err \<Rightarrow> (fs, Err (SerializeJSONFailed err))
      | Panic p \<Rightarrow> (fs, Panic p)
      | Ok j \<Rightarrow>
          (let data = jt_MarshalIndent T j @ [10]
           in case os_WriteFile fs path data of
                (fs1, Some err) \<Rightarrow> (fs1, Err (WriteFileFailed path err))
              | (fs1, None) \<Rightarrow> (fs1, Ok ())))"

definition ReadJSON :: "json_text \<Rightarrow> 'a decoder \<Rightarrow> 'a \<Rightarrow> files \<Rightarrow> string \<Rightarrow> (error, 'a) result" where
  "ReadJSON T dec zero fs path =
     (case os_ReadFile fs path of
        Inl err \<Rightarrow> Err (ReadFileFailed path err)
      | Inr data \<Rightarrow>
          (case jt_Parse T data of
             Inl err \<Rightarrow> Err (DeserializeJSONFailed err)
           | Inr j \<Rightarrow>
               (case dec zero j of
                  Err err \<Rightarrow> Err (DeserializeJSONFailed err)
                | Panic p \<Rightarrow> Panic p
                | Ok v \<Rightarrow> Ok v)))"

abbreviation ReadCommittee :: "json_text \<Rightarrow> ('pk, 'z) peer_ids_scheme \<Rightarrow> files \<Rightarrow> string \<Rightarrow> (error, node_Committee) result" where
  "ReadCommittee T P \<equiv> ReadJSON T (dec_node_Committee P) node_Committee_zero"

abbreviation ReadSecret :: "json_text \<Rightarrow> ('pk, 'z) peer_ids_scheme \<Rightarrow> files \<Rightarrow> string \<Rightarrow> (error, 'pk option Secret) result" where
  "ReadSecret T P \<equiv> ReadJSON T (dec_Secret P) Secret_zero"

abbreviation ReadParameters :: "json_text \<Rightarrow> files \<Rightarrow> string \<Rightarrow> (error, node_Parameters) result" where
  "ReadParameters T \<equiv> ReadJSON T dec_node_Parameters node_Parameters_zero"

subsection \<open>Starting a node from its files\<close>

definition with_file :: "('e, 'a) result \<Rightarrow> (('e + 'a) \<Rightarrow> ('e, 'b) result) \<Rightarrow> ('e, 'b) result" where
  "with_file r f = (case r of Ok v \<Rightarrow> f (Inr v) | Err err \<Rightarrow> f (Inl err) | Panic p \<Rightarrow> Panic p)"

definition listen_addr :: string where
  "listen_addr = ''/ip4/0.0.0.0/tcp/0''"

definition NewNode_files ::
  "json_text \<Rightarrow> ('pk, 'y) peer_ids_scheme \<Rightarrow> ('pk, 'addr, 'info, 'host, 'dht, 'stream, 'z) libp2p_scheme
     \<Rightarrow> (string \<Rightarrow> error + 'db) \<Rightarrow> files \<Rightarrow> string \<Rightarrow> string \<Rightarrow> string \<Rightarrow> string option
     \<Rightarrow> (error, ('agg, 'db) Node) result" where
  "NewNode_files T P H open fs committeeFile keyFile storePath parameterFile =
     with_file (ReadCommittee T P fs committeeFile) (\<lambda>committee.
     with_file (ReadSecret T P fs keyFile) (\<lambda>secret.
     (let start = (\<lambda>parameters. case (committee, secret) of
            (Inr c, Inr s) \<Rightarrow>
              (case NewRoutedHost H listen_addr (se_PeerKey s) (nc_BootstrapPeers c) of
                 Ok host \<Rightarrow> NewNode committee secret parameters (open storePath) None
               | Err err \<Rightarrow> NewNode committee secret parameters (open storePath) (Some err)
               | Panic p \<Rightarrow> (case open storePath of Inl err \<Rightarrow> Err err | Inr db \<Rightarrow> Panic p))
          | _ \<Rightarrow> NewNode committee secret parameters (open storePath) None)
      in case parameterFile of
           None \<Rightarrow> start None
         | Some path \<Rightarrow> with_file (ReadParameters T fs path) (\<lambda>p. start (Some p)))))"

subsection \<open>What is written is read back\<close>

lemma text_of_key [json_simps]: "key_of_text (text_of_key pk) = Ok pk"
  by (simp add: key_of_text_def text_of_key_def pk_MarshalText_def pk_UnmarshalText_def
      string_of_bytes_of_string keys_decode_encode)

lemma keys_from_text [json_simps]:
  "dec_text pk_UnmarshalText v (enc_text (pk_MarshalText pk)) = Ok pk"
  "dec_text sk_UnmarshalText w (enc_text (sk_MarshalText sk)) = Ok sk"
  by (simp_all add: pk_MarshalText_def sk_MarshalText_def dec_text_enc pk_UnmarshalText_def
      sk_UnmarshalText_def string_of_bytes_of_string keys_decode_encode)

lemma dec_PeerID_ok [json_simps]: "peer_id_ok P pid \<Longrightarrow> dec_PeerID P v (lp_MarshalID P pid) = Ok pid"
  by (simp add: peer_id_ok_def dec_PeerID_def)

lemmas struct_simps = in_field_def field_of_def json_simps

lemma dec_Authority_ok [json_simps]:
  "peer_id_ok P (au_Address a) \<Longrightarrow> dec_Authority P v (Authority_json P a) = Ok a"
  by (simp add: dec_Authority_def Authority_json_def struct_simps)

lemma dec_mp_Authority_ok [json_simps]:
  "peer_id_ok P (mpa_Address a) \<Longrightarrow> dec_mp_Authority P v (mp_Authority_json P a) = Ok a"
  by (simp add: dec_mp_Authority_def mp_Authority_json_def struct_simps)

definition committee_ids :: "node_Committee \<Rightarrow> PeerID set" where
  "committee_ids c = au_Address ` snd ` set (cm_entries (nc_Consensus c))
     \<union> mpa_Address ` snd ` set (mpc_entries (nc_Mempool c))"

definition sorted_committee :: "node_Committee \<Rightarrow> node_Committee" where
  "sorted_committee c = c
     \<lparr>nc_Consensus := (nc_Consensus c)\<lparr>cm_Authorities := sorted_map text_of_key (cm_Authorities (nc_Consensus c))\<rparr>,
      nc_Mempool := (nc_Mempool c)\<lparr>mpc_Authorities := sorted_map text_of_key (mpc_Authorities (nc_Mempool c))\<rparr>\<rparr>"

lemma dec_node_Committee_ok:
  assumes "\<And>pid. pid \<in> committee_ids c \<Longrightarrow> peer_id_ok P pid"
  shows "dec_node_Committee P node_Committee_zero (node_Committee_json P c) = Ok (sorted_committee c)"
proof -
  have ids: "peer_id_ok P (au_Address a)" if "(k, a) \<in> set (cm_entries (nc_Consensus c))" for k a
    using that by (intro assms) (force simp: committee_ids_def)
  have mp_ids: "peer_id_ok P (mpa_Address a)" if "(k, a) \<in> set (mpc_entries (nc_Mempool c))" for k a
    using that by (intro assms) (force simp: committee_ids_def)
  have 1: "dec_map key_of_text \<lparr>au_Stake = 0, au_Address = []\<rparr> (dec_Authority P) DAList.empty
      (enc_map text_of_key (Authority_json P) (cm_Authorities (nc_Consensus c)))
    = Ok (sorted_map text_of_key (cm_Authorities (nc_Consensus c)))"
    by (rule dec_map_enc) (auto simp: json_simps dest: ids)
  have 2: "dec_map key_of_text \<lparr>mpa_Stake = 0, mpa_Address = []\<rparr> (dec_mp_Authority P) DAList.empty
      (enc_map text_of_key (mp_Authority_json P) (mpc_Authorities (nc_Mempool c)))
    = Ok (sorted_map text_of_key (mpc_Authorities (nc_Mempool c)))"
    by (rule dec_map_enc) (auto simp: json_simps dest: mp_ids)
  have "dec_Committee P (nc_Consensus node_Committee_zero) (Committee_json P (nc_Consensus c))
      = Ok (nc_Consensus (sorted_committee c))"
    using 1 by (simp add: dec_Committee_def Committee_json_def struct_simps node_Committee_zero_def
        sorted_committee_def)
  moreover have "dec_mp_Committee P (nc_Mempool node_Committee_zero) (mp_Committee_json P (nc_Mempool c))
      = Ok (nc_Mempool (sorted_committee c))"
    using 2 by (simp add: dec_mp_Committee_def mp_Committee_json_def struct_simps node_Committee_zero_def
        sorted_committee_def)
  ultimately show ?thesis
    by (simp add: dec_node_Committee_def node_Committee_json_def struct_simps del: dec_slice.simps)
      (simp add: node_Committee_zero_def sorted_committee_def)
qed

lemma dec_Secret_ok:
  assumes "peer_key_ok (peer_lib.truncate P)" "Secret_json P s = Ok j"
  shows "dec_Secret P v j = Ok s"
proof -
  obtain key tx where key: "se_PeerKey s = Some key" "peer_MarshalText (peer_lib.truncate P) key = Ok tx"
      and j: "j = JObject [(''name'', enc_text (pk_MarshalText (se_Name s))),
        (''secret'', enc_text (sk_MarshalText (se_Secret s))), (''peerkey'', enc_text tx)]"
    using assms(2) by (auto simp: Secret_json_def go_simps split: option.splits)
  have "tx = bytes_of_string (string_of_bytes tx)"
    using key(2) by (auto simp: peer_MarshalText_def string_of_bytes_of_string split: sum.splits)
  then have "dec_peer_key P w (enc_text tx) = Ok (Some key)" for w
    using peer_key_roundtrip [OF assms(1) key(2)] dec_text_enc [of _ w "string_of_bytes tx"]
    by (simp add: dec_peer_key_def)
  then show ?thesis
    using key(1) by (simp add: dec_Secret_def j struct_simps)
qed

lemma dec_node_Parameters_ok: "dec_node_Parameters v (node_Parameters_json p) = Ok p"
  by (simp add: dec_node_Parameters_def node_Parameters_json_def dec_Parameters_def
      dec_mp_Parameters_def struct_simps)

subsection \<open>The trees are plain\<close>

lemma bytes_text_plain [json_simps]:
  "json_plain d (enc_text (pk_MarshalText pk))" "json_plain d (enc_text (sk_MarshalText sk))"
  by (simp_all add: pk_MarshalText_def sk_MarshalText_def pk_encodeBase64_def sk_encodeBase64_def
      json_plain_text EncodeToString_ascii)

lemma text_of_key_ascii: "ascii (text_of_key pk)"
  by (simp add: text_of_key_def pk_MarshalText_def pk_encodeBase64_def string_of_bytes_of_string
      EncodeToString_ascii)

lemma peer_id_plain: "peer_id_ok P pid \<Longrightarrow> json_plain d (lp_MarshalID P pid)"
  by (auto simp: peer_id_ok_def intro: json_plain_mono)

lemma ascii_name [json_simps]: "ascii [] = True" "ascii (c # s) = (of_char c < (128 :: nat) \<and> ascii s)"
  by (simp_all add: ascii_def)

lemma node_Committee_plain:
  assumes "\<And>pid. pid \<in> committee_ids c \<Longrightarrow> peer_id_ok P pid" "\<forall>s\<in>set (nc_BootstrapPeers c). ascii s"
  shows "json_plain 10000 (node_Committee_json P c)"
proof -
  have ids: "json_plain d (lp_MarshalID P (au_Address a))" if "(k, a) \<in> set (cm_entries (nc_Consensus c))" for k a d
    using that by (intro peer_id_plain assms(1)) (force simp: committee_ids_def)
  have mp_ids: "json_plain d (lp_MarshalID P (mpa_Address a))" if "(k, a) \<in> set (mpc_entries (nc_Mempool c))" for k a d
    using that by (intro peer_id_plain assms(1)) (force simp: committee_ids_def)
  have "json_plain 9998 (enc_map text_of_key (Authority_json P) (cm_Authorities (nc_Consensus c)))"
    by (rule json_plain_map) (auto simp: text_of_key_ascii Authority_json_def json_simps ids)
  moreover have "json_plain 9998 (enc_map text_of_key (mp_Authority_json P) (mpc_Authorities (nc_Mempool c)))"
    by (rule json_plain_map) (auto simp: text_of_key_ascii mp_Authority_json_def json_simps mp_ids)
  ultimately show ?thesis
    using assms(2) by (simp add: node_Committee_json_def Committee_json_def mp_Committee_json_def json_simps)
qed

lemma Secret_plain: "Secret_json P s = Ok j \<Longrightarrow> json_plain 10000 j"
  by (auto simp: Secret_json_def go_simps json_simps peer_MarshalText_def json_plain_text
      EncodeToString_ascii split: option.splits sum.splits)

lemma node_Parameters_plain: "json_plain 10000 (node_Parameters_json p)"
  by (simp add: node_Parameters_json_def json_simps)

subsection \<open>Files that were written\<close>

lemma WriteJSON_frame:
  assumes "WriteJSON T fs path v = (fs1, r)"
  shows "fs_writable fs1 = fs_writable fs" "q \<noteq> path \<Longrightarrow> fs_content fs1 q = fs_content fs q"
  using assms by (auto simp: WriteJSON_def os_WriteFile_def Let_def split: result.splits if_splits)

lemma WriteJSON_Ok: "fs_writable fs path \<Longrightarrow> snd (WriteJSON T fs path (Ok j)) = Ok ()"
  by (simp add: WriteJSON_def os_WriteFile_def Let_def)

lemma ReadJSON_frame: "fs_content fs1 q = fs_content fs q \<Longrightarrow> ReadJSON T dec zero fs1 q = ReadJSON T dec zero fs q"
  by (simp add: ReadJSON_def os_ReadFile_def)

lemma ReadJSON_WriteJSON:
  assumes "WriteJSON T fs path (Ok j) = (fs1, Ok ())" "json_text_ok T" "json_plain 10000 j"
    and "dec zero j = Ok v"
  shows "ReadJSON T dec zero fs1 path = Ok v"
  using assms by (auto simp: WriteJSON_def ReadJSON_def os_WriteFile_def os_ReadFile_def json_text_ok_def
      Let_def split: if_splits)

lemma WriteJSON_Ok_cases:
  assumes "WriteJSON T fs path v = (fs1, Ok ())"
  obtains j where "v = Ok j" "WriteJSON T fs path (Ok j) = (fs1, Ok ())"
  using assms by (cases v) (auto simp: WriteJSON_def)

lemma committee_file:
  assumes "WriteJSON T fs path (Ok (node_Committee_json P c)) = (fs1, Ok ())" "json_text_ok T"
    and "\<And>pid. pid \<in> committee_ids c \<Longrightarrow> peer_id_ok P pid" "\<forall>s\<in>set (nc_BootstrapPeers c). ascii s"
  shows "ReadCommittee T P fs1 path = Ok (sorted_committee c)"
proof (rule ReadJSON_WriteJSON [OF assms(1,2)])
  show "json_plain 10000 (node_Committee_json P c)" by (rule node_Committee_plain; fact)
  show "dec_node_Committee P node_Committee_zero (node_Committee_json P c) = Ok (sorted_committee c)"
    by (rule dec_node_Committee_ok) (rule assms(3))
qed

lemma secret_file:
  assumes "WriteJSON T fs path (Secret_json P s) = (fs1, Ok ())" "json_text_ok T"
    and "peer_key_ok (peer_lib.truncate P)"
  shows "ReadSecret T P fs1 path = Ok s"
  using assms(1)
proof (rule WriteJSON_Ok_cases)
  fix j assume j: "Secret_json P s = Ok j" "WriteJSON T fs path (Ok j) = (fs1, Ok ())"
  show ?thesis
    by (rule ReadJSON_WriteJSON [OF j(2) assms(2) Secret_plain [OF j(1)]]) (rule dec_Secret_ok [OF assms(3) j(1)])
qed

lemma parameters_file:
  assumes "WriteJSON T fs path (Ok (node_Parameters_json p)) = (fs1, Ok ())" "json_text_ok T"
  shows "ReadParameters T fs1 path = Ok p"
  by (rule ReadJSON_WriteJSON [OF assms node_Parameters_plain]) (rule dec_node_Parameters_ok)

text \<open>The committee that is read has the stakes, addresses and threshold of the one that was written.\<close>

lemma foldl_word_sum: "foldl (\<lambda>t x. t + f x) a xs = a + (sum_list (map f xs) :: 'w::len word)"
  by (induction xs arbitrary: a) (simp_all add: ac_simps)

lemma sorted_threshold [simp]:
  "QuorumThreshold (nc_Consensus (sorted_committee c)) = QuorumThreshold (nc_Consensus c)"
  "mp_QuorumThreshold (nc_Mempool (sorted_committee c)) = mp_QuorumThreshold (nc_Mempool c)"
proof -
  have sum: "foldl (\<lambda>t (_, a). t + f a) 0 (by_key key xs) = foldl (\<lambda>t (_, a). t + f a) 0 xs"
    for f :: "'v \<Rightarrow> u32" and key and xs :: "('k \<times> 'v) list"
  proof -
    have "sum_list (map (\<lambda>(_, a). f a) ys) = sum_mset (image_mset (\<lambda>(_, a). f a) (mset ys))" for ys :: "('k \<times> 'v) list"
      by (simp flip: sum_mset_sum_list)
    then have "sum_list (map (\<lambda>(_, a). f a) (by_key key xs)) = sum_list (map (\<lambda>(_, a). f a) xs)" by simp
    then show ?thesis using foldl_word_sum [of "\<lambda>(_ :: 'k, a). f a"] by (simp add: case_prod_unfold)
  qed
  show "QuorumThreshold (nc_Consensus (sorted_committee c)) = QuorumThreshold (nc_Consensus c)"
    by (simp add: QuorumThreshold_def sorted_committee_def sum)
  show "mp_QuorumThreshold (nc_Mempool (sorted_committee c)) = mp_QuorumThreshold (nc_Mempool c)"
    by (simp add: mp_QuorumThreshold_def sorted_committee_def sum)
qed

lemma sorted_stakes [simp]:
  "Committee_Stake (nc_Consensus (sorted_committee c)) name = Committee_Stake (nc_Consensus c) name"
  "Committee_Address (nc_Consensus (sorted_committee c)) name = Committee_Address (nc_Consensus c) name"
  "mp_Stake (nc_Mempool (sorted_committee c)) name = mp_Stake (nc_Mempool c) name"
  "mp_MempoolAddress (nc_Mempool (sorted_committee c)) name = mp_MempoolAddress (nc_Mempool c) name"
  by (simp_all add: Committee_Stake_def Committee_Address_def mp_Stake_def mp_MempoolAddress_def
      sorted_committee_def)

end
