(* ===== verification/Cli.thy ===== *)
theory Cli
  imports ConfigFiles
begin

text \<open>
  The commands of \<open>clitests.go\<close> that make and use a local configuration, and the same helpers of
  \<open>testutil/util.go\<close>. What the random sources deliver is an argument: the key material of the
  \<open>i\<close>-th key pair and the \<open>i\<close>-th peer key. A command returns the files and how it ended.
\<close>

subsection \<open>Secrets\<close>

record 'pk random =
  rnd_ikm :: "nat \<Rightarrow> byte list"
  rnd_key :: "nat \<Rightarrow> error + 'pk"

definition secretCount :: nat where
  "secretCount = 4"

definition secret_file :: "string \<Rightarrow> string" where
  "secret_file no = ''secret_'' @ no @ ''.sc''"

definition teststore_file :: "string \<Rightarrow> string" where
  "teststore_file no = ''teststore_'' @ no @ ''.sc''"

definition committee_file_name :: string where
  "committee_file_name = ''testcommittee.cmt''"

definition new_secret ::
  "('sk, 'p1, 'p2, 'agg, 'y) crypto_lib_scheme \<Rightarrow> byte list \<Rightarrow> 'pk \<Rightarrow> 'pk option Secret" where
  "new_secret L ikm peerkey =
     (let (secret, name) = GenerateKeypair L ikm
      in \<lparr>se_Name = name, se_Secret = secret, se_PeerKey = Some peerkey\<rparr>)"

text \<open>The error of \<open>WriteJSON\<close> is not looked at, here and below.\<close>

fun genSecrets_loop ::
  "('sk, 'p1, 'p2, 'agg, 'y) crypto_lib_scheme \<Rightarrow> ('pk, 'z) peer_ids_scheme \<Rightarrow> json_text \<Rightarrow> 'pk random
     \<Rightarrow> files \<Rightarrow> nat list \<Rightarrow> files \<times> (error, unit) result" where
  "genSecrets_loop L P T R fs [] = (fs, Ok ())"
| "genSecrets_loop L P T R fs (i # is) =
     (case rnd_key R i of
        Inl err \<Rightarrow> (fs, Panic ExplicitPanic)
      | Inr peerkey \<Rightarrow>
          (case WriteJSON T fs (secret_file (decimal i)) (Secret_json P (new_secret L (rnd_ikm R i) peerkey)) of
             (fs1, Panic p) \<Rightarrow> (fs1, Panic p)
           | (fs1, _) \<Rightarrow> genSecrets_loop L P T R fs1 is))"

definition genSecrets ::
  "('sk, 'p1, 'p2, 'agg, 'y) crypto_lib_scheme \<Rightarrow> ('pk, 'z) peer_ids_scheme \<Rightarrow> json_text \<Rightarrow> 'pk random
     \<Rightarrow> files \<Rightarrow> files \<times> (error, unit) result" where
  "genSecrets L P T R fs = genSecrets_loop L P T R fs [0..<secretCount]"

subsection \<open>The committee\<close>

definition info_of :: "PublicKey \<Rightarrow> PeerID \<Rightarrow> AuthorityInfo" where
  "info_of name address = \<lparr>ai_Author = name, ai_Stake = 1, ai_Address = address\<rparr>"

definition mp_info_of :: "PublicKey \<Rightarrow> PeerID \<Rightarrow> mp_AuthorityInfo" where
  "mp_info_of name address = \<lparr>mpi_Author = name, mpi_Stake = 1, mpi_Address = address\<rparr>"

fun authority_infos ::
  "('pk, 'z) peer_ids_scheme \<Rightarrow> json_text \<Rightarrow> files \<Rightarrow> nat list
     \<Rightarrow> (error, (AuthorityInfo \<times> mp_AuthorityInfo) list) result" where
  "authority_infos P T fs [] = Ok []"
| "authority_infos P T fs (i # is) =
     (case ReadSecret T P fs (secret_file (decimal i)) of
        Err err \<Rightarrow> Panic ExplicitPanic
      | Panic p \<Rightarrow> Panic p
      | Ok ithSecret \<Rightarrow>
          (case se_PeerKey ithSecret of
             None \<Rightarrow> Panic NilDeref
           | Some key \<Rightarrow>
               (case lp_IDFromPrivateKey P key of
                  Inl err \<Rightarrow> Panic ExplicitPanic
                | Inr address \<Rightarrow>
                    bind_result (authority_infos P T fs is) (\<lambda>infos.
                      Ok ((info_of (se_Name ithSecret) address,
                           mp_info_of (se_Name ithSecret) address) # infos)))))"

definition new_committee :: "(AuthorityInfo \<times> mp_AuthorityInfo) list \<Rightarrow> string list \<Rightarrow> node_Committee" where
  "new_committee infos bootstrapNodes =
     \<lparr>nc_Consensus = NewCommittee (map fst infos) 1, nc_Mempool = mp_NewCommittee (map snd infos) 1,
      nc_BootstrapPeers = bootstrapNodes\<rparr>"

definition generateCommittee ::
  "('pk, 'z) peer_ids_scheme \<Rightarrow> json_text \<Rightarrow> files \<Rightarrow> string \<Rightarrow> files \<times> (error, unit) result" where
  "generateCommittee P T fs bsNode =
     (case authority_infos P T fs [0..<secretCount] of
        Err err \<Rightarrow> (fs, Err err)
      | Panic p \<Rightarrow> (fs, Panic p)
      | Ok infos \<Rightarrow>
          (fst (WriteJSON T fs committee_file_name
              (Ok (node_Committee_json P (new_committee infos [bsNode])))), Ok ()))"

subsection \<open>Running nodes\<close>

definition testRun ::
  "json_text \<Rightarrow> ('pk, 'y) peer_ids_scheme \<Rightarrow> ('pk, 'addr, 'info, 'host, 'dht, 'stream, 'z) libp2p_scheme
     \<Rightarrow> (string \<Rightarrow> error + 'db) \<Rightarrow> files \<Rightarrow> string \<Rightarrow> (error, ('agg, 'db) Node) result" where
  "testRun T P H open fs secretNo =
     (case NewNode_files T P H open fs committee_file_name (secret_file secretNo)
             (teststore_file secretNo) None of
        Err err \<Rightarrow> Panic ExplicitPanic
      | Panic p \<Rightarrow> Panic p
      | Ok node \<Rightarrow> Ok node)"

text \<open>\<open>fullTest\<close> starts all nodes in one process; the nodes it returns are those that run when it spins.\<close>

definition fullTest ::
  "json_text \<Rightarrow> ('pk, 'y) peer_ids_scheme \<Rightarrow> ('pk, 'addr, 'info, 'host, 'dht, 'stream, 'z) libp2p_scheme
     \<Rightarrow> (string \<Rightarrow> error + 'db) \<Rightarrow> files \<Rightarrow> (error, ('agg, 'db) Node list) result" where
  "fullTest T P H open fs = map_result (\<lambda>i. testRun T P H open fs (decimal i)) [0..<secretCount]"

subsection \<open>The helpers of the tests\<close>

text \<open>\<open>CreateConfig\<close> makes the secrets and the committee of \<open>nodes\<close> nodes in one directory.\<close>

definition dir_file :: "string \<Rightarrow> string \<Rightarrow> string" where
  "dir_file dir name = dir @ ''/'' @ name"

fun create_secrets ::
  "('sk, 'p1, 'p2, 'agg, 'y) crypto_lib_scheme \<Rightarrow> ('pk, 'z) peer_ids_scheme \<Rightarrow> json_text \<Rightarrow> 'pk random
     \<Rightarrow> string \<Rightarrow> files \<Rightarrow> nat list
     \<Rightarrow> files \<times> (error, (string \<times> AuthorityInfo \<times> mp_AuthorityInfo) list) result" where
  "create_secrets L P T R dir fs [] = (fs, Ok [])"
| "create_secrets L P T R dir fs (i # is) =
     (case rnd_key R i of
        Inl err \<Rightarrow> (fs, Err err)
      | Inr peerkey \<Rightarrow>
          (let newSecret = new_secret L (rnd_ikm R i) peerkey;
               secretFileName = dir_file dir (decimal i @ ''.sc'')
           in case WriteJSON T fs secretFileName (Secret_json P newSecret) of
                (fs1, Panic p) \<Rightarrow> (fs1, Panic p)
              | (fs1, _) \<Rightarrow>
                  (case lp_IDFromPrivateKey P peerkey of
                     Inl err \<Rightarrow> (fs1, Err err)
                   | Inr address \<Rightarrow>
                       (let (fs2, rest) = create_secrets L P T R dir fs1 is
                        in (fs2, bind_result rest (\<lambda>infos.
                          Ok ((secretFileName, info_of (se_Name newSecret) address,
                               mp_info_of (se_Name newSecret) address) # infos)))))))"

definition CreateConfig ::
  "('sk, 'p1, 'p2, 'agg, 'y) crypto_lib_scheme \<Rightarrow> ('pk, 'z) peer_ids_scheme \<Rightarrow> json_text \<Rightarrow> 'pk random
     \<Rightarrow> string \<Rightarrow> files \<Rightarrow> nat \<Rightarrow> string list \<Rightarrow> files \<times> (error, string \<times> string list) result" where
  "CreateConfig L P T R dir fs nodes bootstrapAddrs =
     (case create_secrets L P T R dir fs [0..<nodes] of
        (fs1, Err err) \<Rightarrow> (fs1, Err err)
      | (fs1, Panic p) \<Rightarrow> (fs1, Panic p)
      | (fs1, Ok infos) \<Rightarrow>
          (let committeeFile = dir_file dir ''committee''
           in (fst (WriteJSON T fs1 committeeFile
                 (Ok (node_Committee_json P (new_committee (map snd infos) bootstrapAddrs)))),
               Ok (committeeFile, map fst infos))))"

definition LoadConfig ::
  "('pk, 'z) peer_ids_scheme \<Rightarrow> json_text \<Rightarrow> files \<Rightarrow> string \<Rightarrow> string list
     \<Rightarrow> (error, node_Committee \<times> 'pk option Secret list) result" where
  "LoadConfig P T fs committeeFile secretFiles =
     bind_result (ReadCommittee T P fs committeeFile) (\<lambda>committee.
     bind_result (map_result (ReadSecret T P fs) secretFiles) (\<lambda>secrets. Ok (committee, secrets)))"

definition CreateBootstrap ::
  "('pk, 'addr, 'info, 'host, 'dht, 'stream, 'z) libp2p_scheme \<Rightarrow> (error + 'pk) \<Rightarrow> (error, string list) result" where
  "CreateBootstrap H newkey =
     (case newkey of
        Inl err \<Rightarrow> Err err
      | Inr priv \<Rightarrow>
          bind_result (NewRoutedHost H listen_addr (Some priv) []) (\<lambda>host. Ok (RoutedHost_Addrs H host)))"

text \<open>\<open>bootstrapper\<close> prints its addresses and then waits forever.\<close>

definition bootstrapper ::
  "('pk, 'addr, 'info, 'host, 'dht, 'stream, 'z) libp2p_scheme \<Rightarrow> (error + 'pk) \<Rightarrow> (error, string list) result" where
  "bootstrapper H newkey =
     (case newkey of
        Inl err \<Rightarrow> Panic ExplicitPanic
      | Inr priv \<Rightarrow>
          (case NewRoutedHost H listen_addr (Some priv) [] of
             Err err \<Rightarrow> Panic ExplicitPanic
           | Panic p \<Rightarrow> Panic p
           | Ok host \<Rightarrow> Ok (PrintAddrs H host)))"

end
