(* ===== verification/Boot.thy ===== *)
theory Boot
  imports Cli
begin

text \<open>
  A local configuration works: the secrets that \<open>genSecrets\<close> writes are read back by
  \<open>generateCommittee\<close>, and with the committee it writes every node starts, all of them with the same
  four authorities of one unit of stake each.
\<close>

subsection \<open>Committees with distinct names\<close>

lemma add_authorities_fresh:
  assumes "distinct (map fst (DAList.impl_of m) @ map ai_Author infos)"
  shows "DAList.impl_of (add_authorities m infos) = DAList.impl_of m
    @ map (\<lambda>a. (ai_Author a, \<lparr>au_Stake = ai_Stake a, au_Address = ai_Address a\<rparr>)) infos"
  using assms
proof (induction infos arbitrary: m)
  case (Cons a infos)
  let ?v = "\<lparr>au_Stake = ai_Stake a, au_Address = ai_Address a\<rparr>"
  have fresh: "DAList.impl_of (DAList.update (ai_Author a) ?v m) = DAList.impl_of m @ [(ai_Author a, ?v)]"
    using Cons.prems by (intro update_fresh) auto
  show ?case
    using Cons.IH [of "DAList.update (ai_Author a) ?v m"] Cons.prems by (simp add: fresh)
qed simp

lemma NewCommittee_entries:
  "distinct (map ai_Author infos) \<Longrightarrow> cm_entries (NewCommittee infos e)
     = map (\<lambda>a. (ai_Author a, \<lparr>au_Stake = ai_Stake a, au_Address = ai_Address a\<rparr>)) infos"
  using add_authorities_fresh [of DAList.empty infos] by (simp add: NewCommittee_def DAList.empty.rep_eq)

lemma mp_add_authorities_fresh:
  assumes "distinct (map fst (DAList.impl_of m) @ map mpi_Author infos)"
  shows "DAList.impl_of (mp_add_authorities m infos) = DAList.impl_of m
    @ map (\<lambda>a. (mpi_Author a, \<lparr>mpa_Stake = mpi_Stake a, mpa_Address = mpi_Address a\<rparr>)) infos"
  using assms
proof (induction infos arbitrary: m)
  case (Cons a infos)
  let ?v = "\<lparr>mpa_Stake = mpi_Stake a, mpa_Address = mpi_Address a\<rparr>"
  have fresh: "DAList.impl_of (DAList.update (mpi_Author a) ?v m) = DAList.impl_of m @ [(mpi_Author a, ?v)]"
    using Cons.prems by (intro update_fresh) auto
  show ?case
    using Cons.IH [of "DAList.update (mpi_Author a) ?v m"] Cons.prems by (simp add: fresh)
qed simp

lemma mp_NewCommittee_entries:
  "distinct (map mpi_Author infos) \<Longrightarrow> mpc_entries (mp_NewCommittee infos e)
     = map (\<lambda>a. (mpi_Author a, \<lparr>mpa_Stake = mpi_Stake a, mpa_Address = mpi_Address a\<rparr>)) infos"
  using mp_add_authorities_fresh [of DAList.empty infos]
  by (simp add: mp_NewCommittee_def DAList.empty.rep_eq)

text \<open>One authority of one unit for each name and address.\<close>

definition unit_infos :: "(PublicKey \<times> PeerID) list \<Rightarrow> (AuthorityInfo \<times> mp_AuthorityInfo) list" where
  "unit_infos nas = map (\<lambda>(name, address). (info_of name address, mp_info_of name address)) nas"

lemma foldl_units: "foldl (\<lambda>t x. t + (1 :: 'w::len word)) a xs = a + of_nat (length xs)"
  by (induction xs arbitrary: a) (simp_all add: ac_simps)

lemma unit_committee:
  assumes "distinct (map fst nas)"
  shows "cm_entries (NewCommittee (map fst (unit_infos nas)) e)
      = map (\<lambda>(name, address). (name, \<lparr>au_Stake = 1, au_Address = address\<rparr>)) nas"
    "mpc_entries (mp_NewCommittee (map snd (unit_infos nas)) e)
      = map (\<lambda>(name, address). (name, \<lparr>mpa_Stake = 1, mpa_Address = address\<rparr>)) nas"
    "QuorumThreshold (NewCommittee (map fst (unit_infos nas)) e) = 2 * of_nat (length nas) div 3 + 1"
    "mp_QuorumThreshold (mp_NewCommittee (map snd (unit_infos nas)) e) = 2 * of_nat (length nas) div 3 + 1"
proof -
  have names: "map ai_Author (map fst (unit_infos nas)) = map fst nas"
      "map mpi_Author (map snd (unit_infos nas)) = map fst nas"
    by (auto simp: unit_infos_def info_of_def mp_info_of_def)
  show 1: "cm_entries (NewCommittee (map fst (unit_infos nas)) e)
      = map (\<lambda>(name, address). (name, \<lparr>au_Stake = 1, au_Address = address\<rparr>)) nas"
    by (rule trans [OF NewCommittee_entries]) (use assms names(1) in simp, auto simp: unit_infos_def info_of_def)
  show 2: "mpc_entries (mp_NewCommittee (map snd (unit_infos nas)) e)
      = map (\<lambda>(name, address). (name, \<lparr>mpa_Stake = 1, mpa_Address = address\<rparr>)) nas"
    by (rule trans [OF mp_NewCommittee_entries]) (use assms names(2) in simp, auto simp: unit_infos_def mp_info_of_def)
  show "QuorumThreshold (NewCommittee (map fst (unit_infos nas)) e) = 2 * of_nat (length nas) div 3 + 1"
    using foldl_units [of "0 :: u32" nas] by (simp add: QuorumThreshold_def 1 foldl_map case_prod_unfold)
  show "mp_QuorumThreshold (mp_NewCommittee (map snd (unit_infos nas)) e) = 2 * of_nat (length nas) div 3 + 1"
    using foldl_units [of "0 :: u32" nas] by (simp add: mp_QuorumThreshold_def 2 foldl_map case_prod_unfold)
qed

lemma unit_lookup:
  assumes "distinct (map fst nas)" "(name, address) \<in> set nas"
  shows "DAList.lookup (cm_Authorities (NewCommittee (map fst (unit_infos nas)) e)) name
      = Some \<lparr>au_Stake = 1, au_Address = address\<rparr>"
    "DAList.lookup (mpc_Authorities (mp_NewCommittee (map snd (unit_infos nas)) e)) name
      = Some \<lparr>mpa_Stake = 1, mpa_Address = address\<rparr>"
  using assms by (auto simp: DAList.lookup.rep_eq unit_committee map_of_map comp_def map_of_eq_Some_iff
      image_iff)

subsection \<open>What the libraries have to deliver\<close>

text \<open>
  \<open>key i\<close> is the peer key that is generated for node \<open>i\<close> and \<open>pid i\<close> its peer ID; both can be written
  as text.
\<close>

definition random_ok ::
  "('pk, 'z) peer_ids_scheme \<Rightarrow> 'pk random \<Rightarrow> (nat \<Rightarrow> 'pk) \<Rightarrow> (nat \<Rightarrow> PeerID) \<Rightarrow> nat \<Rightarrow> bool" where
  "random_ok P R key pid n \<longleftrightarrow> peer_key_ok (peer_lib.truncate P)
     \<and> (\<forall>i<n. rnd_key R i = Inr (key i) \<and> lp_IDFromPrivateKey P (key i) = Inr (pid i)
          \<and> peer_id_ok P (pid i) \<and> (case lp_Marshal P (key i) of Inr bs \<Rightarrow> True | Inl e \<Rightarrow> False))"

abbreviation names_of :: "('sk, 'p1, 'p2, 'agg, 'y) crypto_lib_scheme \<Rightarrow> 'pk random \<Rightarrow> nat \<Rightarrow> PublicKey" where
  "names_of L R i \<equiv> snd (GenerateKeypair L (rnd_ikm R i))"

abbreviation secret_of ::
  "('sk, 'p1, 'p2, 'agg, 'y) crypto_lib_scheme \<Rightarrow> 'pk random \<Rightarrow> (nat \<Rightarrow> 'pk) \<Rightarrow> nat \<Rightarrow> 'pk option Secret" where
  "secret_of L R key i \<equiv> new_secret L (rnd_ikm R i) (key i)"

lemma se_Name_new [simp]: "se_Name (new_secret L ikm k) = snd (GenerateKeypair L ikm)"
    "se_PeerKey (new_secret L ikm k) = Some k"
  by (simp_all add: new_secret_def case_prod_unfold Let_def)

lemma Secret_json_ok:
  assumes "case lp_Marshal P k of Inr bs \<Rightarrow> True | Inl e \<Rightarrow> False"
  shows "\<exists>j. Secret_json P (new_secret L ikm k) = Ok j"
  using assms by (auto simp: Secret_json_def peer_MarshalText_def peer_lib.defs split: sum.splits)

lemma secret_file_inject [simp]: "secret_file a = secret_file b \<longleftrightarrow> a = b"
  by (simp add: secret_file_def)

lemma secret_file_committee [simp]: "secret_file a \<noteq> committee_file_name" "committee_file_name \<noteq> secret_file a"
  by (simp_all add: secret_file_def committee_file_name_def)

subsection \<open>Writing and reading the secrets\<close>

lemma write_secret:
  assumes "json_text_ok T" "random_ok P R key pid n" "i < n" "fs_writable fs path"
  shows "\<exists>fs1. WriteJSON T fs path (Secret_json P (secret_of L R key i)) = (fs1, Ok ())
    \<and> ReadSecret T P fs1 path = Ok (secret_of L R key i)"
proof -
  have "case lp_Marshal P (key i) of Inr bs \<Rightarrow> True | Inl e \<Rightarrow> False"
    using assms(2,3) by (simp add: random_ok_def)
  from Secret_json_ok [OF this] obtain j where j: "Secret_json P (secret_of L R key i) = Ok j" ..
  obtain fs1 where w: "WriteJSON T fs path (Ok j) = (fs1, Ok ())"
    using WriteJSON_Ok [of fs path T j] assms(4) by (metis prod.collapse)
  have "ReadSecret T P fs1 path = Ok (secret_of L R key i)"
  proof (rule secret_file)
    show "WriteJSON T fs path (Secret_json P (secret_of L R key i)) = (fs1, Ok ())" by (simp only: j w)
    show "json_text_ok T" by (rule assms(1))
    show "peer_key_ok (peer_lib.truncate P)" using assms(2) by (simp add: random_ok_def)
  qed
  then show ?thesis using w j by auto
qed

lemma genSecrets_loop_reads:
  assumes "json_text_ok T" "random_ok P R key pid n" "\<forall>i\<in>set is. i < n" "distinct is"
    and "\<forall>path. fs_writable fs path"
  shows "\<exists>fs1. genSecrets_loop L P T R fs is = (fs1, Ok ()) \<and> (\<forall>path. fs_writable fs1 path)
    \<and> (\<forall>i\<in>set is. ReadSecret T P fs1 (secret_file (decimal i)) = Ok (secret_of L R key i))
    \<and> (\<forall>q. (\<forall>i\<in>set is. q \<noteq> secret_file (decimal i)) \<longrightarrow> fs_content fs1 q = fs_content fs q)"
  using assms
proof (induction "is" arbitrary: fs)
  case (Cons i rest)
  let ?f = "secret_file (decimal i)"
  have i: "i < n" "rnd_key R i = Inr (key i)" using Cons.prems by (auto simp: random_ok_def)
  obtain fs1 where w: "WriteJSON T fs ?f (Secret_json P (secret_of L R key i)) = (fs1, Ok ())"
      and r: "ReadSecret T P fs1 ?f = Ok (secret_of L R key i)"
    using write_secret [OF Cons.prems(1,2) i(1)] Cons.prems(5) by blast
  have "\<forall>path. fs_writable fs1 path" using WriteJSON_frame(1) [OF w] Cons.prems(5) by simp
  then obtain fs2 where rest: "genSecrets_loop L P T R fs1 rest = (fs2, Ok ())" "\<forall>path. fs_writable fs2 path"
      "\<forall>i\<in>set rest. ReadSecret T P fs2 (secret_file (decimal i)) = Ok (secret_of L R key i)"
      "\<forall>q. (\<forall>i\<in>set rest. q \<noteq> secret_file (decimal i)) \<longrightarrow> fs_content fs2 q = fs_content fs1 q"
    using Cons.IH [of fs1] Cons.prems by auto
  have "\<forall>k\<in>set rest. ?f \<noteq> secret_file (decimal k)" using Cons.prems(4) by auto
  then have "fs_content fs2 ?f = fs_content fs1 ?f" using rest(4) by blast
  then have "ReadSecret T P fs2 ?f = Ok (secret_of L R key i)" using r ReadJSON_frame by metis
  moreover have "genSecrets_loop L P T R fs (i # rest) = (fs2, Ok ())" using i(2) w rest(1) by simp
  ultimately show ?case using rest WriteJSON_frame(2) [OF w] by auto
qed simp

definition names_addresses ::
  "('sk, 'p1, 'p2, 'agg, 'y) crypto_lib_scheme \<Rightarrow> 'pk random \<Rightarrow> (nat \<Rightarrow> PeerID) \<Rightarrow> nat list
     \<Rightarrow> (PublicKey \<times> PeerID) list" where
  "names_addresses L R pid is = map (\<lambda>i. (names_of L R i, pid i)) is"

lemma authority_infos_read:
  assumes "random_ok P R key pid n" "\<forall>i\<in>set is. i < n"
    and "\<forall>i\<in>set is. ReadSecret T P fs (secret_file (decimal i)) = Ok (secret_of L R key i)"
  shows "authority_infos P T fs is = Ok (unit_infos (names_addresses L R pid is))"
  using assms(2,3)
proof (induction "is")
  case (Cons i rest)
  then have "lp_IDFromPrivateKey P (key i) = Inr (pid i)" using assms(1) by (auto simp: random_ok_def)
  then show ?case using Cons by (simp add: unit_infos_def names_addresses_def)
qed (simp add: unit_infos_def names_addresses_def)

lemma committee_ids_new:
  assumes "distinct (map fst nas)" "pid \<in> committee_ids (new_committee (unit_infos nas) ps)"
  shows "pid \<in> snd ` set nas"
  using assms(2) by (force simp: committee_ids_def new_committee_def unit_committee [OF assms(1)])

subsection \<open>Starting the nodes\<close>

text \<open>A node that was started from files runs the committee and the key that were written.\<close>

lemma NewNode_files_Ok:
  assumes "ReadCommittee T P fs committeeFile = Ok c" "ReadSecret T P fs keyFile = Ok s"
    and "NewRoutedHost H listen_addr (se_PeerKey s) (nc_BootstrapPeers c) = Ok host"
    and "open storePath = Inr db" "mp_MempoolAddress (nc_Mempool c) (se_Name s) = (address, True)"
  shows "\<exists>node :: ('agg, 'db) Node. NewNode_files T P H open fs committeeFile keyFile storePath None = Ok node
    \<and> nd_consensus node = SpawnConsensus (se_Name s) (nc_Consensus c) (NewSignatureService (se_Secret s)) (NewStore db)
    \<and> SpawnMempool (se_Name s) (nc_Mempool c) mp_DefaultParameters (NewStore db) = Ok (nd_mempool node)"
  using assms by (simp add: NewNode_files_def with_file_def NewNode_def Let_def SpawnMempool_def
      node_DefaultParameters_def case_prod_unfold)

text \<open>The committee of \<open>generateCommittee\<close> and \<open>CreateConfig\<close>, as it is read.\<close>

definition read_committee ::
  "('sk, 'p1, 'p2, 'agg, 'y) crypto_lib_scheme \<Rightarrow> 'pk random \<Rightarrow> (nat \<Rightarrow> PeerID) \<Rightarrow> nat \<Rightarrow> string list
     \<Rightarrow> node_Committee" where
  "read_committee L R pid n ps =
     sorted_committee (new_committee (unit_infos (names_addresses L R pid [0..<n])) ps)"

lemma distinct_names:
  "inj_on (names_of L R) {..<n} \<Longrightarrow> distinct (map fst (names_addresses L R pid [0..<n]))"
  by (simp add: names_addresses_def comp_def distinct_map atLeast_upt)

lemma write_committee:
  assumes "json_text_ok T" "random_ok P R key pid n" "inj_on (names_of L R) {..<n}"
    and "fs_writable fs path" "\<forall>p\<in>set ps. ascii p"
  shows "ReadCommittee T P (fst (WriteJSON T fs path
      (Ok (node_Committee_json P (new_committee (unit_infos (names_addresses L R pid [0..<n])) ps))))) path
    = Ok (read_committee L R pid n ps)"
proof -
  let ?c = "new_committee (unit_infos (names_addresses L R pid [0..<n])) ps"
  let ?w = "WriteJSON T fs path (Ok (node_Committee_json P ?c))"
  have w: "?w = (fst ?w, Ok ())"
    using WriteJSON_Ok [OF assms(4), of T "node_Committee_json P ?c"] by (metis prod.collapse)
  show ?thesis
    unfolding read_committee_def
  proof (rule committee_file [OF w assms(1)])
    fix q assume "q \<in> committee_ids ?c"
    then have "q \<in> pid ` {..<n}"
      using committee_ids_new [OF distinct_names [OF assms(3)]] by (force simp: names_addresses_def)
    then show "peer_id_ok P q" using assms(2) by (auto simp: random_ok_def)
  qed (use assms(5) in \<open>simp add: new_committee_def\<close>)
qed

lemma config_generated:
  assumes "json_text_ok T" "random_ok P R key pid 4" "inj_on (names_of L R) {..<4}"
    and "\<forall>path. fs_writable fs path" "ascii bsNode"
  shows "\<exists>fs1 fs2. genSecrets L P T R fs = (fs1, Ok ()) \<and> generateCommittee P T fs1 bsNode = (fs2, Ok ())
    \<and> ReadCommittee T P fs2 committee_file_name = Ok (read_committee L R pid 4 [bsNode])
    \<and> (\<forall>i<4. ReadSecret T P fs2 (secret_file (decimal i)) = Ok (secret_of L R key i))"
proof -
  obtain fs1 where gen: "genSecrets L P T R fs = (fs1, Ok ())" "\<forall>path. fs_writable fs1 path"
      "\<forall>i\<in>set [0..<4]. ReadSecret T P fs1 (secret_file (decimal i)) = Ok (secret_of L R key i)"
    using genSecrets_loop_reads [OF assms(1,2) _ _ assms(4), of "[0..<4]" L]
    by (auto simp: genSecrets_def secretCount_def)
  have infos: "authority_infos P T fs1 [0..<4] = Ok (unit_infos (names_addresses L R pid [0..<4]))"
    by (rule authority_infos_read [OF assms(2) _ gen(3)]) simp
  define fs2 where "fs2 = fst (WriteJSON T fs1 committee_file_name
      (Ok (node_Committee_json P (new_committee (unit_infos (names_addresses L R pid [0..<4])) [bsNode]))))"
  have com: "generateCommittee P T fs1 bsNode = (fs2, Ok ())"
    by (simp add: generateCommittee_def secretCount_def infos fs2_def)
  have "ReadCommittee T P fs2 committee_file_name = Ok (read_committee L R pid 4 [bsNode])"
    unfolding fs2_def using gen(2) assms(5) by (intro write_committee [OF assms(1,2,3)]) simp_all
  moreover have "ReadSecret T P fs2 (secret_file (decimal i)) = Ok (secret_of L R key i)" if "i < 4" for i
  proof -
    have "fs_content fs2 (secret_file (decimal i)) = fs_content fs1 (secret_file (decimal i))"
      unfolding fs2_def by (rule WriteJSON_frame(2) [OF prod.collapse [symmetric]]) simp
    then have "ReadSecret T P fs2 (secret_file (decimal i)) = ReadSecret T P fs1 (secret_file (decimal i))"
      by (rule ReadJSON_frame)
    then show ?thesis using gen(3) that by simp
  qed
  ultimately show ?thesis using gen(1) com by blast
qed

lemma read_committee_members:
  assumes "inj_on (names_of L R) {..<n}" "i < n"
  shows "Committee_Stake (nc_Consensus (read_committee L R pid n ps)) (names_of L R i) = 1"
    "Committee_Address (nc_Consensus (read_committee L R pid n ps)) (names_of L R i) = (pid i, True)"
    "mp_Stake (nc_Mempool (read_committee L R pid n ps)) (names_of L R i) = 1"
    "mp_MempoolAddress (nc_Mempool (read_committee L R pid n ps)) (names_of L R i) = (pid i, True)"
    "cm_members (nc_Consensus (read_committee L R pid n ps)) = names_of L R ` {..<n}"
    "QuorumThreshold (nc_Consensus (read_committee L R pid n ps)) = 2 * of_nat n div 3 + 1"
    "mp_QuorumThreshold (nc_Mempool (read_committee L R pid n ps)) = 2 * of_nat n div 3 + 1"
proof -
  let ?nas = "names_addresses L R pid [0..<n]"
  note d = distinct_names [OF assms(1), of pid]
  have "(names_of L R i, pid i) \<in> set ?nas" using assms(2) by (auto simp: names_addresses_def)
  note lookup = unit_lookup [OF d this, of 1]
  show "Committee_Stake (nc_Consensus (read_committee L R pid n ps)) (names_of L R i) = 1"
    "Committee_Address (nc_Consensus (read_committee L R pid n ps)) (names_of L R i) = (pid i, True)"
    "mp_Stake (nc_Mempool (read_committee L R pid n ps)) (names_of L R i) = 1"
    "mp_MempoolAddress (nc_Mempool (read_committee L R pid n ps)) (names_of L R i) = (pid i, True)"
    using lookup by (simp_all add: read_committee_def sorted_committee_def new_committee_def
        Committee_Stake_def Committee_Address_def mp_Stake_def mp_MempoolAddress_def)
  show "cm_members (nc_Consensus (read_committee L R pid n ps)) = names_of L R ` {..<n}"
    by (simp add: read_committee_def cm_members_def sorted_committee_def new_committee_def
        unit_committee [OF d] image_image case_prod_unfold)
      (simp add: names_addresses_def image_image atLeast_upt)
  show "QuorumThreshold (nc_Consensus (read_committee L R pid n ps)) = 2 * of_nat n div 3 + 1"
    "mp_QuorumThreshold (nc_Mempool (read_committee L R pid n ps)) = 2 * of_nat n div 3 + 1"
    by (simp_all add: read_committee_def)
      (simp_all add: new_committee_def unit_committee [OF d], simp_all add: names_addresses_def)
qed

lemma core_start_fields:
  "core_start name committee ss s = (c, out) \<Longrightarrow>
     c_name c = name \<and> c_committee c = committee \<and> c_signatureService c = ss"
  by (auto simp: core_start_def Let_def NewCore_def generateProposal_def split: sum.splits if_splits)

lemma SpawnMempool_committee:
  "SpawnMempool name committee p s = Ok n \<Longrightarrow> qw_committee (mn_quorumWaiter n) = committee"
  by (auto simp: SpawnMempool_def spawnQuorumWaiter_def Let_def split: prod.splits if_splits)

lemma testRun_starts:
  assumes "inj_on (names_of L R) {..<4}" "i < 4"
    and "ReadCommittee T P fs committee_file_name = Ok (read_committee L R pid 4 [bsNode])"
    and "ReadSecret T P fs (secret_file (decimal i)) = Ok (secret_of L R key i)"
    and "NewRoutedHost H listen_addr (Some (key i)) [bsNode] = Ok host" "open (teststore_file (decimal i)) = Inr db"
  shows "\<exists>node :: ('agg, 'db) Node. testRun T P H open fs (decimal i) = Ok node
    \<and> c_name (cn_core (nd_consensus node)) = names_of L R i
    \<and> ss_key (c_signatureService (cn_core (nd_consensus node))) = fst (GenerateKeypair L (rnd_ikm R i))
    \<and> c_committee (cn_core (nd_consensus node)) = nc_Consensus (read_committee L R pid 4 [bsNode])
    \<and> qw_committee (mn_quorumWaiter (nd_mempool node)) = nc_Mempool (read_committee L R pid 4 [bsNode])"
proof -
  let ?c = "read_committee L R pid 4 [bsNode]" and ?s = "secret_of L R key i"
  have boot: "nc_BootstrapPeers ?c = [bsNode]"
    by (simp add: read_committee_def sorted_committee_def new_committee_def)
  have "mp_MempoolAddress (nc_Mempool ?c) (se_Name ?s) = (pid i, True)"
    using read_committee_members(4) [OF assms(1,2)] by simp
  then have "\<exists>node :: ('agg, 'db) Node.
      NewNode_files T P H open fs committee_file_name (secret_file (decimal i)) (teststore_file (decimal i)) None = Ok node
      \<and> nd_consensus node = SpawnConsensus (se_Name ?s) (nc_Consensus ?c) (NewSignatureService (se_Secret ?s)) (NewStore db)
      \<and> SpawnMempool (se_Name ?s) (nc_Mempool ?c) mp_DefaultParameters (NewStore db) = Ok (nd_mempool node)"
    by (intro NewNode_files_Ok [OF assms(3,4)]) (use assms(5,6) boot in simp_all)
  then obtain node :: "('agg, 'db) Node" where node:
      "NewNode_files T P H open fs committee_file_name (secret_file (decimal i)) (teststore_file (decimal i)) None = Ok node"
      "nd_consensus node = SpawnConsensus (se_Name ?s) (nc_Consensus ?c) (NewSignatureService (se_Secret ?s)) (NewStore db)"
      "SpawnMempool (se_Name ?s) (nc_Mempool ?c) mp_DefaultParameters (NewStore db) = Ok (nd_mempool node)"
    by blast
  obtain c :: "('agg, 'db) core" and out where start:
      "core_start (se_Name ?s) (nc_Consensus ?c) (NewSignatureService (se_Secret ?s)) (NewStore db) = (c, out)"
    by fastforce
  then have "cn_core (nd_consensus node) = c" by (simp add: node(2) SpawnConsensus_def)
  then have "c_name (cn_core (nd_consensus node)) = se_Name ?s"
      "c_committee (cn_core (nd_consensus node)) = nc_Consensus ?c"
      "c_signatureService (cn_core (nd_consensus node)) = NewSignatureService (se_Secret ?s)"
    using core_start_fields [OF start] by blast+
  moreover have "se_Secret ?s = fst (GenerateKeypair L (rnd_ikm R i))"
    by (simp add: new_secret_def case_prod_unfold Let_def)
  ultimately show ?thesis
    using node(1) SpawnMempool_committee [OF node(3)] by (simp add: testRun_def NewSignatureService_def)
qed

subsection \<open>The configuration of the tests\<close>

lemma create_secrets_reads:
  assumes "json_text_ok T" "random_ok P R key pid n" "\<forall>i\<in>set is. i < n" "distinct is"
    and "\<forall>path. fs_writable fs path"
  shows "\<exists>fs1 infos. create_secrets L P T R dir fs is = (fs1, Ok infos) \<and> (\<forall>path. fs_writable fs1 path)
    \<and> map fst infos = map (\<lambda>i. dir_file dir (decimal i @ ''.sc'')) is
    \<and> map snd infos = unit_infos (names_addresses L R pid is)
    \<and> (\<forall>i\<in>set is. ReadSecret T P fs1 (dir_file dir (decimal i @ ''.sc'')) = Ok (secret_of L R key i))
    \<and> (\<forall>q. (\<forall>i\<in>set is. q \<noteq> dir_file dir (decimal i @ ''.sc'')) \<longrightarrow> fs_content fs1 q = fs_content fs q)"
  using assms
proof (induction "is" arbitrary: fs)
  case (Cons i rest)
  let ?f = "dir_file dir (decimal i @ ''.sc'')"
  have i: "i < n" "rnd_key R i = Inr (key i)" "lp_IDFromPrivateKey P (key i) = Inr (pid i)"
    using Cons.prems by (auto simp: random_ok_def)
  obtain fs1 where w: "WriteJSON T fs ?f (Secret_json P (secret_of L R key i)) = (fs1, Ok ())"
      and r: "ReadSecret T P fs1 ?f = Ok (secret_of L R key i)"
    using write_secret [OF Cons.prems(1,2) i(1)] Cons.prems(5) by blast
  have "\<forall>path. fs_writable fs1 path" using WriteJSON_frame(1) [OF w] Cons.prems(5) by simp
  then obtain fs2 infos where rest: "create_secrets L P T R dir fs1 rest = (fs2, Ok infos)"
      "\<forall>path. fs_writable fs2 path"
      "map fst infos = map (\<lambda>i. dir_file dir (decimal i @ ''.sc'')) rest"
      "map snd infos = unit_infos (names_addresses L R pid rest)"
      "\<forall>i\<in>set rest. ReadSecret T P fs2 (dir_file dir (decimal i @ ''.sc'')) = Ok (secret_of L R key i)"
      "\<forall>q. (\<forall>i\<in>set rest. q \<noteq> dir_file dir (decimal i @ ''.sc'')) \<longrightarrow> fs_content fs2 q = fs_content fs1 q"
    using Cons.IH [of fs1] Cons.prems by auto
  have "\<forall>k\<in>set rest. ?f \<noteq> dir_file dir (decimal k @ ''.sc'')" using Cons.prems(4) by (auto simp: dir_file_def)
  then have "fs_content fs2 ?f = fs_content fs1 ?f" using rest(6) by blast
  then have "ReadSecret T P fs2 ?f = Ok (secret_of L R key i)" using r ReadJSON_frame by metis
  moreover have "create_secrets L P T R dir fs (i # rest)
      = (fs2, Ok ((?f, info_of (names_of L R i) (pid i), mp_info_of (names_of L R i) (pid i)) # infos))"
    using i w rest(1) by (simp add: Let_def)
  ultimately show ?case
    using rest WriteJSON_frame(2) [OF w] by (auto simp: unit_infos_def names_addresses_def)
qed (simp add: unit_infos_def names_addresses_def)

lemma map_result_map: "map_result f (map g xs) = map_result (f \<circ> g) xs"
  by (induction xs) simp_all

lemma config_loads_back:
  assumes "json_text_ok T" "random_ok P R key pid n" "inj_on (names_of L R) {..<n}"
    and "\<forall>path. fs_writable fs path" "\<forall>p\<in>set ps. ascii p"
  shows "\<exists>fs1 committeeFile secretFiles. CreateConfig L P T R dir fs n ps = (fs1, Ok (committeeFile, secretFiles))
    \<and> LoadConfig P T fs1 committeeFile secretFiles
        = Ok (read_committee L R pid n ps, map (secret_of L R key) [0..<n])"
proof -
  obtain fs1 infos where gen: "create_secrets L P T R dir fs [0..<n] = (fs1, Ok infos)"
      "\<forall>path. fs_writable fs1 path"
      "map fst infos = map (\<lambda>i. dir_file dir (decimal i @ ''.sc'')) [0..<n]"
      "map snd infos = unit_infos (names_addresses L R pid [0..<n])"
      "\<forall>i\<in>set [0..<n]. ReadSecret T P fs1 (dir_file dir (decimal i @ ''.sc'')) = Ok (secret_of L R key i)"
    using create_secrets_reads [OF assms(1,2) _ _ assms(4), of "[0..<n]" L dir] by auto
  define committeeFile where "committeeFile = dir_file dir ''committee''"
  define fs2 where "fs2 = fst (WriteJSON T fs1 committeeFile
      (Ok (node_Committee_json P (new_committee (unit_infos (names_addresses L R pid [0..<n])) ps))))"
  have "ReadSecret T P fs2 (dir_file dir (decimal i @ ''.sc'')) = Ok (secret_of L R key i)" if "i < n" for i
  proof -
    have "decimal i @ ''.sc'' \<noteq> ''committee''"
      using decimal_digits [of i] by (cases "decimal i") (auto simp: is_digits_def)
    then have "dir_file dir (decimal i @ ''.sc'') \<noteq> committeeFile"
      by (simp add: dir_file_def committeeFile_def)
    then have "fs_content fs2 (dir_file dir (decimal i @ ''.sc'')) = fs_content fs1 (dir_file dir (decimal i @ ''.sc''))"
      unfolding fs2_def by (rule WriteJSON_frame(2) [OF prod.collapse [symmetric]])
    then have "ReadSecret T P fs2 (dir_file dir (decimal i @ ''.sc''))
        = ReadSecret T P fs1 (dir_file dir (decimal i @ ''.sc''))" by (rule ReadJSON_frame)
    then show ?thesis using gen(5) that by simp
  qed
  then have "map_result (ReadSecret T P fs2) (map fst infos) = Ok (map (secret_of L R key) [0..<n])"
    by (simp only: gen(3) map_result_map) (rule map_result_all_ok, simp)
  moreover have "ReadCommittee T P fs2 committeeFile = Ok (read_committee L R pid n ps)"
    unfolding fs2_def using gen(2) assms(5) by (intro write_committee [OF assms(1,2,3)]) simp_all
  moreover have "CreateConfig L P T R dir fs n ps = (fs2, Ok (committeeFile, map fst infos))"
    by (simp add: CreateConfig_def gen(1,4) fs2_def committeeFile_def Let_def)
  ultimately show ?thesis by (auto simp: LoadConfig_def)
qed

end
