(* ===== verification/CliTests.thy ===== *)
theory CliTests
  imports Cli
begin

text \<open>
  The other commands of \<open>clitests.go\<close>, which try out the store, the cryptography and the client port of
  the mempool, and the command table of \<open>main.go\<close>. A command gives the lines it prints and how it ends.
\<close>

subsection \<open>teststore\<close>

text \<open>
  \<open>storeTest\<close> has two more goroutines: one writes the critical value after five seconds, the other asks
  for it with \<open>NotifyRead\<close>. Their commands reach the store at any time: those before the main goroutine
  reads the critical value are \<open>early\<close>, those between that and its \<open>NotifyRead\<close> \<open>late\<close>, the others
  \<open>after\<close>. The line that the second goroutine prints is not modelled. If the critical value is never
  written, the main goroutine waits forever.
\<close>

definition st_billy :: "byte list" where
  "st_billy = bytes_of_string ''billy''"

definition st_critical :: "byte list" where
  "st_critical = bytes_of_string ''critical value''"

definition got_billy :: "byte list \<Rightarrow> string" where
  "got_billy v = ''Got the value for billy, it's '' @ string_of_bytes v"

definition other_commands :: "command list" where
  "other_commands =
     [writeCommand st_critical (bytes_of_string ''super critical''), notifyReadCommand st_critical 1]"

definition storeTest ::
  "('sk, 'p1, 'p2, 'agg, 'db, 'z) env_scheme \<Rightarrow> (error + 'db) \<Rightarrow> command list \<Rightarrow> command list
     \<Rightarrow> command list \<Rightarrow> string list \<times> outcome" where
  "storeTest E opened early late after =
     (case opened of
        Inl err \<Rightarrow> ([], Crash ExplicitPanic)
      | Inr db \<Rightarrow>
     (let s1 = Store_Write E (NewStore db) st_billy (bytes_of_string ''bob'');
          s2 = Store_Write E s1 (bytes_of_string ''keith'') (bytes_of_string ''woods'')
      in case Store_Read E s2 st_billy of
           Inl err \<Rightarrow> ([], Crash ExplicitPanic)
         | Inr result \<Rightarrow>
     (let out1 = [got_billy result];
          s3 = Store_Write E s2 st_billy (bytes_of_string ''the bat'')
      in case Store_Read E s3 st_billy of
           Inl err \<Rightarrow> (out1, Crash ExplicitPanic)
         | Inr result \<Rightarrow>
     (let out2 = out1 @ [got_billy result];
          s4 = fst (store_run E s3 early);
          critical = Store_Read E s4 st_critical
      in if (case critical of Inl err \<Rightarrow> err \<noteq> PebbleErrNotFound | Inr v \<Rightarrow> False)
         then (out2, Crash ExplicitPanic)
         else
     (let out3 = out2 @ (case critical of Inl err \<Rightarrow> [''Just as expected, it wasn't found''] | Inr v \<Rightarrow> []);
          s5 = fst (store_run E s4 late)
      in case Store_NotifyRead E s5 st_critical 0 after of
           None \<Rightarrow> (out3, Hang)
         | Some (Inl err) \<Rightarrow> (out3, Crash ExplicitPanic)
         | Some (Inr v) \<Rightarrow> (out3 @ [''Finally got the value, '' @ string_of_bytes v], Ret None))))))"

subsection \<open>testcrypto\<close>

definition key_line :: "string \<Rightarrow> SecretKey \<Rightarrow> PublicKey \<Rightarrow> string" where
  "key_line no sk pk =
     ''sk'' @ no @ '': '' @ EncodeToString (sk_bytes sk) @ '', pk'' @ no @ '': '' @ PublicKey_String pk"

definition testCrypto ::
  "('sk, 'p1, 'p2, 'agg, 'z) crypto_lib_scheme \<Rightarrow> byte list \<Rightarrow> byte list \<Rightarrow> string list" where
  "testCrypto L ikm ikm2 =
     (let (sk, pk) = GenerateKeypair L ikm;
          (sk2, pk2) = GenerateKeypair L ikm2;
          signatureService = NewSignatureService sk;
          d = NewDigest L (bytes_of_string ''Hello, world!'');
          testBlock = NewBlock L \<lparr>qc_Hash = digest_zero, qc_Round = 0, qc_Voters = [], qc_Signature = sig_zero\<rparr>
            None pk 1 [d] signatureService;
          as = fst (AggregateSignature_Add L (cl_AggZero L) (RequestSignature L signatureService d));
          finalSig = ToSignature L as
      in [key_line [] sk pk, key_line ''2'' sk2 pk2, ''Block is : '' @ Block_String L testBlock,
          if FastAggregateVerify L finalSig d [pk] then ''Verified the block!''
          else ''Failed to verify the block.''])"

subsection \<open>testclient\<close>

text \<open>
  The client of one node: each input line is sent to one of the authorities that are not the zero key.
  The shuffles are an argument, one permutation for each line.
\<close>

definition client_addresses :: "node_Committee \<Rightarrow> PeerID list" where
  "client_addresses c = snd (mp_BroadcastAddresses (nc_Mempool c) pk_zero)"

inductive client_loop ::
  "node_Committee \<Rightarrow> SimpleSender \<Rightarrow> string list \<Rightarrow> string list \<Rightarrow> SimpleSender \<Rightarrow> bool" for c where
  client_end: "client_loop c sender [] [''> ''] sender"
| client_line:
    "mset shuffled = mset (client_addresses c) \<Longrightarrow>
     ss_Broadcast sender (lucky_pids shuffled 1) (bytes_of_string line) sender1 \<Longrightarrow>
     client_loop c sender1 lines out sender2 \<Longrightarrow>
     client_loop c sender (line # lines) (''> '' # (''sending text: '' @ line) # out) sender2"

definition client_start ::
  "('pk, 'addr, 'info, 'host, 'dht, 'stream, 'z) libp2p_scheme \<Rightarrow> (error + 'pk)
     \<Rightarrow> (error, node_Committee) result \<Rightarrow> (error, node_Committee \<times> SimpleSender) result" where
  "client_start H newkey committeeFile =
     (case newkey of
        Inl err \<Rightarrow> Err err
      | Inr priv \<Rightarrow>
          bind_result committeeFile (\<lambda>committee.
          bind_result (NewRoutedHost H listen_addr (Some priv) (nc_BootstrapPeers committee)) (\<lambda>host.
            Ok (committee, NewSimpleSender))))"

subsection \<open>main\<close>

text \<open>The commands by name. Those without an action of their own only print one line.\<close>

datatype action =
    NotImplemented | ActStoreTest | ActGenSecrets | ActBootstrapper | ActGenerateCommittee | ActTestRun
  | ActFullTest | ActTestClient | ActTestCrypto

definition main_Commands :: "(string \<times> string \<times> action) list" where
  "main_Commands =
     [(''test'', ''Create a random committee and run consensus'', NotImplemented),
      (''run'', ''Run a node'', NotImplemented),
      (''teststore'', ''Test the store'', ActStoreTest),
      (''gensecrets'', ''Create a set of secrets'', ActGenSecrets),
      (''bootstrapper'', ''Run a bootstrapper node'', ActBootstrapper),
      (''gencommittee'', ''Generate a commitee using generated secrets'', ActGenerateCommittee),
      (''testrun'', ''Run a test node using generated secrets/committee'', ActTestRun),
      (''fulltest'', ''Run multiple test nodes using generated secrets/committee'', ActFullTest),
      (''testclient'', ''Run a test client'', ActTestClient),
      (''testcrypto'', ''Test the cryptography module'', ActTestCrypto)]"

definition main_action :: "string \<Rightarrow> action option" where
  "main_action name = map_option snd (map_of main_Commands name)"

subsection \<open>What the tests show\<close>

lemma critical_not_billy [simp]: "st_critical \<noteq> st_billy" "st_critical \<noteq> bytes_of_string ''keith''"
    "st_billy \<noteq> bytes_of_string ''keith''" "st_billy \<noteq> st_critical"
  by (simp_all add: st_critical_def st_billy_def bytes_of_string_def)

lemma NewStore_ok: "pebble_ok E \<Longrightarrow> store_ok E (NewStore db)"
  by (simp add: store_ok_def NewStore_def)

lemma storeTest_read:
  fixes E :: "('sk, 'p1, 'p2, 'agg, 'db, 'z) env_scheme" and db :: 'db and k :: "byte list"
  assumes "pebble_ok E" "k \<noteq> st_billy" "k \<noteq> bytes_of_string ''keith''"
  defines "s1 \<equiv> Store_Write E (NewStore db) st_billy (bytes_of_string ''bob'')"
  defines "s2 \<equiv> Store_Write E s1 (bytes_of_string ''keith'') (bytes_of_string ''woods'')"
  defines "s3 \<equiv> Store_Write E s2 st_billy (bytes_of_string ''the bat'')"
  shows "Store_Read E s2 st_billy = Inr (bytes_of_string ''bob'')"
    "Store_Read E s3 st_billy = Inr (bytes_of_string ''the bat'')"
    "Store_Read E s3 k = Store_Read E (NewStore db) k" "store_ok E s3"
proof -
  have 0: "store_ok E (NewStore db)" by (rule NewStore_ok [OF assms(1)])
  have 1: "store_ok E s1" unfolding s1_def by (rule st.put_usable [OF 0])
  have 2: "store_ok E s2" unfolding s2_def by (rule st.put_usable [OF 1])
  show "store_ok E s3" unfolding s3_def by (rule st.put_usable [OF 2])
  show "Store_Read E s2 st_billy = Inr (bytes_of_string ''bob'')"
    by (simp add: s2_def st.get_put_other [OF 1]) (simp add: s1_def st.get_put [OF 0])
  show "Store_Read E s3 st_billy = Inr (bytes_of_string ''the bat'')"
    by (simp add: s3_def st.get_put [OF 2])
  show "Store_Read E s3 k = Store_Read E (NewStore db) k"
    by (simp add: s3_def st.get_put_other [OF 2] assms(2))
      (simp add: s2_def st.get_put_other [OF 1] assms(3), simp add: s1_def st.get_put_other [OF 0] assms(2))
qed

text \<open>A \<open>NotifyRead\<close> leaves the database alone.\<close>

lemma store_run_notify:
  assumes "\<forall>cmd\<in>set cmds. \<exists>k ch. cmd = notifyReadCommand k ch"
  shows "st_db (fst (store_run E s cmds)) = st_db s"
  using assms
proof (induction cmds arbitrary: s)
  case (Cons cmd cmds)
  obtain k ch where "cmd = notifyReadCommand k ch" using Cons.prems by auto
  then have "st_db (fst (store_step E s cmd)) = st_db s"
    by (auto simp: store_step_def Let_def split: sum.splits db_error.splits)
  then show ?case using Cons by (auto simp: case_prod_unfold)
qed simp

lemma testCrypto_last:
  assumes "bls_ok L" "GenerateKeypair L ikm = (sk, pk)" "bls_sign_ok L sk pk"
  shows "last (testCrypto L ikm ikm2) = ''Verified the block!''"
proof -
  define d where "d = NewDigest L (bytes_of_string ''Hello, world!'')"
  have "Signature_Verify L (Sign L d sk) d pk" using assms(3) by (simp add: bls_sign_ok_def)
  then have "FastAggregateVerify L (ToSignature L (aggregate_of L (map snd [(pk, Sign L d sk)]))) d
      (map fst [(pk, Sign L d sk)])"
    by (intro bls_ok_fast [OF assms(1)]) auto
  then show ?thesis
    by (simp add: testCrypto_def assms(2) case_prod_unfold Let_def NewSignatureService_def
        RequestSignature_def d_def aggregate_of_def)
qed

lemma client_addresses_members:
  "pk_zero \<notin> mpc_members (nc_Mempool c) \<Longrightarrow> client_addresses c = map (mpa_Address \<circ> snd) (mpc_entries (nc_Mempool c))"
proof -
  have "snd (mp_broadcast_loop pk_zero es) = map (mpa_Address \<circ> snd) es" if "pk_zero \<notin> fst ` set es" for es
    using that by (induction es) (auto simp: case_prod_unfold Let_def)
  then show "pk_zero \<notin> mpc_members (nc_Mempool c) \<Longrightarrow> ?thesis"
    by (simp add: client_addresses_def mp_BroadcastAddresses_def mpc_members_def)
qed

lemma main_names_distinct: "distinct (map fst main_Commands)"
  by (simp add: main_Commands_def)

end
