(* ===== verification/DemoFiles.thy ===== *)
theory DemoFiles
  imports Boot CliTests
begin

text \<open>
  Instances of the text layer of JSON, the peer keys and libp2p that are small enough to compute with,
  for the witnesses. A tree is written as a sequence of tags and characters that reads back.
\<close>

subsection \<open>A text layer\<close>

fun put_chars :: "string \<Rightarrow> byte list" where
  "put_chars [] = [0]"
| "put_chars (c # s) = 1 # of_char c # put_chars s"

fun get_chars :: "byte list \<Rightarrow> (string \<times> byte list) option" where
  "get_chars (b # bs) =
     (if b = 0 then Some ([], bs)
      else case bs of
             [] \<Rightarrow> None
           | c # cs \<Rightarrow> map_option (\<lambda>(s, rest). (char_of (unat c) # s, rest)) (get_chars cs))"
| "get_chars [] = None"

lemma get_chars_put: "get_chars (put_chars s @ rest) = Some (s, rest)"
proof (induction s)
  case (Cons c s)
  have "char_of (unat (of_char c :: byte)) = c" by (rule char_of_byte)
  then show ?case using Cons by simp
qed simp

fun put_json :: "json \<Rightarrow> byte list" where
  "put_json JNull = [0]"
| "put_json (JBool b) = [1, if b then 1 else 0]"
| "put_json (JNumber l) = 2 # put_chars l"
| "put_json (JString s) = 3 # put_chars s"
| "put_json (JArray js) = 4 # concat (map (\<lambda>j. 1 # put_json j) js) @ [0]"
| "put_json (JObject ms) = 5 # concat (map (\<lambda>m. 1 # put_chars (fst m) @ put_json (snd m)) ms) @ [0]"

fun get_json :: "nat \<Rightarrow> byte list \<Rightarrow> (json \<times> byte list) option"
  and get_items :: "nat \<Rightarrow> byte list \<Rightarrow> (json list \<times> byte list) option"
  and get_members :: "nat \<Rightarrow> byte list \<Rightarrow> ((string \<times> json) list \<times> byte list) option"
where
  "get_json (Suc n) (b # bs) =
     (if b = 0 then Some (JNull, bs)
      else if b = 1 then (case bs of [] \<Rightarrow> None | c # cs \<Rightarrow> Some (JBool (c = 1), cs))
      else if b = 2 then map_option (\<lambda>(l, rest). (JNumber l, rest)) (get_chars bs)
      else if b = 3 then map_option (\<lambda>(s, rest). (JString s, rest)) (get_chars bs)
      else if b = 4 then map_option (\<lambda>(js, rest). (JArray js, rest)) (get_items n bs)
      else map_option (\<lambda>(ms, rest). (JObject ms, rest)) (get_members n bs))"
| "get_json _ _ = None"
| "get_items (Suc n) (b # bs) =
     (if b = 0 then Some ([], bs)
      else Option.bind (get_json n bs) (\<lambda>(j, rest).
        map_option (\<lambda>(js, rest1). (j # js, rest1)) (get_items n rest)))"
| "get_items _ _ = None"
| "get_members (Suc n) (b # bs) =
     (if b = 0 then Some ([], bs)
      else Option.bind (get_chars bs) (\<lambda>(k, rest).
        Option.bind (get_json n rest) (\<lambda>(j, rest1).
          map_option (\<lambda>(ms, rest2). ((k, j) # ms, rest2)) (get_members n rest1))))"
| "get_members _ _ = None"

lemma get_items_put:
  assumes "\<And>j n rest. j \<in> set js \<Longrightarrow> length (put_json j) < n \<Longrightarrow> get_json n (put_json j @ rest) = Some (j, rest)"
    and "length (concat (map (\<lambda>j. 1 # put_json j) js)) + 1 < n"
  shows "get_items n (concat (map (\<lambda>j. 1 # put_json j) js) @ 0 # rest) = Some (js, rest)"
  using assms
proof (induction js arbitrary: n)
  case Nil
  then show ?case by (cases n) auto
next
  case (Cons j js)
  obtain m where n: "n = Suc m" using Cons.prems(2) by (cases n) auto
  have "get_json m (put_json j @ r) = Some (j, r)" for r
    by (rule Cons.prems(1)) (use Cons.prems(2) n in auto)
  moreover have "get_items m (concat (map (\<lambda>j. 1 # put_json j) js) @ 0 # rest) = Some (js, rest)"
    by (rule Cons.IH [OF Cons.prems(1)]) (use Cons.prems(2) n in auto)
  ultimately show ?case by (simp add: n)
qed

lemma get_members_put:
  assumes "\<And>m n rest. m \<in> set ms \<Longrightarrow> length (put_json (snd m)) < n
      \<Longrightarrow> get_json n (put_json (snd m) @ rest) = Some (snd m, rest)"
    and "length (concat (map (\<lambda>m. 1 # put_chars (fst m) @ put_json (snd m)) ms)) + 1 < n"
  shows "get_members n (concat (map (\<lambda>m. 1 # put_chars (fst m) @ put_json (snd m)) ms) @ 0 # rest) = Some (ms, rest)"
  using assms
proof (induction ms arbitrary: n)
  case Nil
  then show ?case by (cases n) auto
next
  case (Cons m ms)
  obtain k where n: "n = Suc k" using Cons.prems(2) by (cases n) auto
  have "get_json k (put_json (snd m) @ r) = Some (snd m, r)" for r
    by (rule Cons.prems(1)) (use Cons.prems(2) n in auto)
  moreover have "get_members k (concat (map (\<lambda>m. 1 # put_chars (fst m) @ put_json (snd m)) ms) @ 0 # rest) = Some (ms, rest)"
    by (rule Cons.IH [OF Cons.prems(1)]) (use Cons.prems(2) n in auto)
  ultimately show ?case by (simp add: n get_chars_put)
qed

lemma get_json_put: "length (put_json j) < n \<Longrightarrow> get_json n (put_json j @ rest) = Some (j, rest)"
proof (induction j arbitrary: n rest rule: put_json.induct)
  case (5 js)
  obtain m where n: "n = Suc m" using "5.prems" by (cases n) auto
  have "get_items m (concat (map (\<lambda>j. 1 # put_json j) js) @ 0 # rest) = Some (js, rest)"
    by (rule get_items_put [OF "5.IH"]) (use "5.prems" n in auto)
  then show ?case by (simp add: n)
next
  case (6 ms)
  obtain m where n: "n = Suc m" using "6.prems" by (cases n) auto
  have "get_members m (concat (map (\<lambda>m. 1 # put_chars (fst m) @ put_json (snd m)) ms) @ 0 # rest) = Some (ms, rest)"
    by (rule get_members_put [OF "6.IH"]) (use "6.prems" n in auto)
  then show ?case by (simp add: n)
qed (auto simp: get_chars_put gr0_conv_Suc dest: less_imp_Suc_add split: if_splits)

definition demo_json :: json_text where
  "demo_json =
     \<lparr>jt_MarshalIndent = put_json,
      jt_Parse = (\<lambda>bs. case get_json (Suc (length bs)) bs of
        Some (j, rest) \<Rightarrow> if rest = [10] then Inr j else Inl UnmarshalFailed
      | None \<Rightarrow> Inl UnmarshalFailed)\<rparr>"

lemma demo_json_ok: "json_text_ok demo_json"
  by (simp add: json_text_ok_def demo_json_def get_json_put)

subsection \<open>Peers\<close>

text \<open>A peer key is one character; its ID is the string of it.\<close>

definition demo_peers :: "char peer_ids" where
  "demo_peers =
     \<lparr>lp_Marshal = (\<lambda>k. Inr [of_char k]),
      lp_Unmarshal = (\<lambda>bs. case bs of [b] \<Rightarrow> Inr (char_of (unat b)) | _ \<Rightarrow> Inl PeerError),
      lp_MarshalID = JString,
      lp_UnmarshalID = (\<lambda>j. case j of JString s \<Rightarrow> Inr s | _ \<Rightarrow> Inl PeerError),
      lp_IDFromPrivateKey = (\<lambda>k. Inr [k])\<rparr>"

definition demo_keys :: "nat \<Rightarrow> char" where
  "demo_keys i = ''abcd'' ! i"

definition demo_random :: "char random" where
  "demo_random = \<lparr>rnd_ikm = (\<lambda>i. [of_nat i]), rnd_key = (\<lambda>i. Inr (demo_keys i))\<rparr>"

lemma demo_peer_key_ok: "peer_key_ok (peer_lib.truncate demo_peers)"
  by (auto simp: peer_key_ok_def demo_peers_def peer_lib.defs char_of_byte)

lemma demo_random_ok: "random_ok demo_peers demo_random demo_keys (\<lambda>i. [demo_keys i]) 4"
proof -
  have "peer_id_ok demo_peers [demo_keys i]" if "i < 4" for i
  proof -
    have "i \<in> set [0, 1, 2, 3]" using that by auto
    then show ?thesis by (auto simp: peer_id_ok_def demo_peers_def ascii_def demo_keys_def)
  qed
  then show ?thesis
    using demo_peer_key_ok by (simp add: random_ok_def demo_random_def) (simp add: demo_peers_def)
qed

lemma demo_names_inj: "inj_on (names_of demo_lib demo_random) {..<4}"
proof (rule inj_onI)
  fix i j :: nat assume ij: "i \<in> {..<4}" "j \<in> {..<4}" "names_of demo_lib demo_random i = names_of demo_lib demo_random j"
  have "names_of demo_lib demo_random k = demo_name (of_nat k)" for k
    by (simp add: GenerateKeypair_def demo_lib_def demo_random_def demo_name_def demo_sk_def Let_def)
  then have "(of_nat i :: byte) = of_nat j" using ij(3) by simp
  moreover have "unat (of_nat k :: byte) = k" if "k < 4" for k using that by (simp add: unat_of_nat)
  ultimately show "i = j" using ij(1,2) by (metis lessThan_iff)
qed

definition demo_files :: files where
  "demo_files = \<lparr>fs_content = Map.empty, fs_writable = (\<lambda>_. True)\<rparr>"

text \<open>A host is its peer ID; every address parses and every call succeeds.\<close>

definition demo_p2p :: "(char, string, string, string, string, string) libp2p" where
  "demo_p2p =
     \<lparr>lp_NewMultiaddr = Inr, lp_AddrString = id, lp_IDString = id, lp_AddrInfoFromString = Inr,
      lp_New = (\<lambda>addr priv newDHT. case priv of
          None \<Rightarrow> (Inl PeerError, None)
        | Some k \<Rightarrow> (case newDHT [k] of Inl e \<Rightarrow> (Inl e, Some [k]) | Inr d \<Rightarrow> (Inr [k], Some [k]))),
      lp_ID = id, lp_Addrs = (\<lambda>h. [h]), lp_PeerInfo = (\<lambda>h pid. []), lp_InfoAddrs = (\<lambda>i. [i]),
      lp_Connect = (\<lambda>h i. None), lp_NewStream = (\<lambda>h pid proto. Inr proto), kad_New = (\<lambda>h ps. Inr h),
      kad_Bootstrap = (\<lambda>d. None), kad_FindPeer = (\<lambda>d pid. Inr pid)\<rparr>"

lemma demo_bootstrap: "bootstrap_peers demo_p2p ps = Inr ps"
  by (induction ps) (simp_all add: demo_p2p_def)

lemma demo_host: "NewRoutedHost demo_p2p addr (Some k) ps = Ok \<lparr>rh_node = [k], rh_dht = [k]\<rparr>"
  unfolding NewRoutedHost_def demo_bootstrap by (simp add: demo_p2p_def)

end
