(* ===== verification/Timer.thy ===== *)
theory Timer
  imports Prelude
begin

text \<open>
  \<open>consensus/timer.go\<close>: the round timer, a mutex around a \<open>time.Timer\<close>. A \<open>time.Timer\<close> is the instant
  at which it is to fire, if it is running, and whether its channel holds a value; time is in
  nanoseconds. The program is built for Go 1.23 and later, where \<open>Stop\<close> and \<open>Reset\<close> discard a value
  that was not received; with \<open>asynctimerchan=1\<close> they leave it in the channel. Both are modelled, the
  argument \<open>sync\<close> tells which, and \<open>Timer_Reset\<close> behaves the same in both.
\<close>

subsection \<open>The timer of the standard library\<close>

record go_timer =
  gt_when :: "int option"
  gt_sent :: bool

text \<open>The instant \<open>d\<close> from now, as the runtime computes it: not in the past, and saturated.\<close>

definition when_of :: "int \<Rightarrow> int \<Rightarrow> int" where
  "when_of now d = min (now + max 0 d) (2 ^ 63 - 1)"

definition gt_new :: "int \<Rightarrow> int \<Rightarrow> go_timer" where
  "gt_new now d = \<lparr>gt_when = Some (when_of now d), gt_sent = False\<rparr>"

text \<open>The runtime sends the value, at the instant or some time after.\<close>

definition gt_expire :: "int \<Rightarrow> go_timer \<Rightarrow> go_timer option" where
  "gt_expire now g =
     (case gt_when g of
        Some w \<Rightarrow> if w \<le> now then Some \<lparr>gt_when = None, gt_sent = True\<rparr> else None
      | None \<Rightarrow> None)"

definition gt_receive :: "go_timer \<Rightarrow> go_timer option" where
  "gt_receive g = (if gt_sent g then Some (g\<lparr>gt_sent := False\<rparr>) else None)"

definition gt_Stop :: "bool \<Rightarrow> go_timer \<Rightarrow> bool \<times> go_timer" where
  "gt_Stop sync g =
     (if sync then (gt_when g \<noteq> None \<or> gt_sent g, \<lparr>gt_when = None, gt_sent = False\<rparr>)
      else (gt_when g \<noteq> None, g\<lparr>gt_when := None\<rparr>))"

definition gt_Reset :: "bool \<Rightarrow> int \<Rightarrow> int \<Rightarrow> go_timer \<Rightarrow> go_timer" where
  "gt_Reset sync now d g = \<lparr>gt_when = Some (when_of now d), gt_sent = (\<not> sync \<and> gt_sent g)\<rparr>"

subsection \<open>Timer\<close>

text \<open>A \<open>time.Duration\<close> is an \<open>int64\<close>; the conversion of the milliseconds and the product wrap.\<close>

record Timer =
  ti_duration :: u64
  ti_timer :: go_timer

definition ti_delay :: "Timer \<Rightarrow> int" where
  "ti_delay t = sint (ti_duration t)"

definition NewTimer :: "int \<Rightarrow> u64 \<Rightarrow> Timer" where
  "NewTimer now duration =
     (let d = duration * 1000000
      in \<lparr>ti_duration = d, ti_timer = gt_new now (sint d)\<rparr>)"

definition Timer_Reset :: "bool \<Rightarrow> int \<Rightarrow> Timer \<Rightarrow> Timer" where
  "Timer_Reset sync now t =
     (let (stopped, g) = gt_Stop sync (ti_timer t);
          g1 = (if \<not> stopped
                then (case gt_receive g of Some g2 \<Rightarrow> g2 | None \<Rightarrow> g)
                else g)
      in t\<lparr>ti_timer := gt_Reset sync now (sint (ti_duration t)) g1\<rparr>)"

text \<open>\<open>Wait\<close>, and the receive in the \<open>select\<close> of the core; \<open>None\<close> as long as it blocks.\<close>

definition Timer_Wait :: "Timer \<Rightarrow> Timer option" where
  "Timer_Wait t =
     (case gt_receive (ti_timer t) of Some g \<Rightarrow> Some (t\<lparr>ti_timer := g\<rparr>) | None \<Rightarrow> None)"

datatype timer_event = Elapse nat | Expire | Restart | Fire

fun timer_step :: "bool \<Rightarrow> int \<times> Timer \<Rightarrow> timer_event \<Rightarrow> (int \<times> Timer) option" where
  "timer_step sync (now, t) (Elapse d) = Some (now + int d, t)"
| "timer_step sync (now, t) Expire =
     map_option (\<lambda>g. (now, t\<lparr>ti_timer := g\<rparr>)) (gt_expire now (ti_timer t))"
| "timer_step sync (now, t) Restart = Some (now, Timer_Reset sync now t)"
| "timer_step sync (now, t) Fire = map_option (Pair now) (Timer_Wait t)"

primrec timer_run :: "bool \<Rightarrow> int \<times> Timer \<Rightarrow> timer_event list \<Rightarrow> (int \<times> Timer) option" where
  "timer_run sync s [] = Some s"
| "timer_run sync s (e # es) = Option.bind (timer_step sync s e) (\<lambda>s1. timer_run sync s1 es)"

subsection \<open>A deadline that is met once\<close>

text \<open>What the timer promises: the deadline of the last restart, and whether it was received since.\<close>

record deadline =
  dl_due :: int
  dl_met :: bool

fun deadline_step :: "int \<Rightarrow> int \<times> deadline \<Rightarrow> timer_event \<Rightarrow> (int \<times> deadline) option" where
  "deadline_step delay (now, s) (Elapse d) = Some (now + int d, s)"
| "deadline_step delay (now, s) Expire = Some (now, s)"
| "deadline_step delay (now, s) Restart = Some (now, \<lparr>dl_due = when_of now delay, dl_met = False\<rparr>)"
| "deadline_step delay (now, s) Fire =
     (if dl_due s \<le> now \<and> \<not> dl_met s then Some (now, s\<lparr>dl_met := True\<rparr>) else None)"

primrec deadline_run :: "int \<Rightarrow> int \<times> deadline \<Rightarrow> timer_event list \<Rightarrow> (int \<times> deadline) option" where
  "deadline_run delay s [] = Some s"
| "deadline_run delay s (e # es) =
     Option.bind (deadline_step delay s e) (\<lambda>s1. deadline_run delay s1 es)"

definition keeps_deadline :: "int \<Rightarrow> Timer \<Rightarrow> deadline \<Rightarrow> bool" where
  "keeps_deadline now t s \<longleftrightarrow>
     (if gt_sent (ti_timer t) then gt_when (ti_timer t) = None \<and> dl_due s \<le> now \<and> \<not> dl_met s
      else gt_when (ti_timer t) = (if dl_met s then None else Some (dl_due s)))"

lemma Timer_Reset_eq:
  "keeps_deadline now0 t s \<Longrightarrow>
   Timer_Reset sync now t = t\<lparr>ti_timer := gt_new now (ti_delay t)\<rparr>"
  by (auto simp: Timer_Reset_def gt_Stop_def gt_receive_def gt_Reset_def gt_new_def ti_delay_def
      keeps_deadline_def split: if_splits)

lemma NewTimer_keeps: "keeps_deadline now (NewTimer now ms) \<lparr>dl_due = when_of now d, dl_met = False\<rparr>"
  if "d = ti_delay (NewTimer now ms)"
  using that by (simp add: keeps_deadline_def NewTimer_def gt_new_def ti_delay_def Let_def)

lemma gt_new_keeps:
  "keeps_deadline now (t\<lparr>ti_timer := gt_new now d\<rparr>) \<lparr>dl_due = when_of now d, dl_met = False\<rparr>"
  by (simp add: keeps_deadline_def gt_new_def)

lemma timer_step_deadline:
  assumes "timer_step sync (now, t) e = Some (now', t')" "keeps_deadline now t s" "ti_delay t = delay"
  shows "\<exists>s'. deadline_step delay (now, s) e = Some (now', s') \<and> keeps_deadline now' t' s'
    \<and> ti_delay t' = delay"
proof (cases e)
  case Restart
  then show ?thesis
    using assms gt_new_keeps [of now delay t] by (auto simp: Timer_Reset_eq [OF assms(2)] ti_delay_def)
qed (use assms in \<open>auto simp: keeps_deadline_def gt_expire_def gt_receive_def Timer_Wait_def ti_delay_def
    split: option.splits if_splits\<close>)

lemma timer_run_deadline:
  assumes "timer_run sync (now, t) es = Some (now', t')" "keeps_deadline now t s" "ti_delay t = delay"
  shows "\<exists>s'. deadline_run delay (now, s) es = Some (now', s') \<and> keeps_deadline now' t' s'
    \<and> ti_delay t' = delay"
  using assms
proof (induction es arbitrary: now t s)
  case (Cons e es)
  obtain n1 t1 where one: "timer_step sync (now, t) e = Some (n1, t1)"
      "timer_run sync (n1, t1) es = Some (now', t')"
    using Cons.prems(1) by (auto simp: bind_eq_Some_conv)
  then show ?case
    using timer_step_deadline [OF one(1) Cons.prems(2,3)] Cons.IH [OF one(2)]
    by (fastforce simp: bind_eq_Some_conv)
qed simp

lemma deadline_meets:
  assumes "keeps_deadline now t s" "dl_due s \<le> now" "\<not> dl_met s"
  shows "\<exists>pre t'. set pre \<subseteq> {Expire} \<and> timer_run sync (now, t) (pre @ [Fire]) = Some (now, t')"
proof (cases "gt_sent (ti_timer t)")
  case True
  then show ?thesis
    by (intro exI [of _ "[]"]) (simp add: Timer_Wait_def gt_receive_def)
next
  case False
  then show ?thesis
    using assms by (intro exI [of _ "[Expire]"])
      (simp add: Timer_Wait_def gt_receive_def gt_expire_def keeps_deadline_def)
qed

subsection \<open>The delay in nanoseconds\<close>

lemma NewTimer_delay:
  assumes "unat ms \<le> 9223372036854"
  shows "ti_delay (NewTimer now ms) = int (unat ms) * 1000000"
proof -
  define n where "n = int (unat ms)"
  have n: "0 \<le> n" "n \<le> 9223372036854" unfolding n_def using assms by linarith+
  let ?n = "n * 1000000"
  have "ti_duration (NewTimer now ms) = word_of_int ?n"
    by (simp add: NewTimer_def Let_def n_def)
  moreover have "sint (word_of_int ?n :: u64) = (?n + 2 ^ 63) mod 2 ^ 64 - 2 ^ 63"
    by (subst int_word_sint) simp
  moreover have "(?n + 2 ^ 63) mod 2 ^ 64 = ?n + 2 ^ 63"
    using n by (intro mod_pos_pos_trivial) simp_all
  ultimately show ?thesis by (simp only: ti_delay_def n_def add_diff_cancel_right')
qed

text \<open>One millisecond more and the delay is negative: such a timer is due at once.\<close>

lemma timer_delay_wraps:
  "ti_delay (NewTimer now 9223372036855) = - 9223372036854551616"
  "now < 2 ^ 63 \<Longrightarrow> gt_expire now (ti_timer (NewTimer now 9223372036855)) \<noteq> None"
proof -
  show wraps: "ti_delay (NewTimer now 9223372036855) = - 9223372036854551616"
    by (simp add: NewTimer_def ti_delay_def Let_def signed_take_bit_int_eq_self)
  show "now < 2 ^ 63 \<Longrightarrow> gt_expire now (ti_timer (NewTimer now 9223372036855)) \<noteq> None"
    using wraps by (simp add: Let_def NewTimer_def ti_delay_def gt_new_def gt_expire_def when_of_def)
qed

lemma when_of_mono: "now \<le> now' \<Longrightarrow> when_of now d \<le> when_of now' d"
  by (simp add: when_of_def)

end
