(* ===== verification/TimedCore.thy ===== *)
theory TimedCore
  imports Timer CoreAvail
begin

text \<open>
  The core and its timer together: the \<open>select\<close> of \<open>Core.run\<close> receives \<open>TimerFired\<close> only from the
  channel of the timer, and every \<open>ETimerReset\<close> among the effects of a handler is a \<open>Timer_Reset\<close> at
  the instant the handler ends. An event carries the time its handler takes. \<open>tc_timeouts\<close> records
  the instants at which the core timed out, the last one first.
\<close>

subsection \<open>Steps\<close>

record ('agg, 'db) timed_core =
  tc_now :: int
  tc_timer :: Timer
  tc_core :: "('agg, 'db) core"
  tc_outcome :: outcome
  tc_timeouts :: "int list"

fun reset_timer :: "bool \<Rightarrow> int \<Rightarrow> core_effect list \<Rightarrow> Timer \<Rightarrow> Timer" where
  "reset_timer sync now [] t = t"
| "reset_timer sync now (ETimerReset # es) t = reset_timer sync now es (Timer_Reset sync now t)"
| "reset_timer sync now (e # es) t = reset_timer sync now es t"

text \<open>The timer is made at \<open>now0\<close> when the core is spawned; its loop starts at \<open>now\<close>.\<close>

definition timed_start ::
  "bool \<Rightarrow> int \<Rightarrow> int \<Rightarrow> u64 \<Rightarrow> PublicKey \<Rightarrow> Committee \<Rightarrow> SignatureService \<Rightarrow> 'db store
     \<Rightarrow> ('agg, 'db) timed_core" where
  "timed_start sync now0 now timeoutDelay name committee signatureService s =
     (let (c, out) = core_start name committee signatureService s
      in \<lparr>tc_now = now, tc_timer = reset_timer sync now (c_out c) (NewTimer now0 timeoutDelay),
          tc_core = c, tc_outcome = out, tc_timeouts = []\<rparr>)"

datatype timed_event = TElapse nat | TExpire | TEvent core_event nat

fun timed_step ::
  "('sk, 'p1, 'p2, 'agg, 'db, 'z) env_scheme \<Rightarrow> bool \<Rightarrow> ('agg, 'db) timed_core \<Rightarrow> timed_event
     \<Rightarrow> ('agg, 'db) timed_core option" where
  "timed_step E sync x (TElapse d) = Some (x\<lparr>tc_now := tc_now x + int d\<rparr>)"
| "timed_step E sync x TExpire =
     map_option (\<lambda>g. x\<lparr>tc_timer := (tc_timer x)\<lparr>ti_timer := g\<rparr>\<rparr>)
       (gt_expire (tc_now x) (ti_timer (tc_timer x)))"
| "timed_step E sync x (TEvent ev d) =
     (case tc_outcome x of
        Ret r \<Rightarrow>
          (case (case ev of TimerFired \<Rightarrow> Timer_Wait (tc_timer x) | _ \<Rightarrow> Some (tc_timer x)) of
             None \<Rightarrow> None
           | Some t \<Rightarrow>
               (let (c, out) = core_step E (tc_core x) ev;
                    now = tc_now x + int d;
                    new = drop (length (c_out (tc_core x))) (c_out c)
                in Some \<lparr>tc_now = now, tc_timer = reset_timer sync now new t, tc_core = c,
                     tc_outcome = out,
                     tc_timeouts = (case ev of TimerFired \<Rightarrow> [tc_now x] | _ \<Rightarrow> []) @ tc_timeouts x\<rparr>))
      | _ \<Rightarrow> None)"

primrec timed_run ::
  "('sk, 'p1, 'p2, 'agg, 'db, 'z) env_scheme \<Rightarrow> bool \<Rightarrow> ('agg, 'db) timed_core \<Rightarrow> timed_event list
     \<Rightarrow> ('agg, 'db) timed_core option" where
  "timed_run E sync x [] = Some x"
| "timed_run E sync x (e # es) = Option.bind (timed_step E sync x e) (\<lambda>y. timed_run E sync y es)"

subsection \<open>The effects of a local timeout\<close>

lemma localTimeoutRound_resets:
  assumes "localTimeoutRound E c = (c', out)"
  shows "\<exists>t rest. c_out c' = c_out c @ ESign (STimeout t) # ETimerReset # rest"
proof -
  define c0 where "c0 = increaseLastVotedRound c (c_round c)"
  define t where "t = NewTimeout E (c_highQC c0) (c_round c0) (c_name c0) (c_signatureService c0)"
  define c2 where "c2 = emit [ESign (STimeout t), ETimerReset] c0"
  have 2: "c_out c2 = c_out c @ [ESign (STimeout t), ETimerReset]"
    by (simp add: c2_def c0_def core_frames emit_def increaseLastVotedRound_def)
  have 3: "\<exists>rest. c_out c1 = c_out c2 @ es @ rest" if "handleTimeout E (emit es c2) t = (c1, o1)" for es c1 o1
    using handleTimeout_quiet [OF that] by (auto simp: quiet_step_def emit_def)
  show ?thesis
    using assms 2 3
    by (fastforce simp: localTimeoutRound_def Let_def t_def [symmetric] c2_def [symmetric] c0_def [symmetric]
        split: prod.splits result.splits)
qed

subsection \<open>The invariant\<close>

text \<open>Consecutive local timeouts are at least the delay apart.\<close>

fun spaced :: "int \<Rightarrow> int list \<Rightarrow> bool" where
  "spaced delay (later # earlier # rest) \<longleftrightarrow> when_of earlier delay \<le> later \<and> spaced delay (earlier # rest)"
| "spaced delay _ \<longleftrightarrow> True"

definition timer_alive :: "int \<Rightarrow> ('agg, 'db) timed_core \<Rightarrow> int \<Rightarrow> bool" where
  "timer_alive delay x due \<longleftrightarrow>
     keeps_deadline (tc_now x) (tc_timer x) \<lparr>dl_due = due, dl_met = False\<rparr>
     \<and> ti_delay (tc_timer x) = delay \<and> due \<le> when_of (tc_now x) delay
     \<and> spaced delay (tc_timeouts x)
     \<and> (case tc_timeouts x of [] \<Rightarrow> True | f # fs \<Rightarrow> when_of f delay \<le> due)"

lemma reset_timer_keeps:
  assumes "keeps_deadline now0 t s" "now0 \<le> now" "ti_delay t = delay"
  shows "ti_delay (reset_timer sync now es t) = delay
    \<and> (if ETimerReset \<in> set es
       then keeps_deadline now (reset_timer sync now es t) \<lparr>dl_due = when_of now delay, dl_met = False\<rparr>
       else reset_timer sync now es t = t)"
  using assms
proof (induction es arbitrary: t now0 s)
  case (Cons e es)
  show ?case
  proof (cases "e = ETimerReset")
    case True
    let ?t = "t\<lparr>ti_timer := gt_new now delay\<rparr>"
    have reset: "Timer_Reset sync now t = ?t" using Timer_Reset_eq [OF Cons.prems(1)] Cons.prems(3) by simp
    have keeps: "keeps_deadline now ?t \<lparr>dl_due = when_of now delay, dl_met = False\<rparr>"
      by (rule gt_new_keeps)
    moreover have "ti_delay ?t = delay" using Cons.prems(3) by (simp add: ti_delay_def)
    ultimately show ?thesis using Cons.IH [OF keeps] True reset by (auto split: if_splits)
  next
    case False
    then show ?thesis using Cons.IH [OF Cons.prems] by (cases e) auto
  qed
qed (simp add: ti_delay_def)

lemma keeps_later: "keeps_deadline now t s \<Longrightarrow> now \<le> now' \<Longrightarrow> keeps_deadline now' t s"
  by (auto simp: keeps_deadline_def)

lemma expire_keeps:
  "gt_expire now (ti_timer t) = Some g \<Longrightarrow> keeps_deadline now t s \<Longrightarrow> keeps_deadline now (t\<lparr>ti_timer := g\<rparr>) s"
  by (auto simp: gt_expire_def keeps_deadline_def split: option.splits if_splits)

lemma timer_alive_start:
  "\<exists>due. timer_alive (ti_delay (NewTimer now0 ms))
     (timed_start sync now0 now ms name committee ss s :: ('agg, 'db) timed_core) due"
  if "now0 \<le> now"
proof -
  obtain c :: "('agg, 'db) core" and out where start: "core_start name committee ss s = (c, out)" by fastforce
  have reset: "ETimerReset \<in> set (c_out c)"
    using start by (auto simp: core_start_def Let_def emit_def generateProposal_out split: sum.splits if_splits)
  show ?thesis
    using reset_timer_keeps [OF NewTimer_keeps [OF refl] that refl, of sync "c_out c"] reset start
    by (auto simp: timer_alive_def timed_start_def split: if_splits)
qed

text \<open>Whether the handler of a step has restarted the timer.\<close>

definition restarts :: "('agg, 'db) timed_core \<Rightarrow> ('agg, 'db) timed_core \<Rightarrow> bool" where
  "restarts x y \<longleftrightarrow> ETimerReset \<in> set (drop (length (c_out (tc_core x))) (c_out (tc_core y)))"

text \<open>A step that does not restart the timer keeps the instant at which it is due.\<close>

lemma timed_step_due:
  assumes "timed_step E sync x e = Some y" "timer_alive delay x due"
  shows "\<exists>due'. timer_alive delay y due' \<and> (restarts x y \<or> due' = due)"
proof (cases e)
  case (TElapse d)
  then show ?thesis
    using assms when_of_mono [of "tc_now x" "tc_now x + int d" delay]
    by (intro exI [of _ due]) (auto simp: timer_alive_def intro: keeps_later)
next
  case TExpire
  then show ?thesis
    using assms by (intro exI [of _ due]) (auto simp: timer_alive_def ti_delay_def intro: expire_keeps)
next
  case (TEvent ev d)
  let ?now = "tc_now x + int d"
  obtain t c out where t: "(case ev of TimerFired \<Rightarrow> Timer_Wait (tc_timer x) | _ \<Rightarrow> Some (tc_timer x)) = Some t"
      and step: "core_step E (tc_core x) ev = (c, out)"
      and y: "tc_now y = ?now"
        "tc_timer y = reset_timer sync ?now (drop (length (c_out (tc_core x))) (c_out c)) t"
        "tc_timeouts y = (case ev of TimerFired \<Rightarrow> [tc_now x] | _ \<Rightarrow> []) @ tc_timeouts x" "tc_core y = c"
    using assms(1) TEvent by (auto simp: Let_def split: outcome.splits option.splits prod.splits)
  note alive = assms(2) [unfolded timer_alive_def]
  have later: "when_of (tc_now x) delay \<le> when_of ?now delay" by (rule when_of_mono) simp
  show ?thesis
  proof (cases "ev = TimerFired")
    case False
    then have "t = tc_timer x" "tc_timeouts y = tc_timeouts x" using t y(3) by (auto split: core_event.splits)
    then show ?thesis
      using reset_timer_keeps [of "tc_now x" t _ ?now delay sync "drop (length (c_out (tc_core x))) (c_out c)"]
        alive later y keeps_later [of "tc_now x" t _ ?now]
      by (cases "ETimerReset \<in> set (drop (length (c_out (tc_core x))) (c_out c))")
        (fastforce simp: timer_alive_def restarts_def split: list.splits)+
  next
    case True
    then have wait: "Timer_Wait (tc_timer x) = Some t" and log: "tc_timeouts y = tc_now x # tc_timeouts x"
      using t y(3) by auto
    have t: "keeps_deadline (tc_now x) t \<lparr>dl_due = due, dl_met = True\<rparr>" "ti_delay t = delay"
        "due \<le> tc_now x"
      using wait alive by (auto simp: Timer_Wait_def gt_receive_def keeps_deadline_def ti_delay_def
          split: option.splits if_splits)
    obtain s rest where "c_out c = c_out (tc_core x) @ ESign (STimeout s) # ETimerReset # rest"
      using localTimeoutRound_resets step True by fastforce
    then have new: "ETimerReset \<in> set (drop (length (c_out (tc_core x))) (c_out c))" by simp
    then have "keeps_deadline ?now (tc_timer y) \<lparr>dl_due = when_of ?now delay, dl_met = False\<rparr>"
        "ti_delay (tc_timer y) = delay"
      using reset_timer_keeps [OF t(1) _ t(2), of ?now sync] y(2) by (auto split: if_splits)
    moreover have "spaced delay (tc_timeouts y)"
      using alive t(3) log by (cases "tc_timeouts x") auto
    ultimately show ?thesis
      using later y(1,4) log new by (intro exI [of _ "when_of ?now delay"]) (simp add: timer_alive_def restarts_def)
  qed
qed

lemma timeout_restarts: "timed_step E sync x (TEvent TimerFired d) = Some y \<Longrightarrow> restarts x y"
  using localTimeoutRound_resets
  by (fastforce simp: restarts_def Let_def split: outcome.splits option.splits prod.splits)

lemma timed_step_now: "timed_step E sync x e = Some y \<Longrightarrow> tc_now x \<le> tc_now y"
  by (cases e) (auto simp: Let_def split: outcome.splits option.splits prod.splits)

subsection \<open>Infinite runs\<close>

text \<open>
  \<open>x i\<close> is the state before the \<open>i\<close>-th event \<open>e i\<close>. A run is fair to the timer if an expiry of the
  timer, or a tick in its channel that the core could receive, does not stay possible for ever without
  happening: the Go runtime fires a timer that is due, and \<open>select\<close> picks a ready case at random.
\<close>

definition timed_path ::
  "('sk, 'p1, 'p2, 'agg, 'db, 'z) env_scheme \<Rightarrow> bool \<Rightarrow> (nat \<Rightarrow> timed_event)
     \<Rightarrow> (nat \<Rightarrow> ('agg, 'db) timed_core) \<Rightarrow> bool" where
  "timed_path E sync e x \<longleftrightarrow> (\<forall>i. timed_step E sync (x i) (e i) = Some (x (Suc i)))"

definition timer_fair ::
  "('sk, 'p1, 'p2, 'agg, 'db, 'z) env_scheme \<Rightarrow> bool \<Rightarrow> (nat \<Rightarrow> timed_event)
     \<Rightarrow> (nat \<Rightarrow> ('agg, 'db) timed_core) \<Rightarrow> bool" where
  "timer_fair E sync e x \<longleftrightarrow>
     (\<forall>i. (\<forall>j\<ge>i. timed_step E sync (x j) TExpire \<noteq> None) \<longrightarrow> (\<exists>j\<ge>i. e j = TExpire))
     \<and> (\<forall>i. (\<forall>j\<ge>i. timed_step E sync (x j) (TEvent TimerFired 0) \<noteq> None)
          \<longrightarrow> (\<exists>j\<ge>i. \<exists>d. e j = TEvent TimerFired d))"

lemma timed_path_now:
  assumes "timed_path E sync e x" "i \<le> j"
  shows "tc_now (x i) \<le> tc_now (x j)"
  using assms(2)
proof (induction rule: dec_induct)
  case (step j)
  then show ?case using timed_step_now assms(1) unfolding timed_path_def by (metis order_trans)
qed simp

lemma timed_path_alive:
  assumes "timed_path E sync e x" "timer_alive delay (x 0) due"
  shows "\<exists>due. timer_alive delay (x i) due"
proof (induction i)
  case (Suc i)
  then show ?case using timed_step_due assms(1) unfolding timed_path_def by blast
qed (use assms(2) in blast)

text \<open>As long as no step restarts the timer, the due instant stays.\<close>

lemma timed_path_due:
  assumes "timed_path E sync e x" "timer_alive delay (x i) due" "i \<le> j"
    and "\<And>k. i \<le> k \<Longrightarrow> k < j \<Longrightarrow> \<not> restarts (x k) (x (Suc k))"
  shows "timer_alive delay (x j) due"
  using assms(3,4)
proof (induction rule: dec_induct)
  case (step j)
  then show ?case using timed_step_due [of E sync "x j" "e j"] assms(1) unfolding timed_path_def by (metis less_Suc_eq)
qed (rule assms(2))

text \<open>A timer that is due has a tick in its channel or can expire.\<close>

lemma timer_due_enabled:
  assumes "timer_alive delay x due" "due \<le> tc_now x"
  shows "gt_sent (ti_timer (tc_timer x)) \<or> timed_step E sync x TExpire \<noteq> None"
proof (cases "gt_sent (ti_timer (tc_timer x))")
  case False
  then have "gt_when (ti_timer (tc_timer x)) = Some due"
    using assms(1) by (simp add: timer_alive_def keeps_deadline_def)
  then show ?thesis using False assms(2) by (simp add: gt_expire_def)
qed simp

lemma timeout_enabled:
  "tc_outcome x = Ret r \<Longrightarrow> timed_step E sync x (TEvent TimerFired 0) \<noteq> None \<longleftrightarrow> gt_sent (ti_timer (tc_timer x))"
  by (auto simp: Timer_Wait_def gt_receive_def Let_def split: prod.splits option.splits)

lemma timeout_possible:
  assumes "tc_outcome x = Ret r" "timer_alive delay x due" "due \<le> tc_now x"
  shows "\<exists>pre y. set pre \<subseteq> {TExpire} \<and> timed_run E sync x (pre @ [TEvent TimerFired 0]) = Some y
    \<and> tc_timeouts y = tc_now x # tc_timeouts x"
proof -
  have fires: "\<exists>y. timed_step E sync u (TEvent TimerFired 0) = Some y \<and> tc_timeouts y = tc_now u # tc_timeouts u"
    if "tc_outcome u = Ret r" "gt_sent (ti_timer (tc_timer u))" for u
    using that by (simp add: Timer_Wait_def gt_receive_def Let_def split: prod.splits)
  show ?thesis
  proof (cases "gt_sent (ti_timer (tc_timer x))")
    case True
    then obtain y where "timed_step E sync x (TEvent TimerFired 0) = Some y" "tc_timeouts y = tc_now x # tc_timeouts x"
      using fires assms(1) by blast
    then show ?thesis by (intro exI [of _ "[]"] exI [of _ y]) (simp del: timed_step.simps)
  next
    case False
    let ?u = "x\<lparr>tc_timer := (tc_timer x)\<lparr>ti_timer := \<lparr>gt_when = None, gt_sent = True\<rparr>\<rparr>\<rparr>"
    have expire: "timed_step E sync x TExpire = Some ?u"
      using False assms(2,3) by (simp add: gt_expire_def keeps_deadline_def timer_alive_def)
    obtain y where "timed_step E sync ?u (TEvent TimerFired 0) = Some y" "tc_timeouts y = tc_now x # tc_timeouts x"
      using fires [of ?u] assms(1) by auto
    then show ?thesis
      by (intro exI [of _ "[TExpire]"] exI [of _ y]) (simp del: timed_step.simps add: expire)
  qed
qed

text \<open>Only handlers restart the timer, and a timeout is recorded.\<close>

lemma restarts_event:
  "timed_step E sync x e = Some y \<Longrightarrow> restarts x y \<Longrightarrow>
     \<exists>ev d. e = TEvent ev d \<and> (ev = TimerFired \<longrightarrow> tc_timeouts y = tc_now x # tc_timeouts x)"
  by (cases e) (auto simp: restarts_def Let_def split: outcome.splits option.splits prod.splits)

text \<open>A tick stays in the channel until the timer is restarted, and an expiry puts one there.\<close>

lemma tick_stays:
  assumes "timed_step E sync x e = Some y" "gt_sent (ti_timer (tc_timer x))" "\<not> restarts x y"
  shows "gt_sent (ti_timer (tc_timer y))"
proof (cases e)
  case (TEvent ev d)
  have quiet: "ETimerReset \<notin> set es \<Longrightarrow> reset_timer sync now es t = t" for now es t
    by (induction sync now es t rule: reset_timer.induct) auto
  have "ev \<noteq> TimerFired" using assms(1,3) TEvent timeout_restarts by metis
  then show ?thesis
    using assms TEvent
    by (cases ev) (auto simp: restarts_def Let_def quiet split: outcome.splits prod.splits)
qed (use assms in \<open>auto simp: gt_expire_def split: if_splits option.splits\<close>)

lemma expiry_ticks:
  "timed_step E sync x TExpire = Some y \<Longrightarrow> gt_sent (ti_timer (tc_timer y))"
  by (auto simp: gt_expire_def split: if_splits option.splits)

lemma timer_restarted:
  assumes "timed_path E sync e x" "timer_fair E sync e x" "\<forall>T. \<exists>i. T \<le> tc_now (x i)"
    and "\<forall>i. \<exists>r. tc_outcome (x i) = Ret r" "timer_alive delay (x 0) due0"
  shows "\<exists>j\<ge>i. restarts (x j) (x (Suc j))"
proof (rule ccontr)
  assume "\<not> ?thesis"
  then have quiet: "\<not> restarts (x k) (x (Suc k))" if "i \<le> k" for k using that by blast
  have step: "timed_step E sync (x k) (e k) = Some (x (Suc k))" for k
    using assms(1) by (simp add: timed_path_def)
  obtain due where "timer_alive delay (x i) due" using timed_path_alive [OF assms(1,5)] by blast
  then have alive: "timer_alive delay (x k) due" if "i \<le> k" for k
    using timed_path_due [OF assms(1) _ that] quiet by blast
  obtain m where m: "due \<le> tc_now (x m)" using assms(3) by blast
  define n where "n = max i m"
  have due: "due \<le> tc_now (x k)" if "n \<le> k" for k
    using timed_path_now [OF assms(1), of m k] that m by (simp add: n_def)
  have "\<exists>j\<ge>n. gt_sent (ti_timer (tc_timer (x j)))"
  proof (rule ccontr)
    assume none: "\<not> (\<exists>j\<ge>n. gt_sent (ti_timer (tc_timer (x j))))"
    then have "\<forall>j\<ge>n. timed_step E sync (x j) TExpire \<noteq> None"
      using timer_due_enabled [OF alive due] by (fastforce simp: n_def)
    then obtain j where "n \<le> j" "e j = TExpire" using assms(2) unfolding timer_fair_def by blast
    then show False using none expiry_ticks step by (metis le_SucI)
  qed
  then obtain j where j: "n \<le> j" "gt_sent (ti_timer (tc_timer (x j)))" by blast
  have tick: "gt_sent (ti_timer (tc_timer (x k)))" if "j \<le> k" for k
    using that
  proof (induction rule: dec_induct)
    case (step k)
    have "i \<le> k" using j(1) step.hyps(1) by (simp add: n_def)
    then show ?case using tick_stays [OF _ step.IH quiet] \<open>\<And>k. timed_step E sync (x k) (e k) = Some (x (Suc k))\<close> by blast
  qed (rule j(2))
  have "\<forall>k\<ge>j. timed_step E sync (x k) (TEvent TimerFired 0) \<noteq> None"
    using timeout_enabled tick assms(4) by blast
  then obtain k d where k: "j \<le> k" "e k = TEvent TimerFired d" using assms(2) unfolding timer_fair_def by blast
  then have "restarts (x k) (x (Suc k))" using timeout_restarts step by metis
  then show False using quiet k(1) j(1) by (simp add: n_def)
qed

end
