(* ===== verification/ServiceProps.thy ===== *)
theory ServiceProps
  imports DemoFiles TimedCore DemoRun
begin

text \<open>Properties of the round timer, of the local configuration and of the store test.\<close>

subsection \<open>The round timer\<close>


subsection \<open>A run that times out for ever\<close>











subsection \<open>A local configuration\<close>

text \<open>
  C16: With writable files, four distinct generated names and a host that can be made, \<open>genSecrets\<close> and
  then \<open>generateCommittee\<close> leave files from which each of the four nodes starts: node i runs under the
  i-th generated name and key, all of them know the same four authorities of one unit at the addresses
  of their peer keys, and both thresholds are three. \<open>fullTest\<close> starts all four.
\<close>

theorem generated_config_starts_nodes:
  assumes "json_text_ok T" "random_ok P R key pid 4" "inj_on (names_of L R) {..<4}"
    and "\<forall>path. fs_writable fs path" "ascii bsNode"
    and "\<And>i. i < 4 \<Longrightarrow> NewRoutedHost H listen_addr (Some (key i)) [bsNode] = Ok (host i)"
    and "\<And>path. open path = Inr (db path)"
  shows "\<exists>fs1 fs2. genSecrets L P T R fs = (fs1, Ok ()) \<and> generateCommittee P T fs1 bsNode = (fs2, Ok ())
    \<and> (\<forall>i<4. \<exists>node :: ('agg, 'db) Node. testRun T P H open fs2 (decimal i) = Ok node
         \<and> c_name (cn_core (nd_consensus node)) = names_of L R i
         \<and> ss_key (c_signatureService (cn_core (nd_consensus node))) = fst (GenerateKeypair L (rnd_ikm R i))
         \<and> cm_members (c_committee (cn_core (nd_consensus node))) = names_of L R ` {..<4}
         \<and> (\<forall>j<4. Committee_Stake (c_committee (cn_core (nd_consensus node))) (names_of L R j) = 1
              \<and> Committee_Address (c_committee (cn_core (nd_consensus node))) (names_of L R j) = (pid j, True))
         \<and> QuorumThreshold (c_committee (cn_core (nd_consensus node))) = 3
         \<and> mp_QuorumThreshold (qw_committee (mn_quorumWaiter (nd_mempool node))) = 3)
    \<and> (\<exists>nodes :: ('agg, 'db) Node list. fullTest T P H open fs2 = Ok nodes \<and> length nodes = 4)"
proof -
  let ?c = "read_committee L R pid 4 [bsNode]"
  obtain fs1 fs2 where config: "genSecrets L P T R fs = (fs1, Ok ())" "generateCommittee P T fs1 bsNode = (fs2, Ok ())"
      "ReadCommittee T P fs2 committee_file_name = Ok ?c"
      "\<forall>i<4. ReadSecret T P fs2 (secret_file (decimal i)) = Ok (secret_of L R key i)"
    using config_generated [OF assms(1-5)] by blast
  have nodes: "\<exists>node :: ('agg, 'db) Node. testRun T P H open fs2 (decimal i) = Ok node
      \<and> c_name (cn_core (nd_consensus node)) = names_of L R i
      \<and> ss_key (c_signatureService (cn_core (nd_consensus node))) = fst (GenerateKeypair L (rnd_ikm R i))
      \<and> c_committee (cn_core (nd_consensus node)) = nc_Consensus ?c
      \<and> qw_committee (mn_quorumWaiter (nd_mempool node)) = nc_Mempool ?c" if "i < 4" for i
  proof (rule testRun_starts)
    show "ReadSecret T P fs2 (secret_file (decimal i)) = Ok (secret_of L R key i)" using config(4) that by blast
    show "NewRoutedHost H listen_addr (Some (key i)) [bsNode] = Ok (host i)" by (rule assms(6) [OF that])
    show "open (teststore_file (decimal i)) = Inr (db (teststore_file (decimal i)))" by (rule assms(7))
  qed (rule assms(3) that config(3))+
  have members: "Committee_Stake (nc_Consensus ?c) (names_of L R j) = 1"
      "Committee_Address (nc_Consensus ?c) (names_of L R j) = (pid j, True)" if "j < 4" for j
    using read_committee_members(1,2) [OF assms(3) that] by blast+
  have committee: "cm_members (nc_Consensus ?c) = names_of L R ` {..<4}"
      "QuorumThreshold (nc_Consensus ?c) = 3" "mp_QuorumThreshold (nc_Mempool ?c) = 3"
    using read_committee_members(5-7) [OF assms(3), of 0 pid "[bsNode]"] by simp_all
  obtain f :: "nat \<Rightarrow> ('agg, 'db) Node" where "\<forall>i<4. testRun T P H open fs2 (decimal i) = Ok (f i)"
    using nodes by metis
  then have "fullTest T P H open fs2 = Ok (map f [0..<4])"
    by (simp add: fullTest_def secretCount_def) (rule map_result_all_ok, simp)
  then have "\<exists>nodes :: ('agg, 'db) Node list. fullTest T P H open fs2 = Ok nodes \<and> length nodes = 4" by simp
  moreover have "\<forall>i<4. \<exists>node :: ('agg, 'db) Node. testRun T P H open fs2 (decimal i) = Ok node
         \<and> c_name (cn_core (nd_consensus node)) = names_of L R i
         \<and> ss_key (c_signatureService (cn_core (nd_consensus node))) = fst (GenerateKeypair L (rnd_ikm R i))
         \<and> cm_members (c_committee (cn_core (nd_consensus node))) = names_of L R ` {..<4}
         \<and> (\<forall>j<4. Committee_Stake (c_committee (cn_core (nd_consensus node))) (names_of L R j) = 1
              \<and> Committee_Address (c_committee (cn_core (nd_consensus node))) (names_of L R j) = (pid j, True))
         \<and> QuorumThreshold (c_committee (cn_core (nd_consensus node))) = 3
         \<and> mp_QuorumThreshold (qw_committee (mn_quorumWaiter (nd_mempool node))) = 3"
    using nodes members committee by metis
  ultimately show ?thesis using config(1,2) by blast
qed

theorem generated_config_starts_nodes_witness:
  "\<exists>fs1 fs2. genSecrets demo_lib demo_peers demo_json demo_random demo_files = (fs1, Ok ())
    \<and> generateCommittee demo_peers demo_json fs1 ''bs'' = (fs2, Ok ())
    \<and> (\<exists>nodes :: (unit, unit) Node list.
         fullTest demo_json demo_peers demo_p2p (\<lambda>_. Inr ()) fs2 = Ok nodes \<and> length nodes = 4)"
proof -
  have files: "\<forall>path. fs_writable demo_files path" "ascii ''bs''"
    by (simp_all add: demo_files_def ascii_def)
  show ?thesis
    using generated_config_starts_nodes [where 'agg = unit and 'db = unit and db = "\<lambda>_. ()",
        OF demo_json_ok demo_random_ok demo_names_inj files demo_host refl]
    by blast
qed

subsection \<open>The store test\<close>

lemma read_error_not_pebble: "read_error e \<noteq> PebbleErrNotFound"
  by (cases e) simp_all

lemma Store_Read_not_pebble: "Store_Read E s k \<noteq> Inl PebbleErrNotFound"
  using read_error_not_pebble by (auto simp: Store_Read_eq split: sum.splits)

text \<open>
  The store test waits for \<open>pebble.ErrNotFound\<close>, which \<open>Store.Read\<close> never returns: on a database
  without the critical value it panics after its two successful reads, unless the value was written
  before it looked, and in no run at all does it print that the value was not found as expected.
\<close>

theorem teststore_panics:
  assumes "pebble_ok E" "db_Get E db st_critical = Inl PebbleNotFound"
    and "\<forall>cmd\<in>set early. cmd = notifyReadCommand st_critical 1"
  shows "storeTest E (Inr db) early late after
      = ([got_billy (bytes_of_string ''bob''), got_billy (bytes_of_string ''the bat'')], Crash ExplicitPanic)
    \<and> ''Just as expected, it wasn't found'' \<notin> set (fst (storeTest E opened early' late' after'))"
proof -
  define s1 where "s1 = Store_Write E (NewStore db) st_billy (bytes_of_string ''bob'')"
  define s2 where "s2 = Store_Write E s1 (bytes_of_string ''keith'') (bytes_of_string ''woods'')"
  define s3 where "s3 = Store_Write E s2 st_billy (bytes_of_string ''the bat'')"
  note read = storeTest_read [OF assms(1) critical_not_billy(1,2), of db,
      folded s1_def, folded s2_def, folded s3_def]
  have "st_db (fst (store_run E s3 early)) = st_db s3"
    by (rule store_run_notify) (use assms(3) in blast)
  then have "Store_Read E (fst (store_run E s3 early)) st_critical = Inl ValueNotFound"
    using read(3) assms(2) by (simp add: Store_Read_eq NewStore_def)
  then have "storeTest E (Inr db) early late after
      = ([got_billy (bytes_of_string ''bob''), got_billy (bytes_of_string ''the bat'')], Crash ExplicitPanic)"
    by (simp add: storeTest_def s1_def [symmetric] s2_def [symmetric] s3_def [symmetric] read(1,2) Let_def)
  moreover have "''Just as expected, it wasn't found'' \<notin> set (fst (storeTest E opened early' late' after'))"
    using Store_Read_not_pebble
    by (auto simp: storeTest_def Let_def got_billy_def split: sum.splits option.splits)
  ultimately show ?thesis ..
qed

theorem teststore_panics_witness:
  "storeTest demo_env (Inr Map.empty) [] other_commands []
     = ([got_billy (bytes_of_string ''bob''), got_billy (bytes_of_string ''the bat'')], Crash ExplicitPanic)"
proof (rule teststore_panics [THEN conjunct1])
  show "db_Get demo_env Map.empty st_critical = Inl PebbleNotFound" by (simp add: demo_env_def)
qed (simp_all add: demo_pebble_ok)

end
