(* ===== verification/Progress.thy ===== *)
theory Progress
  imports FullDemo ComponentProps
begin

text \<open>
  Progress of a core: \<open>serve\<close> is the loop of \<open>Core.run\<close> over a sequence of events. When the blocks of a
  certified chain reach a core in order, one in each round, it commits each block when it processes
  the second block after it, whatever votes, timeouts, timeout certificates and local timeouts come in
  between; and it votes for every block if its timer does not fire.
\<close>

subsection \<open>The loop over events\<close>

fun serve ::
  "('sk, 'p1, 'p2, 'agg, 'db, 'z) env_scheme \<Rightarrow> ('agg, 'db) core \<Rightarrow> core_event list
     \<Rightarrow> ('agg, 'db) core \<times> outcome" where
  "serve E c [] = (c, Ret None)"
| "serve E c (ev # evs) =
     (case core_step E c ev of
        (c', Ret err) \<Rightarrow> serve E c' evs
      | (c', other) \<Rightarrow> (c', other))"

fun voted_of :: "core_effect \<Rightarrow> (Block \<times> vote) option" where
  "voted_of (ESign (SVote b v)) = Some (b, v)"
| "voted_of _ = None"

definition commits_in :: "core_effect list \<Rightarrow> Block list" where
  "commits_in es = List.map_filter commit_of es"

definition ballots_in :: "core_effect list \<Rightarrow> (Block \<times> vote) list" where
  "ballots_in es = List.map_filter voted_of es"

definition sends_in :: "core_effect list \<Rightarrow> (PeerID \<times> byte list) list" where
  "sends_in es = List.map_filter (\<lambda>e. case e of ESend a bs \<Rightarrow> Some (a, bs) | _ \<Rightarrow> None) es"

fun make_of :: "core_effect \<Rightarrow> (Round \<times> QC \<times> TC option) option" where
  "make_of (EProposer (proposerMakeMessage r qc tc)) = Some (r, qc, tc)"
| "make_of _ = None"

definition makes_in :: "core_effect list \<Rightarrow> (Round \<times> QC \<times> TC option) list" where
  "makes_in es = List.map_filter make_of es"

fun delivered :: "core_event \<Rightarrow> Block option" where
  "delivered (RxMessage (proposeMessage b)) = Some b"
| "delivered (RxLoopback b) = Some b"
| "delivered _ = None"

text \<open>The rounds in other messages than proposals are far below where the leader is undefined.\<close>

definition round_small :: "Round \<Rightarrow> bool" where
  "round_small r \<longleftrightarrow> unat r < 2 ^ 62"

fun event_small :: "core_event \<Rightarrow> bool" where
  "event_small (RxMessage (proposeMessage b)) \<longleftrightarrow> True"
| "event_small (RxMessage (voteMessage v)) \<longleftrightarrow> round_small (v_round v)"
| "event_small (RxMessage (timeoutMessage t)) \<longleftrightarrow>
     round_small (t_round t) \<and> round_small (qc_Round (t_highQC t))"
| "event_small (RxMessage (tcMessage tc)) \<longleftrightarrow> round_small (tc_Round tc)"
| "event_small (RxMessage m) \<longleftrightarrow> False"
| "event_small _ \<longleftrightarrow> True"

text \<open>\<open>b\<close> is proposed by the leader of the round after \<open>p\<close>, and certifies \<open>p\<close>.\<close>

definition follows ::
  "('sk, 'p1, 'p2, 'agg, 'db, 'z) env_scheme \<Rightarrow> Committee \<Rightarrow> Block \<Rightarrow> Block \<Rightarrow> bool" where
  "follows E cm p b \<longleftrightarrow> blk_Round b = blk_Round p + 1 \<and> blk_Tc b = None
     \<and> getLeader cm (blk_Round b) = Inr (blk_Author b) \<and> Block_Verify E cm b = None
     \<and> (\<exists>bytes. Block_Serialize E b = Ok bytes)
     \<and> (if blk_Round p = 0 then blk_Qc b = GenesisQC
        else qc_Round (blk_Qc b) = blk_Round p \<and> Parent b = Block_Digest E p)"

fun certified_chain ::
  "('sk, 'p1, 'p2, 'agg, 'db, 'z) env_scheme \<Rightarrow> Committee \<Rightarrow> Block \<Rightarrow> Block list \<Rightarrow> bool" where
  "certified_chain E cm p [] \<longleftrightarrow> True"
| "certified_chain E cm p (b # bs) \<longleftrightarrow> follows E cm p b \<and> certified_chain E cm b bs"

subsection \<open>Lists of effects\<close>

lemma effects_in_append [simp]:
  "commits_in (xs @ ys) = commits_in xs @ commits_in ys" "ballots_in (xs @ ys) = ballots_in xs @ ballots_in ys"
  "sends_in (xs @ ys) = sends_in xs @ sends_in ys" "makes_in (xs @ ys) = makes_in xs @ makes_in ys"
  by (simp_all add: commits_in_def ballots_in_def sends_in_def makes_in_def map_filter_append)

lemma quiet_effects:
  assumes "\<forall>e\<in>set es. quiet e"
  shows "commits_in es = []" "ballots_in es = []"
proof -
  have "commit_of e = None" "voted_of e = None" if "quiet e" for e
    using that by (cases e rule: commit_of.cases; auto simp: quiet_def)
      (cases e rule: voted_of.cases; use that in \<open>auto simp: quiet_def\<close>)
  then show "commits_in es = []" "ballots_in es = []"
    using assms by (auto intro!: map_filter_none simp: commits_in_def ballots_in_def)
qed

lemma commits_in_simps [simp]:
  "commits_in [] = []" "commits_in (ECommit b # es) = b # commits_in es"
  "commits_in (ESign s # es) = commits_in es"
  "commits_in (map EMempool mm) = []" "commits_in (map EPayloadWaiter pm) = []"
  by (simp_all add: commits_in_def map_filter_simps) (auto intro!: map_filter_none)

lemma ballots_in_simps [simp]:
  "ballots_in [] = []" "ballots_in (ECommit b # es) = ballots_in es"
  "ballots_in (ESign (SVote b v) # es) = (b, v) # ballots_in es"
  "ballots_in (map EMempool mm) = []" "ballots_in (map EPayloadWaiter pm) = []"
  by (simp_all add: ballots_in_def map_filter_simps) (auto intro!: map_filter_none)

lemma sends_in_simps [simp]:
  "sends_in [] = []" "sends_in (ECommit b # es) = sends_in es" "sends_in (ESign s # es) = sends_in es"
  "sends_in (ESend a bs # es) = (a, bs) # sends_in es" "sends_in (ETimerReset # es) = sends_in es"
  "sends_in (EProposer m # es) = sends_in es" "sends_in (EBroadcast as bs # es) = sends_in es"
  "sends_in (map EMempool mm) = []" "sends_in (map EPayloadWaiter pm) = []"
  by (simp_all add: sends_in_def map_filter_simps) (auto intro!: map_filter_none)

lemma makes_in_simps [simp]:
  "makes_in [] = []" "makes_in (ECommit b # es) = makes_in es" "makes_in (ESign s # es) = makes_in es"
  "makes_in (ESend a bs # es) = makes_in es" "makes_in (EBroadcast as bs # es) = makes_in es" "makes_in (ETimerReset # es) = makes_in es"
  "makes_in (EProposer (proposerMakeMessage r qc tc) # es) = (r, qc, tc) # makes_in es"
  "makes_in (EProposer (proposerCleanupMessage ds) # es) = makes_in es"
  "makes_in (map EMempool mm) = []" "makes_in (map EPayloadWaiter pm) = []"
  by (simp_all add: makes_in_def map_filter_simps) (auto intro!: map_filter_none)

subsection \<open>Calm steps\<close>

text \<open>The round of a core is at most \<open>n\<close> and that of its high QC is less.\<close>

definition bounded :: "nat \<Rightarrow> ('agg, 'db) core \<Rightarrow> bool" where
  "bounded n c \<longleftrightarrow> Suc n < 2 ^ 63 \<and> unat (c_round c) \<le> n \<and> unat (qc_Round (c_highQC c)) < n"

definition calm :: "nat \<Rightarrow> ('agg, 'db) core \<Rightarrow> ('agg, 'db) core \<Rightarrow> bool" where
  "calm n c c' \<longleftrightarrow> c_name c' = c_name c \<and> c_signatureService c' = c_signatureService c
     \<and> c_committee c' = c_committee c \<and> c_store c' = c_store c
     \<and> c_lastVotedRound c' = c_lastVotedRound c \<and> c_lastCommittedRound c' = c_lastCommittedRound c
     \<and> commits_in (c_out c') = commits_in (c_out c) \<and> ballots_in (c_out c') = ballots_in (c_out c)
     \<and> (bounded n c \<longrightarrow> bounded n c')"

lemma bounded_mono: "bounded n c \<Longrightarrow> n \<le> m \<Longrightarrow> Suc m < 2 ^ 63 \<Longrightarrow> bounded m c"
  by (simp add: bounded_def)

lemma calm_refl [simp]: "calm n c c"
  by (simp add: calm_def)

lemma calm_trans: "calm n a b \<Longrightarrow> calm n b c \<Longrightarrow> calm n a c"
  by (simp add: calm_def)

lemma calm_emit: "\<forall>e\<in>set es. quiet e \<Longrightarrow> calm n c (emit es c)"
  by (simp add: calm_def bounded_def quiet_effects)

lemma calm_aggregator: "calm n c (c\<lparr>c_aggregator := a\<rparr>)"
  by (simp add: calm_def bounded_def)

lemma calm_propose: "calm n c (generateProposal c tc)"
  unfolding generateProposal_def by (rule calm_emit) simp

lemma calm_advance: "unat r < n \<Longrightarrow> calm n c (advanceRound c r)"
  using unat_add_le [of r 1]
  by (auto simp: calm_def bounded_def core_frames advanceRound_round advanceRound_out quiet_effects)

lemma calm_high: "unat (qc_Round qc) < n \<Longrightarrow> calm n c (updateHighQc c qc)"
  by (auto simp: calm_def bounded_def core_frames updateHighQc_highQC)

lemma calm_processQC: "unat (qc_Round qc) < n \<Longrightarrow> calm n c (processQC c qc)"
  unfolding processQC_def by (blast intro: calm_trans calm_advance calm_high)

subsection \<open>Handlers of votes, timeouts and timeout certificates\<close>

text \<open>A handler that returns and does nothing but collect, move rounds and send.\<close>

definition calmly :: "nat \<Rightarrow> ('agg, 'db) core \<Rightarrow> ('agg, 'db) core \<times> outcome \<Rightarrow> bool" where
  "calmly n c res \<longleftrightarrow> (\<exists>c' err. res = (c', Ret err) \<and> calm n c c')"

lemma calmly_Ret [simp]: "calmly n c (c', Ret err) \<longleftrightarrow> calm n c c'"
  by (simp add: calmly_def)

lemma calmly_from: "calm n a b \<Longrightarrow> calmly n b res \<Longrightarrow> calmly n a res"
  by (auto simp: calmly_def intro: calm_trans)

lemma leader_of_bounded:
  assumes "cm_members (c_committee c) \<noteq> {}" "bounded n c" "calm n c c'"
  obtains k where "getLeader (c_committee c') (c_round c') = Inr k"
proof -
  have "leader_defined (c_committee c') (c_round c')"
    using assms by (auto simp: calm_def bounded_def leader_defined_def)
  then show thesis using that by (simp add: getLeader_small)
qed

lemma AddVote_round: "AddVote E a v = (a', Inr (Some qc)) \<Longrightarrow> qc_Round qc = v_round v"
  by (auto simp: AddVote_def qcMaker_append_def Let_def split: option.splits if_splits prod.splits sum.splits)

lemma AddTimeout_round: "AddTimeout E a t = (a', Inr (Some tc)) \<Longrightarrow> tc_Round tc = t_round t"
  by (auto simp: AddTimeout_def tcMaker_append_def Let_def split: option.splits if_splits prod.splits sum.splits)

lemma handleVote_calmly:
  assumes "cm_members (c_committee c) \<noteq> {}" "bounded n c" "unat (v_round v) < n"
  shows "calmly n c (handleVote E c v)"
proof -
  obtain a r where a: "AddVote E (c_aggregator c) v = (a, r)" by fastforce
  have ag: "calm n c (c\<lparr>c_aggregator := a\<rparr>)" by (rule calm_aggregator)
  show ?thesis
  proof (cases "\<exists>qc. r = Inr (Some qc)")
    case True
    then obtain qc where r: "r = Inr (Some qc)" by blast
    define c1 where "c1 = processQC (c\<lparr>c_aggregator := a\<rparr>) qc"
    have c1: "calm n c c1"
      using AddVote_round [OF a [unfolded r]] assms(3) unfolding c1_def
      by (intro calm_trans [OF ag calm_processQC]) simp
    obtain k where "getLeader (c_committee c1) (c_round c1) = Inr k"
      using leader_of_bounded [OF assms(1,2) c1] .
    then show ?thesis
      using a r c1 calm_trans [OF c1 calm_propose]
      by (simp add: handleVote_def c1_def [symmetric] Let_def split: option.split)
  next
    case False
    then show ?thesis
      using a ag by (auto simp: handleVote_def split: option.split sum.split)
  qed
qed

lemma handleTimeout_calmly:
  assumes "cm_members (c_committee c) \<noteq> {}" "bounded n c" "unat (t_round t) < n"
    "unat (qc_Round (t_highQC t)) < n"
  shows "calmly n c (handleTimeout E c t)"
proof -
  define c1 where "c1 = processQC c (t_highQC t)"
  obtain a r where a: "AddTimeout E (c_aggregator c1) t = (a, r)" by fastforce
  have c1: "calm n c (c1\<lparr>c_aggregator := a\<rparr>)"
    unfolding c1_def by (rule calm_trans [OF calm_processQC [OF assms(4)] calm_aggregator])
  show ?thesis
  proof (cases "\<exists>tc. r = Inr (Some tc)")
    case True
    then obtain tc where r: "r = Inr (Some tc)" by blast
    define c2 where "c2 = advanceRound (c1\<lparr>c_aggregator := a\<rparr>) (tc_Round tc)"
    have c2: "calm n c c2"
      using AddTimeout_round [OF a [unfolded r]] assms(3) unfolding c2_def
      by (intro calm_trans [OF c1 calm_advance]) simp
    have c3: "calm n c (emit [EBroadcast as bs] c2)" for as bs
      by (rule calm_trans [OF c2 calm_emit]) simp
    obtain k where "getLeader (c_committee c2) (c_round c2) = Inr k"
      using leader_of_bounded [OF assms(1,2) c2] .
    then show ?thesis
      using a r c2 c3 calm_trans [OF c3 calm_propose]
      by (auto simp: handleTimeout_def c1_def [symmetric] c2_def [symmetric] Let_def
          SerializeConsensusMessage_def split: option.split prod.split)
  next
    case False
    then show ?thesis
      using a c1 by (auto simp: handleTimeout_def c1_def [symmetric] split: option.split sum.split)
  qed
qed

lemma handleTC_calmly:
  assumes "cm_members (c_committee c) \<noteq> {}" "bounded n c" "unat (tc_Round tc) < n"
  shows "calmly n c (handleTC E c tc)"
proof -
  define c1 where "c1 = advanceRound c (tc_Round tc)"
  have c1: "calm n c c1" unfolding c1_def by (rule calm_advance [OF assms(3)])
  obtain k where "getLeader (c_committee c1) (c_round c1) = Inr k"
    using leader_of_bounded [OF assms(1,2) c1] .
  then show ?thesis
    using c1 calm_trans [OF c1 calm_propose]
    by (simp add: handleTC_def c1_def [symmetric] Let_def split: option.split)
qed

text \<open>The local timeout is calm but for the last voted round.\<close>

lemma localTimeoutRound_calmly:
  assumes "cm_members (c_committee c) \<noteq> {}" "bounded n c" "unat (c_round c) < n"
  shows "calmly n (increaseLastVotedRound c (c_round c)) (localTimeoutRound E c)"
proof -
  define c1 where "c1 = increaseLastVotedRound c (c_round c)"
  define t where "t = NewTimeout E (c_highQC c1) (c_round c1) (c_name c1) (c_signatureService c1)"
  define c2 where "c2 = emit [ESign (STimeout t), ETimerReset] c1"
  have c2: "calm n c1 c2" unfolding c2_def by (rule calm_emit) simp
  have c3: "calm n c1 (emit [EBroadcast as bs] c2)" for as bs
    by (rule calm_trans [OF c2 calm_emit]) simp
  have c1: "c_committee c1 = c_committee c" "c_round c1 = c_round c" "c_highQC c1 = c_highQC c" "bounded n c1"
    using assms(2) by (simp_all add: c1_def increaseLastVotedRound_def bounded_def)
  have t: "unat (t_round t) < n" "unat (qc_Round (t_highQC t)) < n"
    using assms(2,3) c1 by (simp_all add: t_def NewTimeout_def Let_def bounded_def)
  have "calmly n c1 (handleTimeout E (emit [EBroadcast as bs] c2) t)" for as bs
    using c3 [of as bs] c1 assms(1)
    by (intro calmly_from [OF c3 handleTimeout_calmly] t) (simp_all add: calm_def)
  moreover obtain names addresses where "BroadcastAddresses (c_committee c1) (c_name c1) = (names, addresses)"
    by fastforce
  ultimately show ?thesis
    using c2
    by (simp add: localTimeoutRound_def c1_def [symmetric] t_def [symmetric] c2_def [symmetric] Let_def
        SerializeConsensusMessage_def split: option.split)
qed

subsection \<open>Voting\<close>

lemma vote_calmly:
  assumes "cm_members (c_committee c) \<noteq> {}" "bounded n c" "unat (blk_Round b) < n"
    and "qc_Round (blk_Qc b) + 1 = blk_Round b" "blk_Tc b = None"
  shows "calmly n
    (if c_lastVotedRound c < blk_Round b
     then emit [ESign (SVote b (NewVote E b (c_name c) (c_signatureService c)))]
       (c\<lparr>c_lastVotedRound := blk_Round b\<rparr>)
     else c) (vote_for_block E c b)"
proof (cases "c_lastVotedRound c < blk_Round b")
  case False
  moreover have "safetyRule2 b = Inr True" using assms(4,5) by (simp add: safetyRule2_True_iff)
  ultimately show ?thesis by (simp add: vote_for_block_def make_vote_def)
next
  case True
  define v where "v = NewVote E b (c_name c) (c_signatureService c)"
  define c1 where "c1 = emit [ESign (SVote b v)] (c\<lparr>c_lastVotedRound := blk_Round b\<rparr>)"
  have mv: "make_vote E c b = (c1, Inr (Some v))"
    using True assms(4,5) by (simp add: make_vote_Some_iff safetyRule2_True_iff c1_def v_def)
  have c1: "c_committee c1 = c_committee c" "c_round c1 = c_round c" "bounded n c1"
    using assms(2) by (simp_all add: c1_def bounded_def)
  have "leader_defined (c_committee c) (c_round c + 1)"
    using assms(1,2) unat_add_le [of "c_round c" 1] by (simp add: leader_defined_def bounded_def)
  then obtain k where k: "getLeader (c_committee c1) (c_round c1 + 1) = Inr k"
    using c1 by (auto simp: getLeader_small)
  obtain address ok where a: "Committee_Address (c_committee c1) k = (address, ok)" by fastforce
  have hv: "calmly n c1 (handleVote E c1 v)"
    using assms(1,3) c1 by (intro handleVote_calmly) (simp_all add: v_def)
  have send: "calm n c1 (emit [ESend address bs] c1)" for bs
    by (rule calm_emit) simp
  have "calmly n c1 (vote_for_block E c b)"
    using hv send mv k a
    by (auto simp: vote_for_block_def calmly_def SerializeConsensusMessage_def split: option.split)
  then show ?thesis using True by (simp add: c1_def v_def)
qed

subsection \<open>Chains\<close>

text \<open>The last block of a chain, the genesis block for the empty one.\<close>

definition tip :: "Block list \<Rightarrow> Block" where
  "tip bs = (if bs = [] then GenesisBlock else last bs)"

lemma tip_simps [simp]: "tip [] = GenesisBlock" "tip (bs @ [b]) = b"
  by (simp_all add: tip_def)

lemma certified_chain_append:
  "certified_chain E cm p (xs @ ys) \<longleftrightarrow>
     certified_chain E cm p xs \<and> certified_chain E cm (if xs = [] then p else last xs) ys"
  by (induction xs arbitrary: p) auto

lemma certified_chain_tip:
  "certified_chain E cm GenesisBlock (xs @ ys) \<longleftrightarrow>
     certified_chain E cm GenesisBlock xs \<and> certified_chain E cm (tip xs) ys"
  by (simp add: certified_chain_append tip_def)

lemma certified_chain_round:
  "certified_chain E cm GenesisBlock bs \<Longrightarrow> blk_Round (tip bs) = of_nat (length bs)"
proof (induction bs rule: rev_induct)
  case Nil
  then show ?case by (simp add: GenesisBlock_def)
next
  case (snoc b bs)
  then show ?case by (simp add: certified_chain_tip follows_def)
qed

lemma follows_checked:
  "follows E cm p b \<Longrightarrow> blk_Tc b = None \<and> getLeader cm (blk_Round b) = Inr (blk_Author b)
     \<and> Block_Verify E cm b = None"
  unfolding follows_def by blast

lemma follows_qc: "follows E cm p b \<Longrightarrow> qc_Round (blk_Qc b) = blk_Round p"
  by (auto simp: follows_def GenesisQC_def split: if_splits)

lemma take_tip_butlast:
  "length bs = Suc (Suc k) \<Longrightarrow> take (Suc k) (bs @ [b]) = take k bs @ [tip (butlast bs)]"
proof (cases bs rule: rev_cases)
  case (snoc ys y)
  assume "length bs = Suc (Suc k)"
  then have len: "length ys = Suc k" using snoc by simp
  then have ne: "ys \<noteq> []" by auto
  then have "ys = take k ys @ [last ys]"
    using len append_butlast_last_id [of ys] butlast_conv_take [of ys] by simp
  then show ?thesis using snoc len ne by (simp add: tip_def)
qed simp

text \<open>The blocks of a chain can be read from the store.\<close>

definition chain_stored :: "('sk, 'p1, 'p2, 'agg, 'db, 'z) env_scheme \<Rightarrow> 'db store \<Rightarrow> Block list \<Rightarrow> bool" where
  "chain_stored E s bs \<longleftrightarrow> (\<forall>b\<in>set bs. \<exists>bytes.
     Store_Read E s (digest_bytes (Block_Digest E b)) = Inr bytes \<and> Block_Deserialize E bytes = Ok b)"

lemma chain_stored_write:
  assumes "proto_ok E" "store_ok E s" "chain_stored E s bs" "Block_Serialize E b = Ok bytes"
    and "inj_on (Block_Digest E) (insert b (set bs))"
  shows "chain_stored E (Store_Write E s (digest_bytes (Block_Digest E b)) bytes) (bs @ [b])"
proof -
  have "digest_bytes (Block_Digest E x) = digest_bytes (Block_Digest E b) \<longleftrightarrow> x = b" if "x \<in> set bs" for x
    using assms(5) that by (auto simp: inj_on_def)
  then show ?thesis
    using assms(2,3) Block_Deserialize_Serialize [OF assms(1,4)]
    by (auto simp: chain_stored_def st.get_put_if)
qed

lemma stored_parent:
  assumes "follows E cm (tip bs) b" "chain_stored E s bs" "blk_Round (tip bs) = of_nat (length bs)"
    and "length bs < 2 ^ 62"
  shows "getParentBlock E s b = (Ok (tip bs), [])"
proof (cases "bs = []")
  case True
  then show ?thesis using assms(1) by (simp add: follows_def GenesisBlock_def getParentBlock_cases IsGenesisQC_iff)
next
  case False
  then have "unat (blk_Round (tip bs)) \<noteq> 0" using assms(3,4) by (simp add: unat_of_nat)
  then have r: "blk_Round (tip bs) \<noteq> 0" by auto
  then have "\<not> IsGenesisQC (blk_Qc b)" "Parent b = Block_Digest E (tip bs)"
    using assms(1) by (auto simp: follows_def IsGenesisQC_iff GenesisQC_def)
  moreover have "tip bs \<in> set bs" using False by (simp add: tip_def)
  ultimately show ?thesis using assms(2) by (auto simp: getParentBlock_cases chain_stored_def)
qed

lemma tip_parent:
  assumes "certified_chain E cm GenesisBlock bs" "chain_stored E s bs" "length bs < 2 ^ 62"
  shows "getParentBlock E s (tip bs) = (Ok (tip (butlast bs)), [])"
proof (cases bs rule: rev_cases)
  case Nil
  then show ?thesis by (simp add: getParentBlock_cases IsGenesisQC_iff GenesisBlock_def)
next
  case (snoc zs z)
  then have "certified_chain E cm GenesisBlock zs" "follows E cm (tip zs) z"
    using assms(1) by (simp_all add: certified_chain_tip)
  then show ?thesis
    using assms(2,3) snoc certified_chain_round [of E cm zs]
    by (auto intro!: stored_parent simp: chain_stored_def)
qed

subsection \<open>One block\<close>

text \<open>
  A core that has processed the blocks of a chain: all but the last two are committed. It is on time if
  it has voted for all of them.
\<close>

definition following ::
  "('sk, 'p1, 'p2, 'agg, 'db, 'z) env_scheme \<Rightarrow> PublicKey \<times> SignatureService \<Rightarrow> Committee \<Rightarrow> 'db store \<Rightarrow> nat \<Rightarrow> Block list
     \<Rightarrow> ('agg, 'db) core \<Rightarrow> bool" where
  "following E me cm s n bs c \<longleftrightarrow> (c_name c, c_signatureService c) = me \<and> c_committee c = cm \<and> bounded n c \<and> store_ok E (c_store c)
     \<and> keeps E s (c_store c) \<and> chain_stored E (c_store c) bs
     \<and> c_lastCommittedRound c = of_nat (length bs - 2)
     \<and> commits_in (c_out c) = take (length bs - 2) bs"

definition own_votes ::
  "('sk, 'p1, 'p2, 'agg, 'db, 'z) env_scheme \<Rightarrow> PublicKey \<times> SignatureService \<Rightarrow> Block list
     \<Rightarrow> (Block \<times> vote) list" where
  "own_votes E me = map (\<lambda>b. (b, NewVote E b (fst me) (snd me)))"

lemma own_votes_simps [simp]:
  "own_votes E me [] = []" "own_votes E me (bs @ [b]) = own_votes E me bs @ [(b, NewVote E b (fst me) (snd me))]"
  by (simp_all add: own_votes_def)

definition on_time ::
  "('sk, 'p1, 'p2, 'agg, 'db, 'z) env_scheme \<Rightarrow> PublicKey \<times> SignatureService \<Rightarrow> Block list
     \<Rightarrow> ('agg, 'db) core \<Rightarrow> bool" where
  "on_time E me bs c \<longleftrightarrow> c_lastVotedRound c = of_nat (length bs) \<and> ballots_in (c_out c) = own_votes E me bs"

lemma following_calm: "following E me cm s n bs c \<Longrightarrow> calm n c c' \<Longrightarrow> following E me cm s n bs c'"
  by (simp add: following_def calm_def)

lemma on_time_calm: "on_time E me bs c \<Longrightarrow> calm n c c' \<Longrightarrow> on_time E me bs c'"
  by (simp add: on_time_def calm_def)

lemma following_later:
  "following E me cm s n bs c \<Longrightarrow> n \<le> m \<Longrightarrow> Suc m < 2 ^ 63 \<Longrightarrow> following E me cm s m bs c"
  using bounded_mono by (auto simp: following_def)

lemma commit_in_order:
  assumes "c_lastCommittedRound c = of_nat (k - 1)" "blk_Round b = of_nat k" "k < 2 ^ 62"
  shows "commit E c b =
    (if k = 0 then c else emit [ECommit b] (c\<lparr>c_lastCommittedRound := of_nat k\<rparr>), Ret None)"
proof -
  have k: "unat (of_nat (k - 1) :: Round) = k - 1" "unat (of_nat k :: Round) = k"
    using assms(3) by (simp_all add: unat_of_nat)
  have "\<not> of_nat (k - 1) + 1 < (of_nat k :: Round)" if "k \<noteq> 0"
    using that by (simp add: of_nat_diff)
  moreover have "(of_nat k :: Round) \<le> of_nat (k - 1) \<longleftrightarrow> k = 0"
    by (simp only: word_le_nat_alt k) auto
  ultimately show ?thesis
    using assms(1,2) by (auto simp: commit_def commit_loop_stop Let_def)
qed

text \<open>What \<open>processBlock\<close> does before it votes leaves the round and the certificates alone.\<close>

definition steady :: "('agg, 'db) core \<Rightarrow> ('agg, 'db) core \<Rightarrow> bool" where
  "steady c c' \<longleftrightarrow> c_round c' = c_round c \<and> c_highQC c' = c_highQC c \<and> c_aggregator c' = c_aggregator c
     \<and> sends_in (c_out c') = sends_in (c_out c) \<and> makes_in (c_out c') = makes_in (c_out c)"

lemma processBlock_commits:
  assumes "proto_ok E" "following E me cm s n bs c" "certified_chain E cm GenesisBlock (bs @ [b])"
    and "inj_on (Block_Digest E) (insert b (set bs))" "length bs < 2 ^ 62"
  shows "\<exists>c'. processBlock E c b = vote_for_block E c' b \<and> following E me cm s n (bs @ [b]) c'
    \<and> c_lastVotedRound c' = c_lastVotedRound c \<and> ballots_in (c_out c') = ballots_in (c_out c) \<and> steady c c'"
proof -
  note f = assms(2) [unfolded following_def]
  let ?b1 = "tip bs" and ?b0 = "tip (butlast bs)"
  have ch: "certified_chain E cm GenesisBlock bs" "follows E cm (tip bs) b"
    using assms(3) by (simp_all add: certified_chain_tip)
  have ch0: "certified_chain E cm GenesisBlock (butlast bs)"
    using ch(1) by (cases bs rule: rev_cases) (simp_all add: certified_chain_tip)
  note r1 = certified_chain_round [OF ch(1)] and r0 = certified_chain_round [OF ch0]
  have anc: "getAncestors E (c_store c) b = (Ok (?b0, ?b1), [])"
    using f stored_parent [OF ch(2) _ r1 assms(5)] tip_parent [OF ch(1) _ assms(5)]
    by (simp add: getAncestors_Ok_iff)
  obtain bytes where ser: "Block_Serialize E b = Ok bytes" using ch(2) by (auto simp: follows_def)
  define s1 where "s1 = Store_Write E (c_store c) (digest_bytes (Block_Digest E b)) bytes"
  have s1: "store_ok E s1" "keeps E s s1" "chain_stored E s1 (bs @ [b])"
    unfolding s1_def using f chain_stored_write [OF assms(1) _ _ ser assms(4)]
    by (blast intro: st.put_usable keeps_trans keeps_write)+
  then have "chain_stored E s1 bs" by (simp add: chain_stored_def)
  define c1 where "c1 = cleanupProposer (storeBlock E c b) ?b0 ?b1 b"
  have c1: "following E me cm s n bs c1" "chain_stored E (c_store c1) (bs @ [b])"
      "c_lastVotedRound c1 = c_lastVotedRound c" "ballots_in (c_out c1) = ballots_in (c_out c)"
      "steady c c1"
    using f s1 \<open>chain_stored E s1 bs\<close>
    by (simp_all add: following_def bounded_def c1_def cleanupProposer_def storeBlock_def ser
        s1_def [symmetric] quiet_effects steady_def)
  show ?thesis
  proof (cases "bs = []")
    case True
    then have "blk_Round ?b0 + 1 \<noteq> blk_Round ?b1" by (simp add: GenesisBlock_def)
    then have "processBlock E c b = vote_for_block E c1 b"
      by (simp add: processBlock_def anc c1_def Let_def)
    then show ?thesis using c1 True by (intro exI [of _ c1]) (simp add: following_def)
  next
    case False
    then obtain k where k: "length bs = Suc k" by (cases "length bs") auto
    obtain mm pm where d: "driver_cleanup (blk_Round ?b0) = (mm, pm)" by fastforce
    define c2 where "c2 = emit (map EMempool mm @ map EPayloadWaiter pm) c1"
    have r: "blk_Round ?b0 = of_nat k" "blk_Round ?b0 + 1 = blk_Round ?b1"
      using r0 r1 k by simp_all
    have c2: "c_lastCommittedRound c2 = of_nat (k - 1)"
      using c1(1) k by (simp add: c2_def following_def)
    define c3 where "c3 = (if k = 0 then c2 else emit [ECommit ?b0] (c2\<lparr>c_lastCommittedRound := of_nat k\<rparr>))"
    have "processBlock E c b = (case commit E c2 ?b0 of
        (c4, Ret None) \<Rightarrow> vote_for_block E c4 b | (c4, other) \<Rightarrow> (c4, other))"
      using r(2) by (simp add: processBlock_def anc c1_def c2_def d Let_def)
    moreover have "commit E c2 ?b0 = (c3, Ret None)"
      unfolding c3_def using assms(5) k by (intro commit_in_order c2 r) simp
    moreover have "following E me cm s n (bs @ [b]) c3"
      using c1(1,2) k take_tip_butlast [of bs "k - 1" b]
      by (cases k) (auto simp: following_def bounded_def c3_def c2_def)
    ultimately show ?thesis
      using c1(3-5) by (intro exI [of _ c3]) (simp add: c3_def c2_def steady_def)
  qed
qed

text \<open>The block is committed on and voted for.\<close>

lemma processBlock_follows:
  assumes "proto_ok E" "cm_members cm \<noteq> {}" "following E me cm s n bs c"
    and "certified_chain E cm GenesisBlock (bs @ [b])"
    and "inj_on (Block_Digest E) (insert b (set bs))" "length bs < 2 ^ 62" "Suc (length bs) < n"
  shows "\<exists>c' err. processBlock E c b = (c', Ret err) \<and> following E me cm s n (bs @ [b]) c'
    \<and> (on_time E me bs c \<longrightarrow> on_time E me (bs @ [b]) c')"
proof -
  obtain c1 where c1: "processBlock E c b = vote_for_block E c1 b" "following E me cm s n (bs @ [b]) c1"
      "c_lastVotedRound c1 = c_lastVotedRound c" "ballots_in (c_out c1) = ballots_in (c_out c)"
    using processBlock_commits [OF assms(1,3-6)] by blast
  have fol: "follows E cm (tip bs) b" using assms(4) by (simp add: certified_chain_tip)
  have round: "blk_Round b = of_nat (Suc (length bs))"
    using certified_chain_round [OF assms(4)] by simp
  have u: "unat (blk_Round b) = Suc (length bs)" "unat (of_nat (length bs) :: Round) = length bs"
    using assms(6) by (simp_all only: round unat_of_nat) simp_all
  define c2 where "c2 = (if c_lastVotedRound c1 < blk_Round b
     then emit [ESign (SVote b (NewVote E b (c_name c1) (c_signatureService c1)))]
       (c1\<lparr>c_lastVotedRound := blk_Round b\<rparr>)
     else c1)"
  have "calmly n c2 (vote_for_block E c1 b)"
    unfolding c2_def using assms(2,7) c1(2) fol u(1) follows_qc [OF fol]
    by (intro vote_calmly) (simp_all add: following_def follows_def)
  moreover have "following E me cm s n (bs @ [b]) c2"
    using c1(2) by (simp add: c2_def following_def bounded_def)
  moreover have "on_time E me bs c \<longrightarrow> on_time E me (bs @ [b]) c2"
    using c1(2-4) u by (auto simp: c2_def following_def on_time_def word_less_nat_alt round)
  ultimately show ?thesis
    unfolding c1(1) calmly_def by (blast dest: following_calm on_time_calm)
qed

text \<open>The checks of \<open>handleProposal\<close> pass.\<close>

lemma handleProposal_accepts:
  assumes "following E me cm s n bs c" "certified_chain E cm GenesisBlock (bs @ [b])"
    and "missing_payload E s b = []" "length bs < 2 ^ 62" "Suc (length bs) < n"
  shows "handleProposal E c b = processBlock E (processQC c (blk_Qc b)) b"
    and "calm n c (processQC c (blk_Qc b))"
proof -
  have fol: "follows E cm (tip bs) b" "certified_chain E cm GenesisBlock bs"
    using assms(2) by (simp_all add: certified_chain_tip)
  have "unat (qc_Round (blk_Qc b)) = length bs"
    using assms(4) follows_qc [OF fol(1)] certified_chain_round [OF fol(2)] by (simp add: unat_of_nat)
  then show calm: "calm n c (processQC c (blk_Qc b))" using assms(5) by (intro calm_processQC) simp
  have "missing_payload E (c_store (processQC c (blk_Qc b))) b = []"
    using assms(1,3) avail_keeps calm by (auto simp: missing_payload_avail following_def calm_def)
  moreover have "c_committee c = cm" "getLeader cm (blk_Round b) = Inr (blk_Author b)"
      "Block_Verify E cm b = None" "blk_Tc b = None"
    using assms(1) follows_checked [OF fol(1)] by (auto simp: following_def)
  ultimately show "handleProposal E c b = processBlock E (processQC c (blk_Qc b)) b"
    by (simp add: handleProposal_def driver_verify_def Let_def)
qed

lemma handleProposal_follows:
  assumes "proto_ok E" "cm_members cm \<noteq> {}" "following E me cm s n bs c"
    and "certified_chain E cm GenesisBlock (bs @ [b])" "missing_payload E s b = []"
    and "inj_on (Block_Digest E) (insert b (set bs))" "length bs < 2 ^ 62" "Suc (length bs) < n"
  shows "\<exists>c' err. handleProposal E c b = (c', Ret err) \<and> following E me cm s n (bs @ [b]) c'
    \<and> (on_time E me bs c \<longrightarrow> on_time E me (bs @ [b]) c')"
proof -
  note accept = handleProposal_accepts [OF assms(3-5,7,8)]
  show ?thesis
    unfolding accept(1)
    using processBlock_follows [OF assms(1,2) following_calm [OF assms(3) accept(2)] assms(4,6-8)]
      on_time_calm [OF _ accept(2), of E me bs] by blast
qed

subsection \<open>A sequence of events\<close>

lemma other_event_follows:
  assumes "cm_members cm \<noteq> {}" "following E me cm s n bs c" "delivered ev = None" "event_small ev"
    and "2 ^ 62 \<le> n" "Suc (Suc n) < 2 ^ 63"
  shows "\<exists>c' err. core_step E c ev = (c', Ret err) \<and> following E me cm s (Suc n) bs c'
    \<and> (ev \<noteq> TimerFired \<longrightarrow> on_time E me bs c \<longrightarrow> on_time E me bs c')"
proof -
  have f: "following E me cm s (Suc n) bs c" by (rule following_later [OF assms(2)]) (use assms(6) in auto)
  have m: "cm_members (c_committee c) \<noteq> {}" "bounded (Suc n) c"
    using f assms(1) by (simp_all add: following_def)
  have calm_enough: ?thesis if "calmly (Suc n) c (core_step E c ev)"
    using that following_calm [OF f] on_time_calm [of E me bs c "Suc n"] by (auto simp: calmly_def)
  show ?thesis
  proof (cases ev)
    case (RxMessage msg)
    then have "calmly (Suc n) c (core_step E c ev)"
      using m assms(3-5)
      by (cases msg)
        (auto intro!: handleVote_calmly handleTimeout_calmly handleTC_calmly simp: round_small_def)
    then show ?thesis by (rule calm_enough)
  next
    case (RxLoopback b)
    then show ?thesis using assms(3) by simp
  next
    case TimerFired
    define c1 where "c1 = increaseLastVotedRound c (c_round c)"
    have "following E me cm s (Suc n) bs c1"
      using f by (simp add: c1_def increaseLastVotedRound_def following_def bounded_def)
    moreover have "unat (c_round c) < Suc n" using assms(2) by (simp add: following_def bounded_def)
    then have "calmly (Suc n) c1 (core_step E c ev)"
      unfolding c1_def using m by (simp add: TimerFired localTimeoutRound_calmly)
    ultimately show ?thesis
      using TimerFired by (auto simp: calmly_def dest: following_calm)
  qed
qed

lemma block_event_follows:
  assumes "proto_ok E" "cm_members cm \<noteq> {}" "following E me cm s n bs c" "delivered ev = Some b"
    and "certified_chain E cm GenesisBlock (bs @ [b])" "missing_payload E s b = []"
    and "inj_on (Block_Digest E) (insert b (set bs))" "length bs < 2 ^ 62" "Suc (length bs) < n"
  shows "\<exists>c' err. core_step E c ev = (c', Ret err) \<and> following E me cm s n (bs @ [b]) c'
    \<and> (on_time E me bs c \<longrightarrow> on_time E me (bs @ [b]) c')"
  using assms(4) handleProposal_follows [OF assms(1-3,5-9)] processBlock_follows [OF assms(1-3,5,7-9)]
  by (cases ev rule: delivered.cases) auto

lemma serve_follows:
  assumes "proto_ok E" "cm_members cm \<noteq> {}"
    and "following E me cm s n bs c" "certified_chain E cm GenesisBlock (bs @ List.map_filter delivered evs)"
    and "inj_on (Block_Digest E) (set (bs @ List.map_filter delivered evs))"
    and "\<forall>b\<in>set (List.map_filter delivered evs). missing_payload E s b = []" "\<forall>ev\<in>set evs. event_small ev"
    and "2 ^ 62 \<le> n" "Suc (n + length evs) < 2 ^ 63" "length bs + length evs < 2 ^ 62"
  shows "\<exists>c'. serve E c evs = (c', Ret None)
    \<and> following E me cm s (n + length evs) (bs @ List.map_filter delivered evs) c'
    \<and> (TimerFired \<notin> set evs \<longrightarrow> on_time E me bs c \<longrightarrow> on_time E me (bs @ List.map_filter delivered evs) c')"
  using assms(3-)
proof (induction evs arbitrary: n bs c)
  case Nil
  then show ?case by (simp add: map_filter_simps)
next
  case (Cons ev evs)
  define bs1 where "bs1 = bs @ (case delivered ev of None \<Rightarrow> [] | Some b \<Rightarrow> [b])"
  have split: "bs @ List.map_filter delivered (ev # evs) = bs1 @ List.map_filter delivered evs"
    by (simp add: bs1_def map_filter_simps split: option.split)
  have step: "\<exists>c1 err. core_step E c ev = (c1, Ret err) \<and> following E me cm s (Suc n) bs1 c1
    \<and> (ev \<noteq> TimerFired \<longrightarrow> on_time E me bs c \<longrightarrow> on_time E me bs1 c1)"
  proof (cases "delivered ev")
    case None
    then show ?thesis
      using other_event_follows [OF assms(2) Cons.prems(1) None] Cons.prems(5-7) by (simp add: bs1_def)
  next
    case (Some b)
    define rest where "rest = List.map_filter delivered evs"
    have eq: "List.map_filter delivered (ev # evs) = b # rest"
      using Some by (simp add: map_filter_simps rest_def)
    have "certified_chain E cm GenesisBlock ((bs @ [b]) @ rest)"
      using Cons.prems(2) [unfolded eq] by simp
    then have "certified_chain E cm GenesisBlock (bs @ [b])"
      by (simp only: certified_chain_tip)
    moreover have "missing_payload E s b = []" using Cons.prems(4) [unfolded eq] by simp
    moreover have "inj_on (Block_Digest E) (insert b (set bs))"
      using Cons.prems(3) unfolding eq by (rule inj_on_subset) auto
    moreover have "following E me cm s (Suc n) bs c"
      by (rule following_later [OF Cons.prems(1)]) (use Cons.prems(7) in auto)
    moreover have "length bs < 2 ^ 62" "Suc (length bs) < Suc n"
      using Cons.prems(6,8) by simp_all
    ultimately have "\<exists>c1 err. core_step E c ev = (c1, Ret err) \<and> following E me cm s (Suc n) (bs @ [b]) c1
      \<and> (on_time E me bs c \<longrightarrow> on_time E me (bs @ [b]) c1)"
      using block_event_follows [OF assms(1,2) _ Some] by blast
    then show ?thesis using Some by (auto simp: bs1_def)
  qed
  then obtain c1 err where c1: "core_step E c ev = (c1, Ret err)" "following E me cm s (Suc n) bs1 c1"
    "ev \<noteq> TimerFired \<longrightarrow> on_time E me bs c \<longrightarrow> on_time E me bs1 c1" by blast
  have "length bs1 \<le> Suc (length bs)" by (simp add: bs1_def split: option.split)
  then have len: "2 ^ 62 \<le> Suc n" "Suc (Suc n + length evs) < 2 ^ 63" "length bs1 + length evs < 2 ^ 62"
    using Cons.prems(6-8) by simp_all
  have rest: "\<forall>b\<in>set (List.map_filter delivered evs). missing_payload E s b = []"
      "\<forall>ev\<in>set evs. event_small ev"
    using Cons.prems(4,5) by (auto simp: map_filter_simps split: option.splits)
  obtain c2 where c2: "serve E c1 evs = (c2, Ret None)"
      "following E me cm s (Suc n + length evs) (bs1 @ List.map_filter delivered evs) c2"
      "TimerFired \<notin> set evs \<longrightarrow> on_time E me bs1 c1 \<longrightarrow> on_time E me (bs1 @ List.map_filter delivered evs) c2"
    using Cons.IH [OF c1(2) Cons.prems(2,3) [unfolded split] rest len] by blast
  show ?case
    unfolding split using c1 c2 by (intro exI [of _ c2]) auto
qed

lemma following_start:
  fixes E :: "('sk, 'p1, 'p2, 'agg, 'db, 'z) env_scheme" and s :: "'db store"
  assumes "store_ok E s" "cm_members cm \<noteq> {}"
  shows "following E (name, ss) cm s (2 ^ 62) [] (fst (core_start name cm ss s))"
    and "on_time E (name, ss) [] (fst (core_start name cm ss s) :: ('agg, 'db) core)"
proof -
  define c0 :: "('agg, 'db) core" where "c0 = emit [ETimerReset] (NewCore name cm ss s)"
  have c0: "following E (name, ss) cm s (2 ^ 62) [] c0" "on_time E (name, ss) [] c0"
    using assms(1)
    by (simp_all add: c0_def following_def on_time_def bounded_def NewCore_def chain_stored_def
        GenesisQC_def quiet_effects)
  obtain k where "getLeader cm 1 = Inr k"
    using assms(2) getLeader_small [of cm 1] by (simp add: leader_defined_def)
  then have "calm (2 ^ 62) c0 (fst (core_start name cm ss s))"
    using calm_propose [of "2 ^ 62" c0 None]
    by (cases "name = k") (simp_all add: core_start_def c0_def NewCore_def Let_def)
  then show "following E (name, ss) cm s (2 ^ 62) [] (fst (core_start name cm ss s))"
      "on_time E (name, ss) [] (fst (core_start name cm ss s) :: ('agg, 'db) core)"
    using following_calm on_time_calm c0 by blast+
qed

subsection \<open>Every proposal is committed two rounds later\<close>

text \<open>
  C17: Progress. The blocks of a certified chain reach a started node in order, one for each round, each
  proposed by its leader, valid and with its payload at hand; between them, votes, timeouts, timeout
  certificates and local timeouts come in any order and number. The core then handles every event without
  crashing or hanging (rounds and the number of events are below \<open>2 ^ 62\<close>), commits all blocks but the last two, in order and each once, and its last
  committed round says so. If its timer does not fire it votes for every block, once.
\<close>

theorem proposals_commit_in_order:
  assumes "proto_ok E" "store_ok E s" "cm_members cm \<noteq> {}"
    and "List.map_filter delivered evs = bs" "certified_chain E cm GenesisBlock bs"
    and "inj_on (Block_Digest E) (set bs)" "\<forall>b\<in>set bs. missing_payload E s b = []"
    and "\<forall>ev\<in>set evs. event_small ev" "length evs < 2 ^ 62 - 1"
  shows "\<exists>c. serve E (fst (core_start name cm ss s)) evs = (c, Ret None)
    \<and> commits_in (c_out c) = take (length bs - 2) bs
    \<and> c_lastCommittedRound c = of_nat (length bs - 2)
    \<and> (TimerFired \<notin> set evs \<longrightarrow> ballots_in (c_out c) = own_votes E (name, ss) bs)"
proof -
  note start = following_start [OF assms(2,3), where name = name and ss = ss]
  obtain c where "serve E (fst (core_start name cm ss s)) evs = (c, Ret None)"
      "following E (name, ss) cm s (2 ^ 62 + length evs) bs c" "TimerFired \<notin> set evs \<longrightarrow> on_time E (name, ss) bs c"
    using serve_follows [OF assms(1,3) start(1), of evs] start(2) assms(4-9) by auto
  then show ?thesis by (auto simp: following_def on_time_def)
qed

theorem proposals_commit_in_order_witness:
  "\<exists>c. serve demo_env (fst (core_start (demo_name 1) solo_committee solo_ss (NewStore Map.empty)))
      [RxMessage (proposeMessage blk1), RxMessage (voteMessage (solo_vote blk1)), RxLoopback blk2,
       RxMessage (proposeMessage blk3)] = (c, Ret None)
    \<and> commits_in (c_out c) = [blk1] \<and> c_lastCommittedRound c = 1 \<and> ballots_in (c_out c)
      = [(blk1, solo_vote blk1), (blk2, solo_vote blk2), (blk3, solo_vote blk3)]"
proof -
  let ?evs = "[RxMessage (proposeMessage blk1), RxMessage (voteMessage (solo_vote blk1)), RxLoopback blk2,
       RxMessage (proposeMessage blk3)]"
  have blk_verify: "Block_Verify demo_env solo_committee b = None" "blk_Author b = demo_name 1"
    if "b \<in> {blk1, blk2, blk3}" for b
    using that by (auto simp: blk1_def blk2_def blk3_def solo_block_verify solo_qc_verify IsGenesisQC_iff)
  have chain: "certified_chain demo_env solo_committee GenesisBlock [blk1, blk2, blk3]"
    using blk_verify by (simp add: follows_def solo_leader GenesisBlock_def Parent_def)
  have inj: "inj_on (Block_Digest demo_env) (set [blk1, blk2, blk3])"
    using solo_blocks_inj by (rule inj_on_subset) auto
  have deliv: "List.map_filter delivered ?evs = [blk1, blk2, blk3]"
    by (simp add: map_filter_simps)
  have "\<forall>b\<in>set [blk1, blk2, blk3]. missing_payload demo_env (NewStore Map.empty) b = []"
    by (simp add: missing_payload_def blk1_def blk2_def blk3_def)
  then show ?thesis
    using proposals_commit_in_order [OF demo_proto_ok _ _ deliv chain inj, where s = "NewStore Map.empty"
        and name = "demo_name 1" and ss = solo_ss]
    by (simp add: solo_members round_small_def own_votes_def solo_vote_def [symmetric])
qed

end
