(* ===== verification/Fork.thy ===== *)
theory Fork
  imports DemoRun
begin

text \<open>
  Why committed blocks must be told apart by their digests. Four authorities of one unit each, the
  third faulty: the leader of round 2, it sends one node a block that extends the certificate of round
  1, and another node a block with the same author, round and payload that extends the genesis block
  by a timeout certificate. The digests agree, so the votes for both make one certificate, and each
  node goes on with the block it has stored.
\<close>

subsection \<open>Four authorities\<close>

definition four_committee :: Committee where
  "four_committee = NewCommittee
     (map (\<lambda>n. \<lparr>ai_Author = demo_name n, ai_Stake = 1, ai_Address = ''a''\<rparr>) [1, 2, 3, 4]) 0"

lemma four_entries: "cm_entries four_committee = map (\<lambda>n. (demo_name n, \<lparr>au_Stake = 1, au_Address = ''a''\<rparr>)) [1, 2, 3, 4]"
  by (simp add: four_committee_def NewCommittee_def impl_of_update DAList.empty.rep_eq)

lemma four_members: "cm_members four_committee = demo_name ` {1, 2, 3, 4}"
  by (simp add: cm_members_def four_entries)

lemma four_stake: "Committee_Stake four_committee (demo_name n) = (if n \<in> {1, 2, 3, 4} then 1 else 0)"
  by (simp add: Committee_Stake_def lookup_impl_of four_entries)

lemma four_address: "n \<in> {1, 2, 3, 4} \<Longrightarrow> Committee_Address four_committee (demo_name n) = (''a'', True)"
  by (auto simp: Committee_Address_def lookup_impl_of four_entries)

lemma four_total: "total_stake four_committee = 4"
  by (simp add: total_stake_def four_members sum.reindex inj_on_def four_stake)

lemma four_fits [simp]: "stake_fits four_committee"
  by (simp add: stake_fits_def four_total)

lemma four_threshold: "QuorumThreshold four_committee = 3"
  by (simp add: QuorumThreshold_def four_entries)

lemma four_leader:
  "getLeader four_committee 1 = Inr (demo_name 2)" "getLeader four_committee 2 = Inr (demo_name 3)"
  "getLeader four_committee 3 = Inr (demo_name 4)" "getLeader four_committee 4 = Inr (demo_name 1)"
  "getLeader four_committee 5 = Inr (demo_name 2)"
  by (simp_all add: getLeader_def Let_def four_entries Committee_Size_def sint_small signed_modulo_int_def)

definition four_ss :: "byte \<Rightarrow> SignatureService" where
  "four_ss n = NewSignatureService (demo_sk n)"

definition four_vote :: "byte \<Rightarrow> Block \<Rightarrow> vote" where
  "four_vote n b = NewVote demo_env b (demo_name n) (four_ss n)"

definition four_block :: "byte \<Rightarrow> QC \<Rightarrow> TC option \<Rightarrow> Round \<Rightarrow> Block" where
  "four_block n qc tc r = NewBlock demo_env qc tc (demo_name n) r [] (four_ss n)"

definition four_timeout :: "byte \<Rightarrow> Round \<Rightarrow> timeout" where
  "four_timeout n r = NewTimeout demo_env GenesisQC r (demo_name n) (four_ss n)"

text \<open>The certificates that the votes and timeouts of the nodes \<open>ns\<close> make.\<close>

definition four_qc :: "byte list \<Rightarrow> Block \<Rightarrow> QC" where
  "four_qc ns b = \<lparr>qc_Hash = Block_Digest demo_env b, qc_Round = blk_Round b,
     qc_Voters = map demo_name ns, qc_Signature = v_signature (four_vote (hd ns) b)\<rparr>"

definition four_tc :: "byte list \<Rightarrow> Round \<Rightarrow> TC" where
  "four_tc ns r = \<lparr>tc_Round = r, tc_Votes = map (\<lambda>n. \<lparr>atr_name = demo_name n, atr_round = 0\<rparr>) ns,
     tc_Signature = t_signature (four_timeout (hd ns) r)\<rparr>"

lemma four_block_fields [simp]:
  "blk_Qc (four_block n qc tc r) = qc" "blk_Tc (four_block n qc tc r) = tc"
  "blk_Author (four_block n qc tc r) = demo_name n" "blk_Round (four_block n qc tc r) = r"
  "blk_Payload (four_block n qc tc r) = []"
  by (simp_all add: four_block_def)

lemma four_vote_fields [simp]:
  "v_author (four_vote n b) = demo_name n" "v_hash (four_vote n b) = Block_Digest demo_env b"
  "v_round (four_vote n b) = blk_Round b"
  "v_signature (four_vote n b) = demo_sig (digest_bytes (vote_Digest demo_env (four_vote n b)))
     (pk_bytes (demo_name n))"
  by (simp_all add: four_vote_def NewVote_def Let_def RequestSignature_def four_ss_def
      NewSignatureService_def demo_name_def vote_Digest_def)

lemma GenesisQC_fields [simp]: "qc_Round GenesisQC = 0" "IsGenesisQC GenesisQC"
  by (simp_all add: GenesisQC_def IsGenesisQC_def)

lemma four_timeout_fields [simp]:
  "t_author (four_timeout n r) = demo_name n" "t_round (four_timeout n r) = r"
  "t_highQC (four_timeout n r) = GenesisQC"
  "t_signature (four_timeout n r) = demo_sig (digest_bytes (timeout_Digest demo_env (four_timeout n r)))
     (pk_bytes (demo_name n))"
  by (simp_all add: four_timeout_def NewTimeout_def Let_def RequestSignature_def four_ss_def
      NewSignatureService_def demo_name_def timeout_Digest_def)

lemma four_qc_fields [simp]:
  "qc_Hash (four_qc ns b) = Block_Digest demo_env b" "qc_Round (four_qc ns b) = blk_Round b"
  "qc_Voters (four_qc ns b) = map demo_name ns"
  by (simp_all add: four_qc_def)

lemma four_tc_fields [simp]: "tc_Round (four_tc ns r) = r"
  "tc_Votes (four_tc ns r) = map (\<lambda>n. \<lparr>atr_name = demo_name n, atr_round = 0\<rparr>) ns"
  by (simp_all add: four_tc_def)

lemma four_vote_digest:
  "vote_Digest demo_env (four_vote n b) = vote_Digest demo_env (four_vote m b)"
  "QC_Digest demo_env (four_qc ns b) = vote_Digest demo_env (four_vote m b)"
  by (simp_all add: vote_Digest_def QC_Digest_def)

lemma four_timeout_digest:
  "timeout_Digest demo_env (four_timeout n r) = timeout_round_digest demo_env r 0"
  by (simp add: timeout_Digest_def timeout_round_digest_def)

definition four_quorum :: "byte list \<Rightarrow> bool" where
  "four_quorum ns \<longleftrightarrow> length ns = 3 \<and> distinct ns \<and> set ns \<subseteq> {1, 2, 3, 4}"

lemma four_quorum_of: "four_quorum ns \<Longrightarrow> quorum_of four_committee (map demo_name ns)"
proof -
  assume ns: "four_quorum ns"
  have "voters_weight four_committee (map demo_name ns)
      = (\<Sum>n\<in>set ns. unat (Committee_Stake four_committee (demo_name n)))"
    unfolding voters_weight_def by (simp add: sum.reindex inj_on_def)
  also have "\<dots> = (\<Sum>n\<in>set ns. 1)"
    using ns by (intro sum.cong) (auto simp: four_quorum_def four_stake)
  also have "\<dots> = card (set ns)" by simp
  finally have weight: "voters_weight four_committee (map demo_name ns) = card (set ns)" .
  have "voters_weight four_committee (map demo_name ns) = 3"
    using ns distinct_card [of ns] weight by (simp add: four_quorum_def)
  then show ?thesis
    using ns by (auto simp: quorum_of_def four_threshold four_quorum_def distinct_map inj_on_def four_stake)
qed

lemma four_vote_verify: "n \<in> {1, 2, 3, 4} \<Longrightarrow> vote_verify demo_env four_committee (four_vote n b) = None"
  by (simp add: vote_verify_None_iff four_stake)

lemma four_timeout_verify:
  "n \<in> {1, 2, 3, 4} \<Longrightarrow> timeout_Verify demo_env four_committee (four_timeout n r) = None"
  by (simp add: timeout_Verify_None_iff four_stake)

lemma four_qc_verify: "four_quorum ns \<Longrightarrow> QC_Verify demo_env four_committee (four_qc ns b) = None"
proof -
  assume ns: "four_quorum ns"
  then obtain n ns' where "ns = n # ns'" by (auto simp: four_quorum_def length_Suc_conv eval_nat_numeral)
  then show ?thesis
    using four_quorum_of [OF ns] four_vote_digest(2) [of ns b n]
    by (simp add: QC_Verify_None_iff four_qc_def)
qed

lemma four_tc_verify: "four_quorum ns \<Longrightarrow> TC_Verify demo_env four_committee (four_tc ns r) = None"
proof -
  assume ns: "four_quorum ns"
  then obtain n ns' where "ns = n # ns'" by (auto simp: four_quorum_def length_Suc_conv eval_nat_numeral)
  then show ?thesis
    using four_quorum_of [OF ns] four_timeout_digest [of n r]
    by (simp add: TC_Verify_None_iff comp_def) (simp add: four_tc_def timeout_round_digest_def)
qed

lemma four_block_verify:
  assumes "n \<in> {1, 2, 3, 4}" "qc = GenesisQC \<or> QC_Verify demo_env four_committee qc = None"
    "\<forall>t. tc = Some t \<longrightarrow> TC_Verify demo_env four_committee t = None"
  shows "Block_Verify demo_env four_committee (four_block n qc tc r) = None"
proof -
  have "Signature_Verify demo_env (blk_Signature (four_block n qc tc r))
      (Block_Digest demo_env (four_block n qc tc r)) (demo_name n)"
    by (simp add: four_block_def NewBlock_def Let_def RequestSignature_def four_ss_def
        NewSignatureService_def demo_name_def Block_Digest_def Block_buf_def)
  then show ?thesis using assms by (simp add: Block_Verify_None_iff four_stake IsGenesisQC_iff)
qed

subsection \<open>Collecting votes\<close>

type_synonym four_core_state = "(Signature option, demo_db) core"

definition four_maker :: "byte list \<Rightarrow> Block \<Rightarrow> Signature option qcMaker" where
  "four_maker ns b = \<lparr>qm_weight = of_nat (length ns), qm_voters = map demo_name ns,
     qm_used = demo_name ` set ns,
     qm_aggregateSig = (if ns = [] then None else Some (v_signature (four_vote (hd ns) b)))\<rparr>"

text \<open>The votes of \<open>ns\<close> for \<open>b\<close>, and no others of its round, have arrived.\<close>

definition votes_in :: "Signature option aggregator \<Rightarrow> Block \<Rightarrow> byte list \<Rightarrow> bool" where
  "votes_in a b ns \<longleftrightarrow> ag_voteAggregators a (blk_Round b) =
     (if ns = [] then None else Some [vote_Digest demo_env (four_vote 1 b) \<mapsto> four_maker ns b])"

lemma four_maker_new: "NewQcMaker demo_env = four_maker [] b"
  by (simp add: NewQcMaker_def four_maker_def)

lemma four_append:
  assumes "n \<in> {1, 2, 3, 4}" "n \<notin> set ns"
  shows "length ns < 2 \<Longrightarrow> qcMaker_append demo_env four_committee (four_maker ns b) (four_vote n b)
      = (four_maker (ns @ [n]) b, Inr None)"
    and "length ns = 2 \<Longrightarrow> \<exists>m. qcMaker_append demo_env four_committee (four_maker ns b) (four_vote n b)
      = (m, Inr (Some (four_qc (ns @ [n]) b)))"
proof -
  have fresh: "demo_name n \<notin> demo_name ` set ns" using assms(2) by auto
  show "qcMaker_append demo_env four_committee (four_maker ns b) (four_vote n b)
      = (four_maker (ns @ [n]) b, Inr None)" if "length ns < 2"
  proof -
    have "length ns = 0 \<or> length ns = 1" using that by linarith
    moreover have "\<not> (3 :: Stake) \<le> 1" "\<not> (3 :: Stake) \<le> 2" by (simp_all add: word_le_nat_alt)
    ultimately show ?thesis
      using assms(1) fresh
      by (auto simp: qcMaker_append_def four_maker_def Let_def four_stake four_threshold
          length_Suc_conv)
  qed
  show "\<exists>m. qcMaker_append demo_env four_committee (four_maker ns b) (four_vote n b)
      = (m, Inr (Some (four_qc (ns @ [n]) b)))" if "length ns = 2"
  proof -
    have "length ns = Suc (Suc 0)" using that by simp
    then obtain x y where "ns = [x, y]" by (auto simp: length_Suc_conv)
    then show ?thesis
      using assms(1) fresh
      by (auto simp: qcMaker_append_def four_maker_def Let_def four_stake four_threshold four_qc_def)
  qed
qed

lemma four_AddVote:
  assumes "ag_committee a = four_committee" "votes_in a b ns" "n \<in> {1, 2, 3, 4}" "n \<notin> set ns"
  shows "length ns < 2 \<Longrightarrow> \<exists>a'. AddVote demo_env a (four_vote n b) = (a', Inr None)
      \<and> ag_committee a' = four_committee \<and> votes_in a' b (ns @ [n])
      \<and> (\<forall>s. s \<noteq> blk_Round b \<longrightarrow> ag_voteAggregators a' s = ag_voteAggregators a s)"
    and "length ns = 2 \<Longrightarrow> \<exists>a'. AddVote demo_env a (four_vote n b) = (a', Inr (Some (four_qc (ns @ [n]) b)))
      \<and> ag_committee a' = four_committee
      \<and> (\<forall>s. s \<noteq> blk_Round b \<longrightarrow> ag_voteAggregators a' s = ag_voteAggregators a s)"
proof -
  note digest = four_vote_digest(1) [of n b 1]
  note new = four_maker_new [of b]
  show "\<exists>a'. AddVote demo_env a (four_vote n b) = (a', Inr None)
      \<and> ag_committee a' = four_committee \<and> votes_in a' b (ns @ [n])
      \<and> (\<forall>s. s \<noteq> blk_Round b \<longrightarrow> ag_voteAggregators a' s = ag_voteAggregators a s)" if "length ns < 2"
    using four_append(1) [OF assms(3,4) that, of b] assms(1,2)
    by (cases "ns = []") (simp_all add: AddVote_def votes_in_def digest new Let_def)
  show "\<exists>a'. AddVote demo_env a (four_vote n b) = (a', Inr (Some (four_qc (ns @ [n]) b)))
      \<and> ag_committee a' = four_committee
      \<and> (\<forall>s. s \<noteq> blk_Round b \<longrightarrow> ag_voteAggregators a' s = ag_voteAggregators a s)" if "length ns = 2"
    using four_append(2) [OF assms(3,4) that, of b] assms(1,2) that
    by (cases "ns = []") (auto simp: AddVote_def votes_in_def digest Let_def)
qed

subsection \<open>Steps of a node\<close>

text \<open>Node \<open>n\<close> in round \<open>r\<close>, with no votes for later rounds.\<close>

definition four_core :: "byte \<Rightarrow> Round \<Rightarrow> four_core_state \<Rightarrow> bool" where
  "four_core n r c \<longleftrightarrow> c_name c = demo_name n \<and> c_committee c = four_committee
     \<and> c_signatureService c = four_ss n \<and> c_round c = r \<and> ag_committee (c_aggregator c) = four_committee
     \<and> store_ok demo_env (c_store c) \<and> (\<forall>s>r. ag_voteAggregators (c_aggregator c) s = None)"

text \<open>What a step may leave alone besides: the last voted and committed rounds, the store.\<close>

definition same_rest :: "four_core_state \<Rightarrow> four_core_state \<Rightarrow> bool" where
  "same_rest c c' \<longleftrightarrow> c_lastVotedRound c' = c_lastVotedRound c
     \<and> c_lastCommittedRound c' = c_lastCommittedRound c \<and> c_store c' = c_store c"

lemma four_vote_waits:
  assumes "four_core n r c" "votes_in (c_aggregator c) b ns" "blk_Round b = r"
    and "m \<in> {1, 2, 3, 4}" "m \<notin> set ns" "length ns < 2"
  shows "\<exists>c'. handleVote demo_env c (four_vote m b) = (c', Ret None) \<and> four_core n r c'
    \<and> votes_in (c_aggregator c') b (ns @ [m]) \<and> c_highQC c' = c_highQC c
    \<and> c_out c' = c_out c \<and> same_rest c c'"
proof -
  have ag: "ag_committee (c_aggregator c) = four_committee" using assms(1) by (simp add: four_core_def)
  obtain a where a: "AddVote demo_env (c_aggregator c) (four_vote m b) = (a, Inr None)"
      "ag_committee a = four_committee" "votes_in a b (ns @ [m])"
      "\<forall>s. s \<noteq> r \<longrightarrow> ag_voteAggregators a s = ag_voteAggregators (c_aggregator c) s"
    using four_AddVote(1) [OF ag assms(2,4,5,6)] assms(3) by blast
  then have "handleVote demo_env c (four_vote m b) = (c\<lparr>c_aggregator := a\<rparr>, Ret None)"
    using assms(1,3) four_vote_verify [OF assms(4), of b] by (simp add: handleVote_def four_core_def)
  then show ?thesis using a assms(1) by (auto simp: four_core_def same_rest_def)
qed

lemma four_vote_certifies:
  assumes "four_core n r c" "votes_in (c_aggregator c) b ns" "blk_Round b = r"
    and "m \<in> {1, 2, 3, 4}" "m \<notin> set ns" "length ns = 2"
    and "r < r + 1" "qc_Round (c_highQC c) < r" "getLeader four_committee (r + 1) = Inr (demo_name n)"
  shows "\<exists>c'. handleVote demo_env c (four_vote m b) = (c', Ret None) \<and> four_core n (r + 1) c'
    \<and> c_highQC c' = four_qc (ns @ [m]) b \<and> same_rest c c'
    \<and> c_out c' = c_out c @ [ETimerReset,
        EProposer (proposerMakeMessage (r + 1) (four_qc (ns @ [m]) b) None)]
    \<and> (\<forall>b'. blk_Round b' = r + 1 \<longrightarrow> votes_in (c_aggregator c') b' [])"
proof -
  let ?qc = "four_qc (ns @ [m]) b"
  have ag: "ag_committee (c_aggregator c) = four_committee" using assms(1) by (simp add: four_core_def)
  obtain a where a: "AddVote demo_env (c_aggregator c) (four_vote m b) = (a, Inr (Some ?qc))"
      "ag_committee a = four_committee"
      "\<forall>s. s \<noteq> r \<longrightarrow> ag_voteAggregators a s = ag_voteAggregators (c_aggregator c) s"
    using four_AddVote(2) [OF ag assms(2,4,5,6)] assms(3) by blast
  define c1 where "c1 = processQC (c\<lparr>c_aggregator := a\<rparr>) ?qc"
  have c1: "c_round c1 = r + 1" "c_highQC c1 = ?qc" "c_aggregator c1 = aggregator_cleanup a (r + 1)"
      "c_out c1 = c_out c @ [ETimerReset]" "c_name c1 = demo_name n" "c_committee c1 = four_committee"
      "c_signatureService c1 = four_ss n" "same_rest c c1"
    using assms(1,3,8) by (simp_all add: c1_def processQC_def core_frames updateHighQc_highQC
        advanceRound_round advanceRound_out advanceRound_aggregator four_core_def same_rest_def)
  have later: "\<forall>s>r. ag_voteAggregators (aggregator_cleanup a (r + 1)) s = None"
    using a(3) assms(1) by (auto simp: aggregator_cleanup_def four_core_def)
  have core: "four_core n (r + 1) (generateProposal c1 None)"
    using c1 assms(1,7) a(2) later
    by (auto simp: four_core_def generateProposal_def same_rest_def aggregator_cleanup_def)
  have votes: "\<forall>b'. blk_Round b' = r + 1 \<longrightarrow> votes_in (c_aggregator c1) b' []"
    using later assms(7) c1(3) by (simp add: votes_in_def)
  have "handleVote demo_env c (four_vote m b) = (generateProposal c1 None, Ret None)"
    using assms(1,3,9) a(1) c1(1,5,6) four_vote_verify [OF assms(4), of b]
    by (simp add: handleVote_def four_core_def Let_def c1_def [symmetric])
  then show ?thesis using core c1 votes by (simp add: generateProposal_def same_rest_def)
qed

text \<open>Two more votes complete the certificate of a leader that has voted.\<close>

lemma four_two_votes:
  assumes "four_core n r c" "votes_in (c_aggregator c) b [n]" "blk_Round b = r"
    and "distinct [n, m, k]" "{m, k} \<subseteq> {1, 2, 3, 4}"
    and "r < r + 1" "qc_Round (c_highQC c) < r" "getLeader four_committee (r + 1) = Inr (demo_name n)"
  shows "\<exists>c1 c2. handleVote demo_env c (four_vote m b) = (c1, Ret None) \<and> c_out c1 = c_out c
    \<and> handleVote demo_env c1 (four_vote k b) = (c2, Ret None) \<and> four_core n (r + 1) c2 \<and> same_rest c c2
    \<and> c_out c2 = c_out c @ [ETimerReset,
        EProposer (proposerMakeMessage (r + 1) (four_qc [n, m, k] b) None)]"
proof -
  obtain c1 where c1: "handleVote demo_env c (four_vote m b) = (c1, Ret None)" "four_core n r c1"
      "votes_in (c_aggregator c1) b [n, m]" "c_highQC c1 = c_highQC c" "c_out c1 = c_out c" "same_rest c c1"
    using four_vote_waits [OF assms(1-3), of m] assms(4,5) by auto
  obtain c2 where "handleVote demo_env c1 (four_vote k b) = (c2, Ret None)" "four_core n (r + 1) c2"
      "same_rest c1 c2" "c_out c2 = c_out c1 @ [ETimerReset,
        EProposer (proposerMakeMessage (r + 1) (four_qc [n, m, k] b) None)]"
    using four_vote_certifies [OF c1(2,3) assms(3), of k] c1(4) assms(4-8) by auto
  then show ?thesis
    using c1 by (intro exI [of _ c1] exI [of _ c2]) (simp add: same_rest_def)
qed

lemma four_makes_vote:
  assumes "four_core n r c" "c_lastVotedRound c < blk_Round b" "safetyRule2 b = Inr True"
  shows "make_vote demo_env c b =
    (emit [ESign (SVote b (four_vote n b))] (c\<lparr>c_lastVotedRound := blk_Round b\<rparr>), Inr (Some (four_vote n b)))"
  using assms by (simp add: make_vote_Some_iff four_core_def four_vote_def)

lemma four_votes_away:
  assumes "four_core n r c" "c_lastVotedRound c < blk_Round b" "safetyRule2 b = Inr True"
    and "getLeader four_committee (r + 1) = Inr (demo_name m)" "m \<in> {1, 2, 3, 4}" "m \<noteq> n"
  shows "\<exists>c' es. vote_for_block demo_env c b = (c', Ret None) \<and> four_core n r c'
    \<and> c_lastVotedRound c' = blk_Round b \<and> c_lastCommittedRound c' = c_lastCommittedRound c
    \<and> c_store c' = c_store c \<and> c_highQC c' = c_highQC c \<and> c_aggregator c' = c_aggregator c
    \<and> c_out c' = c_out c @ es \<and> signed_of es = [SVote b (four_vote n b)]"
proof -
  obtain data where "SerializeConsensusMessage demo_env (voteMessage (four_vote n b)) = Ok data"
    using demo_Serialize_message by blast
  then show ?thesis
    using assms four_makes_vote [OF assms(1-3)] four_address [OF assms(5)]
    by (auto simp: vote_for_block_def four_core_def)
qed

lemma four_votes_home:
  assumes "four_core n r c" "c_lastVotedRound c < r" "blk_Round b = r" "safetyRule2 b = Inr True"
    and "getLeader four_committee (r + 1) = Inr (demo_name n)" "n \<in> {1, 2, 3, 4}"
    and "votes_in (c_aggregator c) b []"
  shows "\<exists>c' es. vote_for_block demo_env c b = (c', Ret None) \<and> four_core n r c'
    \<and> c_lastVotedRound c' = r \<and> c_lastCommittedRound c' = c_lastCommittedRound c
    \<and> c_store c' = c_store c \<and> c_highQC c' = c_highQC c \<and> votes_in (c_aggregator c') b [n]
    \<and> c_out c' = c_out c @ es \<and> signed_of es = [SVote b (four_vote n b)]"
proof -
  define c1 where "c1 = emit [ESign (SVote b (four_vote n b))] (c\<lparr>c_lastVotedRound := blk_Round b\<rparr>)"
  have core1: "four_core n r c1" using assms(1) by (simp add: c1_def four_core_def)
  have votes1: "votes_in (c_aggregator c1) b []" using assms(7) by (simp add: c1_def)
  obtain c2 where c2: "handleVote demo_env c1 (four_vote n b) = (c2, Ret None)" "four_core n r c2"
      "votes_in (c_aggregator c2) b [n]" "c_highQC c2 = c_highQC c1" "c_out c2 = c_out c1" "same_rest c1 c2"
    using four_vote_waits [OF core1 votes1 assms(3,6)] by auto
  have "make_vote demo_env c b = (c1, Inr (Some (four_vote n b)))"
    using four_makes_vote [OF assms(1) _ assms(4)] assms(2,3) by (simp add: c1_def)
  then have "vote_for_block demo_env c b = (c2, Ret None)"
    using core1 c2(1) assms(5) by (simp add: vote_for_block_def four_core_def)
  then show ?thesis using c2 assms(3) by (auto simp: c1_def same_rest_def)
qed

subsection \<open>Blocks and rounds\<close>

abbreviation put_blk :: "Block \<Rightarrow> demo_db store \<Rightarrow> demo_db store" where
  "put_blk b s \<equiv> Store_Write demo_env s (digest_bytes (Block_Digest demo_env b)) (put_block (Block_toProto b))"

lemma four_process:
  assumes "four_core n r c" "getAncestors demo_env (c_store c) b = (Ok (b0, b1), [])"
    and "go \<longleftrightarrow> blk_Round b0 + 1 = blk_Round b1 \<and> c_lastCommittedRound c < blk_Round b0"
    and "go \<Longrightarrow> \<exists>as. commit_loop demo_env (put_blk b (c_store c)) (c_lastCommittedRound c) b0 [] = Some (Inr as, [])"
  shows "\<exists>c' es. processBlock demo_env c b = vote_for_block demo_env c' b \<and> four_core n r c'
    \<and> c_lastVotedRound c' = c_lastVotedRound c \<and> c_highQC c' = c_highQC c
    \<and> c_aggregator c' = c_aggregator c \<and> c_store c' = put_blk b (c_store c)
    \<and> c_lastCommittedRound c' = (if go then blk_Round b0 else c_lastCommittedRound c)
    \<and> c_out c' = c_out c @ es \<and> signed_of es = [] \<and> (go \<longrightarrow> ECommit b0 \<in> set es)"
proof -
  define c1 where "c1 = cleanupProposer (storeBlock demo_env c b) b0 b1 b"
  have c1: "c_store c1 = put_blk b (c_store c)" "four_core n r c1" "c_lastVotedRound c1 = c_lastVotedRound c"
      "c_highQC c1 = c_highQC c" "c_aggregator c1 = c_aggregator c"
      "c_lastCommittedRound c1 = c_lastCommittedRound c"
      "c_out c1 = c_out c @ [EProposer (proposerCleanupMessage
         (blk_Payload b0 @ blk_Payload b1 @ blk_Payload b))]"
    using assms(1)
    by (auto simp: c1_def cleanupProposer_def core_frames four_core_def storeBlock_def st.put_usable)
  define cl where "cl = map EMempool (fst (driver_cleanup (blk_Round b0)))
      @ map EPayloadWaiter (snd (driver_cleanup (blk_Round b0)))"
  have cl: "signed_of cl = []" by (simp add: cl_def driver_cleanup_def)
  have start: "processBlock demo_env c b =
      (if blk_Round b0 + 1 = blk_Round b1
       then case commit demo_env (emit cl c1) b0 of
              (c4, Ret None) \<Rightarrow> vote_for_block demo_env c4 b | (c4, other) \<Rightarrow> (c4, other)
       else vote_for_block demo_env c1 b)"
    using assms(2) by (simp add: processBlock_def Let_def c1_def [symmetric] cl_def case_prod_unfold)
  show ?thesis
  proof (cases go)
    case True
    then obtain as where loop: "commit_loop demo_env (put_blk b (c_store c)) (c_lastCommittedRound c) b0 []
        = Some (Inr as, [])" using assms(4) by blast
    define c2 where "c2 = emit (cl @ map ECommit (as @ [b0])) (c1\<lparr>c_lastCommittedRound := blk_Round b0\<rparr>)"
    have "commit demo_env (emit cl c1) b0 = (c2, Ret None)"
      using True assms(3) loop c1(1,6) by (auto simp: commit_def Let_def c2_def emit_def)
    then have "processBlock demo_env c b = vote_for_block demo_env c2 b"
      using True assms(3) by (simp add: start)
    then show ?thesis
      using c1 cl True
      by (intro exI [of _ c2] exI [of _ "EProposer (proposerCleanupMessage
            (blk_Payload b0 @ blk_Payload b1 @ blk_Payload b)) # cl @ map ECommit (as @ [b0])"])
        (auto simp: c2_def four_core_def signed_of_ECommit)
  next
    case False
    define c2 where "c2 = (if blk_Round b0 + 1 = blk_Round b1 then emit cl c1 else c1)"
    have "blk_Round b0 + 1 = blk_Round b1 \<Longrightarrow> commit demo_env (emit cl c1) b0 = (emit cl c1, Ret None)"
      using False assms(3) c1(6) by (auto simp: commit_def)
    then have "processBlock demo_env c b = vote_for_block demo_env c2 b" by (simp add: start c2_def)
    then show ?thesis
      using c1 cl False
      by (intro exI [of _ c2] exI [of _ "EProposer (proposerCleanupMessage
            (blk_Payload b0 @ blk_Payload b1 @ blk_Payload b)) #
            (if blk_Round b0 + 1 = blk_Round b1 then cl else [])"])
        (auto simp: c2_def four_core_def)
  qed
qed

text \<open>A block whose ancestors are stored is stored, and voted for.\<close>

lemma four_block_away:
  assumes "four_core n r c" "getAncestors demo_env (c_store c) b = (Ok (b0, b1), [])"
    and "go \<longleftrightarrow> blk_Round b0 + 1 = blk_Round b1 \<and> c_lastCommittedRound c < blk_Round b0"
    and "go \<Longrightarrow> \<exists>as. commit_loop demo_env (put_blk b (c_store c)) (c_lastCommittedRound c) b0 [] = Some (Inr as, [])"
    and "c_lastVotedRound c < blk_Round b" "safetyRule2 b = Inr True"
    and "getLeader four_committee (r + 1) = Inr (demo_name m)" "m \<in> {1, 2, 3, 4}" "m \<noteq> n"
  shows "\<exists>c' es. processBlock demo_env c b = (c', Ret None) \<and> four_core n r c'
    \<and> c_lastVotedRound c' = blk_Round b
    \<and> c_lastCommittedRound c' = (if go then blk_Round b0 else c_lastCommittedRound c)
    \<and> c_store c' = put_blk b (c_store c) \<and> c_highQC c' = c_highQC c \<and> c_aggregator c' = c_aggregator c
    \<and> c_out c' = c_out c @ es \<and> signed_of es = [SVote b (four_vote n b)] \<and> (go \<longrightarrow> ECommit b0 \<in> set es)"
proof -
  obtain d es where d: "processBlock demo_env c b = vote_for_block demo_env d b" "four_core n r d"
      "c_lastVotedRound d = c_lastVotedRound c" "c_highQC d = c_highQC c"
      "c_aggregator d = c_aggregator c" "c_store d = put_blk b (c_store c)"
      "c_lastCommittedRound d = (if go then blk_Round b0 else c_lastCommittedRound c)"
      "c_out d = c_out c @ es" "signed_of es = []" "go \<longrightarrow> ECommit b0 \<in> set es"
    using four_process [OF assms(1-4)] by blast
  obtain c' es' where "vote_for_block demo_env d b = (c', Ret None)" "four_core n r c'"
      "c_lastVotedRound c' = blk_Round b" "c_lastCommittedRound c' = c_lastCommittedRound d"
      "c_store c' = c_store d" "c_highQC c' = c_highQC d" "c_aggregator c' = c_aggregator d"
      "c_out c' = c_out d @ es'" "signed_of es' = [SVote b (four_vote n b)]"
    using four_votes_away [OF d(2) _ assms(6-9)] assms(5) d(3) by auto
  then show ?thesis using d by (intro exI [of _ c'] exI [of _ "es @ es'"]) auto
qed

lemma four_block_home:
  assumes "four_core n r c" "getAncestors demo_env (c_store c) b = (Ok (b0, b1), [])"
    and "\<not> (blk_Round b0 + 1 = blk_Round b1 \<and> c_lastCommittedRound c < blk_Round b0)"
    and "c_lastVotedRound c < r" "blk_Round b = r" "safetyRule2 b = Inr True"
    and "getLeader four_committee (r + 1) = Inr (demo_name n)" "n \<in> {1, 2, 3, 4}"
    and "votes_in (c_aggregator c) b []"
  shows "\<exists>c' es. processBlock demo_env c b = (c', Ret None) \<and> four_core n r c'
    \<and> c_lastVotedRound c' = r \<and> c_lastCommittedRound c' = c_lastCommittedRound c
    \<and> c_store c' = put_blk b (c_store c) \<and> c_highQC c' = c_highQC c \<and> votes_in (c_aggregator c') b [n]
    \<and> c_out c' = c_out c @ es \<and> signed_of es = [SVote b (four_vote n b)]"
proof -
  have go: "False \<longleftrightarrow> blk_Round b0 + 1 = blk_Round b1 \<and> c_lastCommittedRound c < blk_Round b0"
    using assms(3) by blast
  obtain d es where d: "processBlock demo_env c b = vote_for_block demo_env d b" "four_core n r d"
      "c_lastVotedRound d = c_lastVotedRound c" "c_highQC d = c_highQC c"
      "c_aggregator d = c_aggregator c" "c_store d = put_blk b (c_store c)"
      "c_lastCommittedRound d = c_lastCommittedRound c" "c_out d = c_out c @ es" "signed_of es = []"
    using four_process [OF assms(1,2) go] by auto
  obtain c' es' where "vote_for_block demo_env d b = (c', Ret None)" "four_core n r c'"
      "c_lastVotedRound c' = r" "c_lastCommittedRound c' = c_lastCommittedRound d"
      "c_store c' = c_store d" "c_highQC c' = c_highQC d" "votes_in (c_aggregator c') b [n]"
      "c_out c' = c_out d @ es'" "signed_of es' = [SVote b (four_vote n b)]"
    using four_votes_home [OF d(2) _ assms(5-8)] assms(4,9) d(3,5) by auto
  then show ?thesis using d by (intro exI [of _ c'] exI [of _ "es @ es'"]) auto
qed

lemma four_proposal:
  assumes "four_core n r c" "getLeader four_committee (blk_Round b) = Inr (blk_Author b)"
    and "Block_Verify demo_env four_committee b = None" "blk_Payload b = []"
  shows "handleProposal demo_env c b = processBlock demo_env
    (case blk_Tc b of Some tc \<Rightarrow> advanceRound (processQC c (blk_Qc b)) (tc_Round tc)
      | None \<Rightarrow> processQC c (blk_Qc b)) b"
  using assms
  by (auto simp: handleProposal_def four_core_def driver_verify_def missing_payload_def Let_def
      split: option.splits)

lemma four_genesis_qc: "four_core n r c \<Longrightarrow> 0 < r \<Longrightarrow> processQC c GenesisQC = c"
  by (simp add: processQC_def updateHighQc_def advanceRound_def four_core_def)

lemma four_advance:
  assumes "four_core n r c" "r < r + 1"
  shows "four_core n (r + 1) (advanceRound c r)" "same_rest c (advanceRound c r)"
    "c_highQC (advanceRound c r) = c_highQC c" "c_out (advanceRound c r) = c_out c @ [ETimerReset]"
    "blk_Round b' = r + 1 \<Longrightarrow> votes_in (c_aggregator (advanceRound c r)) b' []"
  using assms
  by (auto simp: four_core_def same_rest_def core_frames advanceRound_round advanceRound_out
      advanceRound_aggregator aggregator_cleanup_def votes_in_def)

lemma four_next_round:
  assumes "four_core n r c" "r < r + 1" "qc_Round qc = r" "qc_Round (c_highQC c) < r"
  shows "four_core n (r + 1) (processQC c qc)" "same_rest c (processQC c qc)"
    "c_highQC (processQC c qc) = qc" "c_out (processQC c qc) = c_out c @ [ETimerReset]"
    "blk_Round b' = r + 1 \<Longrightarrow> votes_in (c_aggregator (processQC c qc)) b' []"
  using four_advance(1-4) [OF assms(1,2)] four_advance(5) [OF assms(1,2), of b'] assms(3,4)
  by (auto simp: processQC_def four_core_def same_rest_def core_frames updateHighQc_highQC)

lemma four_times_out:
  assumes "four_core n r c" "c_aggregator c = NewAggregator four_committee" "c_highQC c = GenesisQC"
    and "n \<in> {1, 2, 3, 4}" "0 < r"
  shows "\<exists>c' es. localTimeoutRound demo_env c = (c', Ret None) \<and> four_core n r c'
    \<and> c_lastVotedRound c' = max (c_lastVotedRound c) r \<and> c_highQC c' = GenesisQC
    \<and> c_lastCommittedRound c' = c_lastCommittedRound c \<and> c_store c' = c_store c
    \<and> c_out c' = c_out c @ es \<and> signed_of es = [STimeout (four_timeout n r)]"
proof -
  let ?t = "four_timeout n r"
  obtain data where data: "SerializeConsensusMessage demo_env (timeoutMessage ?t) = Ok data"
    using demo_Serialize_message by blast
  obtain names addresses where addr: "BroadcastAddresses four_committee (demo_name n) = (names, addresses)"
    by fastforce
  define c1 where "c1 = emit [ESign (STimeout ?t), ETimerReset, EBroadcast addresses data]
      (increaseLastVotedRound c r)"
  have timeout: "NewTimeout demo_env GenesisQC r (demo_name n) (four_ss n) = ?t"
    by (simp add: four_timeout_def)
  have "localTimeoutRound demo_env c = handleTimeout demo_env c1 ?t"
    using assms(1,3) data addr timeout
    by (simp add: localTimeoutRound_def Let_def four_core_def increaseLastVotedRound_def c1_def emit_def)
  also have "\<exists>a. AddTimeout demo_env (NewAggregator four_committee) ?t = (a, Inr None)
      \<and> ag_committee a = four_committee \<and> ag_voteAggregators a = Map.empty"
  proof -
    have "\<not> (3 :: Stake) \<le> 1" by (simp add: word_le_nat_alt)
    then show ?thesis
      using assms(4)
      by (simp add: AddTimeout_def NewAggregator_def tcMaker_append_def NewTcMaker_def Let_def
          four_stake four_threshold)
  qed
  then obtain a where a: "AddTimeout demo_env (NewAggregator four_committee) ?t = (a, Inr None)"
      "ag_committee a = four_committee" "ag_voteAggregators a = Map.empty" by blast
  have core1: "four_core n r c1" using assms(1) by (simp add: c1_def four_core_def increaseLastVotedRound_def)
  have "handleTimeout demo_env c1 ?t = (c1\<lparr>c_aggregator := a\<rparr>, Ret None)"
    using core1 a(1) assms(2) four_genesis_qc [OF core1 assms(5)] four_timeout_verify [OF assms(4), of r]
    by (simp add: handleTimeout_def four_core_def Let_def c1_def increaseLastVotedRound_def)
  finally show ?thesis
    using core1 a assms(3)
    by (auto simp: c1_def four_core_def increaseLastVotedRound_def emit_def)
qed

subsection \<open>The blocks of the run\<close>

definition fk1 :: Block where "fk1 = four_block 2 GenesisQC None 1"
definition fk2 :: Block where "fk2 = four_block 3 (four_qc [4, 1, 3] fk1) None 2"
definition fk2' :: Block where "fk2' = four_block 3 GenesisQC (Some (four_tc [4, 1, 3] 1)) 2"
definition fk3 :: Block where "fk3 = four_block 4 (four_qc [4, 1, 3] fk2) None 3"
definition fk4 :: Block where "fk4 = four_block 1 (four_qc [1, 4, 3] fk3) None 4"

definition fork_blocks :: "Block set" where
  "fork_blocks = {fk1, fk2, fk2', fk3, fk4}"

lemma fk_fields [simp]:
  "blk_Round fk1 = 1" "blk_Round fk2 = 2" "blk_Round fk2' = 2" "blk_Round fk3 = 3" "blk_Round fk4 = 4"
  "blk_Author fk1 = demo_name 2" "blk_Author fk2 = demo_name 3" "blk_Author fk2' = demo_name 3"
  "blk_Author fk3 = demo_name 4" "blk_Author fk4 = demo_name 1"
  "blk_Qc fk1 = GenesisQC" "blk_Qc fk2 = four_qc [4, 1, 3] fk1" "blk_Qc fk2' = GenesisQC"
  "blk_Qc fk3 = four_qc [4, 1, 3] fk2" "blk_Qc fk4 = four_qc [1, 4, 3] fk3"
  "blk_Tc fk1 = None" "blk_Tc fk2 = None" "blk_Tc fk2' = Some (four_tc [4, 1, 3] 1)"
  "blk_Tc fk3 = None" "blk_Tc fk4 = None"
  "blk_Payload fk1 = []" "blk_Payload fk2 = []" "blk_Payload fk2' = []" "blk_Payload fk3 = []"
  "blk_Payload fk4 = []"
  by (simp_all add: fk1_def fk2_def fk2'_def fk3_def fk4_def)

lemma Genesis_fields [simp]: "blk_Qc GenesisBlock = GenesisQC" "blk_Round GenesisBlock = 0"
  by (simp_all add: GenesisBlock_def)

lemma four_block_digest:
  "blk_Payload b = [] \<Longrightarrow> blk_Payload b' = [] \<Longrightarrow> blk_Round b \<noteq> blk_Round b' \<Longrightarrow>
     Block_Digest demo_env b \<noteq> Block_Digest demo_env b'"
  by (auto simp: Block_Digest_def Block_buf_def dest: demo_digest_round)

text \<open>The two blocks of round 2 have one digest, and the vote for one is the vote for the other.\<close>

lemma fork_digest: "Block_Digest demo_env fk2' = Block_Digest demo_env fk2"
  by (simp add: Block_Digest_def Block_buf_def)

lemma fork_vote: "four_vote n fk2' = four_vote n fk2"
  by (simp add: four_vote_def NewVote_def Let_def fork_digest vote_Digest_def)

lemma fork_quorums [simp]: "four_quorum [4, 1, 3]" "four_quorum [1, 4, 3]"
  by (simp_all add: four_quorum_def)

lemma fork_blocks_verify:
  "b \<in> fork_blocks \<Longrightarrow> Block_Verify demo_env four_committee b = None"
proof -
  have "Block_Verify demo_env four_committee fk1 = None" "Block_Verify demo_env four_committee fk2 = None"
      "Block_Verify demo_env four_committee fk2' = None" "Block_Verify demo_env four_committee fk3 = None"
      "Block_Verify demo_env four_committee fk4 = None"
    unfolding fk1_def fk2_def fk2'_def fk3_def fk4_def
    by (rule four_block_verify; simp add: four_qc_verify four_tc_verify)+
  then show "b \<in> fork_blocks \<Longrightarrow> ?thesis" by (auto simp: fork_blocks_def)
qed

lemma fork_rules:
  "safetyRule2 fk1 = Inr True" "safetyRule2 fk2 = Inr True" "safetyRule2 fk2' = Inr True"
  "safetyRule2 fk3 = Inr True" "safetyRule2 fk4 = Inr True"
  by (simp_all add: safetyRule2_True_iff)

lemma four_qc_not_genesis: "blk_Round p \<noteq> 0 \<Longrightarrow> four_qc ns p \<noteq> GenesisQC"
  by (auto dest: arg_cong [of _ _ qc_Round])

lemma four_parent:
  "blk_Qc b = GenesisQC \<Longrightarrow> getParentBlock demo_env s b = (Ok GenesisBlock, [])"
  "store_ok demo_env s \<Longrightarrow> blk_Qc b = four_qc ns p \<Longrightarrow> blk_Round p \<noteq> 0 \<Longrightarrow>
     Block_Digest demo_env q = Block_Digest demo_env p \<Longrightarrow>
     Store_Read demo_env s (digest_bytes (Block_Digest demo_env q)) = Inr (put_block (Block_toProto q)) \<Longrightarrow>
     getParentBlock demo_env s b = (Ok q, [])"
  using four_qc_not_genesis [of p ns] by (auto simp: getParentBlock_cases IsGenesisQC_iff Parent_def)

lemma put_blk_read:
  "store_ok demo_env s \<Longrightarrow>
     Store_Read demo_env (put_blk b s) (digest_bytes (Block_Digest demo_env b)) = Inr (put_block (Block_toProto b))"
  "store_ok demo_env s \<Longrightarrow> Block_Digest demo_env b' \<noteq> Block_Digest demo_env b \<Longrightarrow>
     Store_Read demo_env (put_blk b s) (digest_bytes (Block_Digest demo_env b'))
       = Store_Read demo_env s (digest_bytes (Block_Digest demo_env b'))"
  by (simp_all add: st.get_put st.get_put_other)

subsection \<open>The nodes one by one\<close>

definition fork_step ::
  "four_core_state \<Rightarrow> core_event \<Rightarrow> four_core_state \<Rightarrow> signed list \<Rightarrow> bool" where
  "fork_step c ev c' sg \<longleftrightarrow> core_step demo_env c ev = (c', Ret None)
     \<and> (\<exists>es. c_out c' = c_out c @ es \<and> signed_of es = sg)"

definition four_start :: "byte \<Rightarrow> four_core_state" where
  "four_start n = fst (core_start (demo_name n) four_committee (four_ss n) (NewStore Map.empty))"

lemma four_started:
  assumes "n \<in> {1, 4}"
  shows "core_start (demo_name n) four_committee (four_ss n) (NewStore Map.empty) = (four_start n, Ret None)"
    "four_core n 1 (four_start n)" "c_lastVotedRound (four_start n) = 0"
    "c_lastCommittedRound (four_start n) = 0" "c_highQC (four_start n) = GenesisQC"
    "c_aggregator (four_start n) = NewAggregator four_committee" "signed_of (c_out (four_start n)) = []"
    "c_store (four_start n) = NewStore Map.empty"
  using assms four_leader(1)
  by (auto simp: four_start_def core_start_def NewCore_def Let_def four_core_def NewAggregator_def)

text \<open>Either node votes for the block of round 1 and then times out.\<close>

lemma fork_first:
  assumes "n \<in> {1, 4}"
  shows "\<exists>c1 c2. fork_step (four_start n) (RxMessage (proposeMessage fk1)) c1 [SVote fk1 (four_vote n fk1)]
    \<and> fork_step c1 TimerFired c2 [STimeout (four_timeout n 1)]
    \<and> four_core n 1 c2 \<and> c_lastVotedRound c2 = 1 \<and> c_lastCommittedRound c2 = 0
    \<and> c_highQC c2 = GenesisQC \<and> c_store c2 = put_blk fk1 (NewStore Map.empty)"
proof -
  note s = four_started [OF assms]
  have anc: "getAncestors demo_env (c_store (four_start n)) fk1 = (Ok (GenesisBlock, GenesisBlock), [])"
    by (simp add: getAncestors_Ok_iff four_parent)
  have m: "(3 :: byte) \<noteq> n" "n \<in> {1, 2, 3, 4}" using assms by auto
  have lead: "getLeader four_committee (1 + 1) = Inr (demo_name 3)" using four_leader by simp
  obtain c1 es1 where c1: "processBlock demo_env (four_start n) fk1 = (c1, Ret None)" "four_core n 1 c1"
      "c_lastVotedRound c1 = 1" "c_lastCommittedRound c1 = 0" "c_store c1 = put_blk fk1 (NewStore Map.empty)"
      "c_highQC c1 = GenesisQC" "c_aggregator c1 = NewAggregator four_committee"
      "c_out c1 = c_out (four_start n) @ es1" "signed_of es1 = [SVote fk1 (four_vote n fk1)]"
    using four_block_away [OF s(2) anc, of False, OF _ _ _ fork_rules(1) lead _ m(1)] s by auto
  have "core_step demo_env (four_start n) (RxMessage (proposeMessage fk1)) = (c1, Ret None)"
    using four_proposal [OF s(2), of fk1] four_genesis_qc [OF s(2)] four_leader c1(1)
    by (simp add: fork_blocks_verify fork_blocks_def)
  then have "fork_step (four_start n) (RxMessage (proposeMessage fk1)) c1 [SVote fk1 (four_vote n fk1)]"
    using c1(8,9) by (auto simp: fork_step_def)
  moreover obtain c2 es2 where "localTimeoutRound demo_env c1 = (c2, Ret None)" "four_core n 1 c2"
      "c_lastVotedRound c2 = 1" "c_highQC c2 = GenesisQC" "c_lastCommittedRound c2 = 0"
      "c_store c2 = c_store c1" "c_out c2 = c_out c1 @ es2" "signed_of es2 = [STimeout (four_timeout n 1)]"
    using four_times_out [OF c1(2,7,6) m(2)] c1 by auto
  ultimately show ?thesis using c1(5) by (auto simp: fork_step_def intro!: exI [of _ c1] exI [of _ c2])
qed

text \<open>Node 4 is sent the block that extends the certificate of round 1, and leads round 3.\<close>

lemma fork_node4_round2:
  assumes "four_core 4 1 c" "c_lastVotedRound c = 1" "c_lastCommittedRound c = 0"
    "c_highQC c = GenesisQC" "c_store c = put_blk fk1 (NewStore Map.empty)"
  shows "\<exists>c3. fork_step c (RxMessage (proposeMessage fk2)) c3 [SVote fk2 (four_vote 4 fk2)]
    \<and> four_core 4 2 c3 \<and> c_lastVotedRound c3 = 2 \<and> c_lastCommittedRound c3 = 0
    \<and> c_store c3 = put_blk fk2 (put_blk fk1 (NewStore Map.empty))
    \<and> c_highQC c3 = four_qc [4, 1, 3] fk1 \<and> votes_in (c_aggregator c3) fk2 [4]"
proof -
  have st0: "store_ok demo_env (NewStore Map.empty :: demo_db store)" by simp
  have st1: "store_ok demo_env (put_blk fk1 (NewStore Map.empty))"
    using assms(1,5) by (simp add: four_core_def)
  define c' where "c' = processQC c (four_qc [4, 1, 3] fk1)"
  have c': "four_core 4 2 c'" "same_rest c c'" "c_highQC c' = four_qc [4, 1, 3] fk1"
      "c_out c' = c_out c @ [ETimerReset]" "votes_in (c_aggregator c') fk2 []"
    using four_next_round(1-4) [OF assms(1), of "four_qc [4, 1, 3] fk1"]
      four_next_round(5) [OF assms(1), of "four_qc [4, 1, 3] fk1" fk2] assms(4) by (auto simp: c'_def)
  have anc: "getAncestors demo_env (c_store c') fk2 = (Ok (GenesisBlock, fk1), [])"
    using four_parent(2) [OF st1, of fk2 "[4, 1, 3]" fk1 fk1] put_blk_read(1) [OF st0, of fk1] c'(2) assms(5)
    by (simp add: getAncestors_Ok_iff four_parent(1) same_rest_def)
  have lead: "getLeader four_committee (2 + 1) = Inr (demo_name 4)" using four_leader by simp
  obtain c3 es where c3: "processBlock demo_env c' fk2 = (c3, Ret None)" "four_core 4 2 c3"
      "c_lastVotedRound c3 = 2" "c_lastCommittedRound c3 = 0"
      "c_store c3 = put_blk fk2 (put_blk fk1 (NewStore Map.empty))"
      "c_highQC c3 = four_qc [4, 1, 3] fk1" "votes_in (c_aggregator c3) fk2 [4]"
      "c_out c3 = c_out c' @ es" "signed_of es = [SVote fk2 (four_vote 4 fk2)]"
    using four_block_home [OF c'(1) anc _ _ _ fork_rules(2) lead] c'(2,3,5) assms(2,3,5)
    by (auto simp: same_rest_def)
  have "core_step demo_env c (RxMessage (proposeMessage fk2)) = (c3, Ret None)"
    using four_proposal [OF assms(1), of fk2] four_leader c3(1)
    by (simp add: fork_blocks_verify fork_blocks_def c'_def)
  then show ?thesis using c3 c'(4) by (auto simp: fork_step_def)
qed

lemma fork_node4:
  assumes "four_core 4 1 c" "c_lastVotedRound c = 1" "c_lastCommittedRound c = 0"
    "c_highQC c = GenesisQC" "c_store c = put_blk fk1 (NewStore Map.empty)"
  shows "\<exists>c3 c4 c5 c6. fork_step c (RxMessage (proposeMessage fk2)) c3 [SVote fk2 (four_vote 4 fk2)]
    \<and> fork_step c3 (RxMessage (voteMessage (four_vote 1 fk2))) c4 []
    \<and> fork_step c4 (RxMessage (voteMessage (four_vote 3 fk2))) c5 []
    \<and> four_core 4 3 c5 \<and> EProposer (proposerMakeMessage 3 (four_qc [4, 1, 3] fk2) None) \<in> set (c_out c5)
    \<and> fork_step c5 (RxLoopback fk3) c6 [SVote fk3 (four_vote 4 fk3)] \<and> ECommit fk1 \<in> set (c_out c6)"
proof -
  have st0: "store_ok demo_env (NewStore Map.empty :: demo_db store)" by simp
  have st1: "store_ok demo_env (put_blk fk1 (NewStore Map.empty))" by (rule st.put_usable [OF st0])
  have st2: "store_ok demo_env (put_blk fk2 (put_blk fk1 (NewStore Map.empty)))"
    by (rule st.put_usable [OF st1])
  have diff: "Block_Digest demo_env fk1 \<noteq> Block_Digest demo_env fk2" by (rule four_block_digest) simp_all
  have lead: "getLeader four_committee (2 + 1) = Inr (demo_name 4)"
      "getLeader four_committee (3 + 1) = Inr (demo_name 1)" using four_leader by simp_all
  obtain c3 where c3: "fork_step c (RxMessage (proposeMessage fk2)) c3 [SVote fk2 (four_vote 4 fk2)]"
      "four_core 4 2 c3" "c_lastVotedRound c3 = 2" "c_lastCommittedRound c3 = 0"
      "c_store c3 = put_blk fk2 (put_blk fk1 (NewStore Map.empty))"
      "c_highQC c3 = four_qc [4, 1, 3] fk1" "votes_in (c_aggregator c3) fk2 [4]"
    using fork_node4_round2 [OF assms] by blast
  obtain c4 c5 where c4: "handleVote demo_env c3 (four_vote 1 fk2) = (c4, Ret None)" "c_out c4 = c_out c3"
      and c5: "handleVote demo_env c4 (four_vote 3 fk2) = (c5, Ret None)" "four_core 4 3 c5" "same_rest c3 c5"
      "c_out c5 = c_out c3 @ [ETimerReset, EProposer (proposerMakeMessage 3 (four_qc [4, 1, 3] fk2) None)]"
    using four_two_votes [OF c3(2,7), of 1 3] c3(6) lead(1) by auto
  note rest = c5(3) [unfolded same_rest_def]
  have "getParentBlock demo_env (c_store c5) fk3 = (Ok fk2, [])"
    using four_parent(2) [OF st2, of fk3 "[4, 1, 3]" fk2 fk2] put_blk_read(1) [OF st1, of fk2] c3(5) rest by simp
  moreover have "getParentBlock demo_env (c_store c5) fk2 = (Ok fk1, [])"
    using four_parent(2) [OF st2, of fk2 "[4, 1, 3]" fk1 fk1] put_blk_read(1) [OF st0, of fk1]
      put_blk_read(2) [OF st1 diff] c3(5) rest by simp
  ultimately have anc: "getAncestors demo_env (c_store c5) fk3 = (Ok (fk1, fk2), [])"
    by (simp add: getAncestors_Ok_iff)
  obtain c6 es where "processBlock demo_env c5 fk3 = (c6, Ret None)" "c_out c6 = c_out c5 @ es"
      "signed_of es = [SVote fk3 (four_vote 4 fk3)]" "ECommit fk1 \<in> set es"
    using four_block_away [OF c5(2) anc, of True, OF _ _ _ fork_rules(4) lead(2)] c3(3-5) rest
    by (auto simp: commit_loop_stop)
  then show ?thesis
    using c3(1) c4 c5 by (intro exI [of _ c3] exI [of _ c4] exI [of _ c5] exI [of _ c6])
      (auto simp: fork_step_def)
qed

text \<open>Node 1 is sent the block that extends the genesis block, and leads round 4.\<close>

lemma fork_node1_round2:
  assumes "four_core 1 1 c" "c_lastVotedRound c = 1" "c_lastCommittedRound c = 0"
    "c_highQC c = GenesisQC" "c_store c = put_blk fk1 (NewStore Map.empty)"
  shows "\<exists>c3. fork_step c (RxMessage (proposeMessage fk2')) c3 [SVote fk2' (four_vote 1 fk2)]
    \<and> four_core 1 2 c3 \<and> c_lastVotedRound c3 = 2 \<and> c_lastCommittedRound c3 = 0
    \<and> c_store c3 = put_blk fk2' (put_blk fk1 (NewStore Map.empty)) \<and> c_highQC c3 = GenesisQC"
proof -
  have c': "four_core 1 2 (advanceRound c 1)" "same_rest c (advanceRound c 1)"
      "c_highQC (advanceRound c 1) = GenesisQC" "c_out (advanceRound c 1) = c_out c @ [ETimerReset]"
    using four_advance(1-4) [OF assms(1)] assms(4) by simp_all
  have anc: "getAncestors demo_env (c_store (advanceRound c 1)) fk2' = (Ok (GenesisBlock, GenesisBlock), [])"
    by (simp add: getAncestors_Ok_iff four_parent(1))
  have lead: "getLeader four_committee (2 + 1) = Inr (demo_name 4)" using four_leader by simp
  obtain c3 es where c3: "processBlock demo_env (advanceRound c 1) fk2' = (c3, Ret None)" "four_core 1 2 c3"
      "c_lastVotedRound c3 = 2" "c_lastCommittedRound c3 = 0"
      "c_store c3 = put_blk fk2' (put_blk fk1 (NewStore Map.empty))" "c_highQC c3 = GenesisQC"
      "c_out c3 = c_out (advanceRound c 1) @ es" "signed_of es = [SVote fk2' (four_vote 1 fk2)]"
    using four_block_away [OF c'(1) anc, of False, OF _ _ _ fork_rules(3) lead] c'(2,3) assms(2,3,5)
    by (auto simp: same_rest_def fork_vote)
  have "core_step demo_env c (RxMessage (proposeMessage fk2')) = (c3, Ret None)"
    using four_proposal [OF assms(1), of fk2'] four_genesis_qc [OF assms(1)] four_leader c3(1)
    by (simp add: fork_blocks_verify fork_blocks_def)
  then show ?thesis using c3 c'(4) by (auto simp: fork_step_def)
qed

lemma fork_node1_round3:
  assumes "four_core 1 2 c" "c_lastVotedRound c = 2" "c_lastCommittedRound c = 0"
    "c_highQC c = GenesisQC" "c_store c = put_blk fk2' (put_blk fk1 (NewStore Map.empty))"
  shows "\<exists>c4. fork_step c (RxMessage (proposeMessage fk3)) c4 [SVote fk3 (four_vote 1 fk3)]
    \<and> four_core 1 3 c4 \<and> c_lastVotedRound c4 = 3 \<and> c_lastCommittedRound c4 = 0
    \<and> c_store c4 = put_blk fk3 (c_store c)
    \<and> c_highQC c4 = four_qc [4, 1, 3] fk2 \<and> votes_in (c_aggregator c4) fk3 [1]"
proof -
  have st1: "store_ok demo_env (put_blk fk1 (NewStore Map.empty))" by (rule st.put_usable) simp
  have st2: "store_ok demo_env (c_store c)" using assms(1) by (simp add: four_core_def)
  define c' where "c' = processQC c (four_qc [4, 1, 3] fk2)"
  have c': "four_core 1 3 c'" "same_rest c c'" "c_highQC c' = four_qc [4, 1, 3] fk2"
      "c_out c' = c_out c @ [ETimerReset]" "votes_in (c_aggregator c') fk3 []"
    using four_next_round(1-4) [OF assms(1), of "four_qc [4, 1, 3] fk2"]
      four_next_round(5) [OF assms(1), of "four_qc [4, 1, 3] fk2" fk3] assms(4) by (auto simp: c'_def)
  have "getParentBlock demo_env (c_store c) fk3 = (Ok fk2', [])"
    using four_parent(2) [OF st2, of fk3 "[4, 1, 3]" fk2 fk2'] put_blk_read(1) [OF st1, of fk2'] assms(5)
    by (simp add: fork_digest)
  then have anc: "getAncestors demo_env (c_store c') fk3 = (Ok (GenesisBlock, fk2'), [])"
    using c'(2) by (simp add: getAncestors_Ok_iff four_parent(1) same_rest_def)
  have lead: "getLeader four_committee (3 + 1) = Inr (demo_name 1)" using four_leader by simp
  obtain c4 es where c4: "processBlock demo_env c' fk3 = (c4, Ret None)" "four_core 1 3 c4"
      "c_lastVotedRound c4 = 3" "c_lastCommittedRound c4 = 0" "c_store c4 = put_blk fk3 (c_store c)"
      "c_highQC c4 = four_qc [4, 1, 3] fk2" "votes_in (c_aggregator c4) fk3 [1]"
      "c_out c4 = c_out c' @ es" "signed_of es = [SVote fk3 (four_vote 1 fk3)]"
    using four_block_home [OF c'(1) anc _ _ _ fork_rules(4) lead] c'(2,3,5) assms(2,3)
    by (auto simp: same_rest_def)
  have "core_step demo_env c (RxMessage (proposeMessage fk3)) = (c4, Ret None)"
    using four_proposal [OF assms(1), of fk3] four_leader c4(1)
    by (simp add: fork_blocks_verify fork_blocks_def c'_def)
  then show ?thesis using c4 c'(4) by (auto simp: fork_step_def)
qed

lemma fork_node1:
  assumes "four_core 1 1 c" "c_lastVotedRound c = 1" "c_lastCommittedRound c = 0"
    "c_highQC c = GenesisQC" "c_store c = put_blk fk1 (NewStore Map.empty)"
  shows "\<exists>c3 c4 c5 c6 c7. fork_step c (RxMessage (proposeMessage fk2')) c3 [SVote fk2' (four_vote 1 fk2)]
    \<and> four_core 1 2 c3 \<and> fork_step c3 (RxMessage (proposeMessage fk3)) c4 [SVote fk3 (four_vote 1 fk3)]
    \<and> fork_step c4 (RxMessage (voteMessage (four_vote 4 fk3))) c5 []
    \<and> fork_step c5 (RxMessage (voteMessage (four_vote 3 fk3))) c6 []
    \<and> four_core 1 4 c6 \<and> EProposer (proposerMakeMessage 4 (four_qc [1, 4, 3] fk3) None) \<in> set (c_out c6)
    \<and> fork_step c6 (RxLoopback fk4) c7 [SVote fk4 (four_vote 1 fk4)] \<and> ECommit fk2' \<in> set (c_out c7)"
proof -
  obtain c3 where c3: "fork_step c (RxMessage (proposeMessage fk2')) c3 [SVote fk2' (four_vote 1 fk2)]"
      "four_core 1 2 c3" "c_lastVotedRound c3 = 2" "c_lastCommittedRound c3 = 0" "c_highQC c3 = GenesisQC"
      "c_store c3 = put_blk fk2' (put_blk fk1 (NewStore Map.empty))"
    using fork_node1_round2 [OF assms] by blast
  obtain c4 where c4: "fork_step c3 (RxMessage (proposeMessage fk3)) c4 [SVote fk3 (four_vote 1 fk3)]"
      "four_core 1 3 c4" "c_lastVotedRound c4 = 3" "c_lastCommittedRound c4 = 0"
      "c_store c4 = put_blk fk3 (c_store c3)" "c_highQC c4 = four_qc [4, 1, 3] fk2"
      "votes_in (c_aggregator c4) fk3 [1]"
    using fork_node1_round3 [OF c3(2-6)] by blast
  have st1: "store_ok demo_env (put_blk fk1 (NewStore Map.empty))" by (rule st.put_usable) simp
  have st2: "store_ok demo_env (c_store c3)" using c3(2) by (simp add: four_core_def)
  have st3: "store_ok demo_env (c_store c4)" using c4(2) by (simp add: four_core_def)
  have diff: "Block_Digest demo_env fk2' \<noteq> Block_Digest demo_env fk3" by (rule four_block_digest) simp_all
  have lead: "getLeader four_committee (3 + 1) = Inr (demo_name 1)"
      "getLeader four_committee (4 + 1) = Inr (demo_name 2)" using four_leader by simp_all
  obtain c5 c6 where c5: "handleVote demo_env c4 (four_vote 4 fk3) = (c5, Ret None)" "c_out c5 = c_out c4"
      and c6: "handleVote demo_env c5 (four_vote 3 fk3) = (c6, Ret None)" "four_core 1 4 c6" "same_rest c4 c6"
      "c_out c6 = c_out c4 @ [ETimerReset, EProposer (proposerMakeMessage 4 (four_qc [1, 4, 3] fk3) None)]"
    using four_two_votes [OF c4(2,7), of 4 3] c4(6) lead(1) by auto
  note rest = c6(3) [unfolded same_rest_def]
  have "getParentBlock demo_env (c_store c6) fk4 = (Ok fk3, [])"
    using four_parent(2) [OF st3, of fk4 "[1, 4, 3]" fk3 fk3] put_blk_read(1) [OF st2, of fk3] c4(5) rest by simp
  moreover have "getParentBlock demo_env (c_store c6) fk3 = (Ok fk2', [])"
    using four_parent(2) [OF st3, of fk3 "[4, 1, 3]" fk2 fk2'] put_blk_read(1) [OF st1, of fk2']
      put_blk_read(2) [OF st2 diff] c3(6) c4(5) rest by (simp add: fork_digest)
  ultimately have anc: "getAncestors demo_env (c_store c6) fk4 = (Ok (fk2', fk3), [])"
    by (simp add: getAncestors_Ok_iff)
  have "commit_loop demo_env s 0 fk2' [] = Some (Inr [GenesisBlock], [])" for s
    using commit_loop_go [of 0 fk2' demo_env s GenesisBlock "[]"] by (simp add: four_parent(1) commit_loop_stop)
  then obtain c7 es where "processBlock demo_env c6 fk4 = (c7, Ret None)" "c_out c7 = c_out c6 @ es"
      "signed_of es = [SVote fk4 (four_vote 1 fk4)]" "ECommit fk2' \<in> set es"
    using four_block_away [OF c6(2) anc, of True, OF _ _ _ fork_rules(5) lead(2)] c4(3-5) rest by auto
  then show ?thesis
    using c3(1,2) c4(1) c5 c6
    by (intro exI [of _ c3] exI [of _ c4] exI [of _ c5] exI [of _ c6] exI [of _ c7]) (auto simp: fork_step_def)
qed

subsection \<open>The run\<close>

definition four_honest :: "PublicKey \<Rightarrow> bool" where
  "four_honest k \<longleftrightarrow> k \<in> demo_name ` {1, 2, 4}"

definition four_keys :: "PublicKey \<Rightarrow> SignatureService" where
  "four_keys k = four_ss (hd (pk_bytes k))"

lemma four_keys_name [simp]: "four_keys (demo_name n) = four_ss n"
  by (simp add: four_keys_def pk_bytes_demo_name)

lemma four_honest_name [simp]: "four_honest (demo_name n) \<longleftrightarrow> n \<in> {1, 2, 4}"
  by (auto simp: four_honest_def)

abbreviation "four_reach y \<equiv> net_reach demo_env four_committee four_honest fork_blocks four_keys y"

text \<open>A reachable state with the cores of the nodes 4 and 1, both running, and the history.\<close>

definition fork_at :: "four_core_state \<Rightarrow> four_core_state \<Rightarrow> (PublicKey \<times> signed) list \<Rightarrow> bool" where
  "fork_at c4 c1 H \<longleftrightarrow> (\<exists>y. four_reach y \<and> n_core y (demo_name 4) = c4 \<and> n_core y (demo_name 1) = c1
     \<and> {demo_name 4, demo_name 1} \<subseteq> n_live y \<and> n_hist y = H)"

lemma fork_at_start: "fork_at (four_start 4) (four_start 1) []"
proof -
  let ?y = "net_start four_committee four_keys (\<lambda>_. NewStore Map.empty) :: (Signature option, demo_db) net"
  have "four_reach ?y"
    by (rule net_reach.net_init) (simp add: fresh_store_def demo_Read_empty)
  moreover have "n_core ?y (demo_name 4) = four_start 4" "n_core ?y (demo_name 1) = four_start 1"
      "{demo_name 4, demo_name 1} \<subseteq> n_live ?y" "n_hist ?y = []"
    using four_started(1) [of 1] four_started(1) [of 4] by (simp_all add: net_start_def)
  ultimately show ?thesis unfolding fork_at_def by blast
qed

lemma fork_net_step:
  assumes "four_reach y" "n \<in> {1, 4}" "demo_name n \<in> n_live y"
    and "event_genuine demo_env four_honest fork_blocks (hist_pairs demo_env (n_hist y))
      (n_core y (demo_name n)) ev"
    and "fork_step (n_core y (demo_name n)) ev c' sg"
  shows "four_reach \<lparr>n_core = (n_core y)(demo_name n := c'), n_live = n_live y,
    n_hist = n_hist y @ map (Pair (demo_name n)) sg\<rparr>"
proof -
  obtain es where es: "core_step demo_env (n_core y (demo_name n)) ev = (c', Ret None)"
      "c_out c' = c_out (n_core y (demo_name n)) @ es" "signed_of es = sg"
    using assms(5) by (auto simp: fork_step_def)
  have "four_honest (demo_name n)" using assms(2) by auto
  then have "net_step demo_env four_honest fork_blocks y \<lparr>n_core = (n_core y)(demo_name n := c'),
      n_live = n_live y, n_hist = n_hist y @ map (Pair (demo_name n)) (signed_of es)\<rparr>"
    by (rule net_step.act [OF _ assms(3,4) es(1,2)]) simp
  then show ?thesis using net_reach.net_next [OF assms(1)] es(3) by simp
qed

lemma fork_act4:
  assumes "fork_at c4 c1 H" "fork_step c4 ev c4' sg"
    and "event_genuine demo_env four_honest fork_blocks (hist_pairs demo_env H) c4 ev"
  shows "fork_at c4' c1 (H @ map (Pair (demo_name 4)) sg)"
proof -
  obtain y where "four_reach y" "n_core y (demo_name 4) = c4" "n_core y (demo_name 1) = c1"
      "demo_name 4 \<in> n_live y" "demo_name 1 \<in> n_live y" "n_hist y = H"
    using assms(1) by (auto simp: fork_at_def)
  then show ?thesis
    using fork_net_step [of y 4 ev c4' sg] assms(2,3) unfolding fork_at_def
    by (intro exI [of _ "\<lparr>n_core = (n_core y)(demo_name 4 := c4'), n_live = n_live y,
      n_hist = n_hist y @ map (Pair (demo_name 4)) sg\<rparr>"]) simp
qed

lemma fork_act1:
  assumes "fork_at c4 c1 H" "fork_step c1 ev c1' sg"
    and "event_genuine demo_env four_honest fork_blocks (hist_pairs demo_env H) c1 ev"
  shows "fork_at c4 c1' (H @ map (Pair (demo_name 1)) sg)"
proof -
  obtain y where "four_reach y" "n_core y (demo_name 4) = c4" "n_core y (demo_name 1) = c1"
      "demo_name 4 \<in> n_live y" "demo_name 1 \<in> n_live y" "n_hist y = H"
    using assms(1) by (auto simp: fork_at_def)
  then show ?thesis
    using fork_net_step [of y 1 ev c1' sg] assms(2,3) unfolding fork_at_def
    by (intro exI [of _ "\<lparr>n_core = (n_core y)(demo_name 1 := c1'), n_live = n_live y,
      n_hist = n_hist y @ map (Pair (demo_name 1)) sg\<rparr>"]) simp
qed

text \<open>What the messages of the run contain was signed before.\<close>

definition signed_in :: "(PublicKey \<times> signed) list \<Rightarrow> byte \<Rightarrow> Digest \<Rightarrow> bool" where
  "signed_in H n d \<longleftrightarrow> n \<in> {1, 2, 4} \<longrightarrow> (demo_name n, d) \<in> hist_pairs demo_env H"

lemma signed_in_vote:
  "(demo_name n, SVote b (four_vote n b')) \<in> set H \<Longrightarrow> signed_in H n (vote_Digest demo_env (four_vote m b'))"
  by (force simp: signed_in_def hist_pairs_def four_vote_digest(1) [of m b' n])

lemma signed_in_timeout:
  "(demo_name n, STimeout (four_timeout n r)) \<in> set H \<Longrightarrow>
     signed_in H n (timeout_round_digest demo_env r 0)"
  by (force simp: signed_in_def hist_pairs_def four_timeout_digest [symmetric])

lemma four_qc_known:
  assumes "four_quorum ns" "\<forall>n\<in>set ns. signed_in H n (vote_Digest demo_env (four_vote 1 b))"
  shows "qc_known demo_env four_committee four_honest (hist_pairs demo_env H) (four_qc ns b)"
  using assms four_qc_verify [OF assms(1), of b] four_vote_digest(2) [of ns b 1]
  by (auto simp: qc_known_def signed_in_def)

lemma four_tc_known:
  assumes "four_quorum ns" "\<forall>n\<in>set ns. signed_in H n (timeout_round_digest demo_env r 0)"
  shows "tc_known demo_env four_committee four_honest (hist_pairs demo_env H) (four_tc ns r)"
  using assms four_tc_verify [OF assms(1), of r] by (auto simp: tc_known_def signed_in_def)

lemma fork_propose_genuine:
  assumes "four_core n r c" "b \<in> fork_blocks"
    and "qc_known demo_env four_committee four_honest (hist_pairs demo_env H) (blk_Qc b)"
    and "\<And>tc. blk_Tc b = Some tc \<Longrightarrow> tc_known demo_env four_committee four_honest (hist_pairs demo_env H) tc"
  shows "event_genuine demo_env four_honest fork_blocks (hist_pairs demo_env H) c (RxMessage (proposeMessage b))"
  using assms by (simp add: four_core_def block_known_def)

lemma fork_vote_genuine:
  assumes "signed_in H m (vote_Digest demo_env (four_vote m b))"
  shows "event_genuine demo_env four_honest fork_blocks (hist_pairs demo_env H) c
    (RxMessage (voteMessage (four_vote m b)))"
  using assms by (simp add: vote_genuine_def signed_in_def)

lemma fork_loopback_genuine:
  assumes "four_core n r c" "EProposer (proposerMakeMessage r' qc None) \<in> set (c_out c)"
    and "b = four_block n qc None r'" "b \<in> fork_blocks"
  shows "event_genuine demo_env four_honest fork_blocks S c (RxLoopback b)"
proof -
  have "b = NewBlock demo_env qc None (c_name c) r' [] (c_signatureService c)"
    using assms(1,3) by (simp add: four_core_def four_block_def)
  then have "loopback_from demo_env c b" using assms(2) unfolding loopback_from_def by blast
  then show ?thesis using assms(4) by simp
qed

lemma signed_in_faulty [simp]: "signed_in H 3 d"
  by (simp add: signed_in_def)

abbreviation voted_by :: "byte \<Rightarrow> Block \<Rightarrow> PublicKey \<times> signed" where
  "voted_by n b \<equiv> (demo_name n, SVote b (four_vote n b))"

definition fork_hist :: "(PublicKey \<times> signed) list" where
  "fork_hist = [voted_by 4 fk1, voted_by 1 fk1, (demo_name 4, STimeout (four_timeout 4 1)),
     (demo_name 1, STimeout (four_timeout 1 1)), voted_by 4 fk2, voted_by 1 fk2', voted_by 4 fk3,
     voted_by 1 fk3, voted_by 1 fk4]"

text \<open>Until both nodes have voted in round 2, each for its own block.\<close>

lemma fork_run2:
  assumes node4: "fork_step (four_start 4) (RxMessage (proposeMessage fk1)) a1 [SVote fk1 (four_vote 4 fk1)]"
      "fork_step a1 TimerFired a2 [STimeout (four_timeout 4 1)]" "four_core 4 1 a2"
      "fork_step a2 (RxMessage (proposeMessage fk2)) a3 [SVote fk2 (four_vote 4 fk2)]"
    and node1: "fork_step (four_start 1) (RxMessage (proposeMessage fk1)) b1 [SVote fk1 (four_vote 1 fk1)]"
      "fork_step b1 TimerFired b2 [STimeout (four_timeout 1 1)]" "four_core 1 1 b2"
      "fork_step b2 (RxMessage (proposeMessage fk2')) b3 [SVote fk2' (four_vote 1 fk2)]"
  shows "fork_at a3 b3 (take 6 fork_hist)"
proof -
  have b: "{fk1, fk2, fk2'} \<subseteq> fork_blocks" by (simp add: fork_blocks_def)
  have gen1: "event_genuine demo_env four_honest fork_blocks S (four_start n) (RxMessage (proposeMessage fk1))"
    if "n \<in> {1, 4}" for n S
    using four_started(2) [OF that] b by (simp add: four_core_def block_known_def)
  have "fork_at a1 (four_start 1) [voted_by 4 fk1]"
    using fork_act4 [OF fork_at_start node4(1) gen1] by simp
  from fork_act1 [OF this node1(1) gen1] have "fork_at a1 b1 (take 2 fork_hist)" by (simp add: fork_hist_def)
  from fork_act4 [OF this node4(2)] have "fork_at a2 b1 (take 3 fork_hist)" by (simp add: fork_hist_def)
  from fork_act1 [OF this node1(2)] have at: "fork_at a2 b2 (take 4 fork_hist)" by (simp add: fork_hist_def)
  have votes: "signed_in (take 4 fork_hist) n (vote_Digest demo_env (four_vote 1 fk1))" if "n \<in> {1, 4}" for n
    using that by (intro signed_in_vote [where b = fk1]) (auto simp: fork_hist_def)
  have gen2: "event_genuine demo_env four_honest fork_blocks (hist_pairs demo_env (take 4 fork_hist)) a2
      (RxMessage (proposeMessage fk2))"
    using four_qc_known [of "[4, 1, 3]" "take 4 fork_hist" fk1] votes b
    by (intro fork_propose_genuine [OF node4(3)]) auto
  from fork_act4 [OF at node4(4) gen2] have at: "fork_at a3 b2 (take 5 fork_hist)" by (simp add: fork_hist_def)
  have timeouts: "signed_in (take 5 fork_hist) n (timeout_round_digest demo_env 1 0)" if "n \<in> {1, 4}" for n
    using that by (intro signed_in_timeout) (auto simp: fork_hist_def)
  have gen2': "event_genuine demo_env four_honest fork_blocks (hist_pairs demo_env (take 5 fork_hist)) b2
      (RxMessage (proposeMessage fk2'))"
    using four_tc_known [of "[4, 1, 3]" "take 5 fork_hist" 1] timeouts b
    by (intro fork_propose_genuine [OF node1(3)]) auto
  from fork_act1 [OF at node1(4) gen2'] show ?thesis by (simp add: fork_hist_def fork_vote)
qed

lemma fork_run:
  "\<exists>y. four_reach y \<and> n_hist y = fork_hist \<and> ECommit fk1 \<in> set (c_out (n_core y (demo_name 4)))
     \<and> ECommit fk2' \<in> set (c_out (n_core y (demo_name 1)))"
proof -
  obtain a1 a2 where a: "fork_step (four_start 4) (RxMessage (proposeMessage fk1)) a1 [SVote fk1 (four_vote 4 fk1)]"
      "fork_step a1 TimerFired a2 [STimeout (four_timeout 4 1)]" "four_core 4 1 a2"
      "c_lastVotedRound a2 = 1" "c_lastCommittedRound a2 = 0" "c_highQC a2 = GenesisQC"
      "c_store a2 = put_blk fk1 (NewStore Map.empty)"
    using fork_first [of 4] by auto
  obtain b1 b2 where b: "fork_step (four_start 1) (RxMessage (proposeMessage fk1)) b1 [SVote fk1 (four_vote 1 fk1)]"
      "fork_step b1 TimerFired b2 [STimeout (four_timeout 1 1)]" "four_core 1 1 b2"
      "c_lastVotedRound b2 = 1" "c_lastCommittedRound b2 = 0" "c_highQC b2 = GenesisQC"
      "c_store b2 = put_blk fk1 (NewStore Map.empty)"
    using fork_first [of 1] by auto
  obtain a3 a4 a5 a6 where a': "fork_step a2 (RxMessage (proposeMessage fk2)) a3 [SVote fk2 (four_vote 4 fk2)]"
      "fork_step a3 (RxMessage (voteMessage (four_vote 1 fk2))) a4 []"
      "fork_step a4 (RxMessage (voteMessage (four_vote 3 fk2))) a5 []" "four_core 4 3 a5"
      "EProposer (proposerMakeMessage 3 (four_qc [4, 1, 3] fk2) None) \<in> set (c_out a5)"
      "fork_step a5 (RxLoopback fk3) a6 [SVote fk3 (four_vote 4 fk3)]" "ECommit fk1 \<in> set (c_out a6)"
    using fork_node4 [OF a(3-7)] by blast
  obtain b3 b4 b5 b6 b7 where b': "fork_step b2 (RxMessage (proposeMessage fk2')) b3 [SVote fk2' (four_vote 1 fk2)]"
      "four_core 1 2 b3" "fork_step b3 (RxMessage (proposeMessage fk3)) b4 [SVote fk3 (four_vote 1 fk3)]"
      "fork_step b4 (RxMessage (voteMessage (four_vote 4 fk3))) b5 []"
      "fork_step b5 (RxMessage (voteMessage (four_vote 3 fk3))) b6 []" "four_core 1 4 b6"
      "EProposer (proposerMakeMessage 4 (four_qc [1, 4, 3] fk3) None) \<in> set (c_out b6)"
      "fork_step b6 (RxLoopback fk4) b7 [SVote fk4 (four_vote 1 fk4)]" "ECommit fk2' \<in> set (c_out b7)"
    using fork_node1 [OF b(3-7)] by blast
  have blocks: "{fk3, fk4} \<subseteq> fork_blocks" by (simp add: fork_blocks_def)
  have at: "fork_at a3 b3 (take 6 fork_hist)" by (rule fork_run2 [OF a(1-3) a'(1) b(1-3) b'(1)])
  have v2: "signed_in (take k fork_hist) n (vote_Digest demo_env (four_vote m fk2))"
    if "n \<in> {1, 4}" "k \<in> {6, 7}" for n m k
    using that fork_vote [of 1] by (auto simp: fork_hist_def intro: signed_in_vote [of _ fk2] signed_in_vote [of _ fk2'])
  have "fork_at a4 b3 (take 6 fork_hist)"
    using fork_act4 [OF at a'(2) fork_vote_genuine [OF v2]] by simp
  from fork_act4 [OF this a'(3) fork_vote_genuine] have "fork_at a5 b3 (take 6 fork_hist)" by simp
  from fork_act4 [OF this a'(6) fork_loopback_genuine [OF a'(4,5) fk3_def]] have at: "fork_at a6 b3 (take 7 fork_hist)"
    using blocks by (simp add: fork_hist_def)
  have "qc_known demo_env four_committee four_honest (hist_pairs demo_env (take 7 fork_hist)) (four_qc [4, 1, 3] fk2)"
    using v2 by (intro four_qc_known) auto
  then have "event_genuine demo_env four_honest fork_blocks (hist_pairs demo_env (take 7 fork_hist)) b3
      (RxMessage (proposeMessage fk3))"
    using blocks by (intro fork_propose_genuine [OF b'(2)]) auto
  from fork_act1 [OF at b'(3) this] have at: "fork_at a6 b4 (take 8 fork_hist)" by (simp add: fork_hist_def)
  have v3: "signed_in (take 8 fork_hist) 4 (vote_Digest demo_env (four_vote 4 fk3))"
    by (rule signed_in_vote [of _ fk3]) (simp add: fork_hist_def)
  have "fork_at a6 b5 (take 8 fork_hist)" using fork_act1 [OF at b'(4) fork_vote_genuine [OF v3]] by simp
  from fork_act1 [OF this b'(5) fork_vote_genuine] have "fork_at a6 b6 (take 8 fork_hist)" by simp
  from fork_act1 [OF this b'(8) fork_loopback_genuine [OF b'(6,7) fk4_def]] have "fork_at a6 b7 fork_hist"
    using blocks by (simp add: fork_hist_def)
  then show ?thesis using a'(7) b'(9) by (auto simp: fork_at_def)
qed

subsection \<open>The other hypotheses of agreement hold\<close>

lemma four_env_ok: "env_ok demo_env four_committee"
  by (simp add: env_ok_def demo_proto_ok demo_env_bls_ok)

lemma four_one_faulty: "3 * faulty_stake four_committee four_honest \<le> total_stake four_committee"
proof -
  have "{k \<in> cm_members four_committee. \<not> four_honest k} = {demo_name 3}" by (auto simp: four_members)
  then show ?thesis by (simp add: faulty_stake_def four_total four_stake)
qed

text \<open>Nothing that is signed or certified in the run, and no two blocks, rest on a collision.\<close>

definition vote_buf :: "Block \<Rightarrow> byte list" where
  "vote_buf b = digest_bytes (Block_Digest demo_env b) @ be64 (blk_Round b)"

lemma fork_bufs:
  "run_bufs fork_hist \<union> (\<Union>b\<in>fork_blocks. block_bufs b) \<subseteq>
     insert (qc_buf GenesisQC) (insert (be64 1 @ be64 0) (vote_buf ` {fk1, fk2, fk3, fk4}))"
  by (auto simp: run_bufs_def fork_hist_def fork_blocks_def block_bufs_def qc_buf_def tc_buf_def
      vote_buf_def fork_digest)

lemma demo_digest_ends:
  "take 8 (digest_bytes (NewDigest demo_lib (xs @ be64 r))) = rev (be64 r)"
  "take 16 (digest_bytes (NewDigest demo_lib (xs @ be64 s @ be64 r))) = rev (be64 r) @ rev (be64 s)"
  by (simp_all add: demo_NewDigest digest_bytes_copy go_copy_def)

lemma fork_timeout_digest:
  "NewDigest demo_lib (qc_buf GenesisQC) \<noteq> NewDigest demo_lib (be64 1 @ be64 0)"
proof
  have gen: "qc_buf GenesisQC = replicate 24 0 @ be64 0 @ be64 0"
    by (simp add: qc_buf_def GenesisQC_def eval_nat_numeral be64_def)
  assume "NewDigest demo_lib (qc_buf GenesisQC) = NewDigest demo_lib (be64 1 @ be64 0)"
  then have "rev (be64 0) @ rev (be64 0) = rev (be64 0) @ rev (be64 1)"
    using demo_digest_ends(2) [of "replicate 24 0" 0 0] demo_digest_ends(2) [of "[]" 1 0]
    by (simp add: gen)
  then show False by simp
qed

lemma fork_inj:
  "inj_on (NewDigest demo_env) (run_bufs fork_hist \<union> (\<Union>b\<in>fork_blocks. block_bufs b))"
proof (rule inj_on_subset [OF _ fork_bufs], rule inj_onI)
  let ?V = "{fk1, fk2, fk3, fk4}" and ?N = "{qc_buf GenesisQC, be64 1 @ be64 0}"
  fix x y assume x: "x \<in> insert (qc_buf GenesisQC) (insert (be64 1 @ be64 0) (vote_buf ` ?V))"
    and y: "y \<in> insert (qc_buf GenesisQC) (insert (be64 1 @ be64 0) (vote_buf ` ?V))"
    and eq: "NewDigest demo_env x = NewDigest demo_env y"
  define g where "g z = take 8 (digest_bytes (NewDigest demo_lib z))" for z
  have g: "g x = g y" using eq by (simp add: g_def)
  have vote: "g (vote_buf b) = rev (be64 (blk_Round b))" for b
    unfolding g_def vote_buf_def by (rule demo_digest_ends(1))
  have other: "g z = rev (be64 0)" if "z \<in> ?N" for z
    using that unfolding g_def qc_buf_def GenesisQC_fields
    by (elim insertE) (simp_all only: demo_digest_ends(1) empty_iff)
  have same: "b = c" if "b \<in> ?V" "c \<in> ?V" "blk_Round b = blk_Round c" for b c using that by auto
  have later: "blk_Round b \<noteq> 0" if "b \<in> ?V" for b using that by auto
  consider b c where "x = vote_buf b" "b \<in> ?V" "y = vote_buf c" "c \<in> ?V"
    | b where "x = vote_buf b" "b \<in> ?V" "y \<in> ?N" | c where "x \<in> ?N" "y = vote_buf c" "c \<in> ?V"
    | "x \<in> ?N" "y \<in> ?N"
    using x y by blast
  then show "x = y"
  proof cases
    case 1
    have "blk_Round b = blk_Round c" using g unfolding 1(1,3) vote by simp
    then show ?thesis using same [OF 1(2,4)] unfolding 1(1,3) by (simp only:)
  next
    case 2
    have "blk_Round b = 0" using g unfolding 2(1) vote other [OF 2(3)] by simp
    then show ?thesis using later [OF 2(2)] by contradiction
  next
    case 3
    have "blk_Round c = 0" using g unfolding 3(2) vote other [OF 3(1)] by simp
    then show ?thesis using later [OF 3(3)] by contradiction
  next
    case 4
    then show ?thesis using eq fork_timeout_digest unfolding demo_env_crypto by fastforce
  qed
qed

lemma fork_block_inj: "inj_on (NewDigest demo_env) (Block_buf ` insert GenesisBlock fork_blocks)"
proof (rule inj_onI)
  fix x y
  assume "x \<in> Block_buf ` insert GenesisBlock fork_blocks" "y \<in> Block_buf ` insert GenesisBlock fork_blocks"
    and eq: "NewDigest demo_env x = NewDigest demo_env y"
  then obtain b b' where b: "b \<in> insert GenesisBlock fork_blocks" "x = Block_buf b"
      "b' \<in> insert GenesisBlock fork_blocks" "y = Block_buf b'" by blast
  have buf: "Block_buf p = pk_bytes (blk_Author p) @ be64 (blk_Round p)"
    if "p \<in> insert GenesisBlock fork_blocks" for p
    using that by (auto simp: fork_blocks_def Block_buf_def GenesisBlock_def)
  have "blk_Round b = blk_Round b'"
    using eq unfolding b(2,4) buf [OF b(1)] buf [OF b(3)] demo_env_crypto
    by (rule demo_digest_round) simp_all
  then have "blk_Author b = blk_Author b'"
    using b(1,3) by (auto simp: fork_blocks_def)
  then show "x = y" using \<open>blk_Round b = blk_Round b'\<close> b buf by simp
qed

text \<open>Neither of the committed blocks is an ancestor of the other: both extend the genesis block.\<close>

lemma lineage_genesis: "lineage L K a GenesisBlock \<Longrightarrow> a = GenesisBlock"
  by (induction "GenesisBlock" rule: lineage.induct) (auto simp: parent_of_def IsGenesisQC_iff)

lemma lineage_first: "lineage L K a b \<Longrightarrow> blk_Qc b = GenesisQC \<Longrightarrow> a = b \<or> a = GenesisBlock"
  by (erule lineage.cases) (auto simp: parent_of_def IsGenesisQC_iff dest: lineage_genesis)

lemma fork_no_lineage: "\<not> lineage L K fk1 fk2'" "\<not> lineage L K fk2' fk1"
proof -
  have "fk1 \<noteq> fk2'" "fk1 \<noteq> GenesisBlock" "fk2' \<noteq> GenesisBlock"
    by (auto dest: arg_cong [of _ _ blk_Round])
  then show "\<not> lineage L K fk1 fk2'" "\<not> lineage L K fk2' fk1" by (auto dest!: lineage_first)
qed

end
