(* ===== verification/Rounds.thy ===== *)
theory Rounds
  imports Progress CommitProps Fork
begin

text \<open>
  Progress of the network. \<open>sync_run\<close> runs cores in synchronous rounds: the leader of the round makes a
  block of the last certificate its core gave to its proposer, every live core handles it, and the
  messages they send to the leader of the next round are delivered to it. The other authorities are
  silent. If the live ones hold a quorum and lead the rounds, each round makes a block that extends the
  one before, and it is committed by every live core two rounds later.
\<close>

subsection \<open>Synchronous rounds\<close>

text \<open>The author gets its block from its proposer, the other cores by message.\<close>

definition deliver ::
  "('sk, 'p1, 'p2, 'agg, 'db, 'z) env_scheme \<Rightarrow> Block \<Rightarrow> ('agg, 'db) core \<Rightarrow> ('agg, 'db) core" where
  "deliver E b c = fst (core_step E c
     (if c_name c = blk_Author b then RxLoopback b else RxMessage (proposeMessage b)))"

text \<open>What a core has sent to an address since it was in the state \<open>c\<close>.\<close>

definition mail ::
  "('sk, 'p1, 'p2, 'agg, 'db, 'z) env_scheme \<Rightarrow> PeerID \<Rightarrow> ('agg, 'db) core \<Rightarrow> ('agg, 'db) core
     \<Rightarrow> consensusMessage list" where
  "mail E address c c' = List.map_filter
     (\<lambda>(a, bytes). if a \<noteq> address then None
        else (case DeserializeConsensusMessage E bytes of Ok m \<Rightarrow> Some m | _ \<Rightarrow> None))
     (drop (length (sends_in (c_out c))) (sends_in (c_out c')))"

definition sync_round ::
  "('sk, 'p1, 'p2, 'agg, 'db, 'z) env_scheme \<Rightarrow> Committee \<Rightarrow> PublicKey list \<Rightarrow> Block
     \<Rightarrow> (PublicKey \<Rightarrow> ('agg, 'db) core) \<Rightarrow> PublicKey \<Rightarrow> ('agg, 'db) core" where
  "sync_round E cm ks b cores =
     (let cores1 = (\<lambda>k. if k \<in> set ks then deliver E b (cores k) else cores k)
      in case getLeader cm (blk_Round b + 1) of
           Inl p \<Rightarrow> cores1
         | Inr leader \<Rightarrow>
             if leader \<notin> set ks then cores1
             else
               let address = fst (Committee_Address cm leader);
                   ms = concat (map (\<lambda>k. mail E address (cores k) (cores1 k)) ks)
               in cores1(leader := fst (serve E (cores1 leader) (map RxMessage ms))))"

text \<open>The block that the proposer of a core makes of the last request of the core.\<close>

definition propose ::
  "('sk, 'p1, 'p2, 'agg, 'db, 'z) env_scheme \<Rightarrow> Digest list \<Rightarrow> ('agg, 'db) core \<Rightarrow> Block option" where
  "propose E payload c =
     (if makes_in (c_out c) = [] then None
      else case last (makes_in (c_out c)) of
             (round, qc, tc) \<Rightarrow> Some (NewBlock E qc tc (c_name c) round payload (c_signatureService c)))"

text \<open>\<open>n\<close> rounds, the digests \<open>payload i\<close> waiting at the leader of round \<open>i + 1\<close>.\<close>

fun sync_run ::
  "('sk, 'p1, 'p2, 'agg, 'db, 'z) env_scheme \<Rightarrow> Committee \<Rightarrow> PublicKey list \<Rightarrow> (nat \<Rightarrow> Digest list)
     \<Rightarrow> (PublicKey \<Rightarrow> ('agg, 'db) core) \<Rightarrow> nat \<Rightarrow> (PublicKey \<Rightarrow> ('agg, 'db) core) \<times> Block list" where
  "sync_run E cm ks payload cores 0 = (cores, [])"
| "sync_run E cm ks payload cores (Suc n) =
     (let (cores', bs) = sync_run E cm ks payload cores n
      in case getLeader cm (of_nat (Suc n)) of
           Inl p \<Rightarrow> (cores', bs)
         | Inr leader \<Rightarrow>
             if leader \<notin> set ks then (cores', bs)
             else case propose E (payload n) (cores' leader) of
                    None \<Rightarrow> (cores', bs)
                  | Some b \<Rightarrow> (sync_round E cm ks b cores', bs @ [b]))"

subsection \<open>Cores before and after a certificate\<close>

text \<open>A core in a round up to \<open>r\<close>, with no votes for rounds above.\<close>

definition votes_clear :: "Round \<Rightarrow> 'agg aggregator \<Rightarrow> bool" where
  "votes_clear r a \<longleftrightarrow> (\<forall>r'. r < r' \<longrightarrow> ag_voteAggregators a r' = None)"

definition ready ::
  "('sk, 'p1, 'p2, 'agg, 'db, 'z) env_scheme \<Rightarrow> Committee \<Rightarrow> Round \<Rightarrow> ('agg, 'db) core \<Rightarrow> bool" where
  "ready E cm r c \<longleftrightarrow> c_round c \<le> r \<and> qc_Round (c_highQC c) < r
     \<and> ag_committee (c_aggregator c) = cm \<and> aggregator_valid E (c_aggregator c)
     \<and> votes_clear r (c_aggregator c)"

definition untouched :: "Round \<Rightarrow> ('agg, 'db) core \<Rightarrow> bool" where
  "untouched r c \<longleftrightarrow> ag_voteAggregators (c_aggregator c) r = None"

definition certifies ::
  "('sk, 'p1, 'p2, 'agg, 'db, 'z) env_scheme \<Rightarrow> Committee \<Rightarrow> Block \<Rightarrow> QC \<Rightarrow> bool" where
  "certifies E cm b qc \<longleftrightarrow> QC_Verify E cm qc = None \<and> qc_Hash qc = Block_Digest E b
     \<and> qc_Round qc = blk_Round b"

text \<open>A core that has certified \<open>b\<close> and told its proposer to go on with the round after it.\<close>

definition led ::
  "('sk, 'p1, 'p2, 'agg, 'db, 'z) env_scheme \<Rightarrow> Committee \<Rightarrow> Block \<Rightarrow> ('agg, 'db) core \<Rightarrow> bool" where
  "led E cm b c \<longleftrightarrow> c_round c = blk_Round b + 1 \<and> certifies E cm b (c_highQC c)
     \<and> ag_committee (c_aggregator c) = cm \<and> aggregator_valid E (c_aggregator c)
     \<and> votes_clear (blk_Round b) (c_aggregator c)
     \<and> makes_in (c_out c) \<noteq> [] \<and> last (makes_in (c_out c)) = (blk_Round b + 1, c_highQC c, None)"

lemma votes_clear_mono: "votes_clear r a \<Longrightarrow> r \<le> r' \<Longrightarrow> votes_clear r' a"
  by (auto simp: votes_clear_def)

lemma votes_clear_cleanup: "votes_clear r a \<Longrightarrow> votes_clear r (aggregator_cleanup a r')"
  by (simp add: votes_clear_def aggregator_cleanup_def)

lemma next_round_less: "unat r < 2 ^ 62 \<Longrightarrow> r < r + 1"
  for r :: Round
  by (simp add: word_less_nat_alt unat_word_ariths)

lemma ready_next:
  assumes "ready E cm r c" "unat r < 2 ^ 62"
  shows "ready E cm (r + 1) c" "untouched (r + 1) c"
  using assms next_round_less [OF assms(2)] votes_clear_mono [of r _ "r + 1"]
  by (auto simp: ready_def untouched_def votes_clear_def)

lemma led_next:
  assumes "led E cm b c" "unat (blk_Round b) < 2 ^ 62"
  shows "ready E cm (blk_Round b + 1) c" "untouched (blk_Round b + 1) c"
  using assms next_round_less [OF assms(2)] votes_clear_mono [of "blk_Round b" _ "blk_Round b + 1"]
  by (auto simp: ready_def led_def untouched_def votes_clear_def certifies_def)

lemma processQC_ready:
  assumes "ready E cm r c" "untouched r c" "qc_Round qc + 1 = r" "unat (qc_Round qc) < 2 ^ 62"
  shows "ready E cm r (processQC c qc)" "untouched r (processQC c qc)" "c_round (processQC c qc) = r"
    and "sends_in (c_out (processQC c qc)) = sends_in (c_out c)"
proof -
  have less: "qc_Round qc < r" using next_round_less [OF assms(4)] assms(3) by simp
  have "c_round c = r" if "qc_Round qc < c_round c" "c_round c \<le> r"
    using that assms(3) inc_le [of "qc_Round qc" "c_round c"] by simp
  then show "ready E cm r (processQC c qc)" "untouched r (processQC c qc)" "c_round (processQC c qc) = r"
      "sends_in (c_out (processQC c qc)) = sends_in (c_out c)"
    using assms(1-3) less
    by (auto simp: ready_def untouched_def processQC_def core_frames advanceRound_round advanceRound_out
        advanceRound_aggregator updateHighQc_highQC aggregator_cleanup_valid votes_clear_cleanup)
      (simp_all add: aggregator_cleanup_def)
qed

subsection \<open>The votes at the next leader\<close>

lemma AddVote_clear:
  assumes "AddVote E a v = (a', res)" "votes_clear (v_round v) a"
  shows "votes_clear (v_round v) a'"
  using assms by (auto simp: AddVote_def votes_clear_def Let_def split: prod.splits)

text \<open>A vote is collected, or it completes the certificate.\<close>

lemma vote_collected:
  assumes "bls_ok E" "stake_fits cm" "c_committee c = cm" "ready E cm (blk_Round b) c"
    and "vote_verify E cm v = None" "v_round v = blk_Round b" "v_hash v = Block_Digest E b"
    and "getLeader cm (blk_Round b + 1) = Inr (c_name c)" "unat (blk_Round b) < 2 ^ 62"
  shows "ready E cm (blk_Round b) (fst (handleVote E c v)) \<or> led E cm b (fst (handleVote E c v))"
    and "sends_in (c_out (fst (handleVote E c v))) = sends_in (c_out c)"
proof -
  note c = assms(4) [unfolded ready_def]
  obtain a res where add: "AddVote E (c_aggregator c) v = (a, res)" by fastforce
  have a: "aggregator_valid E a" "ag_committee a = cm" "votes_clear (blk_Round b) a"
    using AddVote_valid(1,2) [OF assms(1) _ _ _ add] c assms(2,5) AddVote_clear [OF add] assms(6) by auto
  have stale: "\<not> v_round v < c_round c" using c assms(6) by (simp add: not_less)
  have both: "(ready E cm (blk_Round b) (fst (handleVote E c v)) \<or> led E cm b (fst (handleVote E c v)))
    \<and> sends_in (c_out (fst (handleVote E c v))) = sends_in (c_out c)"
  proof (cases "\<exists>qc. res = Inr (Some qc)")
    case False
    then have "fst (handleVote E c v) = c\<lparr>c_aggregator := a\<rparr>"
      using handleVote_pending [OF _ _ add] stale assms(3,5) by (auto simp: not_less)
    then show ?thesis using a c by (simp add: ready_def)
  next
    case True
    then obtain qc where qc: "res = Inr (Some qc)" by blast
    have cert: "certifies E cm b qc"
      using AddVote_valid(3) [OF assms(1) _ _ _ add qc] c assms(2,5-7) by (simp add: certifies_def)
    define c1 where "c1 = processQC (c\<lparr>c_aggregator := a\<rparr>) qc"
    have c1: "c_round c1 = blk_Round b + 1" "c_highQC c1 = qc" "c_committee c1 = cm" "c_name c1 = c_name c"
        "c_aggregator c1 = aggregator_cleanup a (blk_Round b + 1)" "sends_in (c_out c1) = sends_in (c_out c)"
      using c cert assms(3)
      by (auto simp: c1_def processQC_def core_frames advanceRound_round advanceRound_out
          advanceRound_aggregator updateHighQc_highQC certifies_def)
    have hv: "handleVote E c v = (generateProposal c1 None, Ret None)"
      using stale assms(3,5,8) add qc c1(1,3,4) by (simp add: handleVote_def c1_def [symmetric] Let_def)
    have "led E cm b (generateProposal c1 None)"
      using cert c1 a by (simp add: led_def generateProposal_def aggregator_cleanup_valid votes_clear_cleanup)
    then show ?thesis using c1(6) by (simp add: hv generateProposal_def)
  qed
  then show "ready E cm (blk_Round b) (fst (handleVote E c v)) \<or> led E cm b (fst (handleVote E c v))" by blast
  show "sends_in (c_out (fst (handleVote E c v))) = sends_in (c_out c)" using both by blast
qed

lemma led_ignores_vote:
  assumes "led E cm b c" "v_round v = blk_Round b" "unat (blk_Round b) < 2 ^ 62"
  shows "handleVote E c v = (c, Ret None)"
  using assms next_round_less [OF assms(3)] by (intro handleVote_stale) (simp add: led_def)

text \<open>Votes that come one after the other as messages.\<close>

lemma serve_votes:
  assumes "cm_members (c_committee c) \<noteq> {}" "bounded n c" "\<forall>v\<in>set vs. unat (v_round v) < n"
  shows "serve E c (map (RxMessage \<circ> voteMessage) vs) = (handle_votes E c vs, Ret None)
    \<and> calm n c (handle_votes E c vs)"
  using assms
proof (induction vs arbitrary: c)
  case Nil
  then show ?case by (simp add: handle_votes_def)
next
  case (Cons v vs)
  obtain c' err where c': "handleVote E c v = (c', Ret err)" "calm n c c'"
    using handleVote_calmly [OF Cons.prems(1,2), of v E] Cons.prems(3) by (auto simp: calmly_def)
  have "handle_votes E c (v # vs) = handle_votes E c' vs" using c'(1) by (simp add: handle_votes_def)
  moreover have "cm_members (c_committee c') \<noteq> {}" "bounded n c'"
    using c'(2) Cons.prems(1,2) by (simp_all add: calm_def)
  ultimately show ?case
    using Cons.IH [of c'] Cons.prems(3) c' calm_trans by auto
qed

lemma votes_collected:
  assumes "bls_ok E" "stake_fits cm" "cm_members cm \<noteq> {}" "c_committee c = cm" "bounded n c"
    and "\<forall>v\<in>set vs. vote_verify E cm v = None \<and> v_round v = blk_Round b \<and> v_hash v = Block_Digest E b"
    and "getLeader cm (blk_Round b + 1) = Inr (c_name c)" "unat (blk_Round b) < 2 ^ 62" "unat (blk_Round b) < n"
    and "ready E cm (blk_Round b) c \<or> led E cm b c"
  shows "ready E cm (blk_Round b) (handle_votes E c vs) \<or> led E cm b (handle_votes E c vs)"
  using assms(4-)
proof (induction vs arbitrary: c)
  case Nil
  then show ?case by (simp add: handle_votes_def)
next
  case (Cons v vs)
  define c' where "c' = fst (handleVote E c v)"
  have calm: "calm n c c'"
    using handleVote_calmly [of c n v E] Cons.prems(1-3,6) assms(3) by (auto simp: calmly_def c'_def)
  have "ready E cm (blk_Round b) c' \<or> led E cm b c'"
    using Cons.prems(7)
  proof
    assume "ready E cm (blk_Round b) c"
    then show ?thesis
      unfolding c'_def using Cons.prems(1,3-5) by (intro vote_collected [OF assms(1,2)]) auto
  next
    assume "led E cm b c"
    then show ?thesis using led_ignores_vote [of E cm b c v] Cons.prems(3,5) by (simp add: c'_def)
  qed
  moreover have "handle_votes E c (v # vs) = handle_votes E c' vs" by (simp add: handle_votes_def c'_def)
  moreover have "c_committee c' = cm" "bounded n c'" "c_name c' = c_name c"
    using calm Cons.prems(1,2) by (simp_all add: calm_def)
  moreover have "\<forall>v\<in>set vs. vote_verify E cm v = None \<and> v_round v = blk_Round b \<and> v_hash v = Block_Digest E b"
    using Cons.prems(3) by simp
  ultimately show ?case
    using Cons.IH [of c'] Cons.prems(4-6) by presburger
qed

text \<open>A quorum of votes makes the leader go on.\<close>

lemma quorum_leads:
  assumes "bls_ok E" "stake_fits cm" "cm_members cm \<noteq> {}" "c_committee c = cm" "bounded n c"
    and "\<forall>v\<in>set vs. vote_verify E cm v = None \<and> v_round v = blk_Round b \<and> v_hash v = Block_Digest E b"
    and "getLeader cm (blk_Round b + 1) = Inr (c_name c)" "unat (blk_Round b) < 2 ^ 62" "unat (blk_Round b) < n"
    and "ready E cm (blk_Round b) c" "untouched (blk_Round b) c" "quorum_of cm (map v_author vs)"
  shows "led E cm b (handle_votes E c vs)"
proof -
  define d where "d = NewDigest E (digest_bytes (Block_Digest E b) @ be64 (blk_Round b))"
  have "c_round (handle_votes E c vs) = blk_Round b + 1"
  proof (rule quorum_of_votes_advances_round [THEN conjunct1])
    show "maker_for E (c_aggregator c) (blk_Round b) d = NewQcMaker E"
      using assms(11) by (simp add: maker_for_def untouched_def)
    show "vote_verify E (c_committee c) v = None \<and> v_round v = blk_Round b \<and> vote_Digest E v = d"
      if "v \<in> set vs" for v
      using that assms(4,6) by (simp add: vote_Digest_def d_def)
    show "unat (QuorumThreshold (c_committee c))
        \<le> (\<Sum>k\<in>v_author ` set vs. unat (Committee_Stake (c_committee c) k))"
      using assms(4,12) by (simp add: quorum_of_def voters_weight_def)
  qed (use assms in \<open>auto simp: ready_def\<close>)
  then have "\<not> ready E cm (blk_Round b) (handle_votes E c vs)"
    using next_round_less [OF assms(8)] by (auto simp: ready_def)
  then show ?thesis using votes_collected [OF assms(1-9)] assms(10) by blast
qed

subsection \<open>One core in one round\<close>

definition marshals :: "('sk, 'p1, 'p2, 'agg, 'z) proto_lib_scheme \<Rightarrow> bool" where
  "marshals E \<longleftrightarrow> (\<forall>m. \<exists>bytes. SerializeConsensusMessage E m = Ok bytes)
     \<and> (\<forall>b. \<exists>bytes. Block_Serialize E b = Ok bytes)"

text \<open>A core that has voted for \<open>bs\<close> and is ready for the next block.\<close>

definition node_at ::
  "('sk, 'p1, 'p2, 'agg, 'db, 'z) env_scheme \<Rightarrow> Committee \<Rightarrow> 'db store \<Rightarrow> PublicKey \<times> SignatureService
     \<Rightarrow> nat \<Rightarrow> Block list \<Rightarrow> ('agg, 'db) core \<Rightarrow> bool" where
  "node_at E cm s me n bs c \<longleftrightarrow> following E me cm s n bs c \<and> on_time E me bs c
     \<and> ready E cm (of_nat (Suc (length bs))) c \<and> untouched (of_nat (Suc (length bs))) c"

lemma steady_ready:
  "steady c c' \<Longrightarrow> ready E cm r c' = ready E cm r c" "steady c c' \<Longrightarrow> untouched r c' = untouched r c"
  by (simp_all add: steady_def ready_def untouched_def)

lemma cast_vote:
  assumes "marshals E" "c_committee c = cm" "c_round c = blk_Round b" "c_lastVotedRound c < blk_Round b"
    and "qc_Round (blk_Qc b) + 1 = blk_Round b" "blk_Tc b = None"
    and "getLeader cm (blk_Round b + 1) = Inr leader" "Committee_Address cm leader = (address, ok)"
    and v: "v = NewVote E b (c_name c) (c_signatureService c)"
    and c1: "c1 = emit [ESign (SVote b v)] (c\<lparr>c_lastVotedRound := blk_Round b\<rparr>)"
  obtains bytes where "SerializeConsensusMessage E (voteMessage v) = Ok bytes"
    "fst (vote_for_block E c b) =
       (if leader = c_name c then fst (handleVote E c1 v)
        else if ok then emit [ESend address bytes] c1 else c1)"
proof -
  obtain bytes where bytes: "SerializeConsensusMessage E (voteMessage v) = Ok bytes"
    using assms(1) by (auto simp: marshals_def)
  have mv: "make_vote E c b = (c1, Inr (Some v))"
    using assms(4-6) by (simp add: make_vote_Some_iff safetyRule2_True_iff c1 v)
  have "c_committee c1 = cm" "c_round c1 = blk_Round b" "c_name c1 = c_name c"
    using assms(2,3) by (simp_all add: c1)
  then have "fst (vote_for_block E c b) =
       (if leader = c_name c then fst (handleVote E c1 v)
        else if ok then emit [ESend address bytes] c1 else c1)"
    using assms(7,8) bytes mv
    by (cases "handleVote E c1 v"; cases "snd (handleVote E c1 v)") (simp_all add: vote_for_block_def)
  with bytes show thesis by (rule that)
qed

text \<open>Up to the vote.\<close>

lemma delivered_block:
  assumes "proto_ok E" "following E me cm s n bs c" "ready E cm (blk_Round b) c" "untouched (blk_Round b) c"
    and "certified_chain E cm GenesisBlock (bs @ [b])" "missing_payload E s b = []"
    and "inj_on (Block_Digest E) (insert b (set bs))" "length bs < 2 ^ 61" "Suc (length bs) < n"
    and "c_name c = blk_Author b \<longrightarrow> c_round c = blk_Round b"
  obtains c' where "deliver E b c = fst (vote_for_block E c' b)" "following E me cm s n (bs @ [b]) c'"
    "c_lastVotedRound c' = c_lastVotedRound c" "ballots_in (c_out c') = ballots_in (c_out c)"
    "ready E cm (blk_Round b) c'" "untouched (blk_Round b) c'" "c_round c' = blk_Round b"
    "sends_in (c_out c') = sends_in (c_out c)"
proof -
  define c0 where "c0 = (if c_name c = blk_Author b then c else processQC c (blk_Qc b))"
  have len: "length bs < 2 ^ 62" using assms(8) by simp
  note accept = handleProposal_accepts [OF assms(2,5,6) len assms(9)]
  have fol: "follows E cm (tip bs) b" "certified_chain E cm GenesisBlock bs"
    using assms(5) by (simp_all add: certified_chain_tip)
  have qc: "qc_Round (blk_Qc b) + 1 = blk_Round b" "unat (qc_Round (blk_Qc b)) < 2 ^ 62"
    using follows_qc [OF fol(1)] certified_chain_round [OF fol(2)] fol(1) len
    by (simp_all add: follows_def unat_of_nat)
  have calm: "calm n c c0" using accept(2) by (simp add: c0_def)
  have c0: "ready E cm (blk_Round b) c0" "untouched (blk_Round b) c0" "c_round c0 = blk_Round b"
      "sends_in (c_out c0) = sends_in (c_out c)"
    using assms(3,4,10) processQC_ready [OF assms(3,4) qc] by (simp_all add: c0_def)
  obtain c' where c': "processBlock E c0 b = vote_for_block E c' b" "following E me cm s n (bs @ [b]) c'"
      "c_lastVotedRound c' = c_lastVotedRound c0" "ballots_in (c_out c') = ballots_in (c_out c0)" "steady c0 c'"
    using processBlock_commits [OF assms(1) following_calm [OF assms(2) calm] assms(5,7) len] by blast
  have "deliver E b c = fst (processBlock E c0 b)"
    using accept(1) by (simp add: deliver_def c0_def)
  then show thesis
    using that [of c'] c' c0 calm steady_ready(1) [OF c'(5), of E] steady_ready(2) [OF c'(5)]
    by (simp add: calm_def steady_def)
qed

text \<open>With the vote: \<open>c'\<close> has signed it.\<close>

lemma delivered_vote:
  assumes "proto_ok E" "marshals E" "node_at E cm s (k, ss) n bs c" "missing_payload E s b = []"
    and "certified_chain E cm GenesisBlock (bs @ [b])" "inj_on (Block_Digest E) (insert b (set bs))"
    and "length bs < 2 ^ 61" "Suc (length bs) < n" "k = blk_Author b \<longrightarrow> c_round c = blk_Round b"
    and "getLeader cm (blk_Round b + 1) = Inr leader" "Committee_Address cm leader = (address, ok)"
  obtains bytes c' where "SerializeConsensusMessage E (voteMessage (NewVote E b k ss)) = Ok bytes"
    "deliver E b c = (if leader = k then fst (handleVote E c' (NewVote E b k ss))
       else if ok then emit [ESend address bytes] c' else c')"
    "following E (k, ss) cm s n (bs @ [b]) c'" "on_time E (k, ss) (bs @ [b]) c'"
    "ready E cm (blk_Round b) c'" "untouched (blk_Round b) c'" "sends_in (c_out c') = sends_in (c_out c)"
proof -
  note at = assms(3) [unfolded node_at_def on_time_def]
  have ch: "certified_chain E cm GenesisBlock bs" "follows E cm (tip bs) b"
    using assms(5) by (simp_all add: certified_chain_tip)
  have round: "blk_Round b = of_nat (Suc (length bs))" using certified_chain_round [OF assms(5)] by simp
  have u: "unat (blk_Round b) = Suc (length bs)" "unat (of_nat (length bs) :: Round) = length bs"
    using assms(7) by (simp_all only: round unat_of_nat) simp_all
  have name: "c_name c = k" "c_signatureService c = ss" using at by (simp_all add: following_def)
  obtain c1 where c1: "deliver E b c = fst (vote_for_block E c1 b)"
      "following E (k, ss) cm s n (bs @ [b]) c1" "c_lastVotedRound c1 = c_lastVotedRound c"
      "ballots_in (c_out c1) = ballots_in (c_out c)" "ready E cm (blk_Round b) c1"
      "untouched (blk_Round b) c1" "c_round c1 = blk_Round b" "sends_in (c_out c1) = sends_in (c_out c)"
    by (rule delivered_block [OF assms(1) _ _ _ assms(5,4,6-8), of "(k, ss)" c])
      (use at assms(9) name in \<open>auto simp: round\<close>)
  define c2 where "c2 = emit [ESign (SVote b (NewVote E b k ss))] (c1\<lparr>c_lastVotedRound := blk_Round b\<rparr>)"
  have id1: "c_name c1 = k" "c_signatureService c1 = ss" "c_committee c1 = cm"
    using c1(2) by (simp_all add: following_def)
  have vote: "c_lastVotedRound c1 < blk_Round b" using at c1(3) u by (simp add: word_less_nat_alt)
  have rule2: "qc_Round (blk_Qc b) + 1 = blk_Round b" "blk_Tc b = None"
    using follows_qc [OF ch(2)] ch(2) by (simp_all add: follows_def)
  from cast_vote [OF assms(2) id1(3) c1(7) vote rule2 assms(10,11) _ c2_def] id1(1,2)
  obtain bytes where bytes: "SerializeConsensusMessage E (voteMessage (NewVote E b k ss)) = Ok bytes"
      "deliver E b c = (if leader = k then fst (handleVote E c2 (NewVote E b k ss))
         else if ok then emit [ESend address bytes] c2 else c2)"
    using c1(1) by auto
  have "following E (k, ss) cm s n (bs @ [b]) c2" "on_time E (k, ss) (bs @ [b]) c2"
      "ready E cm (blk_Round b) c2" "untouched (blk_Round b) c2" "sends_in (c_out c2) = sends_in (c_out c)"
    using c1(2-6,8) at
    by (simp_all add: c2_def following_def on_time_def bounded_def ready_def untouched_def round)
  with bytes show thesis by (rule that)
qed

lemma certified_chain_length:
  assumes "certified_chain E cm GenesisBlock bs" "length bs \<le> 2 ^ 61" "bs \<noteq> []"
  shows "unat (blk_Round (last bs)) = length bs" "blk_Round (last bs) + 1 = of_nat (Suc (length bs))"
proof -
  have r: "blk_Round (last bs) = of_nat (length bs)"
    using certified_chain_round [OF assms(1)] assms(3) by (simp add: tip_def)
  show "unat (blk_Round (last bs)) = length bs" using assms(2) unfolding r unat_of_nat by simp
  show "blk_Round (last bs) + 1 = of_nat (Suc (length bs))" by (simp add: r)
qed

text \<open>A core that does not lead the next round votes, and sends its vote to the leader.\<close>

lemma follower_round:
  assumes "proto_ok E" "marshals E" "node_at E cm s (k, ss) n bs c" "missing_payload E s b = []"
    and "certified_chain E cm GenesisBlock (bs @ [b])" "inj_on (Block_Digest E) (insert b (set bs))"
    and "length bs < 2 ^ 61" "Suc (length bs) < n" "k = blk_Author b \<longrightarrow> c_round c = blk_Round b"
    and "getLeader cm (blk_Round b + 1) = Inr leader" "Committee_Address cm leader = (address, ok)" "leader \<noteq> k"
  shows "node_at E cm s (k, ss) n (bs @ [b]) (deliver E b c)"
    and "mail E address c (deliver E b c) = (if ok then [voteMessage (NewVote E b k ss)] else [])"
proof -
  obtain bytes c1 where c1: "SerializeConsensusMessage E (voteMessage (NewVote E b k ss)) = Ok bytes"
      "deliver E b c = (if leader = k then fst (handleVote E c1 (NewVote E b k ss))
         else if ok then emit [ESend address bytes] c1 else c1)"
      "following E (k, ss) cm s n (bs @ [b]) c1" "on_time E (k, ss) (bs @ [b]) c1"
      "ready E cm (blk_Round b) c1" "untouched (blk_Round b) c1" "sends_in (c_out c1) = sends_in (c_out c)"
    by (rule delivered_vote [OF assms(1-11)])
  have round: "unat (blk_Round b) = Suc (length bs)" "blk_Round b + 1 = of_nat (Suc (Suc (length bs)))"
    using certified_chain_length [OF assms(5)] assms(7) by simp_all
  have d: "deliver E b c = (if ok then emit [ESend address bytes] c1 else c1)"
    using c1(2) assms(12) by simp
  have "calm n c1 (emit [ESend address bytes] c1)" by (rule calm_emit) simp
  then have "following E (k, ss) cm s n (bs @ [b]) (deliver E b c)"
      "on_time E (k, ss) (bs @ [b]) (deliver E b c)" "ready E cm (blk_Round b) (deliver E b c)"
    using c1(3-5) following_calm on_time_calm by (auto simp: d ready_def)
  then show "node_at E cm s (k, ss) n (bs @ [b]) (deliver E b c)"
    using ready_next [of E cm "blk_Round b"] round assms(7) by (simp add: node_at_def)
  show "mail E address c (deliver E b c) = (if ok then [voteMessage (NewVote E b k ss)] else [])"
    using c1(7) Deserialize_Serialize_message [OF assms(1) c1(1)]
    by (simp add: mail_def d map_filter_simps)
qed

text \<open>The leader of the next round handles its own vote, then those of the others.\<close>

lemma leader_round:
  assumes "env_ok E cm" "marshals E" "node_at E cm s (k, ss) n bs c" "missing_payload E s b = []"
    and "certified_chain E cm GenesisBlock (bs @ [b])" "inj_on (Block_Digest E) (insert b (set bs))"
    and "length bs < 2 ^ 61" "Suc (length bs) < n" "k = blk_Author b \<longrightarrow> c_round c = blk_Round b"
    and "getLeader cm (blk_Round b + 1) = Inr k" "cm_members cm \<noteq> {}"
    and "\<forall>v\<in>set vs. vote_verify E cm v = None \<and> v_round v = blk_Round b \<and> v_hash v = Block_Digest E b"
    and "vote_verify E cm (NewVote E b k ss) = None"
    and "quorum_of cm (map v_author (NewVote E b k ss # vs))"
  shows "mail E address c (deliver E b c) = []"
    and "node_at E cm s (k, ss) n (bs @ [b])
      (fst (serve E (deliver E b c) (map (RxMessage \<circ> voteMessage) vs)))"
    and "led E cm b (fst (serve E (deliver E b c) (map (RxMessage \<circ> voteMessage) vs)))"
proof -
  define v where "v = NewVote E b k ss"
  obtain addr ok where addr: "Committee_Address cm k = (addr, ok)" by fastforce
  have ok: "proto_ok E" "bls_ok E" "stake_fits cm" using assms(1) by (simp_all add: env_ok_def)
  obtain bytes c1 where c1: "deliver E b c = (if k = k then fst (handleVote E c1 (NewVote E b k ss))
         else if ok then emit [ESend addr bytes] c1 else c1)"
      "following E (k, ss) cm s n (bs @ [b]) c1" "on_time E (k, ss) (bs @ [b]) c1"
      "ready E cm (blk_Round b) c1" "untouched (blk_Round b) c1" "sends_in (c_out c1) = sends_in (c_out c)"
    by (rule delivered_vote [OF ok(1) assms(2-10) addr])
  have round: "unat (blk_Round b) = Suc (length bs)" "blk_Round b + 1 = of_nat (Suc (Suc (length bs)))"
    using certified_chain_length [OF assms(5)] assms(7) by simp_all
  have small: "unat (blk_Round b) < 2 ^ 62" "unat (blk_Round b) < n" using round assms(7,8) by simp_all
  have c1': "c_name c1 = k" "c_committee c1 = cm" "bounded n c1"
    using c1(2) by (simp_all add: following_def)
  have votes: "\<forall>v'\<in>set (v # vs). vote_verify E cm v' = None \<and> v_round v' = blk_Round b
      \<and> v_hash v' = Block_Digest E b"
    using assms(12,13) by (simp add: v_def)
  have d: "deliver E b c = fst (handleVote E c1 v)" using c1(1) by (simp add: v_def)
  have "sends_in (c_out (fst (handleVote E c1 v))) = sends_in (c_out c)"
    using vote_collected(2) [OF ok(2,3) c1'(2) c1(4), of v] votes assms(10) c1'(1) small(1) c1(6) by simp
  then show "mail E address c (deliver E b c) = []" by (simp add: mail_def d map_filter_simps)
  have calm1: "calm n c1 (deliver E b c)"
    using handleVote_calmly [of c1 n v E] assms(11) c1' small(2) votes by (auto simp: calmly_def d)
  have served: "serve E (deliver E b c) (map (RxMessage \<circ> voteMessage) vs)
        = (handle_votes E (deliver E b c) vs, Ret None)
      \<and> calm n (deliver E b c) (handle_votes E (deliver E b c) vs)"
    using calm1 c1' assms(11) votes small(2) by (intro serve_votes) (auto simp: calm_def)
  define c2 where "c2 = handle_votes E c1 (v # vs)"
  have c2: "fst (serve E (deliver E b c) (map (RxMessage \<circ> voteMessage) vs)) = c2" "calm n c1 c2"
    using served calm_trans [OF calm1] by (simp_all add: c2_def handle_votes_def d)
  have led: "led E cm b c2"
    unfolding c2_def
    by (rule quorum_leads [OF ok(2,3) assms(11) c1'(2,3) votes _ small c1(4,5)])
      (use assms(10,14) c1'(1) v_def in simp_all)
  then show "led E cm b (fst (serve E (deliver E b c) (map (RxMessage \<circ> voteMessage) vs)))"
    by (simp only: c2(1))
  show "node_at E cm s (k, ss) n (bs @ [b]) (fst (serve E (deliver E b c) (map (RxMessage \<circ> voteMessage) vs)))"
    using led_next [OF led small(1)] following_calm [OF c1(2) c2(2)] on_time_calm [OF c1(3) c2(2)] round(2)
    unfolding c2(1) by (simp add: node_at_def)
qed

subsection \<open>One round of the network\<close>

definition network_ok ::
  "('sk, 'p1, 'p2, 'agg, 'db, 'z) env_scheme \<Rightarrow> Committee \<Rightarrow> PublicKey list
     \<Rightarrow> (PublicKey \<Rightarrow> SignatureService) \<Rightarrow> bool" where
  "network_ok E cm ks ss \<longleftrightarrow> env_ok E cm \<and> marshals E \<and> quorum_of cm ks
     \<and> (\<forall>k\<in>set ks. bls_sign_ok E (ss_key (ss k)) k)"

lemma network_ok_members:
  assumes "network_ok E cm ks ss"
  shows "cm_members cm \<noteq> {}" "\<forall>k\<in>set ks. Committee_Stake cm k \<noteq> 0" "distinct ks"
proof -
  have q: "quorum_of cm ks" using assms by (simp add: network_ok_def)
  then show "\<forall>k\<in>set ks. Committee_Stake cm k \<noteq> 0" "distinct ks" by (simp_all add: quorum_of_def)
  have "stake_fits cm" using assms by (simp add: network_ok_def env_ok_def)
  then have "0 < unat (QuorumThreshold cm)"
    using QuorumThreshold_nonzero [of cm] by (simp add: unat_gt_0)
  then have "ks \<noteq> []" using q by (auto simp: quorum_of_def voters_weight_def)
  then show "cm_members cm \<noteq> {}"
    using q Committee_Stake_member [of cm "hd ks"] by (auto simp: quorum_of_def)
qed

text \<open>The network after the blocks \<open>bs\<close>: the next leader, if live, has the certificate to go on from.\<close>

definition has_proposal ::
  "('sk, 'p1, 'p2, 'agg, 'db, 'z) env_scheme \<Rightarrow> Committee \<Rightarrow> Block list \<Rightarrow> ('agg, 'db) core \<Rightarrow> bool" where
  "has_proposal E cm bs c \<longleftrightarrow> c_round c = of_nat (Suc (length bs)) \<and> makes_in (c_out c) \<noteq> []
     \<and> (\<exists>qc. last (makes_in (c_out c)) = (of_nat (Suc (length bs)), qc, None)
          \<and> (if bs = [] then qc = GenesisQC else certifies E cm (last bs) qc))"

definition stage ::
  "('sk, 'p1, 'p2, 'agg, 'db, 'z) env_scheme \<Rightarrow> Committee \<Rightarrow> PublicKey list
     \<Rightarrow> (PublicKey \<Rightarrow> SignatureService) \<Rightarrow> (PublicKey \<Rightarrow> 'db store) \<Rightarrow> Block list
     \<Rightarrow> (PublicKey \<Rightarrow> ('agg, 'db) core) \<Rightarrow> bool" where
  "stage E cm ks ss s bs cores \<longleftrightarrow> certified_chain E cm GenesisBlock bs
     \<and> (\<forall>k\<in>set ks. node_at E cm (s k) (k, ss k) (2 ^ 62) bs (cores k))
     \<and> (\<forall>k\<in>set ks. getLeader cm (of_nat (Suc (length bs))) = Inr k \<longrightarrow> has_proposal E cm bs (cores k))"

lemma stage_start:
  fixes E :: "('sk, 'p1, 'p2, 'agg, 'db, 'z) env_scheme" and s :: "PublicKey \<Rightarrow> 'db store"
  assumes "network_ok E cm ks ss" "\<forall>k\<in>set ks. store_ok E (s k)"
  shows "stage E cm ks ss s [] (\<lambda>k. fst (core_start k cm (ss k) (s k)))"
proof -
  define c0 :: "PublicKey \<Rightarrow> ('agg, 'db) core" where "c0 = (\<lambda>k. fst (core_start k cm (ss k) (s k)))"
  note members = network_ok_members(1) [OF assms(1)]
  obtain l where l: "getLeader cm 1 = Inr l"
    using members getLeader_small [of cm 1] by (simp add: leader_defined_def)
  have c0: "c_round (c0 k) = 1" "c_highQC (c0 k) = GenesisQC" "c_aggregator (c0 k) = NewAggregator cm"
      "k = l \<longrightarrow> makes_in (c_out (c0 k)) = [(1, GenesisQC, None)]" for k
    using l by (simp_all add: c0_def core_start_def NewCore_def Let_def generateProposal_def)
  have "node_at E cm (s k) (k, ss k) (2 ^ 62) [] (c0 k)" if "k \<in> set ks" for k
    using that assms(2) following_start [OF _ members, of E "s k" k "ss k"] aggregator_valid_new [of E cm]
    by (simp add: node_at_def ready_def untouched_def votes_clear_def c0)
      (simp add: c0_def NewAggregator_def GenesisQC_def)
  moreover have "has_proposal E cm [] (c0 k)" if "getLeader cm 1 = Inr k" for k
    using that l c0 by (simp add: has_proposal_def)
  ultimately show ?thesis by (simp add: stage_def c0_def)
qed

text \<open>What the leader proposes extends the chain.\<close>

lemma leader_proposes:
  assumes "network_ok E cm ks ss" "stage E cm ks ss s bs cores" "length bs < 2 ^ 61"
    and "k \<in> set ks" "getLeader cm (of_nat (Suc (length bs))) = Inr k"
  obtains b where "propose E payload (cores k) = Some b" "certified_chain E cm GenesisBlock (bs @ [b])"
    "blk_Author b = k" "blk_Payload b = payload"
proof -
  have chain: "certified_chain E cm GenesisBlock bs" and has: "has_proposal E cm bs (cores k)"
      and here: "node_at E cm (s k) (k, ss k) (2 ^ 62) bs (cores k)"
    using assms(2,4,5) by (simp_all add: stage_def)
  obtain qc where qc: "makes_in (c_out (cores k)) \<noteq> []"
      "last (makes_in (c_out (cores k))) = (of_nat (Suc (length bs)), qc, None)"
      "if bs = [] then qc = GenesisQC else certifies E cm (last bs) qc"
    using has by (auto simp: has_proposal_def)
  define b where "b = NewBlock E qc None k (of_nat (Suc (length bs))) payload (ss k)"
  have "propose E payload (cores k) = Some b"
    using qc(1,2) here by (simp add: propose_def b_def node_at_def following_def)
  moreover have "certified_chain E cm GenesisBlock (bs @ [b])"
  proof -
    have "bls_sign_ok E (ss_key (ss k)) k" "\<exists>bytes. Block_Serialize E b = Ok bytes"
      using assms(1,4) by (simp_all add: network_ok_def marshals_def)
    moreover from this(1) have "Block_Verify E cm b = None"
      unfolding b_def using network_ok_members(2) [OF assms(1)] assms(4) qc(3)
      by (intro NewBlock_verifies) (auto simp: certifies_def IsGenesisQC_iff split: if_splits)
    moreover have "blk_Round (tip bs) = 0 \<longleftrightarrow> bs = []"
      using certified_chain_length(1) [OF chain] assms(3) by (auto simp: tip_def GenesisBlock_def)
    ultimately have "follows E cm (tip bs) b"
      using qc(3) assms(5) certified_chain_round [OF chain]
      by (auto simp: follows_def b_def certifies_def Parent_def tip_def split: if_splits)
    then show ?thesis using chain by (simp add: certified_chain_tip)
  qed
  ultimately show thesis using that by (simp add: b_def)
qed

lemma concat_map_except:
  assumes "\<And>k. k \<in> set ks \<Longrightarrow> f k = (if k = l then [] else [g k])"
  shows "concat (map f ks) = map g (filter (\<lambda>k. k \<noteq> l) ks)"
  using assms by (induction ks) auto

lemma quorum_of_rearranged:
  "quorum_of cm ks \<Longrightarrow> k \<in> set ks \<Longrightarrow> quorum_of cm (k # filter (\<lambda>j. j \<noteq> k) ks)"
proof -
  assume q: "quorum_of cm ks" "k \<in> set ks"
  then have "set (k # filter (\<lambda>j. j \<noteq> k) ks) = set ks" by auto
  then have "voters_weight cm (k # filter (\<lambda>j. j \<noteq> k) ks) = voters_weight cm ks"
    unfolding voters_weight_def by simp
  then show ?thesis using q by (auto simp: quorum_of_def)
qed

lemma stage_round:
  assumes net: "network_ok E cm ks ss" and st: "stage E cm ks ss s bs cores" and len: "length bs < 2 ^ 61"
    and ch: "certified_chain E cm GenesisBlock (bs @ [b])"
    and inj: "inj_on (Block_Digest E) (insert b (set bs))"
    and payload: "\<forall>k\<in>set ks. missing_payload E (s k) b = []"
  shows "stage E cm ks ss s (bs @ [b]) (sync_round E cm ks b cores)"
proof -
  note members = network_ok_members [OF net]
  have env: "proto_ok E" "env_ok E cm" "marshals E" "quorum_of cm ks"
    using net by (simp_all add: network_ok_def env_ok_def)
  have round: "blk_Round b = of_nat (Suc (length bs))" "blk_Round b + 1 = of_nat (Suc (Suc (length bs)))"
      "unat (blk_Round b) = Suc (length bs)"
    using certified_chain_round [OF ch] certified_chain_length [OF ch] len by simp_all
  have lim: "Suc (length bs) < 2 ^ 62" using len by simp
  have lead: "k = blk_Author b \<longrightarrow> c_round (cores k) = blk_Round b" if "k \<in> set ks" for k
  proof -
    have "getLeader cm (blk_Round b) = Inr (blk_Author b)"
      using ch follows_checked by (auto simp: certified_chain_tip)
    then show ?thesis using st that by (auto simp: stage_def has_proposal_def round(1))
  qed
  have node: "node_at E cm (s k) (k, ss k) (2 ^ 62) bs (cores k)" "missing_payload E (s k) b = []"
    if "k \<in> set ks" for k using st payload that by (simp_all add: stage_def)
  have "leader_defined cm (blk_Round b + 1)"
    using members(1) len unat_add_le [of "blk_Round b" 1] round(3) by (simp add: leader_defined_def)
  then obtain l where l: "getLeader cm (blk_Round b + 1) = Inr l" by (auto simp: getLeader_small)
  obtain address ok where addr: "Committee_Address cm l = (address, ok)" by fastforce
  note follower = follower_round [OF env(1,3) node ch inj len lim lead l addr]
  define cores1 where "cores1 = (\<lambda>k. if k \<in> set ks then deliver E b (cores k) else cores k)"
  have others: "node_at E cm (s k) (k, ss k) (2 ^ 62) (bs @ [b]) (cores1 k)" if "k \<in> set ks" "l \<noteq> k" for k
    using follower(1) [of k] that by (simp add: cores1_def)
  show ?thesis
  proof (cases "l \<in> set ks")
    case False
    then have "sync_round E cm ks b cores = cores1"
      using l by (simp add: sync_round_def cores1_def [symmetric] Let_def)
    then show ?thesis
      using ch others False l round(2) by (auto simp: stage_def)
  next
    case True
    define vs where "vs = map (\<lambda>k. NewVote E b k (ss k)) (filter (\<lambda>k. k \<noteq> l) ks)"
    define cl where "cl = fst (serve E (deliver E b (cores l)) (map (RxMessage \<circ> voteMessage) vs))"
    have votes: "vote_verify E cm (NewVote E b k (ss k)) = None" if "k \<in> set ks" for k
      using net members(2) that by (intro NewVote_verifies) (simp_all add: network_ok_def)
    then have vs: "\<forall>v\<in>set vs. vote_verify E cm v = None \<and> v_round v = blk_Round b \<and> v_hash v = Block_Digest E b"
      by (auto simp: vs_def)
    have "map v_author (NewVote E b l (ss l) # vs) = l # filter (\<lambda>k. k \<noteq> l) ks"
      by (simp add: vs_def comp_def)
    then have quorum: "quorum_of cm (map v_author (NewVote E b l (ss l) # vs))"
      using quorum_of_rearranged [OF env(4) True] by simp
    note leads = leader_round [OF env(2,3) node [OF True] ch inj len lim lead [OF True] l members(1) vs
        votes [OF True] quorum]
    have ok: ok
      using members(2) True addr Committee_Stake_member [of cm l]
      by (auto simp: Committee_Address_def Committee_Stake_def split: option.splits)
    have "mail E address (cores k) (cores1 k) = (if k = l then [] else [voteMessage (NewVote E b k (ss k))])"
      if "k \<in> set ks" for k
      using that leads(1) follower(2) [of k] ok by (auto simp: cores1_def)
    then have "concat (map (\<lambda>k. mail E address (cores k) (cores1 k)) ks) = map voteMessage vs"
      using concat_map_except [of ks _ l "\<lambda>k. voteMessage (NewVote E b k (ss k))"] by (simp add: vs_def comp_def)
    then have sync: "sync_round E cm ks b cores = cores1(l := cl)"
      using l addr True by (simp add: sync_round_def cores1_def [symmetric] Let_def cl_def)
        (simp add: cores1_def)
    have "led E cm b cl" using leads(3) by (simp add: cl_def)
    then have "has_proposal E cm (bs @ [b]) cl"
      using round(2) by (auto simp: led_def has_proposal_def)
    moreover have "node_at E cm (s l) (l, ss l) (2 ^ 62) (bs @ [b]) cl" using leads(2) by (simp add: cl_def)
    ultimately show ?thesis
      using ch others l round(2) by (auto simp: stage_def sync)
  qed
qed

subsection \<open>Any number of rounds\<close>

definition initial_cores ::
  "Committee \<Rightarrow> (PublicKey \<Rightarrow> SignatureService) \<Rightarrow> (PublicKey \<Rightarrow> 'db store) \<Rightarrow> PublicKey \<Rightarrow> ('agg, 'db) core" where
  "initial_cores cm ss s = (\<lambda>k. fst (core_start k cm (ss k) (s k)))"

lemma sync_run_next:
  assumes "network_ok E cm ks ss" "stage E cm ks ss s bs cores'" "length bs < 2 ^ 61"
    and "sync_run E cm ks payload cores n = (cores', bs)" "length bs = n"
    and "k \<in> set ks" "getLeader cm (of_nat (Suc n)) = Inr k"
  obtains b where "sync_run E cm ks payload cores (Suc n) = (sync_round E cm ks b cores', bs @ [b])"
    "certified_chain E cm GenesisBlock (bs @ [b])" "blk_Payload b = payload n"
proof -
  obtain b where "propose E (payload n) (cores' k) = Some b" "certified_chain E cm GenesisBlock (bs @ [b])"
      "blk_Payload b = payload n"
    using leader_proposes [OF assms(1-3,6)] assms(5,7) by metis
  then show thesis using that assms(4,6,7) by simp
qed

lemma sync_run_grows:
  "sync_run E cm ks payload cores n = (cores', bs) \<Longrightarrow>
     set bs \<subseteq> set (snd (sync_run E cm ks payload cores (Suc n)))"
  by (auto split: sum.split option.split)

lemma sync_run_stage:
  assumes net: "network_ok E cm ks ss" and stores: "\<forall>k\<in>set ks. store_ok E (s k)"
    and leaders: "\<forall>i<n. \<exists>k\<in>set ks. getLeader cm (of_nat (Suc i)) = Inr k"
    and payload: "\<forall>k\<in>set ks. \<forall>i<n. \<forall>d\<in>set (payload i). readable E (s k) d"
    and "n \<le> 2 ^ 61"
    and "inj_on (Block_Digest E) (set (snd (sync_run E cm ks payload (initial_cores cm ss s) n)))"
  shows "\<exists>cores bs. sync_run E cm ks payload (initial_cores cm ss s) n = (cores, bs)
    \<and> stage E cm ks ss s bs cores \<and> length bs = n \<and> map blk_Payload bs = map payload [0..<n]"
  using leaders payload assms(5,6)
proof (induction n)
  case 0
  show ?case using stage_start [OF net stores] by (simp add: initial_cores_def)
next
  case (Suc n)
  obtain cores bs where run: "sync_run E cm ks payload (initial_cores cm ss s) n = (cores, bs)"
    by fastforce
  obtain k where k: "k \<in> set ks" "getLeader cm (of_nat (Suc n)) = Inr k" using Suc.prems(1) by blast
  have "set bs \<subseteq> set (snd (sync_run E cm ks payload (initial_cores cm ss s) (Suc n)))"
    using sync_run_grows [OF run] .
  then have "inj_on (Block_Digest E) (set (snd (sync_run E cm ks payload (initial_cores cm ss s) n)))"
    unfolding run snd_conv by (rule inj_on_subset [OF Suc.prems(4)])
  moreover have "\<forall>i<n. \<exists>k\<in>set ks. getLeader cm (of_nat (Suc i)) = Inr k"
    using Suc.prems(1) less_SucI by blast
  moreover have "\<forall>k\<in>set ks. \<forall>i<n. \<forall>d\<in>set (payload i). readable E (s k) d"
    using Suc.prems(2) less_SucI by blast
  moreover have "n \<le> 2 ^ 61" using Suc.prems(3) by simp
  ultimately have st: "stage E cm ks ss s bs cores" "length bs = n" "map blk_Payload bs = map payload [0..<n]"
    using Suc.IH run by auto
  have "length bs < 2 ^ 61" using st(2) Suc.prems(3) by simp
  from sync_run_next [OF net st(1) this run st(2) k]
  obtain b where b: "sync_run E cm ks payload (initial_cores cm ss s) (Suc n)
        = (sync_round E cm ks b cores, bs @ [b])"
      "certified_chain E cm GenesisBlock (bs @ [b])" "blk_Payload b = payload n" .
  have "stage E cm ks ss s (bs @ [b]) (sync_round E cm ks b cores)"
    using Suc.prems(2-4) st(2) b
    by (intro stage_round [OF net st(1) _ b(2)]) (auto simp: missing_payload_avail avail_def)
  then show ?case
    using b(1,3) st(2,3) by (simp del: sync_run.simps)
qed

text \<open>
  C6: Progress of the network. Live authorities with a quorum of the stake run in synchronous rounds,
  while the others are silent. If each of the first \<open>n\<close> rounds has a live leader, then each makes one
  block with the batches waiting at its leader, the blocks form one certified chain, every live core
  votes exactly once for each, and all of them commit the blocks of the first \<open>n - 2\<close> rounds, in order
  and each once. The hash does not collide on the blocks of the run, \<open>n\<close> is at most \<open>2 ^ 61\<close>, the batches can be read by the
  live cores, their keys sign, and marshalling succeeds.
\<close>

theorem synchronous_rounds_commit:
  assumes "network_ok E cm ks ss" "\<forall>k\<in>set ks. store_ok E (s k)"
    and "\<forall>i<n. \<exists>k\<in>set ks. getLeader cm (of_nat (Suc i)) = Inr k"
    and "\<forall>k\<in>set ks. \<forall>i<n. \<forall>d\<in>set (payload i). readable E (s k) d" "n \<le> 2 ^ 61"
    and "sync_run E cm ks payload (initial_cores cm ss s) n = (cores, bs)"
    and "inj_on (Block_Digest E) (set bs)"
  shows "map blk_Payload bs = map payload [0..<n] \<and> certified_chain E cm GenesisBlock bs
    \<and> (\<forall>k\<in>set ks. commits_in (c_out (cores k)) = take (n - 2) bs
         \<and> ballots_in (c_out (cores k)) = own_votes E (k, ss k) bs)"
proof -
  have "stage E cm ks ss s bs cores \<and> length bs = n \<and> map blk_Payload bs = map payload [0..<n]"
    using sync_run_stage [OF assms(1-5)] assms(6,7) by auto
  then show ?thesis by (auto simp: stage_def node_at_def following_def on_time_def)
qed

text \<open>Three of four authorities, the first one silent.\<close>

definition three_ss :: "PublicKey \<Rightarrow> SignatureService" where
  "three_ss k = (if k = demo_name 2 then four_ss 2 else if k = demo_name 3 then four_ss 3 else four_ss 4)"

abbreviation "three_names \<equiv> map demo_name [2, 3, 4]"

abbreviation "three_run \<equiv> sync_run demo_env four_committee three_names (\<lambda>_. [])
  (initial_cores four_committee three_ss (\<lambda>_. NewStore Map.empty))"

lemma three_network: "network_ok demo_env four_committee three_names three_ss"
proof -
  have "four_quorum [2, 3, 4]" by (simp add: four_quorum_def)
  from four_quorum_of [OF this] have "quorum_of four_committee three_names" by simp
  moreover have "bls_sign_ok demo_env (ss_key (four_ss n)) (demo_name n)" for n
    using demo_sign_ok [of "demo_sk n"]
    by (simp add: bls_sign_ok_def four_ss_def NewSignatureService_def demo_name_def)
  moreover have "marshals demo_env"
    using demo_Serialize_message by (auto simp: marshals_def)
  ultimately show ?thesis
    by (auto simp: network_ok_def env_ok_def demo_proto_ok demo_env_bls_ok three_ss_def)
qed

lemma three_leaders:
  assumes "i < 3"
  shows "\<exists>k\<in>set three_names. getLeader four_committee (of_nat (Suc i)) = Inr k"
proof -
  have "i = 0 \<or> i = 1 \<or> i = 2" using assms by auto
  then show ?thesis using four_leader by (auto simp: numeral_2_eq_2 [symmetric])
qed

lemma certified_chain_nth:
  assumes "certified_chain E cm GenesisBlock bs" "i < length bs"
  shows "blk_Round (bs ! i) = of_nat (Suc i)"
proof -
  have "certified_chain E cm GenesisBlock (take (Suc i) bs @ drop (Suc i) bs)" using assms(1) by simp
  then have "certified_chain E cm GenesisBlock (take (Suc i) bs)" by (simp only: certified_chain_tip)
  from certified_chain_round [OF this] show ?thesis
    using assms(2) by (simp add: take_Suc_conv_app_nth)
qed

lemma demo_chain_inj:
  assumes "certified_chain demo_env cm GenesisBlock bs" "\<forall>b\<in>set bs. blk_Payload b = []" "length bs < 2 ^ 62"
  shows "inj_on (Block_Digest demo_env) (set bs)"
proof (rule inj_onI)
  fix x y
  assume "x \<in> set bs" "y \<in> set bs" and eq: "Block_Digest demo_env x = Block_Digest demo_env y"
  then obtain i j where ij: "i < length bs" "x = bs ! i" "j < length bs" "y = bs ! j"
    by (auto simp: in_set_conv_nth)
  have "NewDigest demo_lib (pk_bytes (blk_Author x) @ be64 (blk_Round x))
      = NewDigest demo_lib (pk_bytes (blk_Author y) @ be64 (blk_Round y))"
    using eq assms(2) ij by (simp add: Block_Digest_def Block_buf_def)
  then have "blk_Round x = blk_Round y" by (rule demo_digest_round [where n = 48]) simp_all
  then have "unat (of_nat (Suc i) :: Round) = unat (of_nat (Suc j) :: Round)"
    using certified_chain_nth [OF assms(1)] ij by metis
  then have "Suc i = Suc j" using ij(1,3) assms(3) unfolding unat_of_nat by simp
  then show "x = y" using ij by simp
qed

lemma three_inj: "n \<le> 3 \<Longrightarrow> inj_on (Block_Digest demo_env) (set (snd (three_run n)))"
proof (induction n)
  case (Suc n)
  have "\<exists>cores bs. three_run n = (cores, bs) \<and> stage demo_env four_committee three_names three_ss
      (\<lambda>_. NewStore Map.empty) bs cores \<and> length bs = n \<and> map blk_Payload bs = map (\<lambda>_. []) [0..<n]"
  proof (rule sync_run_stage [OF three_network])
    show "\<forall>i<n. \<exists>k\<in>set three_names. getLeader four_committee (of_nat (Suc i)) = Inr k"
      using three_leaders Suc.prems by (meson Suc_le_lessD less_trans)
  qed (use Suc in simp_all)
  then obtain cores bs where run: "three_run n = (cores, bs)"
      "stage demo_env four_committee three_names three_ss (\<lambda>_. NewStore Map.empty) bs cores" "length bs = n"
      "map blk_Payload bs = map (\<lambda>_. []) [0..<n]" by blast
  obtain k where k: "k \<in> set three_names" "getLeader four_committee (of_nat (Suc n)) = Inr k"
    using three_leaders [of n] Suc.prems by auto
  have "length bs < 2 ^ 61" using run(3) Suc.prems by simp
  from sync_run_next [OF three_network run(2) this run(1,3) k]
  obtain b where b: "three_run (Suc n) = (sync_round demo_env four_committee three_names b cores, bs @ [b])"
      "certified_chain demo_env four_committee GenesisBlock (bs @ [b])" "blk_Payload b = []" .
  have "\<forall>x\<in>set bs. blk_Payload x = []"
  proof
    fix x assume "x \<in> set bs"
    then have "blk_Payload x \<in> set (map blk_Payload bs)" by simp
    then show "blk_Payload x = []" unfolding run(4) by auto
  qed
  then have "inj_on (Block_Digest demo_env) (set (bs @ [b]))"
    using b(3) run(3) Suc.prems by (intro demo_chain_inj [OF b(2)]) auto
  then show ?case unfolding b(1) snd_conv .
qed simp

theorem synchronous_rounds_commit_witness:
  "\<exists>cores bs. three_run 3 = (cores, bs) \<and> map blk_Payload bs = [[], [], []]
     \<and> (\<forall>k\<in>set three_names. commits_in (c_out (cores k)) = [hd bs]
          \<and> map fst (ballots_in (c_out (cores k))) = bs)"
proof -
  obtain cores bs where run: "three_run 3 = (cores, bs)" by fastforce
  have "inj_on (Block_Digest demo_env) (set bs)" using three_inj [of 3] run by simp
  moreover have "\<forall>i<3. \<exists>k\<in>set three_names. getLeader four_committee (of_nat (Suc i)) = Inr k"
    using three_leaders by blast
  ultimately have all: "map blk_Payload bs = map (\<lambda>_. []) [0..<3] \<and> certified_chain demo_env four_committee GenesisBlock bs
      \<and> (\<forall>k\<in>set three_names. commits_in (c_out (cores k)) = take (3 - 2) bs
           \<and> ballots_in (c_out (cores k)) = own_votes demo_env (k, three_ss k) bs)"
    using synchronous_rounds_commit [OF three_network _ _ _ _ run] by simp
  from all have "length (map blk_Payload bs) = 3" by (metis length_map length_upt diff_zero)
  then have "take (3 - 2) bs = [hd bs]" by (cases bs) simp_all
  moreover have "map fst (own_votes demo_env me bs) = bs" for me by (simp add: own_votes_def comp_def)
  moreover have "map (\<lambda>_. []) [0..<3] = [[], [], []]" by (simp add: upt_rec)
  ultimately show ?thesis using run all by auto
qed

end
