(* ===== verification/ViewChange.thy ===== *)
theory ViewChange
  imports Rounds
begin

text \<open>
  The change of view when a round times out. A quorum of timeouts takes a core to the next round with a
  timeout certificate that it broadcasts, and its high QC covers every round the certificate reports; so
  the block of a leader that has collected the timeouts itself is voted for. A leader that learns of the
  certificate from the message of another node keeps its own high QC: if a timeout reported a higher
  one, no core votes for its block.
\<close>

subsection \<open>Collecting timeouts\<close>

definition handle_timeouts ::
  "('sk, 'p1, 'p2, 'agg, 'db, 'z) env_scheme \<Rightarrow> ('agg, 'db) core \<Rightarrow> timeout list \<Rightarrow> ('agg, 'db) core" where
  "handle_timeouts E = foldl (\<lambda>c t. fst (handleTimeout E c t))"

definition tc_maker_for ::
  "('sk, 'p1, 'p2, 'agg, 'z) crypto_lib_scheme \<Rightarrow> 'agg aggregator \<Rightarrow> Round \<Rightarrow> 'agg tcMaker" where
  "tc_maker_for L a r = (case ag_timeoutAggregators a r of Some m \<Rightarrow> m | None \<Rightarrow> NewTcMaker L)"

text \<open>\<open>tc\<close> reports no round above the one of \<open>qc\<close>.\<close>

definition covers :: "QC \<Rightarrow> authorityTimeoutRound list \<Rightarrow> bool" where
  "covers qc votes \<longleftrightarrow> (\<forall>a\<in>set votes. atr_round a \<le> qc_Round qc)"

text \<open>A core that still collects timeouts of round \<open>r\<close>, and one that has moved on by a certificate.\<close>

definition collecting ::
  "('sk, 'p1, 'p2, 'agg, 'db, 'z) env_scheme \<Rightarrow> Committee \<Rightarrow> PublicKey \<Rightarrow> Round \<Rightarrow> ('agg, 'db) core \<Rightarrow> bool" where
  "collecting E cm k r c \<longleftrightarrow> c_committee c = cm \<and> c_name c = k \<and> c_round c \<le> r
     \<and> ag_committee (c_aggregator c) = cm \<and> aggregator_valid E (c_aggregator c)
     \<and> covers (c_highQC c) (tm_votes (tc_maker_for E (c_aggregator c) r))"

definition view_changed ::
  "('sk, 'p1, 'p2, 'agg, 'db, 'z) env_scheme \<Rightarrow> Committee \<Rightarrow> PublicKey \<Rightarrow> Round \<Rightarrow> ('agg, 'db) core \<Rightarrow> bool" where
  "view_changed E cm k r c \<longleftrightarrow> c_round c = r + 1 \<and> (\<exists>tc. TC_Verify E cm tc = None \<and> tc_Round tc = r
     \<and> covers (c_highQC c) (tc_Votes tc)
     \<and> (\<exists>message. SerializeConsensusMessage E (tcMessage tc) = Ok message
          \<and> EBroadcast (snd (BroadcastAddresses cm k)) message \<in> set (c_out c))
     \<and> (getLeader cm (r + 1) = Inr k \<longrightarrow>
          makes_in (c_out c) \<noteq> [] \<and> last (makes_in (c_out c)) = (r + 1, c_highQC c, Some tc)))"

lemma AddTimeout_maker:
  assumes "AddTimeout L a t = (a', res)"
  shows "tcMaker_append L (ag_committee a) (tc_maker_for L a (t_round t)) t = (tc_maker_for L a' (t_round t), res)"
    and "ag_committee a' = ag_committee a"
  using assms by (auto simp: AddTimeout_def tc_maker_for_def Let_def split: prod.splits)

lemma tm_wf_maker: "aggregator_valid L a \<Longrightarrow> tm_wf (tc_maker_for L a r)"
  by (auto simp: tc_maker_for_def aggregator_valid_def tm_valid_def split: option.splits)

lemma covers_append:
  "tm_wf m \<Longrightarrow> tcMaker_append L cm m t = (m', res) \<Longrightarrow> covers qc (tm_votes m) \<Longrightarrow>
     qc_Round (t_highQC t) \<le> qc_Round qc \<Longrightarrow> covers qc (tm_votes m')"
  using tcMaker_append_used [of m t L cm] tcMaker_append_fresh [of m t L cm m' res]
  by (cases "t_author t \<in> set (tm_names m)") (auto simp: covers_def)

lemma tcMaker_certificate_votes:
  assumes "tm_wf m" "tcMaker_append L cm m t = (m', Inr (Some tc))"
  shows "tc_Votes tc = tm_votes m'"
proof -
  have "t_author t \<notin> set (tm_names m)" using assms tcMaker_append_used [of m t L cm] by auto
  then show ?thesis using tcMaker_append_fresh [OF assms(1) _ assms(2)] by simp
qed

text \<open>The high QC of a timeout moves a core to no later round than \<open>r\<close>, and keeps its timeouts.\<close>

lemma processQC_collecting:
  assumes "collecting E cm k r c" "qc_Round qc < r"
  shows "collecting E cm k r (processQC c qc)" "qc_Round qc \<le> qc_Round (c_highQC (processQC c qc))"
    and "tc_maker_for E (c_aggregator (processQC c qc)) r = tc_maker_for E (c_aggregator c) r"
proof -
  have le: "qc_Round qc + 1 \<le> r" using assms(2) by (rule inc_le)
  have "qc_Round (c_highQC c) \<le> qc_Round (c_highQC (processQC c qc))"
    by (simp add: processQC_def updateHighQc_highQC core_frames less_imp_le)
  then have cov: "covers (c_highQC (processQC c qc)) vs" if "covers (c_highQC c) vs" for vs
    using that by (auto simp: covers_def intro: order_trans)
  show maker: "tc_maker_for E (c_aggregator (processQC c qc)) r = tc_maker_for E (c_aggregator c) r"
    using le by (auto simp: processQC_def updateHighQc_frames advanceRound_aggregator tc_maker_for_def
        aggregator_cleanup_def)
  have "c_round (processQC c qc) \<le> r" "ag_committee (c_aggregator (processQC c qc)) = cm"
      "aggregator_valid E (c_aggregator (processQC c qc))"
    using assms(1) le
    by (auto simp: collecting_def processQC_def updateHighQc_frames advanceRound_round
        advanceRound_aggregator aggregator_cleanup_valid)
  then show "collecting E cm k r (processQC c qc)"
    using assms(1) cov maker by (simp add: collecting_def processQC_frames)
  show "qc_Round qc \<le> qc_Round (c_highQC (processQC c qc))" by (rule processQC_highQC)
qed

text \<open>One timeout.\<close>

lemma timeout_collected:
  assumes "bls_ok E" "stake_fits cm" "marshals E" "collecting E cm k r c"
    and "timeout_Verify E cm t = None" "t_round t = r" "qc_Round (t_highQC t) < r"
    and "tcMaker_append E cm (tc_maker_for E (c_aggregator c) r) t = (m', res)"
  shows "case res of
      Inr (Some tc) \<Rightarrow> view_changed E cm k r (fst (handleTimeout E c t))
    | _ \<Rightarrow> collecting E cm k r (fst (handleTimeout E c t))
        \<and> tc_maker_for E (c_aggregator (fst (handleTimeout E c t))) r = m'"
proof -
  define c1 where "c1 = processQC c (t_highQC t)"
  note qc = processQC_collecting [OF assms(4,7), folded c1_def]
  note col = qc(1) [unfolded collecting_def]
  obtain a res' where add: "AddTimeout E (c_aggregator c1) t = (a, res')" by fastforce
  have app: "tcMaker_append E cm (tc_maker_for E (c_aggregator c1) r) t = (tc_maker_for E a r, res')"
    using AddTimeout_maker(1) [OF add] col assms(6) by simp
  then have res: "res' = res" "tc_maker_for E a r = m'" using assms(8) qc(3) by simp_all
  have a: "aggregator_valid E a" "ag_committee a = cm"
    using AddTimeout_valid(1,2) [OF assms(1) _ _ _ add] col assms(2,5) by simp_all
  have cov: "covers (c_highQC c1) (tm_votes m')"
    using covers_append [OF tm_wf_maker app] col qc(2) res by simp
  have live: "\<not> t_round t < c_round c" "c_committee c = cm"
    using assms(4,6) by (simp_all add: collecting_def not_less)
  show ?thesis
  proof (cases "\<exists>tc. res = Inr (Some tc)")
    case False
    then have "fst (handleTimeout E c t) = c1\<lparr>c_aggregator := a\<rparr>"
      using live assms(5) add res(1)
      by (auto simp: handleTimeout_def c1_def [symmetric] Let_def split: sum.split option.split)
    then show ?thesis
      using False a cov col res(2) by (auto simp: collecting_def split: sum.split option.split)
  next
    case True
    then obtain tc where tc: "res = Inr (Some tc)" by blast
    have verifies: "TC_Verify E cm tc = None" "tc_Round tc = r"
      using AddTimeout_valid(3) [OF assms(1) _ _ _ add [unfolded res tc]] col assms(2,5,6) by simp_all
    have votes: "tc_Votes tc = tm_votes m'"
      using tcMaker_certificate_votes [OF tm_wf_maker app [unfolded res tc]] col res(2) by simp
    obtain message where message: "SerializeConsensusMessage E (tcMessage tc) = Ok message"
      using assms(3) by (auto simp: marshals_def)
    obtain names addresses where addr: "BroadcastAddresses cm k = (names, addresses)" by fastforce
    define c2 where "c2 = advanceRound (c1\<lparr>c_aggregator := a\<rparr>) r"
    define c3 where "c3 = emit [EBroadcast addresses message] c2"
    have c2: "c_round c2 = r + 1" "c_highQC c2 = c_highQC c1" "c_committee c2 = cm" "c_name c2 = k"
      using col by (auto simp: c2_def core_frames advanceRound_round)
    have hd: "fst (handleTimeout E c t)
        = (if getLeader cm (r + 1) = Inr k then generateProposal c3 (Some tc) else c3)"
      using live assms(5) add res(1) tc message addr verifies(2) c2
      by (simp add: handleTimeout_def c1_def [symmetric] c2_def [symmetric] c3_def Let_def split: sum.split)
    have "view_changed E cm k r (if getLeader cm (r + 1) = Inr k then generateProposal c3 (Some tc) else c3)"
      unfolding view_changed_def
      using verifies votes cov message addr c2
      by (auto simp: c3_def generateProposal_def intro!: exI [of _ tc])
    then show ?thesis using tc by (simp add: hd)
  qed
qed

lemma timeout_stale: "t_round t < c_round c \<Longrightarrow> handleTimeout E c t = (c, Ret None)"
  by (simp add: handleTimeout_def)

lemma timeouts_stale:
  "(\<And>t. t \<in> set ts \<Longrightarrow> t_round t < c_round c) \<Longrightarrow> handle_timeouts E c ts = c"
  by (induction ts) (simp_all add: handle_timeouts_def timeout_stale)

lemma timeouts_collected:
  assumes "bls_ok E" "stake_fits cm" "marshals E" "unat r < 2 ^ 64 - 1"
    and "\<And>t. t \<in> set ts \<Longrightarrow> timeout_Verify E cm t = None \<and> t_round t = r \<and> qc_Round (t_highQC t) < r"
    and "collecting E cm k r c"
    and "snd (collect (tcMaker_append E cm) (tc_maker_for E (c_aggregator c) r) ts) \<noteq> []"
  shows "view_changed E cm k r (handle_timeouts E c ts)"
  using assms(5-)
proof (induction ts arbitrary: c)
  case (Cons t ts)
  obtain m' res where app: "tcMaker_append E cm (tc_maker_for E (c_aggregator c) r) t = (m', res)" by fastforce
  have t: "timeout_Verify E cm t = None" "t_round t = r" "qc_Round (t_highQC t) < r"
    using Cons.prems(1) by simp_all
  note step = timeout_collected [OF assms(1-3) Cons.prems(2) t app]
  have fold: "handle_timeouts E c (t # ts) = handle_timeouts E (fst (handleTimeout E c t)) ts"
    by (simp add: handle_timeouts_def)
  show ?case
  proof (cases "\<exists>tc. res = Inr (Some tc)")
    case True
    then have changed: "view_changed E cm k r (fst (handleTimeout E c t))" using step by auto
    have "r < r + 1" using assms(4) by (simp add: word_less_nat_alt unat_word_ariths)
    then have "handle_timeouts E (fst (handleTimeout E c t)) ts = fst (handleTimeout E c t)"
      using changed Cons.prems(1) by (intro timeouts_stale) (auto simp: view_changed_def)
    then show ?thesis using changed fold by simp
  next
    case False
    then have "collecting E cm k r (fst (handleTimeout E c t))"
        "tc_maker_for E (c_aggregator (fst (handleTimeout E c t))) r = m'"
      using step by (auto split: sum.splits option.splits)
    moreover have "snd (collect (tcMaker_append E cm) m' ts) \<noteq> []"
      using Cons.prems(3) app False by (cases res; cases "projr res") (auto simp: case_prod_unfold)
    ultimately show ?thesis
      unfolding fold using Cons.prems(1) by (intro Cons.IH) auto
  qed
qed simp

subsection \<open>A quorum of timeouts\<close>

lemma covered_block_voted:
  assumes "propose E payload c = Some b" "makes_in (c_out c) \<noteq> []"
    and "last (makes_in (c_out c)) = (r + 1, qc, Some tc)" "tc_Round tc = r" "covers qc (tc_Votes tc)"
    and "TC_Verify E cm tc = None" "unat r < 2 ^ 64 - 1" "c_lastVotedRound c' \<le> r"
  shows "\<exists>v. snd (make_vote E c' b) = Inr (Some v)"
proof -
  have b: "blk_Qc b = qc" "blk_Tc b = Some tc" "blk_Round b = r + 1"
    using assms(1-3) by (auto simp: propose_def)
  have "r < r + 1" using assms(7) by (simp add: word_less_nat_alt unat_word_ariths)
  then have less: "c_lastVotedRound c' < blk_Round b" using assms(8) b(3) by simp
  have "safetyRule2 b = Inr True"
    using b assms(4,5) TC_Verify_nonempty [OF assms(6)] by (simp add: safetyRule2_True_iff covers_def)
  then show ?thesis using less by (simp add: make_vote_def Let_def)
qed

text \<open>
  C18: A quorum of timeouts changes the view. Verified timeouts of round \<open>r\<close> by a quorum, in any order and
  with repetitions, take a core into round \<open>r + 1\<close>; it broadcasts a timeout certificate that verifies, and
  its high QC is at least as high as every round the certificate reports. If it leads the round, the
  last request to its proposer is for a block of that round with its high QC and the certificate,
  and every core that has not voted in a later round votes for this block when it handles it.
\<close>

theorem quorum_of_timeouts_changes_view:
  assumes "bls_ok E" "stake_fits (c_committee c)" "marshals E"
    and "ag_committee (c_aggregator c) = c_committee c" "aggregator_valid E (c_aggregator c)"
    and "c_round c \<le> r" "unat r < 2 ^ 64 - 1" "ag_timeoutAggregators (c_aggregator c) r = None"
    and "\<And>t. t \<in> set ts \<Longrightarrow> timeout_Verify E (c_committee c) t = None \<and> t_round t = r
      \<and> qc_Round (t_highQC t) < r"
    and "unat (QuorumThreshold (c_committee c)) \<le>
      (\<Sum>k\<in>t_author ` set ts. unat (Committee_Stake (c_committee c) k))"
  shows "view_changed E (c_committee c) (c_name c) r (handle_timeouts E c ts)
    \<and> (getLeader (c_committee c) (r + 1) = Inr (c_name c) \<longrightarrow>
        (\<forall>payload. \<exists>b. propose E payload (handle_timeouts E c ts) = Some b
           \<and> (\<forall>c'. c_lastVotedRound c' \<le> r \<longrightarrow> (\<exists>v. snd (make_vote E c' b) = Inr (Some v)))))"
proof -
  have new: "tc_maker_for E (c_aggregator c) r = NewTcMaker E" using assms(8) by (simp add: tc_maker_for_def)
  have "length (snd (collect (tcMaker_append E (c_committee c)) (NewTcMaker E) ts)) = 1"
    by (rule tm.quorum_yields_certificate [OF _ assms(2)])
      (use assms(1,9,10) in \<open>auto simp: word_neq_0_conv [symmetric] QuorumThreshold_nonzero
        tcMaker_append_verified\<close>)
  then have cert: "snd (collect (tcMaker_append E (c_committee c)) (tc_maker_for E (c_aggregator c) r) ts) \<noteq> []"
    using new by auto
  have "collecting E (c_committee c) (c_name c) r c"
    using assms(4-6) new by (simp add: collecting_def covers_def NewTcMaker_def)
  then have changed: "view_changed E (c_committee c) (c_name c) r (handle_timeouts E c ts)"
    using assms(9) cert by (intro timeouts_collected [OF assms(1-3,7)])
  moreover have "\<exists>b. propose E payload (handle_timeouts E c ts) = Some b
      \<and> (\<forall>c'. c_lastVotedRound c' \<le> r \<longrightarrow> (\<exists>v. snd (make_vote E c' b) = Inr (Some v)))"
    if lead: "getLeader (c_committee c) (r + 1) = Inr (c_name c)" for payload
  proof -
    obtain tc where tc: "TC_Verify E (c_committee c) tc = None" "tc_Round tc = r"
        "covers (c_highQC (handle_timeouts E c ts)) (tc_Votes tc)"
        "makes_in (c_out (handle_timeouts E c ts)) \<noteq> []"
        "last (makes_in (c_out (handle_timeouts E c ts))) = (r + 1, c_highQC (handle_timeouts E c ts), Some tc)"
      using changed lead by (auto simp: view_changed_def)
    obtain b where "propose E payload (handle_timeouts E c ts) = Some b"
      using tc(4) by (simp add: propose_def case_prod_unfold)
    then show ?thesis using covered_block_voted [OF _ tc(4,5,2,3,1) assms(7)] by blast
  qed
  ultimately show ?thesis by blast
qed

theorem quorum_of_timeouts_changes_view_witness:
  "c_round (handle_timeouts demo_env
      (fst (core_start (demo_name 3) four_committee (four_ss 3) (NewStore Map.empty)))
      [four_timeout 1 1, four_timeout 2 1, four_timeout 1 1, four_timeout 3 1]) = 2"
proof -
  let ?c = "fst (core_start (demo_name 3) four_committee (four_ss 3) (NewStore Map.empty))
    :: (Signature option, demo_db) core"
  let ?ts = "[four_timeout 1 1, four_timeout 2 1, four_timeout 1 1, four_timeout 3 1]"
  have c: "c_committee ?c = four_committee" "c_name ?c = demo_name 3" "c_round ?c = 1"
      "c_aggregator ?c = NewAggregator four_committee"
    using four_leader(1) by (simp_all add: core_start_def NewCore_def Let_def)
  have "view_changed demo_env (c_committee ?c) (c_name ?c) 1 (handle_timeouts demo_env ?c ?ts)
    \<and> (getLeader (c_committee ?c) (1 + 1) = Inr (c_name ?c) \<longrightarrow>
        (\<forall>payload. \<exists>b. propose demo_env payload (handle_timeouts demo_env ?c ?ts) = Some b
           \<and> (\<forall>c' :: (Signature option, demo_db) core. c_lastVotedRound c' \<le> 1 \<longrightarrow>
                (\<exists>v. snd (make_vote demo_env c' b) = Inr (Some v)))))"
  proof (rule quorum_of_timeouts_changes_view)
    show "marshals demo_env" using three_network by (simp add: network_ok_def)
    show "unat (QuorumThreshold (c_committee ?c))
        \<le> (\<Sum>k\<in>t_author ` set ?ts. unat (Committee_Stake (c_committee ?c) k))"
      by (simp add: c four_threshold four_stake insert_commute)
  qed (auto simp: c demo_env_bls_ok aggregator_valid_def NewAggregator_def four_timeout_verify)
  then show ?thesis by (simp add: view_changed_def)
qed

subsection \<open>A certificate from another node\<close>

text \<open>
  C29: A timeout certificate alone may waste a round. When the leader of the next round gets a valid
  timeout certificate in a message, and the certificate reports a QC of a higher round than the leader
  has, then the block the leader proposes verifies, but no core votes for it; and the timeouts
  that carry the higher QC are ignored when they arrive.
\<close>

theorem certificate_without_qc_wastes_round:
  assumes "TC_Verify E (c_committee c) tc = None" "c_round c \<le> tc_Round tc" "unat (tc_Round tc) < 2 ^ 64 - 1"
    and "getLeader (c_committee c) (tc_Round tc + 1) = Inr (c_name c)"
    and "a \<in> set (tc_Votes tc)" "qc_Round (c_highQC c) < atr_round a" "atr_round a \<le> tc_Round tc"
    and "bls_sign_ok E (ss_key (c_signatureService c)) (c_name c)"
    and "Committee_Stake (c_committee c) (c_name c) \<noteq> 0"
    and "c_highQC c = GenesisQC \<or> QC_Verify E (c_committee c) (c_highQC c) = None"
  shows "\<exists>c' b. handleTC E c tc = (c', Ret None) \<and> propose E payload c' = Some b
    \<and> blk_Round b = tc_Round tc + 1 \<and> blk_Tc b = Some tc \<and> Block_Verify E (c_committee c) b = None
    \<and> (\<forall>c2. snd (make_vote E c2 b) = Inr None)
    \<and> (\<forall>t. t_round t \<le> tc_Round tc \<longrightarrow> handleTimeout E c' t = (c', Ret None))"
proof -
  define c1 where "c1 = advanceRound c (tc_Round tc)"
  define c' where "c' = generateProposal c1 (Some tc)"
  have live: "\<not> tc_Round tc < c_round c" using assms(2) by (simp add: not_less)
  have c1: "c_round c1 = tc_Round tc + 1" "c_highQC c1 = c_highQC c" "c_committee c1 = c_committee c"
      "c_name c1 = c_name c" "c_signatureService c1 = c_signatureService c"
    using assms(2) by (auto simp: c1_def core_frames advanceRound_round)
  have run: "handleTC E c tc = (c', Ret None)"
    using assms(1,4) live c1 by (simp add: handleTC_def c1_def [symmetric] c'_def Let_def)
  define b where "b = NewBlock E (c_highQC c) (Some tc) (c_name c) (tc_Round tc + 1) payload (c_signatureService c)"
  have b: "propose E payload c' = Some b"
    using c1 by (simp add: propose_def c'_def generateProposal_def b_def)
  have verify: "Block_Verify E (c_committee c) b = None"
    unfolding b_def using assms(1,8-10) by (intro NewBlock_verifies) (auto simp: IsGenesisQC_iff)
  have "qc_Round (c_highQC c) + 1 \<noteq> tc_Round tc + 1" using assms(6,7) by auto
  moreover have "\<not> (\<forall>a\<in>set (tc_Votes tc). atr_round a \<le> qc_Round (c_highQC c))"
    using assms(5,6) by (auto simp: not_le)
  ultimately have "safetyRule2 b \<noteq> Inr True" by (auto simp: safetyRule2_True_iff b_def)
  moreover have "\<exists>ok. safetyRule2 b = Inr ok"
    using TC_Verify_nonempty [OF assms(1)] by (intro safetyRule2_no_panic) (simp add: b_def)
  ultimately have "safetyRule2 b = Inr False" by auto
  then have votes: "snd (make_vote E c2 b) = Inr None" for c2 by (simp add: make_vote_def)
  have "tc_Round tc < tc_Round tc + 1" using assms(3) by (simp add: word_less_nat_alt unat_word_ariths)
  then have "t_round t < c_round c'" if "t_round t \<le> tc_Round tc" for t
    using that c1(1) by (simp add: c'_def generateProposal_def)
  then have "\<forall>t. t_round t \<le> tc_Round tc \<longrightarrow> handleTimeout E c' t = (c', Ret None)"
    using timeout_stale by blast
  then show ?thesis using run b verify votes by (intro exI [of _ c'] exI [of _ b]) (simp add: b_def)
qed

text \<open>Authority 2 reports the certificate of round 1, which the leader of round 3 has not seen.\<close>

definition missed_tc :: TC where
  "missed_tc = \<lparr>tc_Round = 2, tc_Votes = [\<lparr>atr_name = demo_name 1, atr_round = 0\<rparr>,
     \<lparr>atr_name = demo_name 2, atr_round = 1\<rparr>, \<lparr>atr_name = demo_name 3, atr_round = 0\<rparr>],
     tc_Signature = t_signature (four_timeout 1 2)\<rparr>"

theorem certificate_without_qc_wastes_round_witness:
  "\<exists>c' b. handleTC demo_env (fst (core_start (demo_name 4) four_committee (four_ss 4) (NewStore Map.empty)))
      missed_tc = (c', Ret None)
    \<and> propose demo_env [] c' = Some b \<and> Block_Verify demo_env four_committee b = None
    \<and> (\<forall>c2 :: (Signature option, demo_db) core. snd (make_vote demo_env c2 b) = Inr None)"
proof -
  let ?c = "fst (core_start (demo_name 4) four_committee (four_ss 4) (NewStore Map.empty))
    :: (Signature option, demo_db) core"
  have c: "c_committee ?c = four_committee" "c_name ?c = demo_name 4" "c_round ?c = 1"
      "c_highQC ?c = GenesisQC" "c_signatureService ?c = four_ss 4"
    using four_leader(1) by (simp_all add: core_start_def NewCore_def Let_def)
  have "quorum_of four_committee (map demo_name [1, 2, 3])"
    by (rule four_quorum_of) (simp add: four_quorum_def)
  then have "TC_Verify demo_env four_committee missed_tc = None"
    using four_timeout_digest [of 1 2]
    by (simp add: TC_Verify_None_iff) (simp add: missed_tc_def timeout_round_digest_def)
  moreover have "bls_sign_ok demo_env (ss_key (four_ss 4)) (demo_name 4)"
    using demo_sign_ok [of "demo_sk 4"]
    by (simp add: bls_sign_ok_def four_ss_def NewSignatureService_def demo_name_def)
  ultimately have "\<exists>c' b. handleTC demo_env ?c missed_tc = (c', Ret None) \<and> propose demo_env [] c' = Some b
      \<and> blk_Round b = tc_Round missed_tc + 1 \<and> blk_Tc b = Some missed_tc
      \<and> Block_Verify demo_env (c_committee ?c) b = None
      \<and> (\<forall>c2 :: (Signature option, demo_db) core. snd (make_vote demo_env c2 b) = Inr None)
      \<and> (\<forall>t. t_round t \<le> tc_Round missed_tc \<longrightarrow> handleTimeout demo_env c' t = (c', Ret None))"
    by (intro certificate_without_qc_wastes_round
        [where a = "\<lparr>atr_name = demo_name 2, atr_round = 1\<rparr>"])
      (simp_all add: c missed_tc_def four_leader four_stake)
  then show ?thesis unfolding c(1) by blast
qed

end
