(* ===== verification/Spec2Isabelle.thy ===== *)
theory Spec2Isabelle
  imports ComponentProps StoreProps CommitProps NodeProps FullProps ServiceProps ViewChange
begin

text \<open>
  A verification development for hotstuff-2chain, a two-chain HotStuff node written in Go.

  \<^bold>\<open>The program.\<close> A node runs a mempool and a consensus. The mempool (\<open>mempool/\<close>) collects
  transactions of clients into batches, broadcasts each batch, waits until a quorum of the stake has
  acknowledged it, stores it under its hash and reports the hash to consensus. Consensus
  (\<open>consensus/\<close>) orders blocks of such hashes: a proposer makes the block of a round, every core votes
  for it if its safety rules allow, votes are aggregated into quorum certificates and timeouts into
  timeout certificates, and a block is committed when a certified block of the next round extends it.
  Both share one store (\<open>store/\<close>), talk to other nodes through the senders and receivers of \<open>network/\<close>, and
  are put together in \<open>node/\<close>, which prints the transactions of committed blocks. The command line
  (\<open>main.go\<close>, \<open>clitests.go\<close>) makes local configurations and runs nodes on them.

  The components are goroutines connected by channels. Each is modelled by a record for its state
  and a definition for every operation and for every \<open>case\<close> of its \<open>select\<close>: a function that returns
  the new state and what was sent, or a relation where the order of goroutines is open. A Go error
  is a value (\<open>result\<close> of theory Prelude, or \<open>error option\<close>), a panic is the value \<open>Panic\<close> or
  \<open>Crash\<close>, a loop that never ends is \<open>Hang\<close> or \<open>None\<close>.

  \<^bold>\<open>Theories, in the order of the code.\<close>

  \<^item> Prelude: Go's errors, panics and \<open>copy\<close>, big-endian \<open>uint64\<close>, the collection \<open>go_simps\<close>, and
    lemmas on lists and words.
  \<^item> Crypto (\<open>crypto/bls.go\<close>, \<open>digest.go\<close>, \<open>sigservice.go\<close>) and Base64 (\<open>crypto/json.go\<close> and the Base64
    functions of \<open>bls.go\<close>): byte arrays of fixed length as types, signing, verification, aggregation.
  \<^item> Committee (\<open>consensus/config.go\<close>) and MempoolConfig (\<open>mempool/config.go\<close>): stakes, thresholds and
    addresses. The locale \<open>quorum_committee\<close> states what the quorum threshold promises and is
    interpreted by both.
  \<^item> Messages (\<open>consensus/messages.go\<close>): certificates, blocks, votes, timeouts, their digests and
    \<open>Verify\<close> methods. Wire (\<open>consensus/proto.go\<close>, \<open>consensusmessage.go\<close>) and MempoolWire
    (\<open>mempool/message.go\<close>): conversion to and from the protobuf structs, with the locale \<open>codec\<close>.
  \<^item> Aggregator (\<open>consensus/aggregator.go\<close>, locale \<open>collector\<close>) and Leader (\<open>consensus/leader.go\<close>,
    locale \<open>leader_elector\<close>).
  \<^item> Store (\<open>store/store.go\<close>, locale \<open>kv_store\<close>): the command loop over the database, with the
    obligations of \<open>NotifyRead\<close>.
  \<^item> Synchronizer (\<open>consensus/synchronizer.go\<close>) and MempoolDriver (\<open>consensus/mempool.go\<close>): blocks held
    back until their parent or their batches are in the store.
  \<^item> Core (\<open>consensus/core.go\<close>): all handlers of the core; a step is \<open>core_step\<close>, the effects on other
    components are collected in \<open>c_out\<close>.
  \<^item> ConsensusNode (\<open>consensus/consensus.go\<close>, \<open>helper.go\<close>, \<open>proposer.go\<close>): the handler of received
    messages, the helper that answers requests for blocks, the proposer.
  \<^item> Batch (\<open>mempool/batchmaker.go\<close>), Acks and QuorumWaiter (\<open>mempool/quorumwaiter.go\<close>), MempoolSync
    (\<open>mempool/synchronizer.go\<close>), MempoolNode (\<open>mempool/processor.go\<close>, \<open>helper.go\<close>, \<open>mempool.go\<close>): the
    mempool, with \<open>mn_step\<close> for batch maker, quorum waiter and processors running together. Acks is
    the counting of acknowledged stake, which the quorum waiter and the proposer do alike.
  \<^item> Senders (\<open>network/reliablesender.go\<close>) and SimpleNet (\<open>network/simplesender.go\<close>, \<open>receiver.go\<close>):
    both kinds of connection interpret the locale \<open>fifo_link\<close>.
  \<^item> NodeApp (\<open>node/node.go\<close>, \<open>node/config.go\<close>): the construction of a node and \<open>ProcessBlocks\<close>; Printing:
    decimal numbers and the \<open>String\<close> methods.
  \<^item> FullNode: the whole node, every goroutine and channel of it over the one store, as the relation
    \<open>fn_step\<close>; \<open>boot\<close> is the node that \<open>NewNode\<close> returns. FullNet: networks of complete nodes,
    \<open>full_reach\<close>, and the simulation by the network of cores. CoreAvail, NodeAvail: the invariant
    \<open>node_avail\<close>, that the batches of every block a node works on can be read. Clients: runs of the
    complete node with the transactions its clients send, \<open>fn_history\<close>, and the invariant \<open>client_inv\<close>
    that what is printed for a committed block are the transactions of its batches.
  \<^item> Timer (\<open>consensus/timer.go\<close>): \<open>time.Timer\<close> and its wrapper, which refine a deadline that is met once.
    TimedCore: a core whose \<open>TimerFired\<close> comes from its timer; \<open>timed_path\<close> is an infinite run of both.
  \<^item> P2P (\<open>network/p2p.go\<close>, \<open>pubsub.go\<close>): hosts, connecting to a peer, gossip, over libp2p.
  \<^item> Json, ConfigFiles (\<open>node/config.go\<close>): the JSON trees of the configuration, reading and writing files,
    \<open>NewNode_files\<close>. Cli, CliTests (\<open>clitests.go\<close>, \<open>testutil/util.go\<close>, \<open>main.go\<close>): the commands. Boot: a
    generated configuration reads back and starts its nodes.
  \<^item> CoreSteps, CoreRefine, CoreLog, CommitLog: every handler of the core is a sequence of small moves
    (\<open>core_move\<close>, lemmas of CoreRefine), which keep the invariant \<open>core_ok\<close>; what a core has signed
    obeys the rules (\<open>log_ok\<close>) and what it has committed is the head of a two-chain (\<open>commits_ok\<close>).
  \<^item> TwoChain: the abstract protocol. \<open>ballots\<close> is the voting rule without messages, states or
    signatures; the locale \<open>two_chain\<close> proves from it that conflicting blocks are not both committed.
  \<^item> Network: honest cores, anywhere in their loops, and faulty ones that send anything they can sign;
    \<open>net_reach\<close> are the reachable states. Safety interprets \<open>two_chain\<close> on them.
  \<^item> Progress: the loop of the core over a sequence of events, \<open>serve\<close>. What commits and what only
    collects, moves rounds and sends is split by \<open>calm\<close>; \<open>following\<close> is the state after a chain of blocks.
    Rounds: networks of cores in synchronous rounds, \<open>sync_run\<close>, where votes travel as the messages
    that the cores send; \<open>stage\<close> is the invariant between rounds. ViewChange: timeouts and timeout
    certificates, \<open>view_changed\<close>.
  \<^item> Demo, DemoRun, MempoolDemo, FullDemo, DemoFiles: a concrete environment, committee and runs, which the witnesses use.
    Fork: a run of four authorities in which agreement fails.
  \<^item> ComponentProps, StoreProps, CoreProps, CommitProps, MempoolProps, NodeProps, FullProps, ServiceProps,
    Progress, Rounds, ViewChange and this theory: the properties, numbered C1 to C40, each with a witness where it has hypotheses.

  \<^bold>\<open>What the lemmas show.\<close> In this theory: certificates of one round agree (C1); committed blocks lie
  on one chain (C2) as long as no two blocks of the run have the same digest, which faulty leaders
  can bring about, and then agreement fails (C3); the votes of a network refine the abstract protocol
  (C7); votes strictly increase (C8). FullProps carries this over to complete nodes: they refine the
  cores (C4), so under the conditions of C2 what any two of them print lies on one chain (C5); what a
  node commits it can print (C11), and it prints for the batches of its clients just what they sent
  (C10). All of this is for runs in which no batch is a serialized block: a batch can take the place of
  a block in the store (C12). Progress: a live quorum with live leaders commits every block two rounds
  after it is made (C6, Rounds), because a core that receives a certified chain in order does, whatever
  else arrives (C17, Progress), and when a round times out, a quorum of timeouts makes a certificate
  with which the next leader's block is voted for (C18, ViewChange), unless it knows the certificate
  only from a message (C29).
  NodeProps follows proposals to another node (C14), and has both senders and a way to crash a node
  by a message. ServiceProps has the round timer, over infinite runs that are fair to it (C15), and
  the local configuration (C16). MempoolProps has the
  quorum waiter, the recovery of a missing batch, the
  batch format, the equivalence of the two committees and the two faults of batch maker and
  synchronizer. ComponentProps has committee, messages, aggregation, leader election and wire
  format; StoreProps store, block synchronizer and payload waiter; CoreProps and CommitProps the
  handlers of the core, liveness of one round, and what \<open>commit\<close> does. Some of the properties state
  where the code departs from what it means to do; they are proved like the others.

  \<^bold>\<open>Bounds and termination.\<close> Stakes are 32-bit and rounds 64-bit words, so sums wrap where the code's
  do; \<open>stake_fits\<close> (twice the total stake below \<open>2 ^ 32\<close>) is a hypothesis where the wrap matters.
  No definition uses fuel. \<open>commit_loop\<close> may run forever and is a \<open>partial_function\<close> whose value
  \<open>None\<close> is not returning; \<open>deserialize_loop\<close> and the others are total functions.

  \<^bold>\<open>Hypotheses about libraries.\<close> blst, SHA-256, protobuf, pebble and libp2p are arguments of the
  definitions, collected in the records \<open>crypto_lib\<close>, \<open>proto_lib\<close>, \<open>env\<close>, \<open>mp_env\<close>, \<open>peer_ids\<close>, \<open>libp2p\<close>, \<open>gossip\<close> and, for
  the text layer of \<open>encoding/json\<close>, \<open>json_text\<close>.
  \<open>bls_ok\<close> says that a signature made with a key verifies, that aggregating valid signatures gives a
  valid one and that verifying an aggregate means what blst documents, \<open>proto_ok\<close> and
  \<open>mempool_proto_ok\<close> that unmarshalling inverts marshalling, \<open>pebble_ok\<close> that a key reads as it was
  last set, \<open>peer_key_ok\<close> and \<open>peer_id_ok\<close> that libp2p reads the keys and peer IDs it wrote,
  \<open>json_text_ok\<close> that a document is parsed to the tree it was written from. That the hash has no collisions is
  assumed only as injectivity on the finitely many byte strings of a run. That honest signatures are
  not forged is the hypothesis of \<open>qc_known\<close> and of \<open>event_genuine\<close> in the network: where a
  certificate verifies, the honest voters it names did sign.

  \<^bold>\<open>Not modelled.\<close> \<open>client/client.go\<close>, \<open>consensuspb/convert.go\<close> and \<open>consensus/error.go\<close> are empty,
  \<open>consensus/aggregator_test.go\<close> is a test. Of the generated protobuf code the structs are modelled and
  the accessors are not. Logging is left out, and so are the parser of the command line and the mutex
  of the timer, which one goroutine uses. Channels are unbounded in the joint step relations, so a
  send never blocks there; where a channel of finite capacity decides what happens (the simple sender,
  the cancellations of the mempool synchronizer) the component has it. Real time is in TimedCore only;
  elsewhere the expiry of an armed timer is an event that may come at any time.
\<close>

section \<open>Safety of the network\<close>

text \<open>
  C1: No two conflicting quorum certificates. In every reachable state of the network, whatever the
  faulty nodes and the message order, two certificates that verify, and whose honest voters have
  signed, agree on the block hash whenever they are for the same round. The faulty nodes hold at most
  a third of the stake, and the hashed byte strings of the run do not collide.
\<close>

theorem no_conflicting_certificates:
  fixes E :: "('sk, 'p1, 'p2, 'agg, 'db, 'z) env_scheme"
  assumes "net_reach E cm hon B ss y" "env_ok E cm" "3 * faulty_stake cm hon \<le> total_stake cm"
    and "inj_on (NewDigest E) (run_bufs (n_hist y) \<union> {qc_buf qc, qc_buf qc'})"
    and "qc_known E cm hon (hist_pairs E (n_hist y)) qc"
    and "qc_known E cm hon (hist_pairs E (n_hist y)) qc'"
    and "qc_Round qc = qc_Round qc'"
  shows "qc_Hash qc = qc_Hash qc'"
proof (rule same_round_same_hash [OF _ _ assms(5-7)])
  show "inj_on (NewDigest E) (insert (qc_buf qc) (insert (qc_buf qc') (run_bufs (n_hist y))))"
    using assms(4) by (simp add: insert_commute)
  show "safe_run (E, cm, hon, B, ss, y)"
    using assms(1-4) by (auto elim: inj_on_subset)
qed

theorem no_conflicting_certificates_witness:
  "\<exists>y qc. solo_reach {blk1, blk2, blk3} y \<and> qc_Round qc = 3
     \<and> qc_known demo_env solo_committee solo_honest (hist_pairs demo_env (n_hist y)) qc
     \<and> qc_Hash qc = Block_Digest demo_env blk3"
proof -
  obtain y where y: "solo_reach {blk1, blk2, blk3} y" "n_hist y = solo_votes_hist"
    by (rule solo_run)
  have known: "qc_known demo_env solo_committee solo_honest (hist_pairs demo_env (n_hist y)) (solo_qc blk3)"
    using solo_qc_known [of blk3] y(2) by simp
  have "run_bufs (n_hist y) \<union> {qc_buf (solo_qc blk3), qc_buf (solo_qc blk3)} =
      qc_buf ` {GenesisQC, solo_qc blk1, solo_qc blk2, solo_qc blk3}"
    unfolding y(2) solo_bufs(2) by auto
  then have inj: "inj_on (NewDigest demo_env)
      (run_bufs (n_hist y) \<union> {qc_buf (solo_qc blk3), qc_buf (solo_qc blk3)})"
    using solo_inj by simp
  have "qc_Hash (solo_qc blk3) = qc_Hash (solo_qc blk3)"
    by (rule no_conflicting_certificates [OF y(1) solo_env_ok solo_no_faults inj known known refl])
  then show ?thesis using y(1) known by (intro exI [of _ y] exI [of _ "solo_qc blk3"]) simp
qed

text \<open>
  C2: Commit agreement. The blocks that two honest nodes commit, in one run, lie on one chain: of any
  two committed blocks, one is an ancestor of the other along the certificates. As in C1 the faulty
  nodes hold at most a third of the stake and the hashed byte strings do not collide. Beyond that, no
  two blocks of the run may have the same digest. This restricts the blocks that faulty leaders make,
  since \<open>Block.Digest\<close> leaves out the certificate a block extends; C3 shows that it is needed.
\<close>

theorem committed_blocks_on_one_chain:
  fixes E :: "('sk, 'p1, 'p2, 'agg, 'db, 'z) env_scheme"
  assumes "net_reach E cm hon B ss y" "env_ok E cm" "3 * faulty_stake cm hon \<le> total_stake cm"
    and "inj_on (NewDigest E) (run_bufs (n_hist y) \<union> (\<Union>b\<in>B. block_bufs b))"
    and "inj_on (Block_Digest E) (insert GenesisBlock B)"
    and "hon j" "ECommit x \<in> set (c_out (n_core y j))"
    and "hon k" "ECommit z \<in> set (c_out (n_core y k))"
  shows "lineage E (block_known E cm hon B (hist_pairs E (n_hist y))) x z
    \<or> lineage E (block_known E cm hon B (hist_pairs E (n_hist y))) z x"
proof (rule committed_comparable [OF _ assms(4,5,6,8,7,9)])
  show "safe_run (E, cm, hon, B, ss, y)" using assms(1-4) by (auto elim: inj_on_subset)
qed

theorem committed_blocks_on_one_chain_witness:
  "\<exists>y. solo_reach {blk1, blk2, blk3} y \<and> ECommit blk1 \<in> set (c_out (n_core y (demo_name 1)))
     \<and> lineage demo_env (block_known demo_env solo_committee solo_honest {blk1, blk2, blk3}
          (hist_pairs demo_env (n_hist y))) blk1 blk1"
proof -
  obtain y where y: "solo_reach {blk1, blk2, blk3} y" "n_hist y = solo_votes_hist"
      "ECommit blk1 \<in> set (c_out (n_core y (demo_name 1)))"
    by (rule solo_run)
  have inj: "inj_on (NewDigest demo_env) (run_bufs (n_hist y) \<union> (\<Union>b\<in>{blk1, blk2, blk3}. block_bufs b))"
    unfolding y(2) solo_bufs(1) by (rule solo_inj)
  have hon: "solo_honest (demo_name 1)" by (simp add: solo_honest_def)
  have "lineage demo_env (block_known demo_env solo_committee solo_honest {blk1, blk2, blk3}
          (hist_pairs demo_env (n_hist y))) blk1 blk1"
    using committed_blocks_on_one_chain [OF y(1) solo_env_ok solo_no_faults inj solo_blocks_inj
        hon y(3) hon y(3)] by blast
  then show ?thesis using y by blast
qed

text \<open>
  C3: The hypothesis of C2 on the blocks is needed, and the code does not ensure it. In a run of four
  authorities with one faulty, in which no two hashed byte strings collide, two honest nodes commit
  conflicting blocks: the faulty leader of round 2 makes two blocks with the same author, round and
  payload, one extending the certificate of round 1 and one extending the genesis block with a
  timeout certificate. \<open>Block.Digest\<close> gives them the same digest, so the votes for both make one
  certificate.
\<close>

theorem equal_digests_break_agreement:
  "\<exists>y. net_reach demo_env four_committee four_honest fork_blocks four_keys y
     \<and> env_ok demo_env four_committee
     \<and> 3 * faulty_stake four_committee four_honest \<le> total_stake four_committee
     \<and> inj_on (NewDigest demo_env) (run_bufs (n_hist y) \<union> (\<Union>b\<in>fork_blocks. block_bufs b))
     \<and> inj_on (NewDigest demo_env) (Block_buf ` insert GenesisBlock fork_blocks)
     \<and> four_honest (demo_name 4) \<and> ECommit fk1 \<in> set (c_out (n_core y (demo_name 4)))
     \<and> four_honest (demo_name 1) \<and> ECommit fk2' \<in> set (c_out (n_core y (demo_name 1)))
     \<and> \<not> lineage demo_env (block_known demo_env four_committee four_honest fork_blocks
           (hist_pairs demo_env (n_hist y))) fk1 fk2'
     \<and> \<not> lineage demo_env (block_known demo_env four_committee four_honest fork_blocks
           (hist_pairs demo_env (n_hist y))) fk2' fk1"
proof -
  obtain y where y: "four_reach y" "n_hist y = fork_hist"
      "ECommit fk1 \<in> set (c_out (n_core y (demo_name 4)))"
      "ECommit fk2' \<in> set (c_out (n_core y (demo_name 1)))"
    using fork_run by blast
  have inj: "inj_on (NewDigest demo_env) (run_bufs (n_hist y) \<union> (\<Union>b\<in>fork_blocks. block_bufs b))"
    unfolding y(2) by (rule fork_inj)
  show ?thesis
    by (intro exI [of _ y] conjI y(1,3,4) inj four_env_ok four_one_faulty fork_block_inj fork_no_lineage)
      simp_all
qed

text \<open>
  C7: The network refines the abstract two-chain protocol. In every reachable state, the votes and
  timeouts that honest nodes have signed, in the order in which they were signed, are a history of
  \<open>ballots\<close>: each was allowed by the rules of the protocol when it was cast. Detailed handlers, message
  order, faulty nodes, aggregation and stores all map to single ballots or to nothing.
\<close>

theorem network_refines_two_chain:
  fixes E :: "('sk, 'p1, 'p2, 'agg, 'db, 'z) env_scheme"
  assumes "net_reach E cm hon B ss y" "env_ok E cm" "3 * faulty_stake cm hon \<le> total_stake cm"
    and "inj_on (NewDigest E) (run_bufs (n_hist y))"
  shows "ballots hon (is_quorum cm) (Block_Digest E) block_rnd block_qc (abs_hist (n_hist y))"
proof -
  have run: "safe_run (E, cm, hon, B, ss, y)" using assms by simp
  have "run_hist (E, cm, hon, B, ss, y) = abs_hist (n_hist y) @ []" by simp
  from net.prefix_ballots [OF run this] show ?thesis
    by (simp add: run_honest.simps [abs_def] eta_contract_eq)
qed

theorem network_refines_two_chain_witness:
  "ballots solo_honest (is_quorum solo_committee) (Block_Digest demo_env) block_rnd block_qc
     [(demo_name 1, Vote blk1), (demo_name 1, Vote blk2), (demo_name 1, Vote blk3)]"
proof -
  obtain y where y: "solo_reach {blk1, blk2, blk3} y" "n_hist y = solo_votes_hist" by (rule solo_run)
  have inj: "inj_on (NewDigest demo_env) (run_bufs (n_hist y))"
    unfolding y(2) solo_bufs(2) by (rule solo_inj)
  have "ballots solo_honest (is_quorum solo_committee) (Block_Digest demo_env) block_rnd block_qc
      (abs_hist (n_hist y))"
    by (rule network_refines_two_chain [OF y(1) solo_env_ok solo_no_faults inj])
  then show ?thesis by (simp add: y(2) solo_votes_hist_def abs_hist_def)
qed

text \<open>
  C8: An honest node signs votes for strictly increasing rounds, and never votes in a round at or
  below one it has timed out in: every vote and timeout it signed before a vote is for an earlier
  round than that vote.
\<close>

theorem votes_strictly_increase:
  assumes "net_reach E cm hon B ss y" "env_ok E cm" "hon k"
    and "signed_of (c_out (n_core y k)) = xs @ SVote b v # ys" "s \<in> set xs"
  shows "signed_round s < blk_Round b"
proof -
  have "log_ok E (n_core y k)"
    using net_reach_inv [OF assms(1,2)] assms(3) by (simp add: net_inv_def node_inv_def)
  then show ?thesis
    using assms(5) at_eachD [OF _ assms(4)] unfolding log_ok_def by fastforce
qed

theorem votes_strictly_increase_witness:
  "signed_round (SVote blk1 (solo_vote blk1)) < blk_Round blk2"
proof -
  obtain c y where c: "signed_of (c_out c) = [SVote blk1 (solo_vote blk1), SVote blk2 (solo_vote blk2),
      SVote blk3 (solo_vote blk3)]" "solo_reach {blk1, blk2, blk3} y" "n_core y (demo_name 1) = c"
    using solo_run3 by blast
  show ?thesis
    by (rule votes_strictly_increase [OF c(2) solo_env_ok, of "demo_name 1" "[SVote blk1 (solo_vote blk1)]"])
      (use c in \<open>simp_all add: solo_honest_def\<close>)
qed

end
